(* ===== verification/KPrelude.thy ===== *)
theory KPrelude
  imports Main "HOL-Library.Word"
begin

text \<open>
  Shared vocabulary of the kappaio development.  The code is C++ compiled for a little-endian
  target (\<^verbatim>\<open>-D__LITTLE_ENDIAN__\<close> in every CMakeLists.txt), so a \<^verbatim>\<open>memcpy\<close> of an integer is
  the little-endian codec \<open>le_bytes\<close>/\<open>le_word\<close> below.  C arrays are byte lists of a fixed
  length; an access outside such a list, a call through a dangling pointer and the like are
  values of the type \<open>ub\<close>, so that undefined behaviour of the source is a branch of the model.
\<close>

unbundle bit_operations_syntax

section \<open>Types\<close>

type_synonym byte = "8 word"
type_synonym u16 = "16 word"
type_synonym u32 = "32 word"
type_synonym u64 = "64 word"

text \<open>The ways in which the modelled code can leave the defined behaviour of C++.\<close>

datatype ub = OobRead | OobWrite | NullDeref | Dangling | UninitRead

section \<open>Sequencing of faulting computations\<close>

definition bindE :: "'e + 'a \<Rightarrow> ('a \<Rightarrow> 'e + 'b) \<Rightarrow> 'e + 'b" where
  "bindE m f = (case m of Inl e \<Rightarrow> Inl e | Inr x \<Rightarrow> f x)"

named_theorems returns_iff

lemma bindE_simps [simp]:
  "bindE (Inl e) f = Inl e"
  "bindE (Inr x) f = f x"
  by (simp_all add: bindE_def)

lemma bindE_Inr_iff [returns_iff]: "bindE m f = Inr y \<longleftrightarrow> (\<exists>x. m = Inr x \<and> f x = Inr y)"
  by (cases m) auto

lemma bindE_Inl_iff: "bindE m f = Inl e \<longleftrightarrow> m = Inl e \<or> (\<exists>x. m = Inr x \<and> f x = Inl e)"
  by (cases m) auto

section \<open>Checked arrays\<close>

definition rd :: "'a list \<Rightarrow> nat \<Rightarrow> ub + 'a" where
  "rd xs i = (if i < length xs then Inr (xs ! i) else Inl OobRead)"

definition wr :: "'a list \<Rightarrow> nat \<Rightarrow> 'a \<Rightarrow> ub + 'a list" where
  "wr xs i x = (if i < length xs then Inr (xs[i := x]) else Inl OobWrite)"

text \<open>\<open>blit xs i ys\<close> overwrites \<open>xs\<close> from index \<open>i\<close> on with \<open>ys\<close>; \<open>memcpy_to\<close> is the
  checked form, for a \<^verbatim>\<open>memcpy\<close> whose source is known to be readable.\<close>

definition blit :: "'a list \<Rightarrow> nat \<Rightarrow> 'a list \<Rightarrow> 'a list" where
  "blit xs i ys = take i xs @ ys @ drop (i + length ys) xs"

definition memcpy_to :: "'a list \<Rightarrow> nat \<Rightarrow> 'a list \<Rightarrow> ub + 'a list" where
  "memcpy_to xs i ys = (if i + length ys \<le> length xs then Inr (blit xs i ys) else Inl OobWrite)"

definition slice :: "nat \<Rightarrow> nat \<Rightarrow> 'a list \<Rightarrow> 'a list" where
  "slice i n xs = take n (drop i xs)"

lemma rd_ok [simp]: "i < length xs \<Longrightarrow> rd xs i = Inr (xs ! i)"
  by (simp add: rd_def)

lemma rd_oob [simp]: "length xs \<le> i \<Longrightarrow> rd xs i = Inl OobRead"
  by (simp add: rd_def)

lemma wr_ok [simp]: "i < length xs \<Longrightarrow> wr xs i x = Inr (xs[i := x])"
  by (simp add: wr_def)

lemma wr_oob [simp]: "length xs \<le> i \<Longrightarrow> wr xs i x = Inl OobWrite"
  by (simp add: wr_def)

lemma rd_Inr_iff [returns_iff]: "rd xs i = Inr x \<longleftrightarrow> i < length xs \<and> xs ! i = x"
  by (auto simp: rd_def)

lemma wr_Inr_iff [returns_iff]: "wr xs i x = Inr ys \<longleftrightarrow> i < length xs \<and> ys = xs[i := x]"
  by (auto simp: wr_def)

lemma length_blit [simp]: "i + length ys \<le> length xs \<Longrightarrow> length (blit xs i ys) = length xs"
  by (simp add: blit_def)

lemma nth_blit:
  "i + length ys \<le> length xs \<Longrightarrow> k < length xs \<Longrightarrow>
   blit xs i ys ! k = (if i \<le> k \<and> k < i + length ys then ys ! (k - i) else xs ! k)"
  by (auto simp: blit_def nth_append min_def)

lemma slice_blit_same [simp]:
  "i + length ys \<le> length xs \<Longrightarrow> n = length ys \<Longrightarrow> slice i n (blit xs i ys) = ys"
  by (simp add: slice_def blit_def)

lemma slice_blit_other:
  "i + length ys \<le> length xs \<Longrightarrow> j + n \<le> length xs \<Longrightarrow> j + n \<le> i \<or> i + length ys \<le> j \<Longrightarrow>
   slice j n (blit xs i ys) = slice j n xs"
  by (rule nth_equalityI) (auto simp: slice_def nth_blit)

lemma blit_blit_adjacent:
  assumes "i + length as + length bs \<le> length xs" and "length zs \<le> length bs"
  shows "blit (blit xs i (as @ zs)) (i + length as) bs = blit xs i (as @ bs)"
  using assms by (auto intro!: nth_equalityI simp: nth_blit nth_append)

lemma list_update_numeral [simp]: "(x # xs)[numeral n := y] = x # xs[pred_numeral n := y]"
  by (simp add: numeral_eq_Suc)

lemma replicate_2: "replicate 2 x = [x, x]"
  by (simp add: numeral_2_eq_2)

lemma blit_Cons:
  "i + Suc (length bs) \<le> length xs \<Longrightarrow> blit (xs[i := b]) (Suc i) bs = blit xs i (b # bs)"
  by (rule nth_equalityI) (auto simp: nth_blit nth_Cons' nth_list_update not_less_eq_eq)

lemma blit_Nil [simp]: "i \<le> length xs \<Longrightarrow> blit xs i [] = xs"
  by (simp add: blit_def)

lemma blit_whole: "length ys = length xs \<Longrightarrow> blit xs 0 ys = ys"
  by (simp add: blit_def)

lemma memcpy_to_ok [simp]: "i + length ys \<le> length xs \<Longrightarrow> memcpy_to xs i ys = Inr (blit xs i ys)"
  by (simp add: memcpy_to_def)

lemma memcpy_to_oob [simp]: "length xs < i + length ys \<Longrightarrow> memcpy_to xs i ys = Inl OobWrite"
  by (simp add: memcpy_to_def)

lemma length_slice [simp]: "i + n \<le> length xs \<Longrightarrow> length (slice i n xs) = n"
  by (simp add: slice_def)

lemma nth_slice [simp]: "i + n \<le> length xs \<Longrightarrow> k < n \<Longrightarrow> slice i n xs ! k = xs ! (i + k)"
  by (simp add: slice_def)

lemma unat_byte: "unat (b :: byte) < 256"
proof -
  have "unat b < 2 ^ LENGTH(8)" by (rule unsigned_less)
  then show ?thesis by simp
qed

section \<open>The little-endian codec\<close>

definition le_bytes :: "nat \<Rightarrow> 'a::len word \<Rightarrow> byte list" where
  "le_bytes n w = map (\<lambda>i. ucast (drop_bit (8 * i) w)) [0..<n]"

fun le_word :: "byte list \<Rightarrow> 'a::len word" where
  "le_word [] = 0"
| "le_word (b # bs) = ucast b OR push_bit 8 (le_word bs)"

lemma length_le_bytes [simp]: "length (le_bytes n w) = n"
  by (simp add: le_bytes_def)

lemma nth_le_bytes [simp]: "i < n \<Longrightarrow> le_bytes n w ! i = ucast (drop_bit (8 * i) w)"
  by (simp add: le_bytes_def)

lemma bit_le_word:
  "bit (le_word bs :: 'a::len word) i \<longleftrightarrow>
     i < LENGTH('a) \<and> i div 8 < length bs \<and> bit (bs ! (i div 8)) (i mod 8)"
proof (induction bs arbitrary: i)
  case Nil
  show ?case by simp
next
  case (Cons b bs)
  show ?case
  proof (cases "i < 8")
    case True
    then show ?thesis
      by (auto simp: bit_or_iff bit_push_bit_iff bit_ucast_iff dest: bit_imp_le_length)
  next
    case False
    then have "i div 8 = Suc ((i - 8) div 8)" and "i mod 8 = (i - 8) mod 8"
      by (simp_all add: div_if mod_if)
    moreover from False have "\<not> bit b i"
      by (auto dest: bit_imp_le_length)
    ultimately show ?thesis
      using False by (auto simp: bit_or_iff bit_push_bit_iff bit_ucast_iff Cons.IH)
  qed
qed

lemma le_word_le_bytes [simp]:
  assumes "LENGTH('a) \<le> 8 * n"
  shows "le_word (le_bytes n w) = (w :: 'a::len word)"
proof (rule bit_word_eqI)
  fix i assume i: "i < LENGTH('a)"
  with assms have "i div 8 < n" by linarith
  moreover have "i mod 8 < 8" by simp
  ultimately show "bit (le_word (le_bytes n w) :: 'a word) i = bit w i"
    using i by (simp add: bit_le_word bit_ucast_iff bit_drop_bit_eq)
qed

lemma le_bytes_le_word:
  assumes "length bs = n" and "8 * n \<le> LENGTH('a::len)"
  shows "le_bytes n (le_word bs :: 'a word) = bs"
proof (rule nth_equalityI)
  show "length (le_bytes n (le_word bs :: 'a word)) = length bs"
    using assms by simp
next
  fix i assume "i < length (le_bytes n (le_word bs :: 'a word))"
  then have i: "i < n" by simp
  show "le_bytes n (le_word bs :: 'a word) ! i = bs ! i"
  proof (rule bit_word_eqI)
    fix j assume j: "j < LENGTH(8)"
    then have "(8 * i + j) div 8 = i" and "(8 * i + j) mod 8 = j" by simp_all
    with i j assms show "bit (le_bytes n (le_word bs :: 'a word) ! i) j = bit (bs ! i) j"
      by (simp add: bit_ucast_iff bit_drop_bit_eq bit_le_word)
  qed
qed

lemma le_bytes_1 [simp]: "le_bytes (Suc 0) w = [ucast w]"
  by (simp add: le_bytes_def)

lemma le_bytes_2: "le_bytes 2 w = [ucast w, ucast (drop_bit 8 w)]"
  by (simp add: le_bytes_def numeral_2_eq_2)

lemma le_word_single [simp]: "le_word [b] = (ucast b :: 'a::len word)"
  by simp

section \<open>Sums of weights over a list of threads\<close>

definition total :: "('a \<Rightarrow> nat) \<Rightarrow> 'a list \<Rightarrow> nat" where
  "total w xs = sum_list (map w xs)"

lemma total_simps [simp]: "total w [] = 0" "total w (x # xs) = w x + total w xs"
  by (simp_all add: total_def)

lemma total_update:
  "i < length xs \<Longrightarrow> total w (xs[i := y]) + w (xs ! i) = total w xs + w y"
  by (induction xs arbitrary: i) (auto split: nat.splits)

lemma total_ge: "i < length xs \<Longrightarrow> w (xs ! i) \<le> total w xs"
  by (induction xs arbitrary: i) (auto simp: nth_Cons le_Suc_ex trans_le_add2 split: nat.splits)

lemma total_ge2:
  "i < length xs \<Longrightarrow> j < length xs \<Longrightarrow> i \<noteq> j \<Longrightarrow> w (xs ! i) + w (xs ! j) \<le> total w xs"
proof (induction xs arbitrary: i j)
  case Nil
  then show ?case by simp
next
  case (Cons x xs)
  show ?case
  proof (cases i)
    case 0
    with Cons.prems obtain j' where "j = Suc j'" by (cases j) auto
    with 0 Cons.prems show ?thesis by (simp add: total_ge)
  next
    case (Suc i')
    show ?thesis
    proof (cases j)
      case 0
      with Suc Cons.prems show ?thesis by (simp add: total_ge add.commute)
    next
      case (Suc j')
      with \<open>i = Suc i'\<close> Cons.prems have "w (xs ! i') + w (xs ! j') \<le> total w xs"
        by (intro Cons.IH) auto
      with Suc \<open>i = Suc i'\<close> show ?thesis by simp
    qed
  qed
qed

lemma total_pos: "0 < total w xs \<Longrightarrow> \<exists>i < length xs. 0 < w (xs ! i)"
proof -
  assume "0 < total w xs"
  then have "\<exists>x \<in> set xs. 0 < w x"
    by (induction xs) auto
  then show ?thesis by (auto simp: in_set_conv_nth)
qed

lemma total_replicate [simp]: "total w (replicate n x) = n * w x"
  by (induction n) auto

section \<open>Reachable states of a step relation\<close>

inductive reach :: "('s \<Rightarrow> bool) \<Rightarrow> ('s \<Rightarrow> 's \<Rightarrow> bool) \<Rightarrow> 's \<Rightarrow> bool"
  for start step where
  reach_start: "start s \<Longrightarrow> reach start step s"
| reach_step: "reach start step s \<Longrightarrow> step s t \<Longrightarrow> reach start step t"

text \<open>The contract between a concurrent component and the clients of its invariant.\<close>

locale invariant_system =
  fixes start :: "'s \<Rightarrow> bool" and step :: "'s \<Rightarrow> 's \<Rightarrow> bool" and inv :: "'s \<Rightarrow> bool"
  assumes inv_start: "start s \<Longrightarrow> inv s"
    and inv_step: "inv s \<Longrightarrow> step s t \<Longrightarrow> inv t"
begin

lemma inv_reach: "reach start step s \<Longrightarrow> inv s"
  by (induction rule: reach.induct) (auto intro: inv_start inv_step)

end

end
