(* ===== verification/KUtil.thy ===== *)
theory KUtil
  imports KPrelude
begin

text \<open>
  The conversion routines of \<^verbatim>\<open>kapi/include/kutil.h\<close> and \<^verbatim>\<open>kapi/source/kutil.cpp\<close>: hexadecimal
  text to bytes and back, integers to and from their little-endian memory image, and the length
  computations of the base64 helpers.  Text is a list of bytes; a C string in memory ends in 0.
\<close>

section \<open>Characters and hexadecimal digits\<close>

definition kCharToInt :: "byte \<Rightarrow> byte" where
  "kCharToInt c =
     (if 0x30 \<le> c \<and> c \<le> 0x39 then c - 0x30
      else if 0x41 \<le> c \<and> c \<le> 0x46 then c - 55
      else if 0x61 \<le> c \<and> c \<le> 0x66 then c - 87
      else 16)"

text \<open>\<open>hex2\<close> is what \<^verbatim>\<open>sprintf(p, "%02x", b)\<close> prints, without the final 0.\<close>

definition hexdigit :: "byte \<Rightarrow> byte" where
  "hexdigit n = (if n < 10 then n + 0x30 else n + 87)"

definition hex2 :: "byte \<Rightarrow> byte list" where
  "hex2 b = [hexdigit (drop_bit 4 b), hexdigit (b AND 15)]"

definition hexs :: "byte list \<Rightarrow> byte list" where
  "hexs bs = concat (map hex2 bs)"

lemma hexs_simps [simp]: "hexs [] = []" "hexs (b # bs) = hex2 b @ hexs bs"
  by (simp_all add: hexs_def)

lemma hexs_append [simp]: "hexs (as @ bs) = hexs as @ hexs bs"
  by (simp add: hexs_def)

lemma length_hex2 [simp]: "length (hex2 b) = 2"
  by (simp add: hex2_def)

lemma length_hexs [simp]: "length (hexs bs) = 2 * length bs"
  by (induction bs) auto

lemma nibble_bounds: "drop_bit 4 (b :: byte) < 16" "b AND 15 < (16 :: byte)"
proof -
  have "drop_bit 4 b = b div 16" by (simp add: drop_bit_eq_div)
  moreover have "unat b < 2 ^ LENGTH(8)" by (rule unsigned_less)
  ultimately show "drop_bit 4 b < 16"
    by (simp add: word_less_nat_alt unat_div)
  show "b AND 15 < 16"
    using word_and_le1 [of b 15] by (simp add: order_le_less_trans)
qed

lemma nibbles_join [simp]: "(b AND 15) OR push_bit 4 (drop_bit 4 b) = (b :: byte)"
  "push_bit 4 (drop_bit 4 b) OR (b AND 15) = (b :: byte)"
proof -
  have "bit (b AND 15 OR push_bit 4 (drop_bit 4 b)) i = bit b i" if "i < 8" for i
  proof -
    have "bit (15 :: byte) i = (i < 4)"
      using bit_mask_iff [of 4 i, where 'a = byte] that by (simp add: mask_eq_decr_exp)
    then show ?thesis
      using that by (auto simp: bit_or_iff bit_and_iff bit_push_bit_iff bit_drop_bit_eq)
  qed
  then show "(b AND 15) OR push_bit 4 (drop_bit 4 b) = b"
    by (intro bit_word_eqI) simp
  then show "push_bit 4 (drop_bit 4 b) OR (b AND 15) = b"
    by (simp add: or.commute)
qed

lemma nibble_in: "n < (16 :: byte) \<Longrightarrow> n \<in> {0,1,2,3,4,5,6,7,8,9,10,11,12,13,14,15}"
proof -
  assume "n < 16"
  then have "unat n \<in> set [0..<16]" by (simp add: word_less_nat_alt)
  then have "(word_of_nat (unat n) :: byte) \<in> word_of_nat ` set [0..<16]" by (rule imageI)
  moreover have "(word_of_nat (unat n) :: byte) = n" by simp
  ultimately have "n \<in> word_of_nat ` set [0..<16]" by simp
  then show ?thesis by (simp add: upt_rec del: set_upt)
qed

lemma kCharToInt_hexdigit_all:
  "\<forall>n \<in> {0,1,2,3,4,5,6,7,8,9,10,11,12,13,14,15 :: byte}. kCharToInt (hexdigit n) = n \<and> n \<noteq> 16"
  by (simp add: kCharToInt_def hexdigit_def)

lemma kCharToInt_hexdigit [simp]: "n < 16 \<Longrightarrow> kCharToInt (hexdigit n) = n"
  by (drule nibble_in) (erule kCharToInt_hexdigit_all [THEN bspec, THEN conjunct1])

lemma hexdigit_neq_0: "n < 16 \<Longrightarrow> hexdigit n \<noteq> 0"
proof
  assume n: "n < 16" and h: "hexdigit n = 0"
  have "kCharToInt 0 = 16" by (simp add: kCharToInt_def)
  moreover have "kCharToInt 0 = n" using kCharToInt_hexdigit [OF n] unfolding h .
  ultimately show False using n by simp
qed

lemma hex2_no_nul: "0 \<notin> set (hex2 b)"
  using hexdigit_neq_0 [OF nibble_bounds(1) [of b]] hexdigit_neq_0 [OF nibble_bounds(2) [of b]]
  by (simp add: hex2_def)

lemma hexs_no_nul: "0 \<notin> set (hexs bs)"
  by (induction bs) (simp_all add: hex2_no_nul)

text \<open>\<^verbatim>\<open>std::string(const char*)\<close>: the characters before the first 0.\<close>

definition c_str :: "byte list \<Rightarrow> byte list" where
  "c_str buf = takeWhile (\<lambda>c. c \<noteq> 0) buf"

lemma c_str_hexs [simp]: "c_str (hexs bs @ 0 # rest) = hexs bs"
  unfolding c_str_def using hexs_no_nul [of bs] by (subst takeWhile_append2) auto

section \<open>Bytes to hexadecimal text\<close>

text \<open>\<^verbatim>\<open>sprintf\<close> writes the two digits and a terminating 0 at \<open>pos\<close>.\<close>

definition sprintf_02x :: "byte list \<Rightarrow> nat \<Rightarrow> byte \<Rightarrow> ub + byte list" where
  "sprintf_02x buf pos b = memcpy_to buf pos (hex2 b @ [0])"

text \<open>The loop shared by the three printers: \<open>is\<close> are the source indices in loop order.\<close>

fun hex_loop :: "byte list \<Rightarrow> nat \<Rightarrow> byte list \<Rightarrow> nat list \<Rightarrow> ub + byte list" where
  "hex_loop buf pos mem [] = Inr buf"
| "hex_loop buf pos mem (i # is) =
     bindE (rd mem i) (\<lambda>b. bindE (sprintf_02x buf pos b) (\<lambda>buf'. hex_loop buf' (pos + 2) mem is))"

definition kPrintMem :: "byte list \<Rightarrow> byte list \<Rightarrow> nat \<Rightarrow> ub + (nat \<times> byte list)" where
  "kPrintMem buffer mem memLen =
     bindE (hex_loop buffer 0 mem [0..<memLen]) (\<lambda>buf. Inr (2 * memLen, buf))"

definition kByteToHexString :: "byte list \<Rightarrow> byte list \<Rightarrow> nat \<Rightarrow> ub + (nat \<times> byte list)" where
  "kByteToHexString outputString bytes byteLength =
     bindE (hex_loop outputString 0 bytes [0..<byteLength]) (\<lambda>buf. Inr (2 * byteLength, buf))"

definition kIntToStr :: "byte list \<Rightarrow> byte list \<Rightarrow> nat \<Rightarrow> ub + byte list" where
  "kIntToStr destination source sz = hex_loop destination 0 source (rev [0..<sz])"

text \<open>
  \<^verbatim>\<open>IntToHexStr<T>\<close>.  The buffer \<^verbatim>\<open>char temp[sizeof(T) << 1 + 1]\<close> has \<^verbatim>\<open>sizeof(T) << 2\<close> bytes,
  because \<^verbatim>\<open>+\<close> binds tighter than \<^verbatim>\<open><<\<close>; \<open>junk\<close> are its indeterminate initial contents.
\<close>

definition sizeof :: "'a::len word itself \<Rightarrow> nat" where
  "sizeof (_ :: 'a word itself) = LENGTH('a) div 8"

definition IntToHexStr_in :: "byte list \<Rightarrow> 'a::len word \<Rightarrow> ub + byte list" where
  "IntToHexStr_in junk t =
     (let n = sizeof TYPE('a word)
      in bindE (kIntToStr (take (push_bit (1 + 1) n) junk) (le_bytes n t) n) (\<lambda>temp. Inr (c_str temp)))"

definition IntToHexStr :: "'a::len word \<Rightarrow> byte list" where
  "IntToHexStr t = hexs (rev (le_bytes (sizeof TYPE('a word)) t))"

section \<open>Hexadecimal text to bytes\<close>

text \<open>
  The loop of \<^verbatim>\<open>kStrToInt\<close> on a little-endian host: \<open>n\<close> source byte pairs are left, the next
  one read backwards from \<open>source[2n-1]\<close>; the result byte goes to \<open>destination[pos]\<close>.
  The boolean is false when an invalid digit broke the loop; the low nibble may then already
  be stored.
\<close>

fun kStrToInt_loop :: "byte list \<Rightarrow> nat \<Rightarrow> nat \<Rightarrow> byte list \<Rightarrow> ub + (bool \<times> byte list)" where
  "kStrToInt_loop src 0 pos dst = Inr (True, dst)"
| "kStrToInt_loop src (Suc n) pos dst =
     bindE (rd src (2 * n + 1)) (\<lambda>c1.
       if kCharToInt c1 > 0x0f then Inr (False, dst)
       else bindE (wr dst pos (kCharToInt c1)) (\<lambda>dst1.
         bindE (rd src (2 * n)) (\<lambda>c2.
           if kCharToInt c2 > 0x0f then Inr (False, dst1)
           else bindE (wr dst1 pos (dst1 ! pos OR push_bit 4 (kCharToInt c2)))
                  (\<lambda>dst2. kStrToInt_loop src n (Suc pos) dst2))))"

definition kStrToInt :: "byte list \<Rightarrow> byte list \<Rightarrow> nat \<Rightarrow> ub + (int \<times> byte list)" where
  "kStrToInt destination source destination_size =
     bindE (kStrToInt_loop source destination_size 0 destination)
       (\<lambda>(ok, dst). Inr (if ok then int (2 * destination_size) else -1, dst))"

text \<open>
  \<^verbatim>\<open>hexStrToByteVec\<close>: the loop runs \<^verbatim>\<open>str.size()\<close> times and consumes two characters each
  time (read left to right here).  \<^verbatim>\<open>std::string\<close> guarantees one readable 0 after the text.
\<close>

fun hexStrToByteVec_loop :: "byte list \<Rightarrow> nat \<Rightarrow> nat \<Rightarrow> byte list \<Rightarrow> ub + byte list" where
  "hexStrToByteVec_loop mem 0 psrc v = Inr v"
| "hexStrToByteVec_loop mem (Suc asrclen) psrc v =
     bindE (rd mem psrc) (\<lambda>a. bindE (rd mem (psrc + 1)) (\<lambda>b.
       hexStrToByteVec_loop mem asrclen (psrc + 2) (v @ [push_bit 4 (kCharToInt a) OR kCharToInt b])))"

definition hexStrToByteVec :: "byte list \<Rightarrow> ub + byte list" where
  "hexStrToByteVec str =
     (if odd (length str) then Inr [] else hexStrToByteVec_loop (str @ [0]) (length str) 0 [])"

text \<open>\<^verbatim>\<open>kHexStringToByte\<close> has the same loop over a caller's output array.\<close>

fun kHexStringToByte_loop :: "byte list \<Rightarrow> nat \<Rightarrow> nat \<Rightarrow> nat \<Rightarrow> byte list \<Rightarrow> ub + byte list" where
  "kHexStringToByte_loop hexm 0 psrc pdst out = Inr out"
| "kHexStringToByte_loop hexm (Suc asrclen) psrc pdst out =
     bindE (rd hexm psrc) (\<lambda>a. bindE (wr out pdst (push_bit 4 (kCharToInt a))) (\<lambda>out1.
     bindE (rd hexm (psrc + 1)) (\<lambda>b. bindE (wr out1 pdst (out1 ! pdst OR kCharToInt b)) (\<lambda>out2.
       kHexStringToByte_loop hexm asrclen (psrc + 2) (Suc pdst) out2))))"

definition kHexStringToByte :: "byte list \<Rightarrow> byte list \<Rightarrow> nat \<Rightarrow> ub + (nat \<times> byte list)" where
  "kHexStringToByte outputByte hexString stringLength =
     bindE (kHexStringToByte_loop hexString stringLength 0 0 outputByte)
       (\<lambda>out. Inr (drop_bit 1 stringLength, out))"

section \<open>Integers and memory\<close>

text \<open>\<^verbatim>\<open>memcpy(dst + d, src + s, n)\<close> between two arrays.\<close>

definition memcpy2 :: "byte list \<Rightarrow> nat \<Rightarrow> byte list \<Rightarrow> nat \<Rightarrow> nat \<Rightarrow> ub + byte list" where
  "memcpy2 dst d src s n =
     (if s + n \<le> length src then memcpy_to dst d (slice s n src) else Inl OobRead)"

definition kMemToInt :: "byte list \<Rightarrow> byte list \<Rightarrow> nat \<Rightarrow> ub + (nat \<times> byte list)" where
  "kMemToInt destination source sz =
     bindE (memcpy2 destination 0 source 0 sz) (\<lambda>d. Inr (sz, d))"

definition kIntToMem :: "byte list \<Rightarrow> byte list \<Rightarrow> nat \<Rightarrow> ub + (nat \<times> byte list)" where
  "kIntToMem destination source sz =
     bindE (memcpy2 destination 0 source 0 sz) (\<lambda>d. Inr (sz, d))"

text \<open>\<^verbatim>\<open>memcpyr\<close>: \<open>destination[k] = source[num - 1 - k]\<close>, one byte after the other.\<close>

fun memcpyr_loop :: "byte list \<Rightarrow> nat \<Rightarrow> byte list \<Rightarrow> nat \<Rightarrow> ub + byte list" where
  "memcpyr_loop dst pdst src 0 = Inr dst"
| "memcpyr_loop dst pdst src (Suc numc) =
     bindE (rd src numc) (\<lambda>b. bindE (wr dst pdst b) (\<lambda>dst'. memcpyr_loop dst' (Suc pdst) src numc))"

definition memcpyr :: "byte list \<Rightarrow> byte list \<Rightarrow> nat \<Rightarrow> ub + byte list" where
  "memcpyr destination source num = memcpyr_loop destination 0 source num"

text \<open>\<^verbatim>\<open>hostIntToANSI\<close>/\<^verbatim>\<open>ANSITohostInt\<close> at \<^verbatim>\<open>buf + off\<close>; the bounded versions do nothing and
  return 0 when the integer is larger than \<^verbatim>\<open>bufLen\<close>.\<close>

definition hostIntToANSI :: "byte list \<Rightarrow> nat \<Rightarrow> 'a::len word \<Rightarrow> ub + (nat \<times> byte list)" where
  "hostIntToANSI buf off t =
     (let n = sizeof TYPE('a word) in bindE (memcpy_to buf off (le_bytes n t)) (\<lambda>b. Inr (n, b)))"

definition hostIntToANSI_lim :: "byte list \<Rightarrow> nat \<Rightarrow> 'a::len word \<Rightarrow> nat \<Rightarrow> ub + (nat \<times> byte list)" where
  "hostIntToANSI_lim buf off t bufLen =
     (if sizeof TYPE('a word) > bufLen then Inr (0, buf) else hostIntToANSI buf off t)"

definition ANSITohostInt :: "byte list \<Rightarrow> nat \<Rightarrow> ub + (nat \<times> 'a::len word)" where
  "ANSITohostInt buf off =
     (let n = sizeof TYPE('a word)
      in if off + n \<le> length buf then Inr (n, le_word (slice off n buf)) else Inl OobRead)"

definition ANSITohostInt_lim :: "'a::len word \<Rightarrow> byte list \<Rightarrow> nat \<Rightarrow> nat \<Rightarrow> ub + (nat \<times> 'a word)" where
  "ANSITohostInt_lim old buf off bufLen =
     (if sizeof TYPE('a word) > bufLen then Inr (0, old) else ANSITohostInt buf off)"

section \<open>Base64 lengths\<close>

text \<open>
  \<^verbatim>\<open>Base64Encode\<close> allocates and returns \<^verbatim>\<open>4*ceil((double)messageSize/3)\<close>;
  \<^verbatim>\<open>calcDecodeLength\<close> computes \<^verbatim>\<open>(int)len*0.75 - padding\<close>, a double that the return
  converts by truncation.  The doubles are exact for the sizes that fit the memory.
\<close>

definition encodedSize :: "nat \<Rightarrow> nat" where
  "encodedSize messageSize = 4 * ((messageSize + 2) div 3)"

definition calcDecodeLength :: "byte list \<Rightarrow> ub + int" where
  "calcDecodeLength b64input =
     (let len = length b64input in
      if len = 0 then Inl OobRead
      else bindE (if b64input ! (len - 1) = 0x3D
                  then (if len < 2 then Inl OobRead
                        else Inr (if b64input ! (len - 2) = 0x3D then 2 else 1))
                  else Inr 0)
         (\<lambda>padding. let q = 3 * int len - 4 * padding
                     in Inr (if q \<ge> 0 then q div 4 else - ((- q) div 4))))"


section \<open>Lemmas on the printers and parsers\<close>

lemma hex_loop_ok:
  "is \<noteq> [] \<Longrightarrow> pos + 2 * length is + 1 \<le> length buf \<Longrightarrow> \<forall>i \<in> set is. i < length mem \<Longrightarrow>
   hex_loop buf pos mem is = Inr (blit buf pos (hexs (map ((!) mem) is) @ [0]))"
proof (induction "is" arbitrary: buf pos)
  case Nil
  then show ?case by simp
next
  case (Cons i "is")
  let ?b = "hex2 (mem ! i)"
  show ?case
  proof (cases "is = []")
    case True
    with Cons.prems show ?thesis by (simp add: sprintf_02x_def)
  next
    case False
    with Cons.prems have "hex_loop (blit buf pos (?b @ [0])) (pos + length ?b) mem is
        = Inr (blit (blit buf pos (?b @ [0])) (pos + length ?b) (hexs (map ((!) mem) is) @ [0]))"
      by (intro Cons.IH) auto
    also have "\<dots> = Inr (blit buf pos (?b @ hexs (map ((!) mem) is) @ [0]))"
      using Cons.prems by (subst blit_blit_adjacent) auto
    finally show ?thesis using Cons.prems by (simp add: sprintf_02x_def)
  qed
qed

lemma map_nth_rev_upt: "map ((!) xs) (rev [0..<length xs]) = rev xs"
  by (simp add: rev_map [symmetric] map_nth)

lemma kIntToStr_ok:
  "src \<noteq> [] \<Longrightarrow> 2 * length src + 1 \<le> length dst \<Longrightarrow>
   kIntToStr dst src (length src) = Inr (blit dst 0 (hexs (rev src) @ [0]))"
  unfolding kIntToStr_def by (subst hex_loop_ok) (auto simp: map_nth_rev_upt)

lemma kStrToInt_loop_hexs:
  "pos + length bs \<le> length dst \<Longrightarrow>
   kStrToInt_loop (hexs (rev bs) @ tail) (length bs) pos dst = Inr (True, blit dst pos bs)"
proof (induction bs arbitrary: pos dst tail)
  case Nil
  then show ?case by simp
next
  case (Cons b bs)
  let ?src = "hexs (rev bs) @ (hex2 b @ tail)"
  have c: "?src ! (2 * length bs) = hexdigit (drop_bit 4 b)"
    "?src ! (2 * length bs + 1) = hexdigit (b AND 15)"
    by (simp_all add: nth_append hex2_def)
  have n: "\<not> 15 < drop_bit 4 b" "\<not> 15 < b AND 15"
    using nibble_bounds [of b] by (simp_all add: not_less inc_le word_less_nat_alt word_le_nat_alt)
  have "kStrToInt_loop ?src (length bs) (Suc pos) (dst[pos := b])
        = Inr (True, blit (dst[pos := b]) (Suc pos) bs)"
    using Cons.prems by (intro Cons.IH) auto
  with Cons.prems c n show ?case
    by (simp add: nibble_bounds blit_Cons)
qed

lemma kStrToInt_hexs:
  "length bs \<le> length dst \<Longrightarrow>
   kStrToInt dst (hexs (rev bs) @ tail) (length bs) = Inr (int (2 * length bs), blit dst 0 bs)"
  by (simp add: kStrToInt_def kStrToInt_loop_hexs)

lemma hexStrToByteVec_loop_hexs:
  "hexStrToByteVec_loop (pre @ hexs bs @ tail) (length bs) (length pre) v = Inr (v @ bs)"
proof (induction bs arbitrary: pre v)
  case Nil
  then show ?case by simp
next
  case (Cons b bs)
  have "hexStrToByteVec_loop ((pre @ hex2 b) @ hexs bs @ tail) (length bs) (length (pre @ hex2 b)) (v @ [b])
        = Inr ((v @ [b]) @ bs)"
    by (rule Cons.IH)
  then show ?case
    by (simp add: nth_append hex2_def nibble_bounds)
qed

lemma hexStrToByteVec_loop_oob:
  "psrc \<le> length mem \<Longrightarrow> length mem < psrc + 2 * n \<Longrightarrow> hexStrToByteVec_loop mem n psrc v = Inl OobRead"
proof (induction n arbitrary: psrc v)
  case 0
  then show ?case by simp
next
  case (Suc n)
  show ?case
  proof (cases "psrc + 2 \<le> length mem")
    case True
    with Suc.prems have "hexStrToByteVec_loop mem n (psrc + 2) w = Inl OobRead" for w
      by (intro Suc.IH) auto
    with True show ?thesis by simp
  next
    case False
    then show ?thesis by (cases "psrc < length mem") simp_all
  qed
qed

lemma kHexStringToByte_loop_oob:
  "length hexm < psrc + 2 * n \<or> length out < pdst + n \<Longrightarrow> psrc \<le> length hexm \<Longrightarrow> pdst \<le> length out \<Longrightarrow>
   \<exists>e. kHexStringToByte_loop hexm n psrc pdst out = Inl e"
proof (induction n arbitrary: psrc pdst out)
  case 0
  then show ?case by auto
next
  case (Suc n)
  show ?case
  proof (cases "psrc + 2 \<le> length hexm \<and> pdst < length out")
    case True
    with Suc.prems have "\<exists>e. kHexStringToByte_loop hexm n (psrc + 2) (Suc pdst) (out[pdst := x]) = Inl e" for x
      by (intro Suc.IH) auto
    with True show ?thesis by simp
  next
    case False
    then show ?thesis
      by (cases "psrc < length hexm"; cases "pdst < length out") simp_all
  qed
qed

lemma memcpyr_loop_ok:
  "n \<le> length src \<Longrightarrow> pdst + n \<le> length dst \<Longrightarrow>
   memcpyr_loop dst pdst src n = Inr (blit dst pdst (rev (take n src)))"
proof (induction n arbitrary: pdst dst)
  case 0
  then show ?case by simp
next
  case (Suc n)
  then show ?case by (simp add: blit_Cons take_Suc_conv_app_nth)
qed

section \<open>Properties\<close>

text \<open>
  Printing an integer with \<^verbatim>\<open>IntToHexStr\<close> and reading the text back with \<^verbatim>\<open>kStrToInt\<close> is the
  identity: for an integer type of whole bytes, the conversion stays inside its temporary
  buffer whatever that buffer held, and parsing the printed text reports \<^verbatim>\<open>2 * sizeof(T)\<close> digits
  and stores exactly the little-endian bytes of the integer into the destination.
\<close>

theorem hex_text_roundtrip:
  fixes t :: "'a::len word"
  assumes "LENGTH('a) = 8 * n" and "length junk = 4 * n" and "n \<le> length dst"
  shows "IntToHexStr_in junk t = Inr (IntToHexStr t) \<and>
         length (IntToHexStr t) = 2 * n \<and>
         kStrToInt dst (IntToHexStr t) n = Inr (int (2 * n), blit dst 0 (le_bytes n t)) \<and>
         le_word (le_bytes n t) = t"
proof -
  have n: "sizeof TYPE('a word) = n" "0 < n"
    using assms(1) len_gt_0 [where 'a = 'a] by (auto simp: sizeof_def)
  have ne: "le_bytes n t \<noteq> []" using n(2) by (metis length_le_bytes length_0_conv less_irrefl)
  have "kIntToStr junk (le_bytes n t) n = Inr (blit junk 0 (hexs (rev (le_bytes n t)) @ [0]))"
    using kIntToStr_ok [OF ne, of junk] assms(2) n by simp
  moreover have "c_str (blit junk 0 (hexs (rev (le_bytes n t)) @ [0])) = hexs (rev (le_bytes n t))"
    by (simp add: blit_def)
  moreover have "take (push_bit (1 + 1) n) junk = junk"
    using assms(2) by (simp add: push_bit_eq_mult)
  ultimately have "IntToHexStr_in junk t = Inr (IntToHexStr t)"
    using n by (simp add: IntToHexStr_in_def IntToHexStr_def)
  moreover have "kStrToInt dst (IntToHexStr t) n = Inr (int (2 * n), blit dst 0 (le_bytes n t))"
    using kStrToInt_hexs [of "le_bytes n t" dst "[]"] assms n by (simp add: IntToHexStr_def)
  ultimately show ?thesis
    using assms n by (simp add: IntToHexStr_def)
qed

theorem hex_text_roundtrip_witness:
  "kStrToInt [0xEE, 0xEE, 0xEE] (IntToHexStr (0xBEEF :: u16)) 2
     = Inr (4, blit [0xEE, 0xEE, 0xEE] 0 (le_bytes 2 (0xBEEF :: u16)))"
  using hex_text_roundtrip [where 'a = 16 and n = 2 and junk = "replicate 8 0xAA" and
      dst = "[0xEE, 0xEE, 0xEE]" and t = "0xBEEF"]
  by simp

text \<open>
  \<^verbatim>\<open>hexStrToByteVec\<close> decodes nothing it should: its loop counts characters but consumes two of
  them per turn.  On every non-empty text of even length it reads past the string's
  terminator, although stopping after half as many turns would have produced exactly the
  encoded bytes; only the empty text is converted without leaving the string.
\<close>

theorem hexStrToByteVec_overruns:
  "hexStrToByteVec (hexs bs) = (if bs = [] then Inr [] else Inl OobRead) \<and>
   hexStrToByteVec_loop (hexs bs @ [0]) (length (hexs bs) div 2) 0 [] = Inr bs"
proof -
  have "hexStrToByteVec_loop (hexs bs @ [0]) (length bs) 0 [] = Inr bs"
    using hexStrToByteVec_loop_hexs [of "[]" bs "[0]" "[]"] by simp
  moreover have "hexStrToByteVec (hexs bs) = Inl OobRead" if "bs \<noteq> []"
  proof -
    from that have "0 < length bs" by simp
    then have "Suc 0 < 2 * length bs" by linarith
    then show ?thesis
      using hexStrToByteVec_loop_oob [of 0 "hexs bs @ [0]" "length (hexs bs)" "[]"]
      by (simp add: hexStrToByteVec_def)
  qed
  ultimately show ?thesis by (simp add: hexStrToByteVec_def)
qed

text \<open>
  \<^verbatim>\<open>encodedSize\<close> and \<^verbatim>\<open>calcDecodeLength\<close> are inverse on base64 texts: a text that has the
  length \<^verbatim>\<open>Base64Encode\<close> computes for an \<open>n\<close>-byte message, \<open>n > 0\<close>, and that ends in exactly the
  padding base64 prescribes for \<open>n\<close> (two, one or no \<^verbatim>\<open>=\<close>), is measured as \<open>n\<close> bytes; on the
  empty text the function reads before the string.
\<close>

theorem base64_length_roundtrip:
  assumes "0 < n" and "length b64 = encodedSize n"
    and "length (takeWhile (\<lambda>c. c = 0x3D) (rev b64)) = (3 - n mod 3) mod 3"
  shows "calcDecodeLength b64 = Inr (int n) \<and> calcDecodeLength [] = Inl OobRead"
proof -
  have len: "4 \<le> length b64" using assms(1,2) by (simp add: encodedSize_def)
  then have "Suc (Suc 0) \<le> length (rev b64)" by simp
  then obtain c1 c2 pre where rev: "rev b64 = c1 # c2 # pre"
    by (auto simp: Suc_le_length_iff simp del: length_rev)
  then have "b64 = rev pre @ [c2, c1]" using rev_rev_ident [of b64] by simp
  then have last: "b64 ! (length b64 - 1) = c1" "b64 ! (length b64 - 2) = c2"
    by (simp_all add: nth_append)
  have pad: "length (takeWhile (\<lambda>c. c = 0x3D) (c1 # c2 # pre)) = (3 - n mod 3) mod 3"
    using assms(3) by (simp only: rev)
  define q where "q = n div 3"
  have n: "3 * q + n mod 3 = n" by (simp add: q_def)
  have size: "length b64 = 4 * ((n + 2) div 3)" using assms(2) by (simp add: encodedSize_def)
  have dec: "calcDecodeLength b64 = Inr (int n)"
    if "length b64 = 4 * k" "c1 = 0x3D \<longleftrightarrow> 0 < p" "c1 = 0x3D \<longrightarrow> (c2 = 0x3D \<longleftrightarrow> p = 2)" "p \<le> 2" "3 * k = n + p"
    for k p :: nat
  proof -
    have "(if c1 = 0x3D then if c2 = 0x3D then 2 else 1 else 0) = int p"
      using that(2,3,4) by auto
    moreover have "3 * int (length b64) - 4 * int p = 4 * int n"
      using that(1,5) by linarith
    moreover have "length b64 \<noteq> 0" "\<not> length b64 < 2" using len by linarith+
    ultimately show ?thesis
      unfolding calcDecodeLength_def Let_def last by (simp split: if_splits)
  qed
  consider "n mod 3 = 0" | "n mod 3 = 1" | "n mod 3 = 2" by linarith
  then have "calcDecodeLength b64 = Inr (int n)"
  proof cases
    case 1
    with pad have "c1 \<noteq> 0x3D" by auto
    moreover have q: "n = 3 * q" using n unfolding 1 by simp
    moreover from q have "length b64 = 4 * (q)" using size by simp
    ultimately show ?thesis by (intro dec [of q 0]) simp_all
  next
    case 2
    with pad have "c1 = 0x3D" "c2 = 0x3D" by (auto split: if_splits)
    moreover have q: "n = 3 * q + 1" using n unfolding 2 by simp
    moreover from q have "length b64 = 4 * (q + 1)" using size by simp
    ultimately show ?thesis by (intro dec [of "q + 1" 2]) simp_all
  next
    case 3
    with pad have "c1 = 0x3D" "c2 \<noteq> 0x3D" by (auto split: if_splits)
    moreover have q: "n = 3 * q + 2" using n unfolding 3 by simp
    moreover from q have "length b64 = 4 * (q + 1)" using size by simp
    ultimately show ?thesis by (intro dec [of "q + 1" 1]) simp_all
  qed
  then show ?thesis by (simp add: calcDecodeLength_def)
qed

theorem base64_length_roundtrip_witness:
  "calcDecodeLength [0x4D, 0x51, 0x3D, 0x3D] = Inr 1 \<and> calcDecodeLength [] = Inl OobRead"
  using base64_length_roundtrip [of 1 "[0x4D, 0x51, 0x3D, 0x3D]"] by (simp add: encodedSize_def)

end
