(* ===== verification/KLock.thy ===== *)
theory KLock
  imports KPrelude
begin

text \<open>
  The shared/exclusive lock \<^verbatim>\<open>klock_c\<close> (kapi/source/kutil.cpp): three semaphores and a reader
  count.  Each call is the sequence of its statements, one program counter per statement, so
  that any number of threads can interleave between any two of them; \<open>sem_wait\<close> on a
  semaphore with value 0 blocks (\<open>None\<close>).  A thread calls a release operation only while it
  holds the lock in the matching mode, which is how the callers use the class.
\<close>

section \<open>State\<close>

record klock =
  shLockPriv :: nat
  shLock :: nat
  shLockCnt :: int
  exLock :: nat

definition klock_c :: klock where
  "klock_c = \<lparr>shLockPriv = 1, shLock = 1, shLockCnt = 0, exLock = 1\<rparr>"

text \<open>
  Where a thread is.  \<open>SA\<close>: inside \<^verbatim>\<open>shLockAcquire\<close>, \<open>SR\<close>: \<^verbatim>\<open>shLockRelease\<close>, \<open>EA\<close>:
  \<^verbatim>\<open>exLockAcquire\<close>, \<open>ER\<close>: \<^verbatim>\<open>exLockRelease\<close>; \<open>HS\<close>/\<open>HX\<close>: it has returned from an acquire and
  holds the lock shared/exclusively.  The releases carry the value they will return.
\<close>

datatype pc =
    Idle | HS | HX
  | SA_wait_priv | SA_try_ex | SA_wait_sh | SA_inc | SA_probe_sh | SA_test | SA_post_sh_wait
  | SA_wait_ex | SA_post_sh | SA_post_priv
  | SR_wait_sh | SR_test | SR_post_ex | SR_post_sh int
  | EA_wait_ex
  | ER_wait_sh | ER_test | ER_post_ex | ER_post_sh int

section \<open>The statements\<close>

definition sem_shLock_wait :: "pc \<Rightarrow> klock \<Rightarrow> (pc \<times> klock) option" where
  "sem_shLock_wait next lk =
     (if shLock lk = 0 then None else Some (next, lk\<lparr>shLock := shLock lk - 1\<rparr>))"

definition sem_exLock_wait :: "pc \<Rightarrow> klock \<Rightarrow> (pc \<times> klock) option" where
  "sem_exLock_wait next lk =
     (if exLock lk = 0 then None else Some (next, lk\<lparr>exLock := exLock lk - 1\<rparr>))"

definition sem_shLock_post :: "klock \<Rightarrow> klock" where
  "sem_shLock_post lk = lk\<lparr>shLock := shLock lk + 1\<rparr>"

definition sem_exLock_post :: "klock \<Rightarrow> klock" where
  "sem_exLock_post lk = lk\<lparr>exLock := exLock lk + 1\<rparr>"

fun shLockAcquire :: "pc \<Rightarrow> klock \<Rightarrow> (pc \<times> klock) option" where
  "shLockAcquire SA_wait_priv lk =
     (if shLockPriv lk = 0 then None
      else Some (SA_try_ex, lk\<lparr>shLockPriv := shLockPriv lk - 1\<rparr>))"
| "shLockAcquire SA_try_ex lk =
     (if exLock lk = 0 then Some (SA_probe_sh, lk) else sem_exLock_wait SA_wait_sh lk)"
| "shLockAcquire SA_probe_sh lk = sem_shLock_wait SA_test lk"
| "shLockAcquire SA_test lk =
     (if shLockCnt lk \<le> 0 then Some (SA_post_sh_wait, lk)
      else Some (SA_post_sh, lk\<lparr>shLockCnt := shLockCnt lk + 1\<rparr>))"
| "shLockAcquire SA_post_sh_wait lk = Some (SA_wait_ex, sem_shLock_post lk)"
| "shLockAcquire SA_wait_ex lk = sem_exLock_wait SA_wait_sh lk"
| "shLockAcquire SA_wait_sh lk = sem_shLock_wait SA_inc lk"
| "shLockAcquire SA_inc lk = Some (SA_post_sh, lk\<lparr>shLockCnt := shLockCnt lk + 1\<rparr>)"
| "shLockAcquire SA_post_sh lk = Some (SA_post_priv, sem_shLock_post lk)"
| "shLockAcquire SA_post_priv lk = Some (HS, lk\<lparr>shLockPriv := shLockPriv lk + 1\<rparr>)"
| "shLockAcquire _ lk = None"

fun shLockRelease :: "pc \<Rightarrow> klock \<Rightarrow> (pc \<times> klock) option" where
  "shLockRelease SR_wait_sh lk = sem_shLock_wait SR_test lk"
| "shLockRelease SR_test lk =
     (if shLockCnt lk = 1 then Some (SR_post_ex, lk\<lparr>shLockCnt := 0\<rparr>)
      else if shLockCnt lk > 1 then Some (SR_post_sh 0, lk\<lparr>shLockCnt := shLockCnt lk - 1\<rparr>)
      else Some (SR_post_sh (-1), lk))"
| "shLockRelease SR_post_ex lk = Some (SR_post_sh 0, sem_exLock_post lk)"
| "shLockRelease (SR_post_sh rtn) lk = Some (Idle, sem_shLock_post lk)"
| "shLockRelease _ lk = None"

fun exLockAcquire :: "pc \<Rightarrow> klock \<Rightarrow> (pc \<times> klock) option" where
  "exLockAcquire EA_wait_ex lk = sem_exLock_wait HX lk"
| "exLockAcquire _ lk = None"

fun exLockRelease :: "pc \<Rightarrow> klock \<Rightarrow> (pc \<times> klock) option" where
  "exLockRelease ER_wait_sh lk = sem_shLock_wait ER_test lk"
| "exLockRelease ER_test lk =
     (if shLockCnt lk = 0 then Some (ER_post_ex, lk) else Some (ER_post_sh (-1), lk))"
| "exLockRelease ER_post_ex lk = Some (ER_post_sh 0, sem_exLock_post lk)"
| "exLockRelease (ER_post_sh rtn) lk = Some (Idle, sem_shLock_post lk)"
| "exLockRelease _ lk = None"

text \<open>The next statement of a thread, whatever call it is in.\<close>

definition exec_pc :: "pc \<Rightarrow> klock \<Rightarrow> (pc \<times> klock) option" where
  "exec_pc p lk =
     (case shLockAcquire p lk of Some r \<Rightarrow> Some r | None \<Rightarrow>
     (case shLockRelease p lk of Some r \<Rightarrow> Some r | None \<Rightarrow>
     (case exLockAcquire p lk of Some r \<Rightarrow> Some r | None \<Rightarrow> exLockRelease p lk)))"

text \<open>The calls a thread may start: \<^verbatim>\<open>lockAcquire\<close>/\<^verbatim>\<open>lockRelease\<close> are the exclusive ones.\<close>

definition call_pc :: "pc \<Rightarrow> pc set" where
  "call_pc p =
     (case p of Idle \<Rightarrow> {SA_wait_priv, EA_wait_ex} | HS \<Rightarrow> {SR_wait_sh} | HX \<Rightarrow> {ER_wait_sh} | _ \<Rightarrow> {})"

type_synonym lock_state = "klock \<times> pc list"

definition lock_start :: "lock_state \<Rightarrow> bool" where
  "lock_start s \<longleftrightarrow> fst s = klock_c \<and> (\<forall>p \<in> set (snd s). p = Idle)"

inductive lock_step :: "lock_state \<Rightarrow> lock_state \<Rightarrow> bool" where
  lock_call: "i < length ps \<Longrightarrow> p \<in> call_pc (ps ! i) \<Longrightarrow> lock_step (lk, ps) (lk, ps[i := p])"
| lock_exec: "i < length ps \<Longrightarrow> exec_pc (ps ! i) lk = Some (p, lk') \<Longrightarrow>
    lock_step (lk, ps) (lk', ps[i := p])"

section \<open>The invariant\<close>

text \<open>Who holds which semaphore, and who is counted in \<^verbatim>\<open>shLockCnt\<close>.\<close>

fun holds_priv :: "pc \<Rightarrow> nat" where
  "holds_priv p = (if p \<in> {SA_try_ex, SA_wait_sh, SA_inc, SA_probe_sh, SA_test, SA_post_sh_wait,
     SA_wait_ex, SA_post_sh, SA_post_priv} then 1 else 0)"

fun holds_sh :: "pc \<Rightarrow> nat" where
  "holds_sh (SR_post_sh r) = 1"
| "holds_sh (ER_post_sh r) = 1"
| "holds_sh p = (if p \<in> {SA_inc, SA_test, SA_post_sh_wait, SA_post_sh, SR_test, SR_post_ex, ER_test,
     ER_post_ex} then 1 else 0)"

fun counted :: "pc \<Rightarrow> nat" where
  "counted p = (if p \<in> {SA_post_sh, SA_post_priv, HS, SR_wait_sh, SR_test} then 1 else 0)"

fun holds_ex :: "pc \<Rightarrow> nat" where
  "holds_ex p = (if p \<in> {SA_wait_sh, SA_inc, HX, ER_wait_sh, ER_test, ER_post_ex, SR_post_ex} then 1 else 0)"

fun failing :: "pc \<Rightarrow> nat" where
  "failing (SR_post_sh r) = (if r = 0 then 0 else 1)"
| "failing (ER_post_sh r) = (if r = 0 then 0 else 1)"
| "failing p = 0"

definition lock_inv :: "lock_state \<Rightarrow> bool" where
  "lock_inv s = (case s of (lk, ps) \<Rightarrow>
     shLockPriv lk + total holds_priv ps = 1 \<and>
     shLock lk + total holds_sh ps = 1 \<and>
     shLockCnt lk = int (total counted ps) \<and>
     exLock lk + total holds_ex ps + (if shLockCnt lk > 0 then 1 else 0) = 1 \<and>
     total failing ps = 0)"

lemmas sem_defs = sem_shLock_wait_def sem_exLock_wait_def sem_shLock_post_def sem_exLock_post_def

lemma lock_inv_start: "lock_start s \<Longrightarrow> lock_inv s"
proof -
  assume s: "lock_start s"
  have "total w (snd s) = 0" if "w Idle = 0" for w
    using s that unfolding lock_start_def by (auto simp: total_def)
  with s show ?thesis
    by (cases s) (simp add: lock_start_def lock_inv_def klock_c_def)
qed

text \<open>What one statement does to the sums, given what it does to its own thread.\<close>

lemma lock_inv_update:
  assumes "lock_inv (lk, ps)" and "i < length ps"
    and "int (shLockPriv lk') + int (holds_priv p) = int (shLockPriv lk) + int (holds_priv (ps ! i))"
    and "int (shLock lk') + int (holds_sh p) = int (shLock lk) + int (holds_sh (ps ! i))"
    and "shLockCnt lk' - int (counted p) = shLockCnt lk - int (counted (ps ! i))"
    and "int (exLock lk') + int (holds_ex p) + (if shLockCnt lk' > 0 then 1 else 0)
       = int (exLock lk) + int (holds_ex (ps ! i)) + (if shLockCnt lk > 0 then 1 else 0)"
    and "failing p = 0"
  shows "lock_inv (lk', ps[i := p])"
proof -
  note u = total_update [OF assms(2), of _ p]
  have "shLockPriv lk' + total holds_priv (ps[i := p]) = 1"
    using u [of holds_priv] assms(1,3) unfolding lock_inv_def by (simp del: holds_priv.simps)
  moreover have "shLock lk' + total holds_sh (ps[i := p]) = 1"
    using u [of holds_sh] assms(1,4) unfolding lock_inv_def by (simp del: holds_sh.simps)
  moreover have "shLockCnt lk' = int (total counted (ps[i := p]))"
    using u [of counted] assms(1,5) unfolding lock_inv_def by (simp del: counted.simps)
  moreover have "exLock lk' + total holds_ex (ps[i := p]) + (if shLockCnt lk' > 0 then 1 else 0) = 1"
    using u [of holds_ex] assms(1,6) unfolding lock_inv_def
    by (simp del: holds_ex.simps split: if_splits)
  moreover have "total failing (ps[i := p]) = 0"
    using u [of failing] assms(1,7) unfolding lock_inv_def by (simp del: failing.simps)
  ultimately show ?thesis by (simp add: lock_inv_def)
qed

text \<open>What the invariant says from the point of view of one thread.\<close>

lemma lock_inv_at:
  assumes "lock_inv (lk, ps)" and "i < length ps"
  shows "0 \<le> shLockCnt lk"
    and "counted (ps ! i) = 1 \<Longrightarrow> 0 < shLockCnt lk"
    and "holds_ex (ps ! i) = 1 \<Longrightarrow> shLockCnt lk = 0"
    and "failing (ps ! i) = 0"
  using assms total_ge [OF assms(2), of counted] total_ge [OF assms(2), of holds_ex]
    total_ge [OF assms(2), of failing]
  by (auto simp: lock_inv_def simp del: counted.simps holds_ex.simps split: if_splits)

lemma lock_inv_exec:
  assumes "lock_inv (lk, ps)" and "i < length ps" and "exec_pc (ps ! i) lk = Some (p, lk')"
  shows "lock_inv (lk', ps[i := p])"
  using assms(3) lock_inv_at [OF assms(1,2)]
  by (cases "ps ! i"; intro lock_inv_update [OF assms(1,2)])
    (auto simp: exec_pc_def sem_defs split: if_splits)

lemma lock_inv_call:
  assumes "lock_inv (lk, ps)" and "i < length ps" and "p \<in> call_pc (ps ! i)"
  shows "lock_inv (lk, ps[i := p])"
  using assms(3) lock_inv_at [OF assms(1,2)]
  by (cases "ps ! i"; intro lock_inv_update [OF assms(1,2)]) (auto simp: call_pc_def)

interpretation klock: invariant_system lock_start lock_step lock_inv
proof (rule invariant_system.intro)
  show "lock_start s \<Longrightarrow> lock_inv s" for s
    by (rule lock_inv_start)
next
  fix s t assume "lock_inv s" and "lock_step s t"
  from this(2,1) show "lock_inv t"
    by cases (auto intro: lock_inv_exec lock_inv_call)
qed

inductive_cases lock_stepE: "lock_step (lk, ps) t"

section \<open>Deadlock freedom\<close>

definition can_run :: "klock \<Rightarrow> pc \<Rightarrow> bool" where
  "can_run lk p \<longleftrightarrow> exec_pc p lk \<noteq> None \<or> p \<in> {HS, HX}"

text \<open>The semaphore a blocked thread waits for is available when nobody holds it.\<close>

lemma blocked_cases:
  assumes "\<not> can_run lk p" and "p \<noteq> Idle"
  shows "holds_sh p = 0" and "counted p = 0 \<or> p = SR_wait_sh" and "0 < shLock lk \<Longrightarrow> counted p = 0 \<and> holds_ex p = 0"
    and "0 < exLock lk \<Longrightarrow> 0 < shLock lk \<Longrightarrow> holds_priv p = 0 \<and> p = SA_wait_priv \<and> shLockPriv lk = 0"
  using assms by (cases p; auto simp: can_run_def exec_pc_def sem_defs split: if_splits)+

lemma total_zero: "(\<And>p. p \<in> set ps \<Longrightarrow> w p = 0) \<Longrightarrow> total w ps = 0"
  by (induction ps) auto

lemma lock_inv_progress:
  assumes "lock_inv (lk, ps)" and "\<exists>p \<in> set ps. p \<noteq> Idle"
  shows "\<exists>p \<in> set ps. can_run lk p"
proof (rule ccontr)
  assume "\<not> ?thesis"
  then have stuck: "p = Idle \<or> p \<noteq> Idle \<and> \<not> can_run lk p" if "p \<in> set ps" for p
    using that by auto
  have "total holds_sh ps = 0"
    using blocked_cases(1) stuck by (intro total_zero) fastforce
  with assms(1) have sh: "0 < shLock lk" by (simp add: lock_inv_def)
  have "total counted ps = 0" "total holds_ex ps = 0"
    using blocked_cases(3) [OF _ _ sh] stuck by (intro total_zero; fastforce)+
  with assms(1) have ex: "0 < exLock lk" by (auto simp: lock_inv_def split: if_splits)
  have "total holds_priv ps = 0"
    using blocked_cases(4) [OF _ _ ex sh] stuck by (intro total_zero) fastforce
  with assms(1) have "shLockPriv lk = 1" by (simp add: lock_inv_def)
  with blocked_cases(4) [OF _ _ ex sh] stuck assms(2) show False by fastforce
qed

section \<open>Properties\<close>

text \<open>
  C4: The lock excludes.  In every reachable state of any number of threads, a thread that holds
  the lock exclusively is the only holder: no other thread holds it, exclusively or shared,
  nor is any other thread about to return from a successful shared acquire; the reader count is
  0 then, and otherwise it counts the shared holders.
\<close>

theorem lock_excludes:
  assumes "reach lock_start lock_step (lk, ps)" and "i < length ps" and "ps ! i = HX"
  shows "shLockCnt lk = 0 \<and> exLock lk = 0 \<and>
    (\<forall>j < length ps. j \<noteq> i \<longrightarrow> ps ! j \<notin> {HX, HS, SA_post_sh, SA_post_priv})"
proof -
  have inv: "lock_inv (lk, ps)" using assms(1) by (rule klock.inv_reach)
  have cnt: "shLockCnt lk = 0" using lock_inv_at(3) [OF inv assms(2)] assms(3) by simp
  moreover have "exLock lk = 0"
    using inv cnt total_ge [OF assms(2), of holds_ex] assms(3) by (simp add: lock_inv_def)
  moreover have "ps ! j \<notin> {HX, HS, SA_post_sh, SA_post_priv}" if j: "j < length ps" "j \<noteq> i" for j
  proof -
    have "counted (ps ! j) = 0"
      using total_ge [OF j(1), of counted] inv cnt by (simp add: lock_inv_def)
    moreover have "holds_ex (ps ! i) + holds_ex (ps ! j) \<le> 1"
      using total_ge2 [OF assms(2) j(1), of holds_ex] j(2) inv by (simp add: lock_inv_def split: if_splits)
    then have "ps ! j \<noteq> HX" using assms(3) by auto
    ultimately show ?thesis by auto
  qed
  ultimately show ?thesis by blast
qed

text \<open>
  C29: The lock does not deadlock and its releases do not fail.  In every reachable state in
  which some thread is not idle, some thread can execute its next statement or holds the lock
  and may release it; and no thread is about to return -1 from a release.
\<close>

theorem lock_progress:
  assumes "reach lock_start lock_step (lk, ps)" and "\<exists>p \<in> set ps. p \<noteq> Idle"
  shows "(\<exists>p \<in> set ps. exec_pc p lk \<noteq> None \<or> p = HS \<or> p = HX) \<and>
    SR_post_sh (-1) \<notin> set ps \<and> ER_post_sh (-1) \<notin> set ps"
proof -
  have inv: "lock_inv (lk, ps)" using assms(1) by (rule klock.inv_reach)
  have "failing p = 0" if "p \<in> set ps" for p
    using that lock_inv_at(4) [OF inv] by (auto simp: in_set_conv_nth)
  then have "SR_post_sh (-1) \<notin> set ps" "ER_post_sh (-1) \<notin> set ps" by fastforce+
  with lock_inv_progress [OF inv assms(2)] show ?thesis by (auto simp: can_run_def)
qed

text \<open>The state after one thread has taken the lock exclusively, for the examples.\<close>

lemma lock_one_writer: "reach lock_start lock_step (klock_c\<lparr>exLock := 0\<rparr>, [HX, Idle])"
proof -
  have "reach lock_start lock_step (klock_c, [Idle, Idle])"
    by (rule reach_start) (simp add: lock_start_def)
  moreover have "lock_step (klock_c, [Idle, Idle]) (klock_c, [Idle, Idle][0 := EA_wait_ex])"
    by (rule lock_call) (simp_all add: call_pc_def)
  ultimately have "reach lock_start lock_step (klock_c, [Idle, Idle][0 := EA_wait_ex])"
    by (rule reach_step)
  moreover have "lock_step (klock_c, [Idle, Idle][0 := EA_wait_ex])
      (klock_c\<lparr>exLock := 0\<rparr>, [Idle, Idle][0 := EA_wait_ex, 0 := HX])"
    by (rule lock_exec) (simp_all add: exec_pc_def sem_exLock_wait_def klock_c_def)
  ultimately have "reach lock_start lock_step (klock_c\<lparr>exLock := 0\<rparr>, [Idle, Idle][0 := EA_wait_ex, 0 := HX])"
    by (rule reach_step)
  then show ?thesis by simp
qed

theorem lock_excludes_witness: "[HX, Idle] ! 1 \<notin> {HX, HS, SA_post_sh, SA_post_priv}"
  using lock_excludes [OF lock_one_writer, of 0] by simp

theorem lock_progress_witness:
  "(\<exists>p \<in> set [HX, Idle]. exec_pc p (klock_c\<lparr>exLock := 0\<rparr>) \<noteq> None \<or> p = HS \<or> p = HX) \<and>
   SR_post_sh (-1) \<notin> set [HX, Idle] \<and> ER_post_sh (-1) \<notin> set [HX, Idle]"
  using lock_progress [OF lock_one_writer] by simp

text \<open>
  Nothing ties a release to its acquire.  While no reader is counted, \<^verbatim>\<open>exLockRelease\<close> run by a
  thread that does not hold the lock posts the semaphore and returns 0; after that two threads
  hold the lock exclusively at the same time.
\<close>

theorem exLockRelease_unowned:
  "\<exists>l1 l2 l3 l4 l5 l6.
     exLockAcquire EA_wait_ex klock_c = Some (HX, l1) \<and> exLockAcquire EA_wait_ex l1 = None \<and>
     exLockRelease ER_wait_sh l1 = Some (ER_test, l2) \<and> exLockRelease ER_test l2 = Some (ER_post_ex, l3) \<and>
     exLockRelease ER_post_ex l3 = Some (ER_post_sh 0, l4) \<and>
     exLockRelease (ER_post_sh 0) l4 = Some (Idle, l5) \<and> exLockAcquire EA_wait_ex l5 = Some (HX, l6)"
  by (simp add: klock_c_def sem_defs)

end
