(* ===== verification/SerialLink.thy ===== *)
theory SerialLink
  imports KUtil
begin

text \<open>
  The serial interface of hal/source/mtintf.c: the ring buffer \<^verbatim>\<open>SerBufIn\<close>, the signal handler
  \<^verbatim>\<open>SerialRcv\<close> that fills it from the driver, and \<^verbatim>\<open>MessageAssembler\<close>, which cuts it into MT
  frames.  The integers of the code are never negative here (each subtraction is guarded), so
  they are naturals; \<^verbatim>\<open>& SERIAL_BUFFER_MAX_MASK\<close> is \<open>mod 512\<close>.  One run of the handler or of the
  assembler is one transition: both hold \<^verbatim>\<open>SerBufInLenME\<close> while they touch the buffer;
  Assemblers takes them apart and interleaves them.
\<close>

section \<open>State\<close>

definition SERIAL_BUFFER_MAX :: nat where "SERIAL_BUFFER_MAX = 512"
definition PACKET_BUFFER_MAX :: nat where "PACKET_BUFFER_MAX = 256"
definition MIN_PACKET_LEN :: nat where "MIN_PACKET_LEN = 5"
definition MT_SOF :: byte where "MT_SOF = 0xFE"

lemmas serial_consts = SERIAL_BUFFER_MAX_def PACKET_BUFFER_MAX_def MIN_PACKET_LEN_def

record serbuf =
  SerBufIn :: "byte list"
  SerBufInHead :: nat
  SerBufInLen :: nat

definition MTIntfInit :: serbuf where
  "MTIntfInit = \<lparr>SerBufIn = replicate SERIAL_BUFFER_MAX 0, SerBufInHead = 0, SerBufInLen = 0\<rparr>"

definition ser_wf :: "serbuf \<Rightarrow> bool" where
  "ser_wf s \<longleftrightarrow> length (SerBufIn s) = 512 \<and> SerBufInHead s < 512 \<and> SerBufInLen s \<le> 512"

section \<open>Receiving\<close>

text \<open>
  \<^verbatim>\<open>pending\<close> are the bytes the driver holds; a \<^verbatim>\<open>read\<close> of the non-blocking descriptor takes as many
  of them as fit the request, and reports nothing (0 or \<^verbatim>\<open>EAGAIN\<close>) when there are none.
\<close>

definition SerTailPtr :: "serbuf \<Rightarrow> nat" where
  "SerTailPtr s = (SerBufInHead s + SerBufInLen s) mod SERIAL_BUFFER_MAX"

definition serial_read :: "serbuf \<Rightarrow> byte list \<Rightarrow> serbuf" where
  "serial_read s got = s\<lparr>SerBufIn := blit (SerBufIn s) (SerTailPtr s) got, SerBufInLen := SerBufInLen s + length got\<rparr>"

function SerialRcv :: "serbuf \<Rightarrow> byte list \<Rightarrow> serbuf" where
  "SerialRcv s pending =
     (let SerBufAva = SERIAL_BUFFER_MAX - SerTailPtr s;
          got = take SerBufAva pending
      in if 0 < length got then SerialRcv (serial_read s got) (drop SerBufAva pending) else s)"
  by pat_completeness auto

termination
proof (relation "measure (\<lambda>(s, pending). length pending)")
  fix s :: serbuf and pending :: "byte list" and ava got
  assume "ava = SERIAL_BUFFER_MAX - SerTailPtr s" "got = take ava pending" "0 < length got"
  then show "((serial_read s got, drop ava pending), (s, pending)) \<in> measure (\<lambda>(s, pending). length pending)"
    by (cases pending) auto
qed simp

declare SerialRcv.simps [simp del]

section \<open>Cutting frames\<close>

text \<open>
  The inner \<^verbatim>\<open>while\<close>: \<open>temp\<close> is \<^verbatim>\<open>SerBufHeadTemp\<close>.  The result is the position of the start
  byte with the \<^verbatim>\<open>Offset\<close> reached, or \<open>None\<close> for the early return.
\<close>

function seek_sof :: "serbuf \<Rightarrow> nat \<Rightarrow> nat \<Rightarrow> (nat \<times> nat) option" where
  "seek_sof s temp Offset =
     (if SerBufIn s ! temp = MT_SOF then Some (temp, Offset)
      else let Offset' = Offset + 1;
               temp' = (SerBufInHead s + Offset') mod SERIAL_BUFFER_MAX
           in if SerBufInHead s = temp' \<or> SerBufInLen s < Offset' + MIN_PACKET_LEN then None
              else seek_sof s temp' Offset')"
  by pat_completeness auto

termination
  by (relation "measure (\<lambda>(s, temp, Offset). SerBufInLen s - Offset)") (auto simp: serial_consts)

declare seek_sof.simps [simp del]

text \<open>The two \<^verbatim>\<open>memcpy\<close> variants that move a possibly wrapped frame to \<^verbatim>\<open>PacketBuffer\<close>.\<close>

definition copy_frame :: "byte list \<Rightarrow> byte list \<Rightarrow> nat \<Rightarrow> nat \<Rightarrow> ub + byte list" where
  "copy_frame PacketBuffer buf temp FrameLen =
     (let TempLen = SERIAL_BUFFER_MAX - temp
      in if FrameLen \<le> TempLen then memcpy2 PacketBuffer 0 buf temp FrameLen
         else bindE (memcpy2 PacketBuffer 0 buf temp TempLen) (\<lambda>p.
                memcpy2 p TempLen buf 0 (FrameLen - TempLen)))"

text \<open>The checksum loop over \<^verbatim>\<open>PacketBuffer[0..FrameLen-1]\<close>.\<close>

definition xor_bytes :: "byte list \<Rightarrow> byte" where
  "xor_bytes bs = fold (\<lambda>b c. c XOR b) bs 0"

text \<open>
  One turn of the outer loop, given \<^verbatim>\<open>Offset\<close> and \<^verbatim>\<open>PacketBuffer\<close>: \<open>Inr None\<close> is the
  \<^verbatim>\<open>return NULL\<close>; otherwise the updated buffer, offset and packet and the frame length.
\<close>

definition cut_frame :: "serbuf \<Rightarrow> nat \<Rightarrow> byte list \<Rightarrow> ub + (serbuf \<times> nat \<times> byte list \<times> nat) option" where
  "cut_frame s Offset PacketBuffer =
     (case seek_sof s (SerBufInHead s) Offset of
        None \<Rightarrow> Inr None
      | Some (temp, Offset) \<Rightarrow>
          let temp = (temp + 1) mod SERIAL_BUFFER_MAX;
              FrameLen = unat (SerBufIn s ! temp) + 4
          in if SerBufInLen s < FrameLen + 1 + Offset then Inr None
             else bindE (copy_frame PacketBuffer (SerBufIn s) temp FrameLen) (\<lambda>p.
                    Inr (Some (s\<lparr>SerBufInLen := SerBufInLen s - (FrameLen + 1 + Offset),
                                 SerBufInHead := (temp + FrameLen) mod SERIAL_BUFFER_MAX\<rparr>,
                               Offset, p, FrameLen))))"

lemma cut_frame_len:
  "cut_frame s off p = Inr (Some (s', off', p', n)) \<Longrightarrow> SerBufInLen s' + n + 1 + off' = SerBufInLen s \<and> 4 \<le> n"
  by (auto simp: cut_frame_def Let_def returns_iff split: option.splits if_splits)

text \<open>The outer loop; the result are the buffer and the packets handed to the callback.\<close>

function MessageAssembler :: "serbuf \<Rightarrow> nat \<Rightarrow> byte list \<Rightarrow> ub + (serbuf \<times> byte list list)" where
  "MessageAssembler s Offset PacketBuffer =
     (if SerBufInLen s < MIN_PACKET_LEN then Inr (s, [])
      else case cut_frame s Offset PacketBuffer of
             Inl e \<Rightarrow> Inl e
           | Inr None \<Rightarrow> Inr (s, [])
           | Inr (Some (s', Offset', p, FrameLen)) \<Rightarrow>
               bindE (MessageAssembler s' Offset' p) (\<lambda>(s'', ps).
                 Inr (s'', if xor_bytes (take FrameLen p) = 0 then p # ps else ps)))"
  by pat_completeness auto

termination
  by (relation "measure (\<lambda>(s, Offset, p). SerBufInLen s)") (auto dest: cut_frame_len)

declare MessageAssembler.simps [simp del]

section \<open>The ring as a queue\<close>

definition contents :: "serbuf \<Rightarrow> byte list" where
  "contents s = map (\<lambda>i. SerBufIn s ! ((SerBufInHead s + i) mod 512)) [0..<SerBufInLen s]"

definition put_byte :: "serbuf \<Rightarrow> byte \<Rightarrow> serbuf" where
  "put_byte s b = s\<lparr>SerBufIn := (SerBufIn s)[SerTailPtr s := b], SerBufInLen := SerBufInLen s + 1\<rparr>"

definition room :: "serbuf \<Rightarrow> nat" where
  "room s = (if length (SerBufIn s) = 512 \<and> SerBufInHead s < 512 then 512 - SerBufInLen s else 0)"

lemma length_contents [simp]: "length (contents s) = SerBufInLen s"
  by (simp add: contents_def)

lemma nth_contents: "i < SerBufInLen s \<Longrightarrow> contents s ! i = SerBufIn s ! ((SerBufInHead s + i) mod 512)"
  by (simp add: contents_def)

text \<open>What the assembler needs from the buffer it reads: bytes come out in the order they went in.\<close>

locale byte_queue =
  fixes put :: "'q \<Rightarrow> byte \<Rightarrow> 'q" and view :: "'q \<Rightarrow> byte list" and space :: "'q \<Rightarrow> nat"
  assumes view_put: "0 < space q \<Longrightarrow> view (put q b) = view q @ [b]"
    and space_put: "0 < space q \<Longrightarrow> space (put q b) = space q - 1"
begin

lemma put_many:
  "length bs \<le> space q \<Longrightarrow>
   view (foldl put q bs) = view q @ bs \<and> space (foldl put q bs) = space q - length bs"
proof (induction bs arbitrary: q)
  case Nil
  then show ?case by simp
next
  case (Cons b bs)
  then have "0 < space q" "length bs \<le> space (put q b)"
    by (simp_all add: space_put)
  with Cons.IH [of "put q b"] show ?case
    by (simp add: view_put space_put)
qed

end

lemma mod_512_eq_iff: "a < 512 \<Longrightarrow> i < 512 \<Longrightarrow> j < 512 \<Longrightarrow> (a + i) mod 512 = (a + j) mod (512 :: nat) \<longleftrightarrow> i = j"
  by (auto simp: mod_if split: if_splits)

lemma contents_put_byte: "0 < room s \<Longrightarrow> contents (put_byte s b) = contents s @ [b]"
proof (rule nth_equalityI)
  fix i assume *: "0 < room s" "i < length (contents (put_byte s b))"
  then have "i < Suc (SerBufInLen s)" "SerBufInLen s < 512" "SerBufInHead s < 512" "length (SerBufIn s) = 512"
    by (auto simp: room_def put_byte_def split: if_splits)
  then show "contents (put_byte s b) ! i = (contents s @ [b]) ! i"
    using mod_512_eq_iff [of "SerBufInHead s" "SerBufInLen s" i]
    by (auto simp: nth_contents put_byte_def nth_append SerTailPtr_def serial_consts less_Suc_eq)
qed (simp add: put_byte_def)

interpretation ring: byte_queue put_byte contents room
  by unfold_locales (auto simp: contents_put_byte, auto simp: room_def put_byte_def)

text \<open>A \<^verbatim>\<open>read\<close> that does not wrap is a sequence of single bytes put into the ring.\<close>

lemma serial_read_put:
  "SerTailPtr s + length got \<le> 512 \<Longrightarrow> length (SerBufIn s) = 512 \<Longrightarrow>
   serial_read s got = foldl put_byte s got"
proof (induction got arbitrary: s)
  case Nil
  then show ?case by (simp add: serial_read_def)
next
  case (Cons b got)
  let ?s = "put_byte s b"
  show ?case
  proof (cases "got = []")
    case True
    with Cons.prems show ?thesis
      using blit_Cons [of "SerTailPtr s" "[]" "SerBufIn s" b]
      by (simp add: serial_read_def put_byte_def)
  next
    case False
    then have "SerTailPtr s + 1 < 512" using Cons.prems(1) by (cases got) auto
    then have t: "SerTailPtr ?s = SerTailPtr s + 1"
      using mod_Suc [of "SerBufInHead s + SerBufInLen s" 512]
      by (simp add: SerTailPtr_def put_byte_def serial_consts)
    with Cons.prems have "serial_read ?s got = foldl put_byte ?s got"
      by (intro Cons.IH) (auto simp: put_byte_def)
    moreover have "serial_read s (b # got) = serial_read ?s got"
      using t Cons.prems blit_Cons [of "SerTailPtr s" got "SerBufIn s" b]
      by (simp add: serial_read_def put_byte_def)
    ultimately show ?thesis by simp
  qed
qed

lemma SerialRcv_put:
  "length (SerBufIn s) = 512 \<Longrightarrow> SerialRcv s pending = foldl put_byte s pending"
proof (induction s pending rule: SerialRcv.induct)
  case (1 s pending)
  let ?ava = "SERIAL_BUFFER_MAX - SerTailPtr s" and ?got = "take (SERIAL_BUFFER_MAX - SerTailPtr s) pending"
  have tail: "SerTailPtr s < 512" by (simp add: SerTailPtr_def serial_consts)
  show ?case
  proof (cases "pending = []")
    case True
    then show ?thesis by (subst SerialRcv.simps) simp
  next
    case False
    then have got: "0 < length ?got" using tail by (simp add: serial_consts)
    have read: "serial_read s ?got = foldl put_byte s ?got"
      using 1(2) tail by (intro serial_read_put) (auto simp: serial_consts)
    have "length (SerBufIn (serial_read s ?got)) = 512"
      using 1(2) tail by (simp add: serial_read_def serial_consts)
    with 1(1) [OF refl refl got] have
      "SerialRcv (serial_read s ?got) (drop ?ava pending) = foldl put_byte s (?got @ drop ?ava pending)"
      unfolding foldl_append read by simp
    with got show ?thesis by (subst SerialRcv.simps) (simp add: Let_def del: foldl_append)
  qed
qed

section \<open>The assembler on queues\<close>

text \<open>
  The abstract assembler works on the queue of unread bytes.  With an \<open>Offset\<close> left over from
  an earlier frame the code drops that many bytes from the end of the queue, because it
  subtracts the offset from the length without having advanced the head by it.
\<close>

function seek_abs :: "byte list \<Rightarrow> nat \<Rightarrow> nat option" where
  "seek_abs q off =
     (if length q < off + 1 + 5 then None
      else if q ! (off + 1) = MT_SOF then Some (off + 1) else seek_abs q (off + 1))"
  by pat_completeness auto

termination
  by (relation "measure (\<lambda>(q, off). length q - off)") auto

declare seek_abs.simps [simp del]

definition start_abs :: "byte list \<Rightarrow> nat \<Rightarrow> (nat \<times> nat) option" where
  "start_abs q off =
     (if q ! 0 = MT_SOF then Some (0, off) else map_option (\<lambda>o'. (o', o')) (seek_abs q off))"

definition cut_abs :: "byte list \<Rightarrow> nat \<Rightarrow> ub + (byte list \<times> nat \<times> byte list) option" where
  "cut_abs q off =
     (case start_abs q off of
        None \<Rightarrow> Inr None
      | Some (st, off) \<Rightarrow>
          let n = unat (q ! (st + 1)) + 4
          in if length q < n + 1 + off then Inr None
             else if 256 < n then Inl OobWrite
             else Inr (Some (take (length q - (n + 1 + off)) (drop (st + 1 + n) q), off, slice (st + 1) n q)))"

lemma seek_abs_bounds: "seek_abs q off = Some o' \<Longrightarrow> off < o' \<and> o' + 5 \<le> length q \<and> q ! o' = MT_SOF"
proof (induction q off rule: seek_abs.induct)
  case (1 q off)
  then show ?case
    by (subst (asm) seek_abs.simps) (auto split: if_splits)
qed

lemma start_abs_bounds:
  "start_abs q off = Some (st, o') \<Longrightarrow> 5 \<le> length q \<Longrightarrow> st \<le> o' \<and> st + 5 \<le> length q \<and> (st = 0 \<or> st = o')"
  by (auto simp: start_abs_def split: if_splits dest!: seek_abs_bounds)

lemma cut_abs_len: "cut_abs q off = Inr (Some (q', off', f)) \<Longrightarrow> length q' < length q"
  by (auto simp: cut_abs_def Let_def split: option.splits if_splits)

function asm_abs :: "byte list \<Rightarrow> nat \<Rightarrow> ub + (byte list \<times> byte list list)" where
  "asm_abs q off =
     (if length q < 5 then Inr (q, [])
      else case cut_abs q off of
             Inl e \<Rightarrow> Inl e
           | Inr None \<Rightarrow> Inr (q, [])
           | Inr (Some (q', off', f)) \<Rightarrow>
               bindE (asm_abs q' off') (\<lambda>(q'', fs). Inr (q'', if xor_bytes f = 0 then f # fs else fs)))"
  by pat_completeness auto

termination
  by (relation "measure (\<lambda>(q, off). length q)") (auto dest: cut_abs_len)

declare asm_abs.simps [simp del]

section \<open>The assembler refines it\<close>

lemma ser_nth: "i < SerBufInLen s \<Longrightarrow> SerBufIn s ! ((SerBufInHead s + i) mod 512) = contents s ! i"
  by (simp add: nth_contents)

lemma seek_sof_abs:
  assumes "ser_wf s" and "temp = (SerBufInHead s + i) mod 512" and "i < SerBufInLen s"
    and "i = 0 \<or> i = off"
  shows "seek_sof s temp off =
    (if contents s ! i = MT_SOF then Some (temp, off)
     else map_option (\<lambda>o'. ((SerBufInHead s + o') mod 512, o')) (seek_abs (contents s) off))"
  using assms
proof (induction s temp off arbitrary: i rule: seek_sof.induct)
  case (1 s temp off)
  let ?h = "SerBufInHead s" and ?l = "SerBufInLen s"
  have sof: "SerBufIn s ! temp = contents s ! i"
    using 1(3,4) by (simp add: ser_nth)
  show ?case
  proof (cases "contents s ! i = MT_SOF \<or> ?l < off + 6")
    case True
    then show ?thesis
      using sof by (subst seek_sof.simps, subst seek_abs.simps) (auto simp: Let_def serial_consts)
  next
    case False
    then have off: "off + 1 < ?l" "off + 1 < 512" using 1(2) by (auto simp: ser_wf_def)
    then have h: "?h \<noteq> (?h + (off + 1)) mod 512"
      using mod_512_eq_iff [of ?h 0 "off + 1"] 1(2) by (auto simp: ser_wf_def)
    have "seek_sof s ((?h + (off + 1)) mod 512) (off + 1) =
      (if contents s ! (off + 1) = MT_SOF then Some ((?h + (off + 1)) mod 512, off + 1)
       else map_option (\<lambda>o'. ((?h + o') mod 512, o')) (seek_abs (contents s) (off + 1)))"
      using 1(1) [of "off + 1" "(?h + (off + 1)) mod 512" "off + 1"] False off h 1(2) sof
      by (simp add: serial_consts)
    moreover have "seek_sof s temp off = seek_sof s ((?h + (off + 1)) mod 512) (off + 1)"
      using False off h sof by (subst seek_sof.simps) (simp add: serial_consts)
    ultimately show ?thesis
      using False by (subst seek_abs.simps) auto
  qed
qed

lemma slice_contents:
  "i + n \<le> SerBufInLen s \<Longrightarrow>
   slice i n (contents s) = map (\<lambda>k. SerBufIn s ! ((SerBufInHead s + i + k) mod 512)) [0..<n]"
  by (rule nth_equalityI) (simp_all add: nth_contents add.assoc)

lemma copy_frame_abs:
  assumes "length buf = 512" and "temp < 512" and "n \<le> 512" and "length pkt = 256"
  shows "copy_frame pkt buf temp n =
    (if n \<le> 256 then Inr (blit pkt 0 (map (\<lambda>i. buf ! ((temp + i) mod 512)) [0..<n])) else Inl OobWrite)"
proof (cases "n \<le> 512 - temp")
  case True
  then have "slice temp n buf = map (\<lambda>i. buf ! ((temp + i) mod 512)) [0..<n]"
    using assms by (intro nth_equalityI) simp_all
  with True assms show ?thesis
    by (cases "n \<le> 256") (simp_all add: copy_frame_def memcpy2_def serial_consts)
next
  case False
  let ?t = "512 - temp"
  let ?a = "slice temp ?t buf" and ?b = "slice 0 (n - ?t) buf"
  have ab: "?a @ ?b = map (\<lambda>i. buf ! ((temp + i) mod 512)) [0..<n]"
    using False assms by (intro nth_equalityI) (auto simp: nth_append mod_if add.commute)
  show ?thesis
  proof (cases "n \<le> 256")
    case True
    then have "blit (blit pkt 0 (?a @ [])) (0 + length ?a) ?b = blit pkt 0 (?a @ ?b)"
      using False assms by (intro blit_blit_adjacent) simp_all
    with True False assms ab show ?thesis
      by (simp add: copy_frame_def memcpy2_def serial_consts Let_def)
  next
    case False': False
    with False assms show ?thesis
      by (cases "?t \<le> 256") (simp_all add: copy_frame_def memcpy2_def serial_consts Let_def)
  qed
qed

lemma cut_frame_abs:
  assumes "ser_wf s" and "5 \<le> SerBufInLen s" and "length pkt = 256"
  shows "cut_abs (contents s) off = Inl e \<Longrightarrow> cut_frame s off pkt = Inl e"
    and "cut_abs (contents s) off = Inr None \<Longrightarrow> cut_frame s off pkt = Inr None"
    and "cut_abs (contents s) off = Inr (Some (q', off', f)) \<Longrightarrow>
      \<exists>s'. cut_frame s off pkt = Inr (Some (s', off', blit pkt 0 f, length f)) \<and> ser_wf s' \<and> contents s' = q'
        \<and> length f \<le> 256 \<and> length f = unat (f ! 0) + 4"
proof -
  let ?h = "SerBufInHead s" and ?q = "contents s"
  have h: "?h < 512" and buf: "length (SerBufIn s) = 512" and l: "SerBufInLen s \<le> 512"
    using assms(1) by (auto simp: ser_wf_def)
  have seek: "seek_sof s ?h off = map_option (\<lambda>(st, o'). ((?h + st) mod 512, o')) (start_abs ?q off)"
    using seek_sof_abs [OF assms(1), of ?h 0 off] h assms(2)
    by (auto simp: start_abs_def option.map_comp comp_def)
  show "cut_abs ?q off = Inl e \<Longrightarrow> cut_frame s off pkt = Inl e"
    "cut_abs ?q off = Inr None \<Longrightarrow> cut_frame s off pkt = Inr None"
    "cut_abs ?q off = Inr (Some (q', off', f)) \<Longrightarrow>
      \<exists>s'. cut_frame s off pkt = Inr (Some (s', off', blit pkt 0 f, length f)) \<and> ser_wf s' \<and> contents s' = q'
        \<and> length f \<le> 256 \<and> length f = unat (f ! 0) + 4"
  proof (atomize (full), cases "start_abs ?q off")
    case None
    then show "(cut_abs ?q off = Inl e \<longrightarrow> cut_frame s off pkt = Inl e) \<and>
      (cut_abs ?q off = Inr None \<longrightarrow> cut_frame s off pkt = Inr None) \<and>
      (cut_abs ?q off = Inr (Some (q', off', f)) \<longrightarrow>
      (\<exists>s'. cut_frame s off pkt = Inr (Some (s', off', blit pkt 0 f, length f)) \<and> ser_wf s' \<and> contents s' = q'
        \<and> length f \<le> 256 \<and> length f = unat (f ! 0) + 4))"
      by (simp add: cut_abs_def cut_frame_def seek)
  next
    case (Some r)
    obtain st o' where r: "r = (st, o')" by (cases r)
    define n where "n = unat (?q ! (st + 1)) + 4"
    have st: "st \<le> o'" "st + 5 \<le> SerBufInLen s"
      using start_abs_bounds Some r assms(2) by fastforce+
    have n: "n \<le> 512" unfolding n_def using unat_byte [of "?q ! (st + 1)"] by linarith
    have temp: "((?h + st) mod 512 + 1) mod 512 = (?h + (st + 1)) mod 512"
      by (simp add: mod_simps)
    have len: "SerBufIn s ! ((?h + (st + 1)) mod 512) = ?q ! (st + 1)"
      using st by (intro ser_nth) simp
    have head: "((?h + st) mod 512 + 1) mod SERIAL_BUFFER_MAX = (?h + (st + 1)) mod 512"
      using temp by (simp only: serial_consts)
    have cut: "cut_frame s off pkt =
      (if SerBufInLen s < n + 1 + o' then Inr None
       else bindE (copy_frame pkt (SerBufIn s) ((?h + (st + 1)) mod 512) n) (\<lambda>p.
         Inr (Some (s\<lparr>SerBufInLen := SerBufInLen s - (n + 1 + o'),
           SerBufInHead := ((?h + (st + 1)) mod 512 + n) mod 512\<rparr>, o', p, n))))"
      unfolding cut_frame_def seek Some r option.map(2) prod.case option.case Let_def head len n_def
      by (simp only: serial_consts)
    let ?f = "slice (st + 1) n ?q"
    have f: "?f = map (\<lambda>i. SerBufIn s ! (((?h + (st + 1)) mod 512 + i) mod 512)) [0..<n]"
      if "n + 1 + o' \<le> SerBufInLen s"
      using that st by (subst slice_contents) (simp_all add: mod_simps add.assoc)
    have f0: "?f ! 0 = ?q ! (st + 1)" if "n + 1 + o' \<le> SerBufInLen s"
      using that st by (simp add: n_def)
    let ?s = "s\<lparr>SerBufInLen := SerBufInLen s - (n + 1 + o'),
      SerBufInHead := ((?h + (st + 1)) mod 512 + n) mod 512\<rparr>"
    have c: "contents ?s = take (SerBufInLen s - (n + 1 + o')) (drop (st + 1 + n) ?q)"
      if "n + 1 + o' \<le> SerBufInLen s"
      using that st by (intro nth_equalityI) (auto simp: nth_contents mod_simps add.assoc add.commute add.left_commute)
    have wf: "ser_wf ?s" using buf l by (simp add: ser_wf_def)
    show "(cut_abs ?q off = Inl e \<longrightarrow> cut_frame s off pkt = Inl e) \<and>
      (cut_abs ?q off = Inr None \<longrightarrow> cut_frame s off pkt = Inr None) \<and>
      (cut_abs ?q off = Inr (Some (q', off', f)) \<longrightarrow>
      (\<exists>s'. cut_frame s off pkt = Inr (Some (s', off', blit pkt 0 f, length f)) \<and> ser_wf s' \<and> contents s' = q'
        \<and> length f \<le> 256 \<and> length f = unat (f ! 0) + 4))"
    proof (cases "n + 1 + o' \<le> SerBufInLen s")
      case False
      then show ?thesis
        unfolding cut_abs_def cut Some r option.case prod.case Let_def n_def [symmetric] by simp
    next
      case True
      have abs: "cut_abs ?q off = (if 256 < n then Inl OobWrite
          else Inr (Some (take (SerBufInLen s - (n + 1 + o')) (drop (st + 1 + n) ?q), o', ?f)))"
        using True by (simp add: cut_abs_def Some r Let_def n_def)
      have conc: "cut_frame s off pkt = (if 256 < n then Inl OobWrite
          else Inr (Some (?s, o', blit pkt 0 ?f, n)))"
        using True n buf assms(3) copy_frame_abs [of "SerBufIn s" "(?h + (st + 1)) mod 512" n pkt] f
        unfolding cut by (simp del: add_Suc_right One_nat_def)
      show ?thesis
        using True st abs conc c wf f0 by (auto simp: n_def)
    qed
  qed
qed

text \<open>The frame in a packet buffer: the length byte, the two command bytes, the data and the FCS.\<close>

definition packet :: "byte list \<Rightarrow> byte list" where
  "packet p = take (unat (p ! 0) + 4) p"

lemma packet_blit: "length f = unat (f ! 0) + 4 \<Longrightarrow> length f \<le> length p \<Longrightarrow> packet (blit p 0 f) = f"
proof -
  assume f: "length f = unat (f ! 0) + 4" "length f \<le> length p"
  then have "0 < length f" "0 < length p" by linarith+
  with f(2) have "blit p 0 f ! 0 = f ! 0" using nth_blit [of 0 f p 0] by simp
  with f show ?thesis by (simp add: packet_def) (simp add: blit_def)
qed

lemma MessageAssembler_abs:
  assumes "ser_wf s" and "length pkt = 256"
  shows "asm_abs (contents s) off = Inl e \<Longrightarrow> MessageAssembler s off pkt = Inl e"
    and "asm_abs (contents s) off = Inr (q, fs) \<Longrightarrow>
      \<exists>s' ps. MessageAssembler s off pkt = Inr (s', ps) \<and> ser_wf s' \<and> contents s' = q \<and> map packet ps = fs"
proof -
  have "\<forall>s pkt. ser_wf s \<longrightarrow> length pkt = 256 \<longrightarrow> contents s = c \<longrightarrow>
    (case asm_abs c off of Inl e \<Rightarrow> MessageAssembler s off pkt = Inl e
     | Inr (q, fs) \<Rightarrow> \<exists>s' ps. MessageAssembler s off pkt = Inr (s', ps) \<and> ser_wf s' \<and> contents s' = q \<and>
         map packet ps = fs)" for c
  proof (induction c off rule: asm_abs.induct)
    case (1 c off)
    show ?case
    proof (intro allI impI)
      fix s pkt assume s: "ser_wf s" "length (pkt :: byte list) = 256" "contents s = c"
      have len: "length c = SerBufInLen s" using s(3) by auto
      show "case asm_abs c off of Inl e \<Rightarrow> MessageAssembler s off pkt = Inl e
        | Inr (q, fs) \<Rightarrow> \<exists>s' ps. MessageAssembler s off pkt = Inr (s', ps) \<and> ser_wf s' \<and> contents s' = q \<and>
            map packet ps = fs"
      proof (cases "length c < 5")
        case True
        with s len show ?thesis
          by (subst asm_abs.simps, subst MessageAssembler.simps) (simp add: serial_consts)
      next
        case False
        then have l: "5 \<le> SerBufInLen s" using len by simp
        note cf = cut_frame_abs [OF s(1) l s(2), of off, unfolded s(3)]
        show ?thesis
        proof (cases "cut_abs c off")
          case (Inl e)
          with cf(1) False len show ?thesis
            by (subst asm_abs.simps, subst MessageAssembler.simps) (simp add: serial_consts)
        next
          case (Inr r)
          show ?thesis
          proof (cases r)
            case None
            with cf(2) Inr False len s show ?thesis
              by (subst asm_abs.simps, subst MessageAssembler.simps) (simp add: serial_consts)
          next
            case (Some t)
            obtain q' off' f where t: "t = (q', off', f)" by (cases t)
            with cf(3) Inr Some obtain s' where s': "cut_frame s off pkt = Inr (Some (s', off', blit pkt 0 f, length f))"
              "ser_wf s'" "contents s' = q'" "length f \<le> 256" "length f = unat (f ! 0) + 4" by blast
            have pk: "take (length f) (blit pkt 0 f) = f" "packet (blit pkt 0 f) = f" "length (blit pkt 0 f) = 256"
              using s'(4,5) s(2) by (simp_all add: packet_blit) (simp add: blit_def)
            have ma: "MessageAssembler s off pkt = bindE (MessageAssembler s' off' (blit pkt 0 f)) (\<lambda>(s'', ps).
                Inr (s'', if xor_bytes f = 0 then blit pkt 0 f # ps else ps))"
              using s' pk l by (subst MessageAssembler.simps) (simp add: serial_consts)
            have aa: "asm_abs c off = bindE (asm_abs q' off') (\<lambda>(q'', fs).
                Inr (q'', if xor_bytes f = 0 then f # fs else fs))"
              using False Inr Some t by (subst asm_abs.simps) simp
            have "case asm_abs q' off' of Inl e \<Rightarrow> MessageAssembler s' off' (blit pkt 0 f) = Inl e
              | Inr (q, fs) \<Rightarrow> \<exists>s'' ps. MessageAssembler s' off' (blit pkt 0 f) = Inr (s'', ps) \<and> ser_wf s'' \<and>
                  contents s'' = q \<and> map packet ps = fs"
              using 1 [OF False Inr Some t [symmetric] refl] s' pk by blast
            then show ?thesis
              unfolding aa ma by (cases "asm_abs q' off'") (auto simp: pk split: prod.splits)
          qed
        qed
      qed
    qed
  qed
  from this [of "contents s"] assms
  show "asm_abs (contents s) off = Inl e \<Longrightarrow> MessageAssembler s off pkt = Inl e"
    and "asm_abs (contents s) off = Inr (q, fs) \<Longrightarrow>
      \<exists>s' ps. MessageAssembler s off pkt = Inr (s', ps) \<and> ser_wf s' \<and> contents s' = q \<and> map packet ps = fs"
    by (fastforce split: sum.splits)+
qed

section \<open>Frames in the queue\<close>

text \<open>A frame without its start byte: the length byte announces the rest.\<close>

definition framed :: "byte list \<Rightarrow> bool" where
  "framed f \<longleftrightarrow> length f = unat (f ! 0) + 4"

text \<open>The bytes left over are the beginning of a frame that has not arrived completely.\<close>

definition incomplete :: "byte list \<Rightarrow> bool" where
  "incomplete q \<longleftrightarrow> length q < 5 \<or> q ! 0 = MT_SOF \<and> length q < unat (q ! 1) + 5"

lemma framed_nonempty: "framed f \<Longrightarrow> f \<noteq> [] \<and> 4 \<le> length f"
  by (auto simp: framed_def)

lemma framed_hd: "framed f \<Longrightarrow> (f @ rest) ! 0 = f ! 0"
  using framed_nonempty [of f] by (simp add: nth_append)

lemma seek_abs_garbage:
  "MT_SOF \<notin> set (drop (Suc off) g) \<Longrightarrow> off < length g \<Longrightarrow> framed f \<Longrightarrow>
   seek_abs (g @ MT_SOF # f @ rest) off = Some (length g)"
proof (induction "length g - off" arbitrary: off)
  case 0
  then show ?case by simp
next
  case (Suc n)
  have f: "4 \<le> length f" using framed_nonempty Suc.prems(3) by blast
  show ?case
  proof (cases "off + 1 = length g")
    case True
    then show ?thesis using f by (subst seek_abs.simps) (simp add: nth_append)
  next
    case False
    with Suc.prems(2) have *: "Suc off < length g" by simp
    then have "drop (Suc off) g = g ! Suc off # drop (Suc (Suc off)) g"
      by (simp add: Cons_nth_drop_Suc)
    with Suc.prems(1) have no: "g ! Suc off \<noteq> MT_SOF" "MT_SOF \<notin> set (drop (Suc (Suc off)) g)"
      by auto
    moreover have "seek_abs (g @ MT_SOF # f @ rest) (Suc off) = Some (length g)"
      using Suc.hyps Suc.prems * no by (intro Suc.hyps(1)) auto
    ultimately show ?thesis
      using * f by (subst seek_abs.simps) (simp add: nth_append)
  qed
qed

lemma cut_abs_garbage:
  assumes "MT_SOF \<notin> set g" and "framed f"
  shows "cut_abs (g @ MT_SOF # f @ rest) 0 =
    (if 256 < length f then Inl OobWrite else Inr (Some (rest, length g, f)))"
proof -
  have st: "start_abs (g @ MT_SOF # f @ rest) 0 = Some (length g, length g)"
  proof (cases g)
    case Nil
    then show ?thesis by (simp add: start_abs_def)
  next
    case (Cons a g')
    with assms seek_abs_garbage [of 0 g f rest] show ?thesis
      by (auto simp: start_abs_def)
  qed
  have n: "unat ((g @ MT_SOF # f @ rest) ! (length g + 1)) + 4 = length f"
    using assms(2) framed_hd [OF assms(2), of rest] by (simp add: framed_def nth_append)
  have sl: "slice (length g + 1) (length f) (g @ MT_SOF # f @ rest) = f"
    by (simp add: slice_def)
  show ?thesis
    unfolding cut_abs_def st option.case prod.case Let_def n sl by simp
qed

lemma cut_abs_stale:
  assumes "framed f"
  shows "cut_abs (MT_SOF # f @ rest) off =
    (if length rest < off then Inr None
     else if 256 < length f then Inl OobWrite else Inr (Some (take (length rest - off) rest, off, f)))"
proof -
  have n: "unat ((MT_SOF # f @ rest) ! (0 + 1)) + 4 = length f"
    using assms framed_hd [OF assms, of rest] by (simp add: framed_def)
  have sl: "slice (0 + 1) (length f) (MT_SOF # f @ rest) = f"
    by (simp add: slice_def)
  have st: "start_abs (MT_SOF # f @ rest) off = Some (0, off)"
    by (simp add: start_abs_def)
  show ?thesis
    unfolding cut_abs_def st option.case prod.case Let_def n sl by auto
qed

lemma asm_abs_incomplete: "incomplete q \<Longrightarrow> asm_abs q 0 = Inr (q, [])"
  by (subst asm_abs.simps) (auto simp: incomplete_def cut_abs_def start_abs_def)

lemma asm_abs_short: "length q < 5 \<Longrightarrow> asm_abs q off = Inr (q, [])"
  by (subst asm_abs.simps) simp

text \<open>One turn of the abstract assembler on a queue whose first frame is cut.\<close>

lemma asm_abs_cut:
  "cut_abs q off = Inr (Some (q', off', f)) \<Longrightarrow> 5 \<le> length q \<Longrightarrow>
   asm_abs q off = bindE (asm_abs q' off') (\<lambda>(q'', fs). Inr (q'', if xor_bytes f = 0 then f # fs else fs))"
  by (subst asm_abs.simps) simp

lemma asm_abs_stop: "cut_abs q off = Inr None \<Longrightarrow> asm_abs q off = Inr (q, [])"
  by (subst asm_abs.simps) simp

lemma asm_abs_fault: "cut_abs q off = Inl e \<Longrightarrow> 5 \<le> length q \<Longrightarrow> asm_abs q off = Inl e"
  by (subst asm_abs.simps) simp

lemma asm_abs_frames:
  "\<forall>f \<in> set fs. framed f \<and> length f \<le> 256 \<Longrightarrow> incomplete rest \<Longrightarrow>
   asm_abs (concat (map ((#) MT_SOF) fs) @ rest) 0 = Inr (rest, filter (\<lambda>f. xor_bytes f = 0) fs)"
proof (induction fs)
  case Nil
  then show ?case by (simp add: asm_abs_incomplete)
next
  case (Cons f fs)
  let ?q = "concat (map ((#) MT_SOF) fs) @ rest"
  have "cut_abs (MT_SOF # f @ ?q) 0 = Inr (Some (?q, 0, f))"
    using cut_abs_stale [of f ?q 0] Cons.prems(1) by simp
  moreover have "5 \<le> length (MT_SOF # f @ ?q)"
    using framed_nonempty [of f] Cons.prems(1) by simp
  ultimately show ?case
    using Cons.IH Cons.prems asm_abs_cut by fastforce
qed

lemma put_bytes_shape:
  "length (SerBufIn s) = 512 \<Longrightarrow>
   length (SerBufIn (foldl put_byte s bs)) = 512 \<and>
   SerBufInHead (foldl put_byte s bs) = SerBufInHead s \<and>
   SerBufInLen (foldl put_byte s bs) = SerBufInLen s + length bs"
  by (induction bs rule: rev_induct) (auto simp: put_byte_def)

lemma SerialRcv_fits:
  assumes "ser_wf s" and "SerBufInLen s + length bs \<le> 512"
  shows "ser_wf (SerialRcv s bs)" and "contents (SerialRcv s bs) = contents s @ bs"
  using assms ring.put_many [of bs s] put_bytes_shape [of s bs]
  by (auto simp: room_def ser_wf_def SerialRcv_put)

lemma received:
  "length bs \<le> 512 \<Longrightarrow> ser_wf (SerialRcv MTIntfInit bs) \<and> contents (SerialRcv MTIntfInit bs) = bs"
  using SerialRcv_fits [of MTIntfInit bs] by (simp add: ser_wf_def MTIntfInit_def serial_consts contents_def)

section \<open>Properties\<close>

text \<open>
  C28: \<^verbatim>\<open>SerialRcv\<close> appends what the driver holds to the unread bytes, in order and across the
  wrap-around of the ring, as long as everything fits; when it does not, the handler does not
  notice: it writes over the oldest unread byte and counts more than 512 unread bytes.
\<close>

theorem SerialRcv_queue:
  assumes "ser_wf s"
  shows "(SerBufInLen s + length pending \<le> 512 \<longrightarrow>
      ser_wf (SerialRcv s pending) \<and> contents (SerialRcv s pending) = contents s @ pending) \<and>
    (512 < SerBufInLen s + length pending \<and> length pending \<le> 512 \<longrightarrow>
      SerBufIn (SerialRcv s pending) ! SerBufInHead (SerialRcv s pending) = pending ! (512 - SerBufInLen s) \<and>
      SerBufInHead (SerialRcv s pending) = SerBufInHead s \<and> 512 < SerBufInLen (SerialRcv s pending))"
proof -
  have rcv: "SerialRcv s pending = foldl put_byte s pending"
    using assms by (intro SerialRcv_put) (simp add: ser_wf_def)
  have shape: "length (SerBufIn (foldl put_byte s bs)) = 512 \<and>
      SerBufInHead (foldl put_byte s bs) = SerBufInHead s \<and>
      SerBufInLen (foldl put_byte s bs) = SerBufInLen s + length bs" for bs
    using assms by (intro put_bytes_shape) (simp add: ser_wf_def)
  have "ser_wf (SerialRcv s pending) \<and> contents (SerialRcv s pending) = contents s @ pending"
    if "SerBufInLen s + length pending \<le> 512"
    using SerialRcv_fits [OF assms that] by blast
  moreover have "SerBufIn (foldl put_byte s bs) ! SerBufInHead s = bs ! (512 - SerBufInLen s)"
    if "512 < SerBufInLen s + length bs" "length bs \<le> 512" for bs
    using that
  proof (induction bs rule: rev_induct)
    case Nil
    then show ?case using assms by (simp add: ser_wf_def)
  next
    case (snoc b bs)
    let ?t = "foldl put_byte s bs"
    have tail: "SerTailPtr ?t = (SerBufInHead s + (SerBufInLen s + length bs)) mod 512"
      using shape [of bs] by (simp add: SerTailPtr_def serial_consts add.assoc)
    have last: "SerBufIn (foldl put_byte s (bs @ [b])) = (SerBufIn ?t)[SerTailPtr ?t := b]"
      by (simp add: put_byte_def)
    show ?case
    proof (cases "512 < SerBufInLen s + length bs")
      case True
      then have "SerBufInLen s + length bs - 512 < 512" "0 < SerBufInLen s + length bs - 512"
        using snoc.prems assms by (auto simp: ser_wf_def)
      then have "SerTailPtr ?t \<noteq> SerBufInHead s"
        using tail mod_512_eq_iff [of "SerBufInHead s" "SerBufInLen s + length bs - 512" 0] assms True
        by (simp add: ser_wf_def mod_if)
      moreover have "512 - SerBufInLen s < length bs" using True assms by (auto simp: ser_wf_def)
      ultimately show ?thesis
        using snoc True unfolding last using assms by (simp add: nth_append ser_wf_def)
    next
      case False
      with snoc.prems have "SerBufInLen s + length bs = 512" by simp
      moreover from this have "512 - SerBufInLen s = length bs" by linarith
      ultimately show ?thesis
        unfolding last using tail shape [of bs] assms by (simp add: nth_append ser_wf_def)
    qed
  qed
  ultimately show ?thesis using rcv shape [of pending] by simp
qed

text \<open>
  C1: \<^verbatim>\<open>MessageAssembler\<close> delivers the frames of a clean stream: if the unread bytes are complete
  frames of at most 252 data bytes followed by the beginning of another one, the callback
  receives exactly those frames whose checksum is right, in order, and exactly the incomplete
  rest stays unread, wherever in the ring the frames lie.
\<close>

theorem MessageAssembler_frames:
  assumes "ser_wf s" and "length pkt = 256"
    and "contents s = concat (map ((#) MT_SOF) fs) @ rest"
    and "\<forall>f \<in> set fs. framed f \<and> length f \<le> 256" and "incomplete rest"
  shows "\<exists>s' ps. MessageAssembler s 0 pkt = Inr (s', ps) \<and> ser_wf s' \<and> contents s' = rest \<and>
    map packet ps = filter (\<lambda>f. xor_bytes f = 0) fs"
  using MessageAssembler_abs(2) [OF assms(1,2), of 0] asm_abs_frames [OF assms(4,5)] assms(3) by simp

text \<open>
  C6: The offset of a skipped byte run is never reset.  If \<open>k > 0\<close> bytes of garbage precede two
  complete frames, the first is delivered; the second is delivered only if at least \<open>k\<close> more
  bytes have already arrived behind it, and then the last \<open>k\<close> of those are dropped from the
  queue.  With fewer bytes behind it the complete second frame is left unread.
\<close>

theorem stale_offset:
  assumes "ser_wf s" and "length pkt = 256"
    and "contents s = g @ MT_SOF # f1 @ MT_SOF # f2 @ rest" and "MT_SOF \<notin> set g"
    and "framed f1" "length f1 \<le> 256" "framed f2" "length f2 \<le> 256"
    and "length rest < length g + 5"
  shows "\<exists>s' ps. MessageAssembler s 0 pkt = Inr (s', ps) \<and>
    contents s' = (if length g \<le> length rest then take (length rest - length g) rest else MT_SOF # f2 @ rest) \<and>
    map packet ps = filter (\<lambda>f. xor_bytes f = 0) (f1 # (if length g \<le> length rest then [f2] else []))"
proof -
  let ?k = "length g" and ?q = "MT_SOF # f2 @ rest"
  have 5: "5 \<le> length (g @ MT_SOF # f1 @ ?q)" "5 \<le> length ?q"
    using framed_nonempty [OF assms(5)] framed_nonempty [OF assms(7)] by simp_all
  have "cut_abs (g @ MT_SOF # f1 @ ?q) 0 = Inr (Some (?q, ?k, f1))"
    using cut_abs_garbage [OF assms(4,5)] assms(6) by simp
  note first = asm_abs_cut [OF this 5(1)]
  show ?thesis
  proof (cases "?k \<le> length rest")
    case True
    then have "cut_abs ?q ?k = Inr (Some (take (length rest - ?k) rest, ?k, f2))"
      using cut_abs_stale [OF assms(7)] assms(8) by simp
    note second = asm_abs_cut [OF this 5(2)]
    have "asm_abs (take (length rest - ?k) rest) ?k = Inr (take (length rest - ?k) rest, [])"
      using assms(9) by (intro asm_abs_short) simp
    then have "asm_abs (contents s) 0 = Inr (take (length rest - ?k) rest, filter (\<lambda>f. xor_bytes f = 0) [f1, f2])"
      using first second by (simp add: assms(3))
    from MessageAssembler_abs(2) [OF assms(1,2) this] True show ?thesis by auto
  next
    case False
    then have "asm_abs ?q ?k = Inr (?q, [])"
      using cut_abs_stale [OF assms(7), of rest ?k] by (intro asm_abs_stop) simp
    then have "asm_abs (contents s) 0 = Inr (?q, filter (\<lambda>f. xor_bytes f = 0) [f1])"
      using first by (simp add: assms(3))
    from MessageAssembler_abs(2) [OF assms(1,2) this] False show ?thesis by auto
  qed
qed

text \<open>
  A length byte of 253 or more overflows \<^verbatim>\<open>PacketBuffer\<close>: as soon as such a frame is complete
  in the queue, with or without garbage before it, the copy writes outside the 256-byte array.
\<close>

theorem PacketBuffer_overflow:
  assumes "ser_wf s" and "length pkt = 256"
    and "contents s = g @ MT_SOF # f @ rest" and "MT_SOF \<notin> set g" and "framed f" and "253 \<le> unat (f ! 0)"
  shows "MessageAssembler s 0 pkt = Inl OobWrite"
proof -
  have "256 < length f" using assms(5,6) by (simp add: framed_def)
  then have "cut_abs (contents s) 0 = Inl OobWrite"
    using cut_abs_garbage [OF assms(4,5)] assms(3) by simp
  moreover have "5 \<le> length (contents s)" using framed_nonempty [OF assms(5)] by (simp add: assms(3))
  ultimately show ?thesis
    by (intro MessageAssembler_abs(1) [OF assms(1,2)] asm_abs_fault)
qed

text \<open>
  A run of the assembler ends, faults or not, and the callback is called at most once per five
  unread bytes; the bytes that stay unread are no more than were there.
\<close>

theorem MessageAssembler_bounded:
  assumes "MessageAssembler s off pkt = Inr (s', ps)"
  shows "5 * length ps + SerBufInLen s' \<le> SerBufInLen s"
  using assms
proof (induction s off pkt arbitrary: s' ps rule: MessageAssembler.induct)
  case (1 s off pkt)
  show ?case
  proof (cases "SerBufInLen s < 5 \<or> cut_frame s off pkt = Inr None")
    case True
    with 1(2) show ?thesis
      by (subst (asm) MessageAssembler.simps) (auto simp: serial_consts split: if_splits)
  next
    case False
    with 1(2) obtain t off' p n where cut: "cut_frame s off pkt = Inr (Some (t, off', p, n))"
      by (subst (asm) MessageAssembler.simps) (auto simp: serial_consts split: sum.splits option.splits)
    with 1(2) False obtain qs where rec: "MessageAssembler t off' p = Inr (s', qs)"
        and ps: "ps = (if xor_bytes (take n p) = 0 then p # qs else qs)"
      by (subst (asm) MessageAssembler.simps) (auto simp: serial_consts returns_iff split: if_splits)
    have "5 * length qs + SerBufInLen s' \<le> SerBufInLen t"
      using 1(1) [OF _ cut refl refl refl refl rec] False by (simp add: serial_consts)
    moreover have "SerBufInLen t + n + 1 + off' = SerBufInLen s" "4 \<le> n"
      using cut_frame_len [OF cut] by blast+
    ultimately show ?thesis using ps by auto
  qed
qed

section \<open>Examples\<close>

theorem SerialRcv_queue_witness:
  "contents (SerialRcv MTIntfInit [0xFE, 0, 0x21]) = [0xFE, 0, 0x21] \<and>
   SerBufIn (SerialRcv (SerialRcv MTIntfInit (replicate 511 1)) [2, 3]) ! 0 = 3"
proof -
  have init: "ser_wf MTIntfInit" "contents MTIntfInit = []" "SerBufInLen MTIntfInit = 0"
    by (simp_all add: ser_wf_def MTIntfInit_def serial_consts contents_def)
  let ?s = "SerialRcv MTIntfInit (replicate 511 1)"
  have full: "ser_wf ?s" "SerBufInLen ?s = 511"
    using received [of "replicate 511 1"] length_contents [of ?s] by simp_all
  have "SerBufInHead ?s = 0"
    using put_bytes_shape [of MTIntfInit "replicate 511 1"] SerialRcv_put [of MTIntfInit "replicate 511 1"]
    by (simp add: MTIntfInit_def serial_consts)
  then have "SerBufIn (SerialRcv ?s [2, 3]) ! 0 = 3"
    using SerialRcv_queue [OF full(1), of "[2, 3]"] by (auto simp: full(2))
  moreover have "contents (SerialRcv MTIntfInit [0xFE, 0, 0x21]) = [0xFE, 0, 0x21]"
    using SerialRcv_queue [OF init(1), of "[0xFE, 0, 0x21]"] by (simp add: init)
  ultimately show ?thesis by blast
qed

text \<open>Two frames, the second with a wrong checksum, and the start of a third.\<close>

theorem MessageAssembler_frames_witness:
  "\<exists>s' ps. MessageAssembler (SerialRcv MTIntfInit
       [0xFE, 0, 0x21, 0x01, 0x20, 0xFE, 1, 0x41, 0x80, 7, 9, 0xFE, 2, 0x61]) 0 (replicate 256 0)
     = Inr (s', ps) \<and> ser_wf s' \<and> contents s' = [0xFE, 2, 0x61] \<and> map packet ps = [[0, 0x21, 0x01, 0x20]]"
  using received [of "[0xFE, 0, 0x21, 0x01, 0x20, 0xFE, 1, 0x41, 0x80, 7, 9, 0xFE, 2, 0x61]"]
    MessageAssembler_frames [of "SerialRcv MTIntfInit [0xFE, 0, 0x21, 0x01, 0x20, 0xFE, 1, 0x41, 0x80, 7, 9, 0xFE, 2, 0x61]"
      "replicate 256 0" "[[0, 0x21, 0x01, 0x20], [1, 0x41, 0x80, 7, 9]]" "[0xFE, 2, 0x61]"]
  by (simp add: framed_def incomplete_def MT_SOF_def xor_bytes_def)

theorem stale_offset_witness:
  "\<exists>s' ps. MessageAssembler (SerialRcv MTIntfInit
       [5, 0xFE, 0, 0x21, 0x01, 0x20, 0xFE, 0, 0x41, 0x80, 0xC1, 0xFE, 3]) 0 (replicate 256 0)
     = Inr (s', ps) \<and> contents s' = [0xFE]"
  using received [of "[5, 0xFE, 0, 0x21, 0x01, 0x20, 0xFE, 0, 0x41, 0x80, 0xC1, 0xFE, 3]"]
    stale_offset [of "SerialRcv MTIntfInit [5, 0xFE, 0, 0x21, 0x01, 0x20, 0xFE, 0, 0x41, 0x80, 0xC1, 0xFE, 3]"
      "replicate 256 0" "[5]" "[0, 0x21, 0x01, 0x20]" "[0, 0x41, 0x80, 0xC1]" "[0xFE, 3]"]
  by (auto simp: framed_def MT_SOF_def)

theorem PacketBuffer_overflow_witness:
  "MessageAssembler (SerialRcv MTIntfInit (0xFE # 0xFD # replicate 256 0)) 0 (replicate 256 0) = Inl OobWrite"
  using received [of "0xFE # 0xFD # replicate 256 0"]
    PacketBuffer_overflow [of "SerialRcv MTIntfInit (0xFE # 0xFD # replicate 256 0)" "replicate 256 0" "[]"
      "0xFD # replicate 256 0" "[]"]
  by (simp add: framed_def MT_SOF_def)

theorem MessageAssembler_bounded_witness:
  "MessageAssembler MTIntfInit 0 [] = Inr (MTIntfInit, []) \<and>
   5 * length ([] :: byte list list) + SerBufInLen MTIntfInit \<le> SerBufInLen MTIntfInit"
proof -
  have "MessageAssembler MTIntfInit 0 [] = Inr (MTIntfInit, [])"
    by (subst MessageAssembler.simps) (simp add: MTIntfInit_def serial_consts)
  with MessageAssembler_bounded [OF this] show ?thesis by blast
qed

end
