(* ===== verification/MtProc.thy ===== *)
theory MtProc
  imports SerialLink
begin

text \<open>
  The MT frame layer of hal/source/mtproc.c: building a command with its checksum, and routing
  a received frame to the processing function of its subsystem.
\<close>

section \<open>Messages\<close>

text \<open>\<^verbatim>\<open>mtMessage_t\<close>, without the start byte that no operation uses; \<open>pData\<close> has 256 bytes.\<close>

record mtMessage =
  cmdType :: byte
  cmdId :: byte
  dataLength :: byte
  pData :: "byte list"

definition mtMessage_wf :: "mtMessage \<Rightarrow> bool" where
  "mtMessage_wf m \<longleftrightarrow> length (pData m) = 256"

section \<open>Building a command\<close>

definition SPI_0DATA_MSG_LEN :: nat where "SPI_0DATA_MSG_LEN = 5"

text \<open>The length argument of \<^verbatim>\<open>CmdFCSCal\<close> is a \<^verbatim>\<open>uint8_t\<close>.\<close>

definition CmdFCSCal :: "byte list \<Rightarrow> byte \<Rightarrow> ub + byte" where
  "CmdFCSCal pBuf dataLen =
     (if unat dataLen \<le> length pBuf then Inr (xor_bytes (take (unat dataLen) pBuf)) else Inl OobRead)"

text \<open>
  \<open>cmd_ptr\<close> is what \<^verbatim>\<open>malloc\<close> returned: no block, or one of \<^verbatim>\<open>dataLen + 5\<close> bytes with arbitrary
  contents.  The result are the bytes given to \<^verbatim>\<open>SerialSend\<close>, or \<open>None\<close> when nothing is sent.
\<close>

definition MTBuildAndSendCmd ::
    "byte list option \<Rightarrow> byte \<Rightarrow> byte \<Rightarrow> byte \<Rightarrow> byte list option \<Rightarrow> ub + byte list option" where
  "MTBuildAndSendCmd cmd_ptr ctype cid dataLen pdata =
     (case cmd_ptr of None \<Rightarrow> Inr None
      | Some p \<Rightarrow>
          let n = unat dataLen in
          bindE (memcpy_to p 0 [MT_SOF, dataLen, ctype, cid]) (\<lambda>p.
          bindE (case pdata of None \<Rightarrow> Inr p | Some d \<Rightarrow> memcpy2 p 4 d 0 n) (\<lambda>p.
          bindE (CmdFCSCal (drop 1 p) (dataLen + 3)) (\<lambda>fcs.
          bindE (wr p (n + SPI_0DATA_MSG_LEN - 1) fcs) (\<lambda>p.
            if n + SPI_0DATA_MSG_LEN \<le> length p then Inr (Some (take (n + SPI_0DATA_MSG_LEN) p))
            else Inl OobRead)))))"

definition mtBuildAndSendCmd :: "byte list option \<Rightarrow> mtMessage \<Rightarrow> ub + byte list option" where
  "mtBuildAndSendCmd cmd_ptr m = MTBuildAndSendCmd cmd_ptr (cmdType m) (cmdId m) (dataLength m) (Some (pData m))"

fun ByteReverse_loop :: "byte list \<Rightarrow> nat \<Rightarrow> nat \<Rightarrow> nat \<Rightarrow> byte list \<Rightarrow> ub + byte list" where
  "ByteReverse_loop pBuf BufLen i 0 dest = Inr dest"
| "ByteReverse_loop pBuf BufLen i (Suc k) dest =
     bindE (rd pBuf (BufLen - 1 - i)) (\<lambda>b. bindE (wr dest i b) (\<lambda>dest. ByteReverse_loop pBuf BufLen (Suc i) k dest))"

definition ByteReverse :: "byte list \<Rightarrow> nat \<Rightarrow> byte list \<Rightarrow> ub + byte list" where
  "ByteReverse pBuf BufLen dest = ByteReverse_loop pBuf BufLen 0 BufLen dest"

section \<open>Routing\<close>

text \<open>The processing functions the table can hold; \<open>Registered\<close> are those added at run time.\<close>

datatype mt_handler =
    MT_SysCommandProcessing | MT_AfCommandProcessing | MT_ZdoCommandProcessing
  | MT_UtilCommandProcessing | MT_DebugCommandProcessing | Registered nat

definition mtProcessIncoming :: "mt_handler option list" where
  "mtProcessIncoming =
     [None, Some MT_SysCommandProcessing, None, None, Some MT_AfCommandProcessing,
      Some MT_ZdoCommandProcessing, None, Some MT_UtilCommandProcessing, Some MT_DebugCommandProcessing,
      None, None, None, None, None, None]"

definition MT_RPC_DATA_MAX :: byte where "MT_RPC_DATA_MAX = 250"
definition MT_RPC_SYS_MAX :: nat where "MT_RPC_SYS_MAX = 14"
definition MT_RPC_SUBSYSTEM_MASK :: byte where "MT_RPC_SUBSYSTEM_MASK = 0x1F"

lemmas mt_consts = SPI_0DATA_MSG_LEN_def MT_RPC_DATA_MAX_def MT_RPC_SYS_MAX_def MT_RPC_SUBSYSTEM_MASK_def

text \<open>What becomes of a received frame; the error codes are computed and dropped by the code.\<close>

datatype route =
    ErrLength | OutOfBand | Handled mt_handler | DebugUnknown nat | ErrSubsystem

definition StartMT_Af :: "mt_handler option list \<Rightarrow> mt_handler option list" where
  "StartMT_Af table = table[4 := Some MT_AfCommandProcessing]"

definition subsystem_of :: "byte \<Rightarrow> nat" where
  "subsystem_of cmd0 = unat (cmd0 AND MT_RPC_SUBSYSTEM_MASK)"

definition MT_ProcessIncoming ::
    "mt_handler option list \<Rightarrow> (byte list \<Rightarrow> int) \<Rightarrow> byte list \<Rightarrow> ub + route" where
  "MT_ProcessIncoming table OutOfBandMessageProcess pBuf =
     bindE (rd pBuf 1) (\<lambda>cmd0. bindE (rd pBuf 2) (\<lambda>cmd1. bindE (rd pBuf 0) (\<lambda>len.
       if len > MT_RPC_DATA_MAX then Inr ErrLength
       else if subsystem_of cmd0 < MT_RPC_SYS_MAX then
         if OutOfBandMessageProcess pBuf = 0 then Inr OutOfBand
         else bindE (rd table (subsystem_of cmd0)) (\<lambda>func.
           case func of Some f \<Rightarrow> Inr (Handled f) | None \<Rightarrow> Inr (DebugUnknown (unat len + 3)))
       else Inr ErrSubsystem)))"

definition registerSubsystemCb ::
    "mt_handler option list \<Rightarrow> byte \<Rightarrow> mt_handler \<Rightarrow> ub + (int \<times> mt_handler option list)" where
  "registerSubsystemCb table subsystem callback =
     bindE (rd table (unat subsystem)) (\<lambda>old.
       if old = None then Inr (0, table[unat subsystem := Some callback]) else Inr (-1, table))"

section \<open>Lemmas\<close>

lemma fold_xor: "fold (\<lambda>b c. c XOR b) bs (a :: byte) = a XOR fold (\<lambda>b c. c XOR b) bs 0"
proof (induction bs arbitrary: a)
  case Nil
  then show ?case by simp
next
  case (Cons b bs)
  show ?case
    using Cons.IH [of "a XOR b"] Cons.IH [of b] by (simp add: xor.assoc)
qed

lemma xor_bytes_simps [simp]:
  "xor_bytes [] = 0" "xor_bytes (b # bs) = b XOR xor_bytes bs"
  by (simp_all add: xor_bytes_def fold_xor [of _ b])

lemma xor_bytes_append: "xor_bytes (xs @ ys) = xor_bytes xs XOR xor_bytes ys"
  by (induction xs) (simp_all add: xor.assoc)

text \<open>The frame a command becomes, without its start byte.\<close>

definition frame_body :: "byte \<Rightarrow> byte \<Rightarrow> byte list \<Rightarrow> byte list" where
  "frame_body ctype cid d = of_nat (length d) # ctype # cid # d"

definition frame :: "byte \<Rightarrow> byte \<Rightarrow> byte list \<Rightarrow> byte list" where
  "frame ctype cid d = frame_body ctype cid d @ [xor_bytes (frame_body ctype cid d)]"

lemma unat_len: "length d \<le> 255 \<Longrightarrow> unat (of_nat (length d) :: byte) = length d"
  by (simp add: unat_of_nat)

lemma framed_frame: "length d \<le> 252 \<Longrightarrow> framed (frame ctype cid d) \<and> length (frame ctype cid d) \<le> 256"
  by (simp add: framed_def frame_def frame_body_def unat_len)

lemma xor_frame: "xor_bytes (frame ctype cid d) = 0"
  by (simp add: frame_def xor_bytes_append)

text \<open>What the builder computes, for any length: the checksum covers \<open>(n + 3) mod 256\<close> bytes.\<close>

lemma MTBuildAndSendCmd_eq:
  assumes "length p = length d + 5" and "length d \<le> 255"
  shows "MTBuildAndSendCmd (Some p) ctype cid (of_nat (length d)) (Some (d @ extra)) =
    Inr (Some (MT_SOF # frame_body ctype cid d @
      [xor_bytes (take ((length d + 3) mod 256) (frame_body ctype cid d))]))"
proof -
  let ?n = "of_nat (length d) :: byte" and ?b = "frame_body ctype cid d"
  have n: "unat ?n = length d" using assms(2) by (rule unat_len)
  have n3: "unat (?n + 3) = (length d + 3) mod 256"
    using unat_of_nat [where 'a = 8 and x = "length d + 3"] by simp
  have "length p = Suc (Suc (Suc (Suc (length d + 1))))" using assms(1) by simp
  then obtain x0 x1 x2 x3 r where r: "p = x0 # x1 # x2 # x3 # r" "length r = length d + 1"
    by (auto simp: length_Suc_conv)
  moreover obtain q z where "r = q @ [z]" using r(2) by (cases r rule: rev_cases) auto
  ultimately have p: "p = [x0, x1, x2, x3] @ q @ [z]" "length q = length d" by simp_all
  have hdr: "memcpy_to p 0 [MT_SOF, ?n, ctype, cid] = Inr ([MT_SOF, ?n, ctype, cid] @ q @ [z])"
    using p by (simp add: memcpy_to_def blit_def)
  have body: "memcpy2 ([MT_SOF, ?n, ctype, cid] @ q @ [z]) 4 (d @ extra) 0 (length d)
      = Inr (MT_SOF # ?b @ [z])"
    using p(2) by (simp add: memcpy2_def memcpy_to_def blit_def slice_def frame_body_def numeral_eq_Suc)
  have le: "(length d + 3) mod 256 \<le> length ?b" by (simp add: frame_body_def)
  have fcs: "CmdFCSCal (drop 1 (MT_SOF # ?b @ [z])) (?n + 3)
      = Inr (xor_bytes (take ((length d + 3) mod 256) ?b))"
    using le by (simp add: CmdFCSCal_def n3)
  have put: "(MT_SOF # ?b @ [z])[length d + SPI_0DATA_MSG_LEN - 1 := w] = MT_SOF # ?b @ [w]" for w
    by (simp add: mt_consts frame_body_def list_update_append)
  have len: "length (MT_SOF # ?b @ [w]) = length d + 5" for w
    by (simp add: frame_body_def)
  show ?thesis
    unfolding MTBuildAndSendCmd_def Let_def n option.case hdr bindE_simps body fcs
    using put len by (simp add: wr_def mt_consts)
qed

text \<open>Routing of a packet that has its three header bytes, as every packet of the assembler has.\<close>

lemma MT_ProcessIncoming_eq:
  "3 \<le> length pBuf \<Longrightarrow> length table = 15 \<Longrightarrow>
   MT_ProcessIncoming table oob pBuf =
     (if \<not> pBuf ! 0 \<le> MT_RPC_DATA_MAX then Inr ErrLength
      else if \<not> subsystem_of (pBuf ! 1) < 14 then Inr ErrSubsystem
      else if oob pBuf = 0 then Inr OutOfBand
      else case table ! subsystem_of (pBuf ! 1) of
             Some f \<Rightarrow> Inr (Handled f) | None \<Rightarrow> Inr (DebugUnknown (unat (pBuf ! 0) + 3)))"
proof -
  assume len: "3 \<le> length pBuf" "length table = 15"
  then have "rd pBuf 0 = Inr (pBuf ! 0)" "rd pBuf 1 = Inr (pBuf ! 1)" "rd pBuf 2 = Inr (pBuf ! 2)"
    by (simp_all add: rd_def) auto
  with len show ?thesis
    by (simp add: MT_ProcessIncoming_def MT_RPC_SYS_MAX_def not_le)
qed

section \<open>Properties\<close>

type_synonym command = "byte \<times> byte \<times> byte list"

definition body_of :: "command \<Rightarrow> byte list" where
  "body_of c = (case c of (ctype, cid, d) \<Rightarrow> frame ctype cid d)"

definition wire :: "command list \<Rightarrow> byte list" where
  "wire cs = concat (map ((#) MT_SOF) (map body_of cs))"

text \<open>
  C2: Commands survive the wire.  For commands of at most 252 data bytes the builder sends a
  start byte and a frame; the concatenated frames of any list of such commands, received into
  an empty ring that is large enough, come out of the assembler one by one, unchanged, in
  order, none dropped and nothing left over.
\<close>

theorem mt_wire_roundtrip:
  assumes "\<forall>(ctype, cid, d) \<in> set cs. length d \<le> 252" and "length (wire cs) \<le> 512"
  shows "(\<forall>(ctype, cid, d) \<in> set cs. \<forall>p extra. length p = length d + 5 \<longrightarrow>
      MTBuildAndSendCmd (Some p) ctype cid (of_nat (length d)) (Some (d @ extra))
        = Inr (Some (MT_SOF # frame ctype cid d))) \<and>
    (\<exists>s' ps. MessageAssembler (SerialRcv MTIntfInit (wire cs)) 0 (replicate 256 0) = Inr (s', ps) \<and>
      contents s' = [] \<and> map packet ps = map body_of cs)"
proof -
  have build: "MTBuildAndSendCmd (Some p) ctype cid (of_nat (length d)) (Some (d @ extra))
      = Inr (Some (MT_SOF # frame ctype cid d))"
    if "length p = length d + 5" "length d \<le> 252" for p ctype cid d extra
    using that MTBuildAndSendCmd_eq [of p d ctype cid extra] by (simp add: frame_def frame_body_def)
  let ?s = "SerialRcv MTIntfInit (wire cs)"
  have s: "ser_wf ?s" "contents ?s = wire cs" using received [OF assms(2)] by blast+
  have fs: "\<forall>f \<in> set (map body_of cs). framed f \<and> length f \<le> 256"
    using assms(1) framed_frame by (fastforce simp: body_of_def)
  have xor: "filter (\<lambda>f. xor_bytes f = 0) (map body_of cs) = map body_of cs"
    by (rule filter_True) (auto simp: body_of_def xor_frame)
  have "asm_abs (contents ?s) 0 = Inr ([], map body_of cs)"
    using asm_abs_frames [OF fs, of "[]"] xor s(2) by (simp add: incomplete_def wire_def)
  from MessageAssembler_abs(2) [OF s(1) _ this, of "replicate 256 0"] show ?thesis
    using build assms(1) by fastforce
qed

theorem mt_wire_roundtrip_witness:
  "\<exists>s' ps. MessageAssembler (SerialRcv MTIntfInit (wire [(0x21, 0x01, []), (0x25, 0x36, [0, 0, 60, 0])])) 0
       (replicate 256 0) = Inr (s', ps) \<and> contents s' = [] \<and>
     map packet ps = [[0, 0x21, 0x01, 0x20], [4, 0x25, 0x36, 0, 0, 60, 0, 43]]"
  using mt_wire_roundtrip [of "[(0x21, 0x01, []), (0x25, 0x36, [0, 0, 60, 0])]"]
  by (simp add: wire_def body_of_def frame_def frame_body_def)

text \<open>
  The checksum length wraps.  For 253 to 255 data bytes \<^verbatim>\<open>dataLen + 3\<close> exceeds the \<^verbatim>\<open>uint8_t\<close>
  argument of \<^verbatim>\<open>CmdFCSCal\<close>, so the checksum covers only the first \<open>n - 253\<close> bytes of the frame
  and the receiver's check sum is the exclusive or of all the others, in place of 0.
\<close>

theorem FCS_wraps:
  assumes "253 \<le> length d" and "length d \<le> 255" and "length p = length d + 5"
  shows "\<exists>fcs. MTBuildAndSendCmd (Some p) ctype cid (of_nat (length d)) (Some d)
      = Inr (Some (MT_SOF # frame_body ctype cid d @ [fcs])) \<and>
    fcs = xor_bytes (take (length d - 253) (frame_body ctype cid d)) \<and>
    xor_bytes (frame_body ctype cid d @ [fcs]) = xor_bytes (drop (length d - 253) (frame_body ctype cid d))"
proof -
  let ?b = "frame_body ctype cid d" and ?k = "length d - 253"
  have "(length d + 3) mod 256 = ?k" using assms(1,2) by (simp add: mod_if)
  then have "MTBuildAndSendCmd (Some p) ctype cid (of_nat (length d)) (Some d)
      = Inr (Some (MT_SOF # ?b @ [xor_bytes (take ?k ?b)]))"
    using MTBuildAndSendCmd_eq [OF assms(3,2), of ctype cid "[]"] by simp
  moreover have "xor_bytes ?b = xor_bytes (take ?k ?b) XOR xor_bytes (drop ?k ?b)"
    by (simp flip: xor_bytes_append)
  ultimately show ?thesis by (simp add: xor_bytes_append xor.commute xor.left_commute)
qed

theorem FCS_wraps_witness:
  "\<exists>fcs. MTBuildAndSendCmd (Some (replicate 258 0)) 0x24 0x01 253 (Some (replicate 253 0))
      = Inr (Some (MT_SOF # frame_body 0x24 0x01 (replicate 253 0) @ [fcs])) \<and> fcs = 0"
  using FCS_wraps [of "replicate 253 0" "replicate 258 0" "0x24" "0x01"] by auto

text \<open>
  Registration and routing fit together.  A free subsystem can be registered once; after
  that exactly the frames of that subsystem, if not too long and not claimed out of band, go
  to the callback, and all other frames go where they went before.  An occupied subsystem is
  left alone with result -1; subsystem 14 is accepted although no frame is ever routed to it;
  from 15 on the unchecked index leaves the table.
\<close>

theorem registerSubsystemCb_routes:
  assumes "length table = 15"
  shows "(15 \<le> unat sub \<longrightarrow> registerSubsystemCb table sub cb = Inl OobRead) \<and>
    (unat sub < 15 \<and> table ! unat sub \<noteq> None \<longrightarrow> registerSubsystemCb table sub cb = Inr (-1, table)) \<and>
    (unat sub < 15 \<and> table ! unat sub = None \<longrightarrow>
      (\<exists>table'. registerSubsystemCb table sub cb = Inr (0, table') \<and> length table' = 15 \<and>
        (\<forall>oob pBuf. 3 \<le> length pBuf \<longrightarrow>
           MT_ProcessIncoming table' oob pBuf =
             (if pBuf ! 0 \<le> MT_RPC_DATA_MAX \<and> subsystem_of (pBuf ! 1) = unat sub \<and> unat sub < 14 \<and> oob pBuf \<noteq> 0
              then Inr (Handled cb) else MT_ProcessIncoming table oob pBuf))))"
proof (intro conjI impI)
  show "15 \<le> unat sub \<Longrightarrow> registerSubsystemCb table sub cb = Inl OobRead"
    using assms by (simp add: registerSubsystemCb_def)
  show "unat sub < 15 \<and> table ! unat sub \<noteq> None \<Longrightarrow> registerSubsystemCb table sub cb = Inr (-1, table)"
    using assms by (simp add: registerSubsystemCb_def)
next
  let ?t = "table[unat sub := Some cb]"
  assume sub: "unat sub < 15 \<and> table ! unat sub = None"
  have route: "MT_ProcessIncoming ?t oob pBuf =
      (if pBuf ! 0 \<le> MT_RPC_DATA_MAX \<and> subsystem_of (pBuf ! 1) = unat sub \<and> unat sub < 14 \<and> oob pBuf \<noteq> 0
       then Inr (Handled cb) else MT_ProcessIncoming table oob pBuf)" if "3 \<le> length pBuf" for oob pBuf
    using sub that assms
    by (auto simp: MT_ProcessIncoming_eq nth_list_update)
  have "registerSubsystemCb table sub cb = Inr (0, ?t)"
    using sub assms by (simp add: registerSubsystemCb_def)
  then show "\<exists>table'. registerSubsystemCb table sub cb = Inr (0, table') \<and> length table' = 15 \<and>
      (\<forall>oob pBuf. 3 \<le> length pBuf \<longrightarrow>
         MT_ProcessIncoming table' oob pBuf =
           (if pBuf ! 0 \<le> MT_RPC_DATA_MAX \<and> subsystem_of (pBuf ! 1) = unat sub \<and> unat sub < 14 \<and> oob pBuf \<noteq> 0
            then Inr (Handled cb) else MT_ProcessIncoming table oob pBuf))"
    using route assms by (intro exI [of _ ?t]) simp
qed

theorem registerSubsystemCb_routes_witness:
  "\<exists>table'. registerSubsystemCb mtProcessIncoming 0x0D (Registered 7) = Inr (0, table') \<and>
     MT_ProcessIncoming table' (\<lambda>_. -1) [0, 0x4D, 0x80, 0xCD] = Inr (Handled (Registered 7))"
proof -
  have "length mtProcessIncoming = 15" "mtProcessIncoming ! unat (0x0D :: byte) = None"
    by (simp_all add: mtProcessIncoming_def)
  moreover have "subsystem_of 0x4D = unat (0x0D :: byte)"
    by (simp add: subsystem_of_def mt_consts)
  ultimately show ?thesis
    using registerSubsystemCb_routes [of mtProcessIncoming "0x0D" "Registered 7"]
    by (fastforce simp: mt_consts)
qed

end
