(* ===== verification/MtHelper.thy ===== *)
theory MtHelper
  imports MtProc
begin

text \<open>
  The request/response layer of hal/source/mt_helper.cpp: \<^verbatim>\<open>mtSend\<close> with its \<^verbatim>\<open>sendThread\<close>,
  \<^verbatim>\<open>mtRecv\<close> with its \<^verbatim>\<open>recvThread\<close>, and the resource record of one subsystem they share.  The
  sections under the record's mutex are atomic steps, every other statement that touches the
  record is a step of its own, and any number of senders interleave with the receiving thread.
  Two things live on the stack of an \<^verbatim>\<open>mtSend\<close> call, its status variable and its response
  buffer; the record keeps pointing to them after the call has returned.
\<close>

section \<open>State\<close>

text \<open>
  A call of \<^verbatim>\<open>mtSend\<close> with a return buffer: \<open>S_wait\<close> before \<^verbatim>\<open>sem_wait\<close>, \<open>S_setup\<close> before the
  record is filled in, \<open>S_send\<close> before \<^verbatim>\<open>sendThread\<close> takes the mutex, \<open>S_cond\<close> inside
  \<^verbatim>\<open>pthread_cond_timedwait\<close>, \<open>S_post\<close> before \<^verbatim>\<open>sem_post\<close>, \<open>S_done\<close> returned.
\<close>

datatype send_pc = S_wait | S_setup | S_send | S_cond | S_post | S_done

record mt_call =
  send_pc :: send_pc
  request_id :: byte
  rtn :: int
  returnBuffer :: "byte list option"

type_synonym response = "byte \<times> byte list"

text \<open>The receiving thread: idle, past the \<^verbatim>\<open>rspCmdId\<close> test, or with \<^verbatim>\<open>recvThread\<close> started.\<close>

datatype recv_pc = R_idle | R_try response | R_thread response

text \<open>
  \<open>owner\<close> is the call \<^verbatim>\<open>sendStatus\<close> and \<^verbatim>\<open>returnBuffer\<close> point into.  \<open>sent\<close> is not in the code: the call
  whose request the device has received and not answered yet.
\<close>

record mt_resource =
  sem :: nat
  rspCmdId :: byte
  owner :: "nat option"
  calls :: "mt_call list"
  recv :: recv_pc
  sent :: "nat option"
  dangling :: bool

definition mtHelperInit :: "byte list \<Rightarrow> mt_resource" where
  "mtHelperInit ids =
     \<lparr>sem = 1, rspCmdId = 0, owner = None,
      calls = map (\<lambda>c. \<lparr>send_pc = S_wait, request_id = c, rtn = -1, returnBuffer = None\<rparr>) ids,
      recv = R_idle, sent = None, dangling = False\<rparr>"

section \<open>The sender\<close>

definition set_pc :: "nat \<Rightarrow> send_pc \<Rightarrow> mt_resource \<Rightarrow> mt_resource" where
  "set_pc i p s = s\<lparr>calls := (calls s)[i := (calls s ! i)\<lparr>send_pc := p\<rparr>]\<rparr>"

text \<open>
  The statements of \<^verbatim>\<open>mtSend\<close>; \<open>None\<close> blocks.  \<^verbatim>\<open>sendThread\<close> holds the mutex from before it
  writes the request until it waits, so writing and starting to wait are one step.
\<close>

definition mtSend_step :: "nat \<Rightarrow> mt_resource \<Rightarrow> mt_resource option" where
  "mtSend_step i s =
     (case send_pc (calls s ! i) of
        S_wait \<Rightarrow> if sem s = 0 then None else Some (set_pc i S_setup (s\<lparr>sem := sem s - 1\<rparr>))
      | S_setup \<Rightarrow> Some (set_pc i S_send (s\<lparr>rspCmdId := request_id (calls s ! i), owner := Some i\<rparr>))
      | S_send \<Rightarrow> Some (set_pc i S_cond (s\<lparr>sent := Some i\<rparr>))
      | S_cond \<Rightarrow> None
      | S_post \<Rightarrow> Some (set_pc i S_done (s\<lparr>sem := sem s + 1\<rparr>))
      | S_done \<Rightarrow> None)"

text \<open>The wait ends without a signal: after one second, or spuriously.\<close>

definition sendThread_wake :: "nat \<Rightarrow> mt_resource \<Rightarrow> mt_resource option" where
  "sendThread_wake i s =
     (if send_pc (calls s ! i) = S_cond then Some (set_pc i S_post s) else None)"

section \<open>The receiver\<close>

text \<open>\<^verbatim>\<open>mtRecv\<close> up to the semaphore: a frame that is not the awaited command is refused.\<close>

definition mtRecv_match :: "response \<Rightarrow> mt_resource \<Rightarrow> mt_resource" where
  "mtRecv_match x s = (if rspCmdId s \<noteq> fst x then s else s\<lparr>recv := R_try x\<rparr>)"

text \<open>\<^verbatim>\<open>sem_trywait\<close>: if it succeeds nobody waits, the semaphore is posted back and -1 returned.\<close>

definition mtRecv_try :: "response \<Rightarrow> mt_resource \<Rightarrow> mt_resource" where
  "mtRecv_try x s = (if 0 < sem s then s\<lparr>recv := R_idle\<rparr> else s\<lparr>recv := R_thread x\<rparr>)"

text \<open>
  \<^verbatim>\<open>recvThread\<close> under the mutex: copy the response, set the status, signal the waiting sender.
  Writing through the pointers of a call that has returned is the fault \<open>dangling\<close>.
\<close>

definition signal :: "mt_call \<Rightarrow> mt_call" where
  "signal c = (if send_pc c = S_cond then c\<lparr>send_pc := S_post\<rparr> else c)"

definition recvThread :: "response \<Rightarrow> mt_resource \<Rightarrow> mt_resource" where
  "recvThread x s =
     (case owner s of
        None \<Rightarrow> s\<lparr>dangling := True, recv := R_idle\<rparr>
      | Some o' \<Rightarrow>
          if o' < length (calls s) \<and> send_pc (calls s ! o') \<noteq> S_done
          then s\<lparr>calls := map signal ((calls s)[o' := (calls s ! o')\<lparr>rtn := 0, returnBuffer := Some (snd x)\<rparr>]),
                 recv := R_idle\<rparr>
          else s\<lparr>dangling := True, recv := R_idle\<rparr>)"

section \<open>The step relation\<close>

text \<open>
  \<open>mt_step answer ideal\<close>: with \<open>ideal\<close> the device answers each request once, with the command id
  of the request and the data \<open>answer i\<close>, and always in time; otherwise any frame can arrive at
  any moment and any wait can run out.
\<close>

inductive mt_step :: "(nat \<Rightarrow> byte list) \<Rightarrow> bool \<Rightarrow> mt_resource \<Rightarrow> mt_resource \<Rightarrow> bool"
  for answer ideal where
  mt_send: "i < length (calls s) \<Longrightarrow> mtSend_step i s = Some t \<Longrightarrow> mt_step answer ideal s t"
| mt_wake: "\<not> ideal \<Longrightarrow> i < length (calls s) \<Longrightarrow> sendThread_wake i s = Some t \<Longrightarrow> mt_step answer ideal s t"
| mt_answer: "recv s = R_idle \<Longrightarrow> sent s = Some i \<Longrightarrow> i < length (calls s) \<Longrightarrow>
    mt_step answer ideal s (mtRecv_match (request_id (calls s ! i), answer i) (s\<lparr>sent := None\<rparr>))"
| mt_frame: "\<not> ideal \<Longrightarrow> recv s = R_idle \<Longrightarrow> mt_step answer ideal s (mtRecv_match x s)"
| mt_try: "recv s = R_try x \<Longrightarrow> mt_step answer ideal s (mtRecv_try x s)"
| mt_recv: "recv s = R_thread x \<Longrightarrow> mt_step answer ideal s (recvThread x s)"

definition mt_start :: "mt_resource \<Rightarrow> bool" where
  "mt_start s \<longleftrightarrow> (\<exists>ids. s = mtHelperInit ids)"

section \<open>The invariant of ideal runs\<close>

fun holds_sem :: "mt_call \<Rightarrow> nat" where
  "holds_sem c = (if send_pc c \<in> {S_wait, S_done} then 0 else 1)"

definition call_ok :: "(nat \<Rightarrow> byte list) \<Rightarrow> nat option \<Rightarrow> byte \<Rightarrow> nat \<Rightarrow> mt_call \<Rightarrow> bool" where
  "call_ok answer own rsp i c \<longleftrightarrow>
     (send_pc c \<in> {S_send, S_cond} \<longrightarrow> own = Some i \<and> rsp = request_id c) \<and>
     (send_pc c \<in> {S_post, S_done} \<longrightarrow> rtn c = 0 \<and> returnBuffer c = Some (answer i))"

definition waiting :: "mt_resource \<Rightarrow> nat \<Rightarrow> bool" where
  "waiting s i \<longleftrightarrow> i < length (calls s) \<and> send_pc (calls s ! i) = S_cond"

definition mt_inv :: "(nat \<Rightarrow> byte list) \<Rightarrow> mt_resource \<Rightarrow> bool" where
  "mt_inv answer s \<longleftrightarrow>
     sem s + total holds_sem (calls s) = 1 \<and> \<not> dangling s \<and>
     (\<forall>i < length (calls s). call_ok answer (owner s) (rspCmdId s) i (calls s ! i)) \<and>
     (\<forall>i. sent s = Some i \<longrightarrow> waiting s i \<and> recv s = R_idle) \<and>
     (\<forall>x. recv s = R_try x \<or> recv s = R_thread x \<longrightarrow> (\<exists>i. waiting s i \<and> snd x = answer i)) \<and>
     (\<forall>i. waiting s i \<longrightarrow> sent s \<noteq> None \<or> recv s \<noteq> R_idle)"

lemma mt_invI:
  assumes "sem s + total holds_sem (calls s) = 1" and "\<not> dangling s"
    and "\<And>i. i < length (calls s) \<Longrightarrow> call_ok answer (owner s) (rspCmdId s) i (calls s ! i)"
    and "\<And>i. sent s = Some i \<Longrightarrow> waiting s i \<and> recv s = R_idle"
    and "\<And>x. recv s = R_try x \<or> recv s = R_thread x \<Longrightarrow> \<exists>i. waiting s i \<and> snd x = answer i"
    and "\<And>i. waiting s i \<Longrightarrow> sent s \<noteq> None \<or> recv s \<noteq> R_idle"
  shows "mt_inv answer s"
  using assms unfolding mt_inv_def by blast

lemma mt_invD:
  assumes "mt_inv answer s"
  shows "sem s + total holds_sem (calls s) = 1" and "\<not> dangling s"
    and "\<And>i. i < length (calls s) \<Longrightarrow> call_ok answer (owner s) (rspCmdId s) i (calls s ! i)"
    and "\<And>i. sent s = Some i \<Longrightarrow> waiting s i \<and> recv s = R_idle"
    and "\<And>x. recv s = R_try x \<or> recv s = R_thread x \<Longrightarrow> \<exists>i. waiting s i \<and> snd x = answer i"
    and "\<And>i. waiting s i \<Longrightarrow> sent s \<noteq> None \<or> recv s \<noteq> R_idle"
  using assms unfolding mt_inv_def by blast+

lemma mt_inv_unique:
  assumes "mt_inv answer s" and "i < length (calls s)" and "j < length (calls s)"
    and "send_pc (calls s ! i) \<notin> {S_wait, S_done}" and "send_pc (calls s ! j) \<notin> {S_wait, S_done}"
  shows "i = j"
proof (rule ccontr)
  assume "i \<noteq> j"
  from total_ge2 [OF assms(2,3) this, of holds_sem] assms show False
    by (simp add: mt_inv_def split: if_splits)
qed

lemma mt_inv_busy:
  assumes "mt_inv answer s" and "i < length (calls s)" and "send_pc (calls s ! i) \<notin> {S_wait, S_done}"
  shows "sem s = 0"
  using total_ge [OF assms(2), of holds_sem] assms(1,3) by (simp add: mt_inv_def split: if_splits)

lemma mt_inv_idle:
  assumes "mt_inv answer s" and "0 < sem s" and "i < length (calls s)"
  shows "send_pc (calls s ! i) \<in> {S_wait, S_done}"
  using mt_inv_busy [OF assms(1,3)] assms(2) by auto

lemma calls_set_pc [simp]:
  "length (calls (set_pc i p s)) = length (calls s)"
  "sem (set_pc i p s) = sem s" "sent (set_pc i p s) = sent s" "recv (set_pc i p s) = recv s"
  "owner (set_pc i p s) = owner s" "rspCmdId (set_pc i p s) = rspCmdId s"
  "dangling (set_pc i p s) = dangling s"
  by (simp_all add: set_pc_def)

lemma nth_set_pc:
  "i < length (calls s) \<Longrightarrow> calls (set_pc i p s) ! j =
   (if j = i then (calls s ! i)\<lparr>send_pc := p\<rparr> else calls s ! j)"
  by (simp add: set_pc_def nth_list_update)

lemma total_set_pc:
  "i < length (calls s) \<Longrightarrow>
   total holds_sem (calls (set_pc i p s)) + holds_sem (calls s ! i) =
   total holds_sem (calls s) + (if p \<in> {S_wait, S_done} then 0 else 1)"
  using total_update [of i "calls s" holds_sem "(calls s ! i)\<lparr>send_pc := p\<rparr>"] by (simp add: set_pc_def)

text \<open>When nobody waits, no request is open and the receiver is idle.\<close>

lemma mt_inv_quiet:
  assumes "mt_inv answer s" and "\<And>i. \<not> waiting s i"
  shows "sent s = None" and "recv s = R_idle"
proof -
  show "sent s = None" using mt_invD(4) [OF assms(1)] assms(2) by (cases "sent s") auto
  show "recv s = R_idle" using mt_invD(5) [OF assms(1)] assms(2) by (cases "recv s") auto
qed

text \<open>A step of one call that leaves the others and the receiver alone.\<close>

lemma mt_inv_set_pc:
  assumes inv: "mt_inv answer s" and i: "i < length (calls s)"
    and new: "calls t = calls s" "recv t = recv s" "dangling t = dangling s"
    and sem: "sem t + (if p \<in> {S_wait, S_done} then 0 else 1) = sem s + holds_sem (calls s ! i)"
    and mine: "call_ok answer (owner t) (rspCmdId t) i ((calls s ! i)\<lparr>send_pc := p\<rparr>)"
    and others: "(owner t = owner s \<and> rspCmdId t = rspCmdId s) \<or> send_pc (calls s ! i) = S_setup"
    and sent: "sent t = sent s \<and> send_pc (calls s ! i) \<noteq> S_cond
      \<or> sent t = Some i \<and> p = S_cond \<and> send_pc (calls s ! i) = S_send"
    and cond: "p = S_cond \<Longrightarrow> send_pc (calls s ! i) = S_send \<and> sent t = Some i"
  shows "mt_inv answer (set_pc i p t)"
proof (rule mt_invI)
  have it: "i < length (calls t)" using i new by simp
  show "sem (set_pc i p t) + total holds_sem (calls (set_pc i p t)) = 1"
    using mt_invD(1) [OF inv] total_set_pc [OF it, of p] sem by (simp add: new del: holds_sem.simps)
  show "\<not> dangling (set_pc i p t)" using mt_invD(2) [OF inv] new by simp
  have alone: "\<not> waiting s j" if "send_pc (calls s ! i) \<in> {S_setup, S_send}" for j
    using mt_inv_unique [OF inv i, of j] that by (auto simp: waiting_def)
  show "call_ok answer (owner (set_pc i p t)) (rspCmdId (set_pc i p t)) j (calls (set_pc i p t) ! j)"
    if j: "j < length (calls (set_pc i p t))" for j
  proof (cases "j = i")
    case True
    with mine it show ?thesis by (simp add: nth_set_pc new)
  next
    case False
    with j it have c: "calls (set_pc i p t) ! j = calls s ! j" "j < length (calls s)"
      by (simp_all add: nth_set_pc new)
    have ok: "call_ok answer (owner s) (rspCmdId s) j (calls s ! j)" using mt_invD(3) [OF inv c(2)] .
    show ?thesis
    proof (cases "owner t = owner s \<and> rspCmdId t = rspCmdId s")
      case True
      with ok c show ?thesis by simp
    next
      case False
      then have "send_pc (calls s ! i) = S_setup" using others by blast
      then have "send_pc (calls s ! j) \<in> {S_wait, S_done}"
        using mt_inv_unique [OF inv i c(2)] \<open>j \<noteq> i\<close> by auto
      with ok c show ?thesis by (auto simp: call_ok_def)
    qed
  qed
  have keep: "waiting (set_pc i p t) j" if "waiting s j" "send_pc (calls s ! i) \<noteq> S_cond" for j
    using that it by (auto simp: waiting_def new nth_set_pc)
  show "waiting (set_pc i p t) j \<and> recv (set_pc i p t) = R_idle" if "sent (set_pc i p t) = Some j" for j
  proof (cases "sent t = sent s \<and> send_pc (calls s ! i) \<noteq> S_cond")
    case True
    with that have "sent s = Some j" by simp
    with mt_invD(4) [OF inv] keep True new show ?thesis by simp
  next
    case False
    with sent that have "j = i" "p = S_cond" "send_pc (calls s ! i) = S_send" by auto
    moreover have "recv s = R_idle" using mt_inv_quiet(2) [OF inv] alone calculation by simp
    ultimately show ?thesis using it by (simp add: waiting_def nth_set_pc new)
  qed
  show "\<exists>j. waiting (set_pc i p t) j \<and> snd x = answer j"
    if "recv (set_pc i p t) = R_try x \<or> recv (set_pc i p t) = R_thread x" for x
  proof -
    from that mt_invD(5) [OF inv, of x] new obtain j where j: "waiting s j" "snd x = answer j" by auto
    with sent keep alone show ?thesis by auto
  qed
  show "sent (set_pc i p t) \<noteq> None \<or> recv (set_pc i p t) \<noteq> R_idle" if "waiting (set_pc i p t) j" for j
  proof (cases "sent t = Some i")
    case False
    then have "j \<noteq> i \<or> send_pc (calls s ! i) = p" "sent t = sent s"
      using sent that cond it by (auto simp: waiting_def nth_set_pc)
    then have "waiting s j" using that it by (auto simp: waiting_def nth_set_pc new split: if_splits)
    with mt_invD(6) [OF inv] \<open>sent t = sent s\<close> new show ?thesis by simp
  qed simp
qed

lemma mt_inv_send:
  assumes inv: "mt_inv answer s" and i: "i < length (calls s)" and step: "mtSend_step i s = Some t"
  shows "mt_inv answer t"
  using step mt_invD(3) [OF inv i] 
  by (cases "send_pc (calls s ! i)")
    (auto simp: mtSend_step_def call_ok_def split: if_splits intro!: mt_inv_set_pc [OF inv i])

lemma mt_inv_wait:
  assumes inv: "mt_inv answer s" and w: "waiting s i"
  shows "owner s = Some i" and "rspCmdId s = request_id (calls s ! i)" and "sem s = 0"
    and "j < length (calls s) \<Longrightarrow> j \<noteq> i \<Longrightarrow> send_pc (calls s ! j) \<in> {S_wait, S_done}"
proof -
  have i: "i < length (calls s)" "send_pc (calls s ! i) = S_cond" using w by (simp_all add: waiting_def)
  show "owner s = Some i" "rspCmdId s = request_id (calls s ! i)"
    using mt_invD(3) [OF inv i(1)] i(2) by (simp_all add: call_ok_def)
  show "sem s = 0" using mt_inv_busy [OF inv i(1)] i(2) by simp
  show "send_pc (calls s ! j) \<in> {S_wait, S_done}" if "j < length (calls s)" "j \<noteq> i"
    using mt_inv_unique [OF inv that(1) i(1)] that(2) i(2) by auto
qed

lemma total_map_signal: "total holds_sem (map signal cs) = total holds_sem cs"
  by (induction cs) (auto simp: signal_def)

lemma mt_inv_recvThread:
  assumes inv: "mt_inv answer s" and recv: "recv s = R_thread x"
  shows "mt_inv answer (recvThread x s)"
proof -
  from mt_invD(5) [OF inv] recv obtain i where w: "waiting s i" "snd x = answer i" by blast
  then have i: "i < length (calls s)" "send_pc (calls s ! i) = S_cond" by (simp_all add: waiting_def)
  note wt = mt_inv_wait [OF inv w(1)]
  let ?c = "(calls s ! i)\<lparr>rtn := 0, returnBuffer := Some (answer i)\<rparr>"
  define cs where "cs = map signal ((calls s)[i := ?c])"
  have eq: "recvThread x s = s\<lparr>calls := cs, recv := R_idle\<rparr>"
    using wt(1) i w(2) by (simp add: recvThread_def cs_def)
  have sent: "sent s = None" using mt_invD(4) [OF inv] recv by (cases "sent s") auto
  have nth: "cs ! j = (if j = i then ?c\<lparr>send_pc := S_post\<rparr> else calls s ! j)" if "j < length (calls s)" for j
    using that wt(4) [OF that] i(2) by (auto simp: cs_def signal_def nth_list_update)
  have only: "send_pc (calls s ! j) \<noteq> S_cond" if "j < length (calls s)" "j \<noteq> i" for j
    using wt(4) [OF that] by auto
  have len: "length cs = length (calls s)" by (simp add: cs_def)
  have "total holds_sem cs = total holds_sem (calls s)"
    using total_update [OF i(1), of holds_sem ?c] by (simp add: total_map_signal cs_def)
  then show ?thesis
    unfolding eq using mt_invD(1,2,3) [OF inv] sent len
    by (intro mt_invI) (auto simp: nth call_ok_def waiting_def only split: if_splits)
qed

lemma mt_inv_try:
  assumes inv: "mt_inv answer s" and recv: "recv s = R_try x"
  shows "mt_inv answer (mtRecv_try x s)"
proof -
  from mt_invD(5) [OF inv] recv obtain i where w: "waiting s i" "snd x = answer i" by blast
  then have eq: "mtRecv_try x s = s\<lparr>recv := R_thread x\<rparr>"
    using mt_inv_wait(3) [OF inv w(1)] by (simp add: mtRecv_try_def)
  have "sent s = None" using mt_invD(4) [OF inv] recv by (cases "sent s") auto
  with mt_invD(1,2,3) [OF inv] w show ?thesis
    unfolding eq by (intro mt_invI) (auto simp: waiting_def)
qed

lemma mt_inv_answer:
  assumes inv: "mt_inv answer s" and s: "sent s = Some i"
  shows "mt_inv answer (mtRecv_match (request_id (calls s ! i), answer i) (s\<lparr>sent := None\<rparr>))"
proof -
  from mt_invD(4) [OF inv s] have w: "waiting s i" by blast
  then have eq: "mtRecv_match (request_id (calls s ! i), answer i) (s\<lparr>sent := None\<rparr>)
      = s\<lparr>sent := None, recv := R_try (request_id (calls s ! i), answer i)\<rparr>"
    using mt_inv_wait(2) [OF inv w] by (simp add: mtRecv_match_def)
  from mt_invD(1,2,3) [OF inv] w show ?thesis
    unfolding eq by (intro mt_invI) (auto simp: waiting_def)
qed

lemma mt_inv_start: "mt_start s \<Longrightarrow> mt_inv answer s"
proof -
  assume "mt_start s"
  then obtain ids where s: "s = mtHelperInit ids" by (auto simp: mt_start_def)
  have "total holds_sem (calls s) = 0"
    unfolding s mtHelperInit_def by (induction ids) simp_all
  then show ?thesis unfolding mt_inv_def s mtHelperInit_def by (simp add: call_ok_def waiting_def)
qed

interpretation mt_ideal: invariant_system mt_start "mt_step answer True" "mt_inv answer" for answer
proof (rule invariant_system.intro)
  show "mt_start s \<Longrightarrow> mt_inv answer s" for s by (rule mt_inv_start)
next
  fix s t assume "mt_inv answer s" and "mt_step answer True s t"
  from this(2,1) show "mt_inv answer t"
    by cases (auto intro: mt_inv_send mt_inv_answer mt_inv_try mt_inv_recvThread)
qed

section \<open>Properties\<close>

text \<open>
  C3: With a device that answers in time, the request/response protocol is right for any number
  of concurrent callers: no pointer into a finished call is used, every call that has returned
  returned 0 with the answer to its own request, and as long as some call has not returned, a
  step is possible.
\<close>

theorem mtSend_ideal:
  assumes "reach mt_start (mt_step answer True) s"
  shows "\<not> dangling s \<and>
    (\<forall>i < length (calls s). send_pc (calls s ! i) = S_done \<longrightarrow>
       rtn (calls s ! i) = 0 \<and> returnBuffer (calls s ! i) = Some (answer i)) \<and>
    ((\<exists>i < length (calls s). send_pc (calls s ! i) \<noteq> S_done) \<longrightarrow> (\<exists>t. mt_step answer True s t))"
proof -
  have inv: "mt_inv answer s" using assms by (rule mt_ideal.inv_reach)
  have "\<exists>t. mt_step answer True s t" if i: "i < length (calls s)" "send_pc (calls s ! i) \<noteq> S_done" for i
  proof (cases "\<exists>j. waiting s j")
    case True
    then obtain j where "waiting s j" by blast
    from mt_invD(6) [OF inv this] show ?thesis
      using mt_invD(4) [OF inv] by (cases "recv s"; cases "sent s") (auto simp: waiting_def intro: mt_try mt_recv mt_answer)
  next
    case False
    have "\<exists>j t. j < length (calls s) \<and> mtSend_step j s = Some t"
    proof (cases "sem s")
      case 0
      with mt_invD(1) [OF inv] obtain j where "j < length (calls s)" "0 < holds_sem (calls s ! j)"
        using total_pos [of holds_sem "calls s"] by auto
      with False show ?thesis
        by (intro exI [of _ j]) (cases "send_pc (calls s ! j)"; auto simp: mtSend_step_def waiting_def)
    next
      case (Suc n)
      with mt_inv_idle [OF inv _ i(1)] i show ?thesis
        by (intro exI [of _ i]) (auto simp: mtSend_step_def)
    qed
    then show ?thesis by (blast intro: mt_send)
  qed
  with mt_invD(2,3) [OF inv] show ?thesis by (auto simp: call_ok_def)
qed

theorem mtSend_ideal_witness:
  "\<exists>t. mt_step (\<lambda>_. [1]) True (mtHelperInit [0x01, 0x02]) t"
proof -
  have "reach mt_start (mt_step (\<lambda>_. [1]) True) (mtHelperInit [0x01, 0x02])"
    by (rule reach_start) (auto simp: mt_start_def)
  from mtSend_ideal [OF this] show ?thesis
    by (auto simp: mtHelperInit_def)
qed

text \<open>The steps of an execution in which waits can run out.\<close>

lemma reach_send:
  "reach mt_start (mt_step answer b) s \<Longrightarrow> i < length (calls s) \<Longrightarrow> mtSend_step i s = Some t \<Longrightarrow>
   reach mt_start (mt_step answer b) t"
  by (blast intro: reach_step mt_send)

lemma reach_send_cond:
  assumes "reach mt_start (mt_step answer b) s" and "i < length (calls s)"
    and "send_pc (calls s ! i) = S_wait" and "0 < sem s"
  shows "reach mt_start (mt_step answer b) (s\<lparr>sem := sem s - 1, rspCmdId := request_id (calls s ! i),
    owner := Some i, sent := Some i, calls := (calls s)[i := (calls s ! i)\<lparr>send_pc := S_cond\<rparr>]\<rparr>)"
proof -
  let ?a = "set_pc i S_setup (s\<lparr>sem := sem s - 1\<rparr>)"
  let ?b = "set_pc i S_send (?a\<lparr>rspCmdId := request_id (calls s ! i), owner := Some i\<rparr>)"
  let ?c = "set_pc i S_cond (?b\<lparr>sent := Some i\<rparr>)"
  have "reach mt_start (mt_step answer b) ?a"
    by (rule reach_send [OF assms(1,2)]) (use assms in \<open>simp add: mtSend_step_def\<close>)
  then have "reach mt_start (mt_step answer b) ?b"
    by (rule reach_send [of _ _ _ i]) (use assms in \<open>simp_all add: mtSend_step_def nth_set_pc\<close>)
  then have "reach mt_start (mt_step answer b) ?c"
    by (rule reach_send [of _ _ _ i]) (use assms in \<open>simp_all add: mtSend_step_def nth_set_pc\<close>)
  then show ?thesis using assms by (simp add: set_pc_def)
qed

lemma reach_wake_post:
  assumes "reach mt_start (mt_step answer False) s" and "i < length (calls s)"
    and "send_pc (calls s ! i) = S_cond"
  shows "reach mt_start (mt_step answer False)
    (s\<lparr>sem := sem s + 1, calls := (calls s)[i := (calls s ! i)\<lparr>send_pc := S_done\<rparr>]\<rparr>)"
proof -
  have "mt_step answer False s (set_pc i S_post s)"
    using assms by (intro mt_wake) (auto simp: sendThread_wake_def)
  with assms(1) have "reach mt_start (mt_step answer False) (set_pc i S_post s)"
    by (rule reach_step)
  then have "reach mt_start (mt_step answer False) (set_pc i S_done ((set_pc i S_post s)\<lparr>sem := sem s + 1\<rparr>))"
    by (rule reach_send [of _ _ _ i]) (use assms in \<open>simp_all add: mtSend_step_def nth_set_pc\<close>)
  then show ?thesis using assms by (simp add: set_pc_def)
qed

text \<open>
  C20: A wait that runs out breaks both guarantees.  If the response arrives just before the
  deadline, \<^verbatim>\<open>recvThread\<close> can run after \<^verbatim>\<open>mtSend\<close> has returned and writes into its dead stack
  frame; and a response that arrives after the deadline is delivered, with status 0, to the
  next caller that sends a request with the same command id.
\<close>

theorem mtSend_timeout_races:
  "(\<exists>s. reach mt_start (mt_step answer False) s \<and> dangling s) \<and>
   (\<exists>s. reach mt_start (mt_step answer False) s \<and> send_pc (calls s ! 0) = S_done \<and> rtn (calls s ! 0) = -1 \<and>
      rtn (calls s ! 1) = 0 \<and> returnBuffer (calls s ! 1) = Some (answer 0))"
proof
  let ?R = "reach mt_start (mt_step answer False)"
  have start: "?R (mtHelperInit ids)" for ids
    by (rule reach_start) (auto simp: mt_start_def)
  let ?call = "\<lambda>p. \<lparr>send_pc = p, request_id = 1, rtn = -1, returnBuffer = None\<rparr>"
  let ?s = "\<lambda>k p rv st. \<lparr>sem = k, rspCmdId = 1, owner = Some 0, calls = [?call p], recv = rv, sent = st, dangling = False\<rparr>"
  have "?R (?s 0 S_cond R_idle (Some 0))"
    using reach_send_cond [OF start [of "[1]"], of 0] by (simp add: mtHelperInit_def)
  moreover have "mt_step answer False (?s 0 S_cond R_idle (Some 0)) (?s 0 S_cond (R_try (1, answer 0)) None)"
    using mt_answer [of "?s 0 S_cond R_idle (Some 0)" 0 answer False] by (simp add: mtRecv_match_def)
  ultimately have "?R (?s 0 S_cond (R_try (1, answer 0)) None)" by (rule reach_step)
  moreover have "mt_step answer False (?s 0 S_cond (R_try (1, answer 0)) None) (?s 0 S_cond (R_thread (1, answer 0)) None)"
    using mt_try [of "?s 0 S_cond (R_try (1, answer 0)) None" "(1, answer 0)" answer False]
    by (simp add: mtRecv_try_def)
  ultimately have "?R (?s 0 S_cond (R_thread (1, answer 0)) None)" by (rule reach_step)
  then have "?R (?s 1 S_done (R_thread (1, answer 0)) None)"
    using reach_wake_post [of answer "?s 0 S_cond (R_thread (1, answer 0)) None" 0] by simp
  moreover have "mt_step answer False (?s 1 S_done (R_thread (1, answer 0)) None)
      ((?s 1 S_done R_idle None)\<lparr>dangling := True\<rparr>)"
    using mt_recv [of "?s 1 S_done (R_thread (1, answer 0)) None" "(1, answer 0)" answer False]
    by (simp add: recvThread_def)
  ultimately have "?R ((?s 1 S_done R_idle None)\<lparr>dangling := True\<rparr>)" by (rule reach_step)
  then show "\<exists>s. ?R s \<and> dangling s"
    by (intro exI [of _ "(?s 1 S_done R_idle None)\<lparr>dangling := True\<rparr>"] conjI) simp_all
  let ?t = "\<lambda>k p q o' rv st. \<lparr>sem = k, rspCmdId = 1, owner = Some o', calls = [?call p, q], recv = rv, sent = st,
    dangling = False\<rparr>"
  let ?w = "?call S_wait"
  have "?R (?t 0 S_cond ?w 0 R_idle (Some 0))"
    using reach_send_cond [OF start [of "[1, 1]"], of 0] by (simp add: mtHelperInit_def)
  then have "?R (?t 1 S_done ?w 0 R_idle (Some 0))"
    using reach_wake_post [of answer "?t 0 S_cond ?w 0 R_idle (Some 0)" 0] by simp
  then have "?R (?t 0 S_done (?call S_cond) 1 R_idle (Some 1))"
    using reach_send_cond [of answer False "?t 1 S_done ?w 0 R_idle (Some 0)" 1] by simp
  moreover have "mt_step answer False (?t 0 S_done (?call S_cond) 1 R_idle (Some 1))
      (?t 0 S_done (?call S_cond) 1 (R_try (1, answer 0)) (Some 1))"
    using mt_frame [of False "?t 0 S_done (?call S_cond) 1 R_idle (Some 1)" answer "(1, answer 0)"]
    by (simp add: mtRecv_match_def)
  ultimately have "?R (?t 0 S_done (?call S_cond) 1 (R_try (1, answer 0)) (Some 1))" by (rule reach_step)
  moreover have "mt_step answer False (?t 0 S_done (?call S_cond) 1 (R_try (1, answer 0)) (Some 1))
      (?t 0 S_done (?call S_cond) 1 (R_thread (1, answer 0)) (Some 1))"
    using mt_try [of "?t 0 S_done (?call S_cond) 1 (R_try (1, answer 0)) (Some 1)" "(1, answer 0)" answer False]
    by (simp add: mtRecv_try_def)
  ultimately have "?R (?t 0 S_done (?call S_cond) 1 (R_thread (1, answer 0)) (Some 1))" by (rule reach_step)
  moreover have "mt_step answer False (?t 0 S_done (?call S_cond) 1 (R_thread (1, answer 0)) (Some 1))
      (?t 0 S_done ((?call S_post)\<lparr>rtn := 0, returnBuffer := Some (answer 0)\<rparr>) 1 R_idle (Some 1))"
    using mt_recv [of "?t 0 S_done (?call S_cond) 1 (R_thread (1, answer 0)) (Some 1)" "(1, answer 0)" answer False]
    by (simp add: recvThread_def signal_def)
  ultimately have "?R (?t 0 S_done ((?call S_post)\<lparr>rtn := 0, returnBuffer := Some (answer 0)\<rparr>) 1 R_idle (Some 1))"
    by (rule reach_step)
  then show "\<exists>s. ?R s \<and> send_pc (calls s ! 0) = S_done \<and> rtn (calls s ! 0) = -1 \<and> rtn (calls s ! 1) = 0 \<and>
      returnBuffer (calls s ! 1) = Some (answer 0)"
    by (intro exI [of _ "?t 0 S_done ((?call S_post)\<lparr>rtn := 0, returnBuffer := Some (answer 0)\<rparr>) 1 R_idle (Some 1)"]
      conjI) simp_all
qed

end
