(* ===== verification/MtCommands.thy ===== *)
theory MtCommands
  imports MtProc
begin

text \<open>
  The command functions of hal/source/mtsys.cpp, mtutil.cpp and mtzdo.cpp: each fills in a
  request, hands it to the request/response layer and takes the answer apart.  The layer is the
  parameter \<open>xfer\<close>: the status \<^verbatim>\<open>mtSend\<close> returns and the 256 data bytes of the response
  it stored.  Requests live in uninitialised stack memory, whose contents is the parameter
  \<open>junk\<close> (256 bytes).
\<close>

type_synonym xfer = "mtMessage \<Rightarrow> int \<times> byte list"

definition xfer_wf :: "xfer \<Rightarrow> bool" where
  "xfer_wf x \<longleftrightarrow> (\<forall>m. length (snd (x m)) = 256)"

section \<open>The transport wrappers\<close>

text \<open>\<^verbatim>\<open>__MTSEND__\<close> with a return buffer of which \<open>n\<close> bytes are overwritten, and without one.\<close>

definition MTSEND :: "xfer \<Rightarrow> mtMessage \<Rightarrow> byte list \<Rightarrow> nat \<Rightarrow> ub + (int \<times> byte list)" where
  "MTSEND x m returnBuffer n =
     (case x m of (st, rsp) \<Rightarrow>
        if st < 0 then Inr (-1, returnBuffer)
        else bindE (memcpy2 returnBuffer 0 rsp 0 n) (\<lambda>b. Inr (0, b)))"

definition MTSEND_NULL :: "xfer \<Rightarrow> mtMessage \<Rightarrow> int" where
  "MTSEND_NULL x m = fst (x m)"

definition request :: "byte \<Rightarrow> byte \<Rightarrow> byte \<Rightarrow> byte list \<Rightarrow> mtMessage" where
  "request ctype cid len pd = \<lparr>cmdType = ctype, cmdId = cid, dataLength = len, pData = pd\<rparr>"

text \<open>
  The out-of-band request: each sender takes the semaphore (blocking at 0) and the watchdog
  response posts it.
\<close>

definition mtOOBSend :: "nat \<Rightarrow> nat option" where
  "mtOOBSend OutOfBandSem = (if OutOfBandSem = 0 then None else Some (OutOfBandSem - 1))"

definition mtOOBRecv :: "byte list \<Rightarrow> nat \<Rightarrow> ub + (int \<times> nat)" where
  "mtOOBRecv incoming OutOfBandSem =
     bindE (rd incoming 1) (\<lambda>ct. bindE (rd incoming 2) (\<lambda>ci.
       Inr (if ct = 0x61 \<and> ci = 0x44 then (0, OutOfBandSem + 1) else (-1, OutOfBandSem))))"

section \<open>The requests\<close>

definition sysping_request :: "byte list \<Rightarrow> mtMessage" where
  "sysping_request junk =
     request 0x21 0x01 0 junk"

definition assoc_get_request :: "byte list \<Rightarrow> u64 \<Rightarrow> mtMessage" where
  "assoc_get_request junk extAddr =
     request 0x27 0x4A 0x0A (blit (blit junk 0 (replicate 32 0)) 0 (le_bytes 8 extAddr))"

definition find_device_request :: "byte list \<Rightarrow> byte \<Rightarrow> mtMessage" where
  "find_device_request junk index =
     request 0x27 0x49 1 (junk[0 := index])"

definition nwk_lookup_request :: "byte list \<Rightarrow> u16 \<Rightarrow> mtMessage" where
  "nwk_lookup_request junk nwkAddr =
     request 0x27 0x41 2 (blit junk 0 (le_bytes 2 nwkAddr))"

definition permit_join_request :: "byte list \<Rightarrow> byte \<Rightarrow> byte \<Rightarrow> mtMessage" where
  "permit_join_request junk PermitDuration TC_Significance =
     request 0x25 0x36 4 (blit junk 0 [0, 0, PermitDuration, TC_Significance])"

definition startup_request :: "byte list \<Rightarrow> mtMessage" where
  "startup_request junk =
     request 0x25 0x40 2 (blit junk 0 [0, 0])"

section \<open>System commands\<close>

definition mt_sysping_req :: "xfer \<Rightarrow> byte list \<Rightarrow> byte list \<Rightarrow> nat \<Rightarrow> ub + (int \<times> byte list)" where
  "mt_sysping_req x junk returnBuffer bufferSize = MTSEND x (sysping_request junk) returnBuffer bufferSize"

definition mt_sys_wdtkick_req :: "byte list \<Rightarrow> nat \<Rightarrow> (nat \<times> mtMessage) option" where
  "mt_sys_wdtkick_req junk OutOfBandSem =
     map_option (\<lambda>k. (k, request 0x21 0x44 0 junk)) (mtOOBSend OutOfBandSem)"

definition MTSysPingProc :: "byte list \<Rightarrow> byte list \<Rightarrow> byte list \<Rightarrow> ub + byte list" where
  "MTSysPingProc junk pBuf returnBuffer =
     bindE (if 5 \<le> length pBuf then ByteReverse (drop 3 pBuf) 2 (take 2 junk) else Inl OobRead) (\<lambda>r.
     bindE (rd r 0) (\<lambda>r0. bindE (rd r 1) (\<lambda>r1.
     bindE (wr returnBuffer 0 r0) (\<lambda>b. wr b 1 r1))))"

text \<open>\<^verbatim>\<open>mt_getextaddr_req\<close> ignores the status: after a failure it decodes the uninitialised response.\<close>

definition mt_getextaddr_req :: "xfer \<Rightarrow> byte list \<Rightarrow> ub + (int \<times> u64)" where
  "mt_getextaddr_req x junk =
     (case x (request 0x21 0x04 0 junk) of (st, rsp) \<Rightarrow>
        if st < 0 then Inl UninitRead
        else if 8 \<le> length rsp then Inr (0, le_word (slice 0 8 rsp)) else Inl OobRead)"

definition mt_sysreset_req :: "xfer \<Rightarrow> byte list \<Rightarrow> int" where
  "mt_sysreset_req x junk = MTSEND_NULL x (request 0x21 0 0 junk)"

record NvItem_t =
  nv_status :: byte
  nv_id :: u16
  nv_offset :: byte
  nv_len :: byte
  nv_value :: "byte list"

definition NvItem_wf :: "NvItem_t \<Rightarrow> bool" where
  "NvItem_wf it \<longleftrightarrow> length (nv_value it) = 256"

text \<open>The copy loops of the NV commands, \<open>n\<close> turns of which are left from index \<open>i\<close> on.\<close>

fun copy_loop :: "byte list \<Rightarrow> nat \<Rightarrow> byte list \<Rightarrow> nat \<Rightarrow> nat \<Rightarrow> ub + byte list" where
  "copy_loop dst d src i 0 = Inr dst"
| "copy_loop dst d src i (Suc n) =
     bindE (rd src i) (\<lambda>b. bindE (wr dst d b) (\<lambda>dst. copy_loop dst (Suc d) src (Suc i) n))"

definition nv_read_request :: "NvItem_t \<Rightarrow> byte list \<Rightarrow> mtMessage" where
  "nv_read_request it junk = request 0x21 0x08 3 ((blit junk 0 (le_bytes 2 (nv_id it)))[2 := nv_offset it])"

definition OsalNvRead :: "xfer \<Rightarrow> byte list \<Rightarrow> byte list \<Rightarrow> NvItem_t \<Rightarrow> ub + (int \<times> NvItem_t)" where
  "OsalNvRead x junk result it =
     bindE (MTSEND x (nv_read_request it junk) result 256) (\<lambda>(st, result).
       if st < 0 then Inr (-1, it)
       else bindE (rd result 0) (\<lambda>status. bindE (rd result 1) (\<lambda>len.
            bindE (copy_loop (nv_value it) 0 result 2 (unat len)) (\<lambda>v.
              Inr (0, it\<lparr>nv_status := status, nv_len := len, nv_value := v\<rparr>)))))"

definition nv_write_request :: "NvItem_t \<Rightarrow> byte list \<Rightarrow> ub + mtMessage" where
  "nv_write_request it junk =
     bindE (copy_loop ((blit junk 0 (le_bytes 2 (nv_id it)))[2 := nv_offset it, 3 := nv_len it])
              4 (nv_value it) 0 (unat (nv_len it)))
       (\<lambda>pd. Inr (request 0x21 0x09 (4 + nv_len it) pd))"

definition OsalNvWrite :: "xfer \<Rightarrow> byte list \<Rightarrow> byte list \<Rightarrow> NvItem_t \<Rightarrow> ub + (int \<times> NvItem_t)" where
  "OsalNvWrite x junk result it =
     (if nv_len it = 0 \<or> nv_len it > 246 then Inr (-1, it)
      else bindE (nv_write_request it junk) (\<lambda>req.
           bindE (MTSEND x req result 256) (\<lambda>(st, result).
             if st < 0 then Inr (-1, it)
             else bindE (rd result 0) (\<lambda>status. Inr (0, it\<lparr>nv_status := status\<rparr>)))))"

text \<open>
  The fallback of \<^verbatim>\<open>MT_SysCommandProcessing\<close> for a frame \<^verbatim>\<open>mtRecv\<close> refused: its three callbacks are
  selected and never called, and an unknown command is reported.
\<close>

definition MT_SysCommandProcessing :: "int \<Rightarrow> byte list \<Rightarrow> ub + byte" where
  "MT_SysCommandProcessing mtRecv pBuf =
     (if mtRecv < 0
      then bindE (rd pBuf 2) (\<lambda>cmd1. Inr (if cmd1 \<in> {0x80, 0x01, 0x04} then 0 else 2))
      else Inr 0)"

section \<open>Utility commands\<close>

definition MT_UtilCommandProcessing :: "int \<Rightarrow> byte list \<Rightarrow> ub + byte" where
  "MT_UtilCommandProcessing mtRecv pBuf =
     (if mtRecv < 0
      then bindE (rd pBuf 2) (\<lambda>cmd1. Inr (if cmd1 \<in> {0x4A, 0x40, 0x00} then 0 else 2))
      else Inr 0)"

definition mtUtilAssocGetWithAddress :: "xfer \<Rightarrow> byte list \<Rightarrow> u64 \<Rightarrow> int \<times> byte list" where
  "mtUtilAssocGetWithAddress x junk extAddr =
     x (assoc_get_request junk extAddr)"

definition assoc_count_request :: "byte list \<Rightarrow> mtMessage" where
  "assoc_count_request junk = request 0x27 0x48 2 (junk[0 := 0, 2 := 6])"

definition mtUtilGetAssocCount :: "xfer \<Rightarrow> byte list \<Rightarrow> byte list \<Rightarrow> u16 \<Rightarrow> ub + (int \<times> u16)" where
  "mtUtilGetAssocCount x junk res returnCount =
     bindE (MTSEND x (assoc_count_request junk) res 2) (\<lambda>(st, res).
       if st < 0 then Inr (-1, returnCount) else Inr (0, le_word (slice 0 2 res)))"

definition mtUtilAssocFindDevice :: "xfer \<Rightarrow> byte list \<Rightarrow> byte list \<Rightarrow> byte \<Rightarrow> ub + (int \<times> byte list)" where
  "mtUtilAssocFindDevice x junk returnBuffer index =
     MTSEND x (find_device_request junk index) returnBuffer 18"

definition mtUtilGetDeviceInfo :: "xfer \<Rightarrow> byte list \<Rightarrow> byte list \<Rightarrow> nat \<Rightarrow> ub + (int \<times> byte list)" where
  "mtUtilGetDeviceInfo x junk returnBuffer bufferSize = MTSEND x (request 0x27 0 0 junk) returnBuffer bufferSize"

definition mtUtilAddrmgrNwkAddrLookup :: "xfer \<Rightarrow> byte list \<Rightarrow> byte list \<Rightarrow> u16 \<Rightarrow> ub + (int \<times> u64 option)" where
  "mtUtilAddrmgrNwkAddrLookup x junk result nwkAddr =
     bindE (MTSEND x (nwk_lookup_request junk nwkAddr) result 8) (\<lambda>(st, result).
       if st < 0 then Inr (-1, None) else Inr (0, Some (le_word (slice 0 8 result))))"

record NvInfo_t =
  info_status :: byte
  info_IEEEAddr :: u64
  info_ScanChannels :: u32
  info_PanId :: u16
  info_SecurityLevel :: byte

definition GetNvInfo :: "xfer \<Rightarrow> byte list \<Rightarrow> byte list \<Rightarrow> NvInfo_t \<Rightarrow> ub + (int \<times> NvInfo_t)" where
  "GetNvInfo x junk result nvInfo =
     bindE (MTSEND x (request 0x27 0x01 0 junk) result 256) (\<lambda>(st, r).
       if st < 0 then Inr (-1, nvInfo)
       else Inr (0, \<lparr>info_status = le_word (slice 0 1 r), info_IEEEAddr = le_word (slice 1 8 r),
                     info_ScanChannels = le_word (slice 9 4 r), info_PanId = le_word (slice 13 2 r),
                     info_SecurityLevel = le_word (slice 15 1 r)\<rparr>))"

section \<open>ZDO commands\<close>

definition zdoCoordReady :: "byte \<Rightarrow> bool" where
  "zdoCoordReady devState \<longleftrightarrow> devState = 0x09"

definition MTZDOStateChangeProc :: "byte list \<Rightarrow> ub + byte" where
  "MTZDOStateChangeProc pBuf = rd pBuf 3"

text \<open>The result is the status with the new \<^verbatim>\<open>devState\<close>.\<close>

definition MT_ZdoCommandProcessing :: "int \<Rightarrow> byte list \<Rightarrow> byte \<Rightarrow> ub + (byte \<times> byte)" where
  "MT_ZdoCommandProcessing mtRecv pBuf devState =
     (if mtRecv < 0
      then bindE (rd pBuf 2) (\<lambda>cmd1.
             if cmd1 = 0xC0 then bindE (MTZDOStateChangeProc pBuf) (\<lambda>d. Inr (0, d))
             else if cmd1 \<in> {0xC1, 0x82, 0x85, 0x84, 0xB5, 0xB6} then Inr (0, devState)
             else Inr (2, devState))
      else Inr (0, devState))"

definition MT_ZDO_MGMT_PERMIT_JOIN_REQ_FUNC :: "xfer \<Rightarrow> byte list \<Rightarrow> byte \<Rightarrow> byte \<Rightarrow> ub + int" where
  "MT_ZDO_MGMT_PERMIT_JOIN_REQ_FUNC x junk PermitDuration TC_Significance =
     bindE (MTSEND x (permit_join_request junk PermitDuration TC_Significance) [0] 1)
       (\<lambda>(st, status). Inr (if st < 0 then -1 else 0))"

definition MT_ZDO_STARTUP_FROM_APP_Req :: "xfer \<Rightarrow> byte list \<Rightarrow> ub + int" where
  "MT_ZDO_STARTUP_FROM_APP_Req x junk =
     bindE (MTSEND x (startup_request junk) [0] 1)
       (\<lambda>(st, status). Inr (if st < 0 then -1 else 0))"

section \<open>Lemmas\<close>

lemma slice_Suc: "i < length xs \<Longrightarrow> slice i (Suc n) xs = xs ! i # slice (Suc i) n xs"
  by (simp add: slice_def flip: Cons_nth_drop_Suc)

lemma copy_loop_ok:
  "i + n \<le> length src \<Longrightarrow> d + n \<le> length dst \<Longrightarrow> copy_loop dst d src i n = Inr (blit dst d (slice i n src))"
proof (induction n arbitrary: d i dst)
  case 0
  then show ?case by (simp add: slice_def)
next
  case (Suc n)
  then show ?case by (simp add: slice_Suc blit_Cons)
qed

lemma copy_loop_oob:
  "length src < i + n \<Longrightarrow> i \<le> length src \<Longrightarrow> d + n \<le> length dst \<Longrightarrow> copy_loop dst d src i n = Inl OobRead"
proof (induction n arbitrary: d i dst)
  case 0
  then show ?case by simp
next
  case (Suc n)
  then show ?case by (cases "i < length src") auto
qed

lemma MTSEND_ok:
  "x m = (0, rsp) \<Longrightarrow> n \<le> length rsp \<Longrightarrow> n \<le> length b \<Longrightarrow> MTSEND x m b n = Inr (0, blit b 0 (take n rsp))"
  by (simp add: MTSEND_def memcpy2_def slice_def)

lemma MTSEND_whole:
  "x m = (0, rsp) \<Longrightarrow> length rsp = n \<Longrightarrow> length b = n \<Longrightarrow> MTSEND x m b n = Inr (0, rsp)"
  by (simp add: MTSEND_ok blit_whole)

lemma MTSEND_failed: "fst (x m) < 0 \<Longrightarrow> MTSEND x m b n = Inr (-1, b)"
  by (cases "x m") (simp add: MTSEND_def)

text \<open>The data bytes of a request that reach the wire.\<close>

definition sent_data :: "mtMessage \<Rightarrow> byte list" where
  "sent_data m = take (unat (dataLength m)) (pData m)"

lemma take_blit: "length ys = n \<Longrightarrow> n \<le> length xs \<Longrightarrow> take n (blit xs 0 ys) = ys"
  by (simp add: blit_def)

lemma nv_write_request_eq:
  assumes "length junk = 256" and "NvItem_wf it" and "nv_len it \<le> 246"
  shows "\<exists>pd. nv_write_request it junk = Inr (request 0x21 0x09 (4 + nv_len it) pd) \<and> length pd = 256 \<and>
    take (4 + unat (nv_len it)) pd = le_bytes 2 (nv_id it) @ [nv_offset it, nv_len it] @ take (unat (nv_len it)) (nv_value it)"
proof -
  let ?n = "unat (nv_len it)"
  let ?h = "(blit junk 0 (le_bytes 2 (nv_id it)))[2 := nv_offset it, 3 := nv_len it]"
  have n: "?n \<le> 246" using assms(3) by (simp add: word_le_nat_alt)
  have len: "length ?h = 256" using assms(1) by simp
  let ?pd = "blit ?h 4 (take ?n (nv_value it))"
  have "copy_loop ?h 4 (nv_value it) 0 ?n = Inr ?pd"
    using copy_loop_ok [of 0 ?n "nv_value it" 4 ?h] assms(2) n len by (simp add: NvItem_wf_def slice_def)
  moreover have "length ?pd = 256" using assms(2) n len by (simp add: NvItem_wf_def)
  moreover have "take 4 ?h = le_bytes 2 (nv_id it) @ [nv_offset it, nv_len it]"
  proof -
    have "Suc (Suc (Suc (Suc 0))) \<le> length junk" using assms(1) by simp
    then obtain a b c d r where "junk = a # b # c # d # r" by (auto simp: Suc_le_length_iff)
    then have h: "blit junk 0 (le_bytes 2 (nv_id it)) = ucast (nv_id it) # ucast (drop_bit 8 (nv_id it)) # c # d # r"
      by (simp add: blit_def le_bytes_2)
    show ?thesis unfolding h unfolding le_bytes_2 by simp
  qed
  then have "take (4 + ?n) ?pd = le_bytes 2 (nv_id it) @ [nv_offset it, nv_len it] @ take ?n (nv_value it)"
    using assms(2) n len by (simp add: blit_def NvItem_wf_def)
  ultimately show ?thesis unfolding nv_write_request_def by (intro exI [of _ ?pd]) simp
qed

lemma OsalNvRead_eq:
  assumes "length result = 256" and "NvItem_wf it"
    and "x (nv_read_request it junk) = (0, status # len # data)" and "length data = 254"
  shows "OsalNvRead x junk result it =
      (if len = 255 then Inl OobRead
       else Inr (0, it\<lparr>nv_status := status, nv_len := len,
         nv_value := take (unat len) data @ drop (unat len) (nv_value it)\<rparr>))"
proof -
  let ?rsp = "status # len # data" and ?n = "unat len"
  have n: "?n < 256" by (rule unat_byte)
  have send: "MTSEND x (nv_read_request it junk) result 256 = Inr (0, ?rsp)"
    using assms by (intro MTSEND_whole) simp_all
  have "copy_loop (nv_value it) 0 ?rsp 2 ?n =
      (if len = 255 then Inl OobRead else Inr (take ?n data @ drop ?n (nv_value it)))"
  proof (cases "len = 255")
    case True
    then show ?thesis using copy_loop_oob [of ?rsp 2 ?n 0 "nv_value it"] assms by (simp add: NvItem_wf_def)
  next
    case False
    have "?n \<noteq> 255"
    proof
      assume "?n = 255"
      then have "of_nat ?n = (255 :: byte)" by simp
      with False show False by simp
    qed
    with n have "?n \<le> 254" by simp
    then show ?thesis
      using copy_loop_ok [of 2 ?n ?rsp 0 "nv_value it"] assms False
      by (simp add: NvItem_wf_def slice_def blit_def)
  qed
  with send show ?thesis by (simp add: OsalNvRead_def rd_def)
qed

section \<open>Properties\<close>

text \<open>
  \<^verbatim>\<open>OsalNvWrite\<close> accepts exactly the lengths 1 to 246.  For those the length byte does not
  wrap, the frame stays within the 250 data bytes the peer accepts, its data are id, offset,
  length and value in this order, and the item gets the status byte of the answer; any other
  length returns -1 whatever the transport would do.
\<close>

theorem OsalNvWrite_frame:
  assumes "length junk = 256" and "length result = 256" and "NvItem_wf it" and "xfer_wf x"
  shows "if nv_len it = 0 \<or> 246 < nv_len it then OsalNvWrite x junk result it = Inr (-1, it)
    else \<exists>req. nv_write_request it junk = Inr req \<and>
      unat (dataLength req) = 4 + unat (nv_len it) \<and> unat (dataLength req) \<le> 250 \<and>
      sent_data req = le_bytes 2 (nv_id it) @ [nv_offset it, nv_len it] @ take (unat (nv_len it)) (nv_value it) \<and>
      OsalNvWrite x junk result it =
        (if fst (x req) < 0 then Inr (-1, it) else Inr (0, it\<lparr>nv_status := snd (x req) ! 0\<rparr>))"
proof (cases "nv_len it = 0 \<or> 246 < nv_len it")
  case True
  then show ?thesis by (simp add: OsalNvWrite_def)
next
  case False
  then have le: "nv_len it \<le> 246" by (simp add: not_less)
  from nv_write_request_eq [OF assms(1,3) le] obtain pd
    where req: "nv_write_request it junk = Inr (request 0x21 0x09 (4 + nv_len it) pd)" "length pd = 256"
      "take (4 + unat (nv_len it)) pd = le_bytes 2 (nv_id it) @ [nv_offset it, nv_len it] @ take (unat (nv_len it)) (nv_value it)"
    by blast
  let ?req = "request 0x21 0x09 (4 + nv_len it) pd"
  have n: "unat (nv_len it) \<le> 246" using le by (simp add: word_le_nat_alt)
  then have dl: "unat (dataLength ?req) = 4 + unat (nv_len it)"
    by (simp add: request_def unat_word_ariths)
  obtain st rsp where x: "x ?req = (st, rsp)" by (cases "x ?req")
  have rsp: "length rsp = 256" using assms(4) x unfolding xfer_wf_def by (metis snd_conv)
  have "OsalNvWrite x junk result it =
      (if fst (x ?req) < 0 then Inr (-1, it) else Inr (0, it\<lparr>nv_status := snd (x ?req) ! 0\<rparr>))"
    using False req(1) x rsp assms(2)
    by (simp add: OsalNvWrite_def MTSEND_def memcpy2_def slice_def blit_whole)
  moreover have "4 + unat (nv_len it) \<le> 250" using n by simp
  ultimately show ?thesis
    unfolding if_not_P [OF False] using req(1,3) dl
    by (intro exI [of _ ?req]) (simp add: sent_data_def request_def)
qed

text \<open>An item to write, and a device that stores nothing and answers status 0.\<close>

definition sample_item :: NvItem_t where
  "sample_item = \<lparr>nv_status = 0xFF, nv_id = 0x0021, nv_offset = 109, nv_len = 1, nv_value = replicate 256 7\<rparr>"

definition ok_device :: xfer where
  "ok_device = (\<lambda>m. (0, replicate 256 0))"

theorem OsalNvWrite_frame_witness:
  "\<exists>req. nv_write_request sample_item (replicate 256 0xAA) = Inr req \<and>
     sent_data req = [0x21, 0, 109, 1, 7] \<and>
     OsalNvWrite ok_device (replicate 256 0xAA) (replicate 256 0xBB) sample_item = Inr (0, sample_item\<lparr>nv_status := 0\<rparr>)"
proof -
  have "xfer_wf ok_device" "NvItem_wf sample_item"
    by (simp_all add: xfer_wf_def ok_device_def NvItem_wf_def sample_item_def)
  from OsalNvWrite_frame [OF _ _ this(2,1), of "replicate 256 0xAA" "replicate 256 0xBB"]
  show ?thesis by (auto simp: sample_item_def ok_device_def le_bytes_2)
qed

text \<open>
  \<^verbatim>\<open>OsalNvRead\<close> asks for id and offset and, when the transport succeeds, copies exactly the
  number of bytes the device announces into the item, leaving the rest of the value alone; for
  the announced length 255 it reads one byte past its 256-byte answer buffer.
\<close>

theorem OsalNvRead_value:
  assumes "length junk = 256" and "length result = 256" and "NvItem_wf it"
    and "x (nv_read_request it junk) = (0, status # len # data)" and "length data = 254"
  shows "OsalNvRead x junk result it =
      (if len = 255 then Inl OobRead
       else Inr (0, it\<lparr>nv_status := status, nv_len := len,
         nv_value := take (unat len) data @ drop (unat len) (nv_value it)\<rparr>)) \<and>
    sent_data (nv_read_request it junk) = le_bytes 2 (nv_id it) @ [nv_offset it]"
proof
  show "OsalNvRead x junk result it =
      (if len = 255 then Inl OobRead
       else Inr (0, it\<lparr>nv_status := status, nv_len := len,
         nv_value := take (unat len) data @ drop (unat len) (nv_value it)\<rparr>))"
    using assms(2-5) by (intro OsalNvRead_eq)
  have "Suc (Suc (Suc 0)) \<le> length junk" using assms(1) by simp
  then obtain a b c r where "junk = a # b # c # r" by (auto simp: Suc_le_length_iff)
  then have h: "blit junk 0 (le_bytes 2 (nv_id it)) = ucast (nv_id it) # ucast (drop_bit 8 (nv_id it)) # c # r"
    by (simp add: blit_def le_bytes_2)
  show "sent_data (nv_read_request it junk) = le_bytes 2 (nv_id it) @ [nv_offset it]"
    unfolding nv_read_request_def h unfolding le_bytes_2 by (simp add: sent_data_def request_def)
qed

theorem OsalNvRead_value_witness:
  "OsalNvRead (\<lambda>_. (0, 0 # 2 # replicate 254 9)) (replicate 256 0xAA) (replicate 256 0) sample_item =
     Inr (0, sample_item\<lparr>nv_status := 0, nv_len := 2, nv_value := [9, 9] @ replicate 254 7\<rparr>)"
  using OsalNvRead_value [of "replicate 256 0xAA" "replicate 256 0" sample_item
      "\<lambda>_. (0, 0 # 2 # replicate 254 9)" 0 2 "replicate 254 9"]
  by (simp add: NvItem_wf_def sample_item_def replicate_2)

text \<open>
  What the other requests put on the wire does not depend on the stack memory they are
  built in, with one exception: the association count request sends its second byte, the last
  device type of the requested range, uninitialised, because it is stored one index too far.
\<close>

theorem requests_on_the_wire:
  assumes "length junk = 256"
  shows "sent_data (sysping_request junk) = [] \<and>
    sent_data (assoc_get_request junk ext) = le_bytes 8 ext @ [0, 0] \<and>
    sent_data (find_device_request junk idx) = [idx] \<and>
    sent_data (nwk_lookup_request junk nwk) = le_bytes 2 nwk \<and>
    sent_data (permit_join_request junk dur tc) = [0, 0, dur, tc] \<and>
    sent_data (startup_request junk) = [0, 0] \<and>
    sent_data (assoc_count_request junk) = [0, junk ! 1]"
proof -
  have "Suc (Suc 0) \<le> length junk" using assms by simp
  then obtain a b r where j: "junk = a # b # r" by (auto simp: Suc_le_length_iff)
  then have "sent_data (assoc_count_request junk) = [0, junk ! 1]"
    "sent_data (find_device_request junk idx) = [idx]"
    by (simp_all add: sent_data_def assoc_count_request_def find_device_request_def request_def)
  moreover have "blit (blit junk 0 (replicate 32 0)) 0 (le_bytes 8 ext) = blit junk 0 (le_bytes 8 ext @ replicate 24 0)"
    using assms by (auto intro!: nth_equalityI simp: nth_blit nth_append)
  then have "sent_data (assoc_get_request junk ext) = le_bytes 8 ext @ [0, 0]"
    by (simp add: sent_data_def assoc_get_request_def request_def blit_def replicate_2)
  moreover have "sent_data (permit_join_request junk dur tc) = [0, 0, dur, tc]"
    "sent_data (startup_request junk) = [0, 0]"
    "sent_data (nwk_lookup_request junk nwk) = le_bytes 2 nwk"
    "sent_data (sysping_request junk) = []"
    by (simp_all add: sent_data_def sysping_request_def nwk_lookup_request_def permit_join_request_def
        startup_request_def request_def blit_def)
  ultimately show ?thesis by blast
qed

theorem requests_on_the_wire_witness:
  "sent_data (assoc_count_request (replicate 256 0xAA)) = [0, 0xAA]"
proof -
  have "(replicate 256 0xAA :: byte list) ! 1 = 0xAA" by simp
  with requests_on_the_wire [OF length_replicate, of "0xAA" 0 0 0 0] show ?thesis by presburger
qed

end
