(* ===== verification/Hal.thy ===== *)
theory Hal
  imports MtCommands
begin

text \<open>
  The hardware layer of hal/source/hal.cpp: pinging the coprocessor with the failure bookkeeping,
  the loops that wait for it (\<^verbatim>\<open>StartSystem\<close>, \<^verbatim>\<open>StateMonitor\<close>, \<^verbatim>\<open>start_zdo\<close>), and the decoding of
  device answers.  Time and the transport vary from one ping to the next: a run of a loop is
  given the environment of each ping as a function of its number.
\<close>

section \<open>Pinging\<close>

definition MINIUM_FAILED_PING_WAIT_SEC :: int where "MINIUM_FAILED_PING_WAIT_SEC = 40"

text \<open>\<^verbatim>\<open>processorStatus_t\<close>, the field \<^verbatim>\<open>info\<close> is never used; \<open>None\<close> stands for an uninitialised one.\<close>

record processorStatus =
  capability :: u16
  operationState :: byte

text \<open>The counter \<^verbatim>\<open>consecutiveFailedPing\<close> and the contents of the last-failed-ping file, if it exists.\<close>

record ping_state =
  consecutiveFailedPing :: int
  lastFailedPing :: "int option"

text \<open>What one ping meets: \<^verbatim>\<open>time(NULL)\<close> before and after it, and the transport.\<close>

record ping_env =
  now :: int
  later :: int
  link :: xfer

text \<open>The result is the return value, the seconds slept, the caller's status and the new state.\<close>

definition systemPing ::
    "ping_env \<Rightarrow> byte list \<Rightarrow> byte list \<Rightarrow> processorStatus option \<Rightarrow> ping_state \<Rightarrow>
     ub + (int \<times> int \<times> processorStatus option \<times> ping_state)" where
  "systemPing e junk result status st =
     (let last = (case lastFailedPing st of None \<Rightarrow> 0 | Some t \<Rightarrow> t);
          st = st\<lparr>lastFailedPing := Some last\<rparr>;
          timeLapse = now e - last;
          slept = (if timeLapse < MINIUM_FAILED_PING_WAIT_SEC then MINIUM_FAILED_PING_WAIT_SEC - timeLapse else 0)
      in bindE (mt_sysping_req (link e) junk result 4) (\<lambda>(rtnval, result).
           if rtnval = 0
           then bindE (rd result 2) (\<lambda>op.
                  Inr (rtnval, slept, Some \<lparr>capability = le_word (slice 0 2 result), operationState = op\<rparr>,
                       st\<lparr>consecutiveFailedPing := 0\<rparr>))
           else if consecutiveFailedPing st > 3
                then Inr (rtnval, slept, status, st\<lparr>lastFailedPing := Some (later e)\<rparr>)
                else Inr (rtnval, slept, status, st\<lparr>consecutiveFailedPing := consecutiveFailedPing st + 1\<rparr>)))"

section \<open>The waiting loops\<close>

text \<open>
  \<^verbatim>\<open>StateMonitor\<close> keeps one \<^verbatim>\<open>status\<close> variable over all turns.  The result is the number of the
  ping after which the process exits; \<open>None\<close> is a monitor that runs forever.
\<close>

partial_function (option) StateMonitor ::
    "(nat \<Rightarrow> ping_env) \<Rightarrow> byte list \<Rightarrow> byte list \<Rightarrow> nat \<Rightarrow> processorStatus option \<Rightarrow> ping_state \<Rightarrow> (ub + nat) option" where
  "StateMonitor env junk result n status st =
     (case systemPing (env n) junk result status st of
        Inl e \<Rightarrow> Some (Inl e)
      | Inr (rtnval, slept, status', st') \<Rightarrow>
          (case status' of
             None \<Rightarrow> Some (Inl UninitRead)
           | Some s \<Rightarrow>
               if capability s \<noteq> 0x0059 then Some (Inr n)
               else StateMonitor env junk result (Suc n) status' st'))"

text \<open>\<^verbatim>\<open>StartSystem\<close>: the result counts the boot commands (0x21, 0x4b) it has sent.\<close>

partial_function (option) StartSystem ::
    "(nat \<Rightarrow> ping_env) \<Rightarrow> byte list \<Rightarrow> byte list \<Rightarrow> nat \<Rightarrow> nat \<Rightarrow> processorStatus option \<Rightarrow> ping_state \<Rightarrow>
     (ub + nat) option" where
  "StartSystem env junk result n boots status st =
     (case systemPing (env n) junk result status st of
        Inl e \<Rightarrow> Some (Inl e)
      | Inr (rtnval, slept, status', st') \<Rightarrow>
          (case status' of
             None \<Rightarrow> Some (Inl UninitRead)
           | Some s \<Rightarrow>
               if capability s = 0x3275 then StartSystem env junk result (Suc n) (Suc boots) status' st'
               else if capability s = 0x32b5 then StartSystem env junk result (Suc n) boots status' st'
               else if capability s = 0x0059 \<and> operationState s = 0x02 then Some (Inr boots)
               else StartSystem env junk result (Suc n) boots status' st'))"

text \<open>\<^verbatim>\<open>start_zdo\<close>: \<open>dev t\<close> is \<^verbatim>\<open>devState\<close> at turn \<open>t\<close>; the second result counts the one-second sleeps.\<close>

fun start_zdo_loop :: "(nat \<Rightarrow> byte) \<Rightarrow> nat \<Rightarrow> nat \<Rightarrow> int \<times> nat" where
  "start_zdo_loop dev t 0 = (-1, t)"
| "start_zdo_loop dev t (Suc left) = (if zdoCoordReady (dev t) then (0, t) else start_zdo_loop dev (Suc t) left)"

definition start_zdo :: "xfer \<Rightarrow> byte list \<Rightarrow> (nat \<Rightarrow> byte) \<Rightarrow> ub + (int \<times> nat)" where
  "start_zdo x junk dev = bindE (MT_ZDO_STARTUP_FROM_APP_Req x junk) (\<lambda>_. Inr (start_zdo_loop dev 0 30))"

text \<open>\<^verbatim>\<open>cc2530_wdt_kick\<close>, the body of the watchdog thread's loop, blocks when the last kick is unanswered.\<close>

definition cc2530_wdt_kick :: "byte list \<Rightarrow> nat \<Rightarrow> (nat \<times> mtMessage) option" where
  "cc2530_wdt_kick junk OutOfBandSem = mt_sys_wdtkick_req junk OutOfBandSem"

section \<open>Device answers\<close>

definition getAssocCount :: "xfer \<Rightarrow> byte list \<Rightarrow> byte list \<Rightarrow> u16 \<Rightarrow> ub + int" where
  "getAssocCount x junk res returnBuffer =
     bindE (mtUtilGetAssocCount x junk res returnBuffer) (\<lambda>(st, c).
       Inr (if st < 0 then -1 else int (unat c)))"

record associated_devices_t =
  shortAddr :: u16
  addrIdx :: u16
  nodeRelation :: byte
  devStatus :: byte
  assocCnt :: byte
  age :: byte
  txCounter :: byte
  txCost :: byte
  rxLqi :: byte
  inKeySeqNum :: byte
  inFrmCntr :: u32
  txFailure :: u16

definition getAssocInfo ::
    "xfer \<Rightarrow> byte list \<Rightarrow> byte list \<Rightarrow> associated_devices_t \<Rightarrow> byte \<Rightarrow> ub + (int \<times> associated_devices_t)" where
  "getAssocInfo x junk returnBuffer dev index =
     bindE (mtUtilAssocFindDevice x junk returnBuffer index) (\<lambda>(st, r).
       if st < 0 then Inr (-1, dev)
       else Inr (0, \<lparr>shortAddr = le_word (slice 0 2 r), addrIdx = le_word (slice 2 2 r),
              nodeRelation = le_word (slice 4 1 r), devStatus = le_word (slice 5 1 r),
              assocCnt = le_word (slice 6 1 r), age = le_word (slice 7 1 r),
              txCounter = le_word (slice 8 1 r), txCost = le_word (slice 9 1 r),
              rxLqi = le_word (slice 10 1 r), inKeySeqNum = le_word (slice 11 1 r),
              inFrmCntr = le_word (slice 12 4 r), txFailure = le_word (slice 16 2 r)\<rparr>))"

record mt_device_info_t =
  di_status :: byte
  di_IEEEAddr :: u64
  di_NwkAddr :: u16
  di_DeviceType :: byte
  di_DeviceState :: byte
  di_NumAssocDevices :: byte

definition getDeviceInfo :: "xfer \<Rightarrow> byte list \<Rightarrow> byte list \<Rightarrow> mt_device_info_t \<Rightarrow> ub + (int \<times> mt_device_info_t)" where
  "getDeviceInfo x junk rtn info =
     bindE (mtUtilGetDeviceInfo x junk rtn 256) (\<lambda>(rtnval, r).
       Inr (rtnval, if rtnval = 0
         then \<lparr>di_status = r ! 0, di_IEEEAddr = le_word (slice 1 8 r), di_NwkAddr = le_word (slice 9 2 r),
               di_DeviceType = r ! 11, di_DeviceState = r ! 12, di_NumAssocDevices = r ! 13\<rparr>
         else info))"

text \<open>\<^verbatim>\<open>getAssocNwkAddr\<close> decodes the response without looking at the status.\<close>

definition getAssocNwkAddr :: "xfer \<Rightarrow> byte list \<Rightarrow> u64 \<Rightarrow> ub + u16" where
  "getAssocNwkAddr x junk extAddr =
     (case mtUtilAssocGetWithAddress x junk extAddr of (st, rsp) \<Rightarrow>
        if st < 0 then Inl UninitRead else Inr (le_word (slice 0 2 rsp)))"

definition getAssocExtAddr :: "xfer \<Rightarrow> byte list \<Rightarrow> byte list \<Rightarrow> u16 \<Rightarrow> ub + u64" where
  "getAssocExtAddr x junk result nwkAddr =
     bindE (mtUtilAddrmgrNwkAddrLookup x junk result nwkAddr) (\<lambda>(st, a).
       Inr (case a of None \<Rightarrow> 0xffffffffffffffff | Some ext \<Rightarrow> ext))"

text \<open>
  The NV accessors build an item on the stack; \<open>stack\<close> is its uninitialised memory.  The result
  is the status with the new value of the reference argument.
\<close>

definition nv_item :: "NvItem_t \<Rightarrow> u16 \<Rightarrow> byte \<Rightarrow> byte \<Rightarrow> NvItem_t" where
  "nv_item stack i offset len = stack\<lparr>nv_id := i, nv_offset := offset, nv_len := len\<rparr>"

definition nv_get :: "nat \<Rightarrow> xfer \<Rightarrow> byte list \<Rightarrow> byte list \<Rightarrow> NvItem_t \<Rightarrow> byte \<Rightarrow> ub + (int \<times> byte)" where
  "nv_get index x junk result stack out =
     bindE (OsalNvRead x junk result (nv_item stack 0x0021 0 0)) (\<lambda>(status, it).
       if status = 0 \<and> nv_len it \<noteq> 0 then bindE (rd (nv_value it) index) (\<lambda>b. Inr (status, b))
       else Inr (status, out))"

definition getChannel :: "xfer \<Rightarrow> byte list \<Rightarrow> byte list \<Rightarrow> NvItem_t \<Rightarrow> byte \<Rightarrow> ub + (int \<times> byte)" where
  "getChannel = nv_get 22"

definition getNwkUpdateId :: "xfer \<Rightarrow> byte list \<Rightarrow> byte list \<Rightarrow> NvItem_t \<Rightarrow> byte \<Rightarrow> ub + (int \<times> byte)" where
  "getNwkUpdateId = nv_get 109"

definition nv_put :: "u16 \<Rightarrow> byte \<Rightarrow> xfer \<Rightarrow> byte list \<Rightarrow> byte list \<Rightarrow> NvItem_t \<Rightarrow> byte \<Rightarrow> ub + int" where
  "nv_put i offset x junk result stack b =
     bindE (wr (nv_value stack) 0 b) (\<lambda>v.
     bindE (OsalNvWrite x junk result ((nv_item stack i offset 1)\<lparr>nv_value := v\<rparr>)) (\<lambda>(st, it). Inr st))"

definition setNwkUpdateId :: "xfer \<Rightarrow> byte list \<Rightarrow> byte list \<Rightarrow> NvItem_t \<Rightarrow> byte \<Rightarrow> ub + int" where
  "setNwkUpdateId = nv_put 0x0021 109"

definition zcdStartupOptions :: "xfer \<Rightarrow> byte list \<Rightarrow> byte list \<Rightarrow> NvItem_t \<Rightarrow> byte \<Rightarrow> ub + int" where
  "zcdStartupOptions = nv_put 0x0003 0"

text \<open>
  \<^verbatim>\<open>delayRestart\<close>: the function-local static \<^verbatim>\<open>sec_\<close> is initialised by the first call only.  The
  result is the new static and the delay of the started thread.
\<close>

definition delayRestart :: "int option \<Rightarrow> int \<Rightarrow> int option \<times> int" where
  "delayRestart static_sec sec = (case static_sec of None \<Rightarrow> (Some sec, sec) | Some s \<Rightarrow> (Some s, s))"

section \<open>Lemmas\<close>

text \<open>What the device answers to a ping: nothing in time, or its status.\<close>

definition ping_answer :: "ping_env \<Rightarrow> byte list \<Rightarrow> processorStatus option" where
  "ping_answer e junk =
     (case link e (sysping_request junk) of (st, rsp) \<Rightarrow>
        if st < 0 then None else Some \<lparr>capability = le_word (slice 0 2 rsp), operationState = rsp ! 2\<rparr>)"

definition ping_env_wf :: "(nat \<Rightarrow> ping_env) \<Rightarrow> bool" where
  "ping_env_wf env \<longleftrightarrow> (\<forall>n. xfer_wf (link (env n)))"

lemma slice_take: "i + n \<le> k \<Longrightarrow> slice i n (take k xs) = slice i n xs"
  by (simp add: slice_def drop_take min_def)

lemma systemPing_eq:
  assumes "xfer_wf (link e)" and "length result = 4"
  shows "\<exists>rtn slept st'. systemPing e junk result status st =
    Inr (rtn, slept, case ping_answer e junk of None \<Rightarrow> status | Some s \<Rightarrow> Some s, st')"
proof -
  obtain st0 rsp where x: "link e (sysping_request junk) = (st0, rsp)"
    by (cases "link e (sysping_request junk)")
  have rsp: "length rsp = 256" using assms(1) x unfolding xfer_wf_def by (metis snd_conv)
  have send: "mt_sysping_req (link e) junk result 4 = (if st0 < 0 then Inr (-1, result) else Inr (0, take 4 rsp))"
    using x rsp assms(2) by (simp add: mt_sysping_req_def MTSEND_def memcpy2_def slice_def blit_whole)
  show ?thesis
    unfolding systemPing_def Let_def send ping_answer_def x
    using rsp by (simp add: rd_def slice_take)
qed

lemma StateMonitor_turn:
  assumes "ping_env_wf env" and "length result = 4"
  shows "\<exists>st'. StateMonitor env junk result n (Some s) st =
    (let s' = (case ping_answer (env n) junk of None \<Rightarrow> s | Some a \<Rightarrow> a)
     in if capability s' \<noteq> 0x0059 then Some (Inr n) else StateMonitor env junk result (Suc n) (Some s') st')"
proof -
  have "xfer_wf (link (env n))" using assms(1) by (simp add: ping_env_wf_def)
  from systemPing_eq [OF this assms(2), of junk "Some s" st] obtain rtn slept st'
    where p: "systemPing (env n) junk result (Some s) st =
      Inr (rtn, slept, case ping_answer (env n) junk of None \<Rightarrow> Some s | Some a \<Rightarrow> Some a, st')"
    by blast
  show ?thesis
    by (rule exI [of _ st'], subst StateMonitor.simps) (simp add: p Let_def split: option.split)
qed

text \<open>The monitor stops only at a ping that is answered with another capability.\<close>

lemma StateMonitor_stop:
  "StateMonitor env junk result n status st = Some r \<Longrightarrow> ping_env_wf env \<Longrightarrow> length result = 4 \<Longrightarrow>
   status = Some s \<Longrightarrow> capability s = 0x0059 \<Longrightarrow>
   \<exists>m a. n \<le> m \<and> r = Inr m \<and> ping_answer (env m) junk = Some a \<and> capability a \<noteq> 0x0059"
proof (induction arbitrary: s rule: StateMonitor.raw_induct [rotated, consumes 1])
  case (1 StateMonitor env junk result n status st y)
  have wf: "xfer_wf (link (env n))" using 1(3) by (simp add: ping_env_wf_def)
  from systemPing_eq [OF wf 1(4), of junk status st] obtain rtn slept st'
    where p: "systemPing (env n) junk result status st =
      Inr (rtn, slept, case ping_answer (env n) junk of None \<Rightarrow> status | Some a \<Rightarrow> Some a, st')"
    by blast
  define s' where "s' = (case ping_answer (env n) junk of None \<Rightarrow> s | Some a \<Rightarrow> a)"
  have p': "systemPing (env n) junk result status st = Inr (rtn, slept, Some s', st')"
    using p 1(5) by (simp add: s'_def split: option.splits)
  show ?case
  proof (cases "capability s' = 0x0059")
    case True
    then have "StateMonitor env junk result (Suc n) (Some s') st' = Some y"
      using 1(2) p' by simp
    from 1(1) [OF this 1(3,4) refl True] show ?thesis by (metis Suc_leD)
  next
    case False
    then have "y = Inr n" using 1(2) p' by simp
    moreover have "ping_answer (env n) junk = Some s'"
      using False 1(6) by (auto simp: s'_def split: option.splits)
    ultimately show ?thesis using False by blast
  qed
qed

lemma StateMonitor_reach:
  "ping_env_wf env \<Longrightarrow> length result = 4 \<Longrightarrow> ping_answer (env (n + k)) junk = Some a \<Longrightarrow> capability a \<noteq> 0x0059 \<Longrightarrow>
   \<exists>r. StateMonitor env junk result n (Some s) st = Some r"
proof (induction k arbitrary: n s st)
  case 0
  obtain st' where "StateMonitor env junk result n (Some s) st =
    (let s' = (case ping_answer (env n) junk of None \<Rightarrow> s | Some a \<Rightarrow> a)
     in if capability s' \<noteq> 0x0059 then Some (Inr n) else StateMonitor env junk result (Suc n) (Some s') st')"
    using StateMonitor_turn [OF 0(1,2)] by blast
  with 0 show ?case by simp
next
  case (Suc k)
  obtain st' where st': "StateMonitor env junk result n (Some s) st =
    (let s' = (case ping_answer (env n) junk of None \<Rightarrow> s | Some a \<Rightarrow> a)
     in if capability s' \<noteq> 0x0059 then Some (Inr n) else StateMonitor env junk result (Suc n) (Some s') st')"
    using StateMonitor_turn [OF Suc.prems(1,2)] by blast
  have "ping_answer (env (Suc n + k)) junk = Some a" using Suc.prems(3) by simp
  with st' Suc.IH [OF Suc.prems(1,2) this Suc.prems(4)] show ?case by (simp add: Let_def)
qed

text \<open>The same for \<^verbatim>\<open>StartSystem\<close>, which stops at the answer of a running coprocessor.\<close>

definition running :: "processorStatus \<Rightarrow> bool" where
  "running s \<longleftrightarrow> capability s = 0x0059 \<and> operationState s = 0x02"

lemma StartSystem_turn:
  assumes "ping_env_wf env" and "length result = 4"
    and s': "(case ping_answer (env n) junk of None \<Rightarrow> status | Some a \<Rightarrow> Some a) = Some s'"
  shows "\<exists>st' b. StartSystem env junk result n boots status st =
    (if running s' then Some (Inr boots) else StartSystem env junk result (Suc n) b (Some s') st')"
proof -
  have "xfer_wf (link (env n))" using assms(1) by (simp add: ping_env_wf_def)
  from systemPing_eq [OF this assms(2), of junk status st] s' obtain rtn slept st'
    where p: "systemPing (env n) junk result status st = Inr (rtn, slept, Some s', st')"
    by auto
  show ?thesis
  proof (intro exI)
    show "StartSystem env junk result n boots status st =
      (if running s' then Some (Inr boots)
       else StartSystem env junk result (Suc n) (if capability s' = 0x3275 then Suc boots else boots) (Some s') st')"
      by (subst StartSystem.simps) (auto simp: p running_def)
  qed
qed

lemma StartSystem_stop:
  "StartSystem env junk result n boots status st = Some r \<Longrightarrow> ping_env_wf env \<Longrightarrow> length result = 4 \<Longrightarrow>
   status = Some s \<Longrightarrow> \<not> running s \<Longrightarrow> \<exists>m a. n \<le> m \<and> ping_answer (env m) junk = Some a \<and> running a"
proof (induction arbitrary: s rule: StartSystem.raw_induct [rotated, consumes 1])
  case (1 StartSystem env junk result n boots status st y)
  have wf: "xfer_wf (link (env n))" using 1(3) by (simp add: ping_env_wf_def)
  define s' where "s' = (case ping_answer (env n) junk of None \<Rightarrow> s | Some a \<Rightarrow> a)"
  from systemPing_eq [OF wf 1(4), of junk status st] 1(5) obtain rtn slept st'
    where p: "systemPing (env n) junk result status st = Inr (rtn, slept, Some s', st')"
    by (auto simp: s'_def split: option.splits)
  show ?case
  proof (cases "running s'")
    case True
    with 1(6) show ?thesis by (auto simp: s'_def split: option.splits)
  next
    case False
    then obtain b where "StartSystem env junk result (Suc n) b (Some s') st' = Some y"
      using 1(2) p by (auto simp: running_def split: if_splits)
    from 1(1) [OF this 1(3,4) refl False] show ?thesis by (metis Suc_leD)
  qed
qed

lemma StartSystem_reach:
  "ping_env_wf env \<Longrightarrow> length result = 4 \<Longrightarrow> ping_answer (env (n + k)) junk = Some a \<Longrightarrow> running a \<Longrightarrow>
   (case ping_answer (env n) junk of None \<Rightarrow> status | Some a \<Rightarrow> Some a) \<noteq> None \<Longrightarrow>
   \<exists>b. StartSystem env junk result n boots status st = Some (Inr b)"
proof (induction k arbitrary: n boots status st)
  case 0
  then obtain st' b where "StartSystem env junk result n boots status st =
    (if running a then Some (Inr boots) else StartSystem env junk result (Suc n) b (Some a) st')"
    using StartSystem_turn [OF 0(1,2), where n = n and junk = junk and status = status and s' = a and
        boots = boots and st = st] by auto
  with 0 show ?case by simp
next
  case (Suc k)
  then obtain s' where s': "(case ping_answer (env n) junk of None \<Rightarrow> status | Some a \<Rightarrow> Some a) = Some s'"
    by auto
  obtain st' b where st': "StartSystem env junk result n boots status st =
    (if running s' then Some (Inr boots) else StartSystem env junk result (Suc n) b (Some s') st')"
    using StartSystem_turn [OF Suc.prems(1,2) s'] by blast
  have "ping_answer (env (Suc n + k)) junk = Some a" using Suc.prems(3) by simp
  then have "\<exists>c. StartSystem env junk result (Suc n) b (Some s') st' = Some (Inr c)"
    using Suc.prems(1,2,4) by (intro Suc.IH) (auto split: option.splits)
  with st' show ?case by simp
qed

section \<open>Properties\<close>

text \<open>
  C33: \<^verbatim>\<open>StateMonitor\<close> is blind to a coprocessor that stops answering.  Once a good answer is in its
  status variable it exits if and only if some later ping is answered with a capability other
  than 0x0059; if all later pings fail it keeps running forever on the stale status.
\<close>

theorem StateMonitor_exits_iff:
  assumes "ping_env_wf env" and "length result = 4" and "capability s = 0x0059"
  shows "((\<exists>r. StateMonitor env junk result n (Some s) st = Some r) \<longleftrightarrow>
      (\<exists>m a. n \<le> m \<and> ping_answer (env m) junk = Some a \<and> capability a \<noteq> 0x0059)) \<and>
    ((\<forall>m \<ge> n. ping_answer (env m) junk = None) \<longrightarrow> StateMonitor env junk result n (Some s) st = None)"
proof
  show iff: "(\<exists>r. StateMonitor env junk result n (Some s) st = Some r) \<longleftrightarrow>
      (\<exists>m a. n \<le> m \<and> ping_answer (env m) junk = Some a \<and> capability a \<noteq> 0x0059)"
    using StateMonitor_stop [OF _ assms(1,2) refl assms(3)] StateMonitor_reach [OF assms(1,2), of n]
    by (metis le_Suc_ex)
  then show "(\<forall>m \<ge> n. ping_answer (env m) junk = None) \<longrightarrow> StateMonitor env junk result n (Some s) st = None"
    by (metis not_None_eq)
qed

text \<open>A dead link, and a link on which the coprocessor always reports normal operation.\<close>

definition dead_link :: ping_env where
  "dead_link = \<lparr>now = 100, later = 101, link = \<lambda>_. (-1, replicate 256 0)\<rparr>"

definition live_link :: ping_env where
  "live_link = \<lparr>now = 100, later = 101, link = \<lambda>_. (0, 0x59 # 0 # 2 # replicate 253 0)\<rparr>"

theorem StateMonitor_exits_iff_witness:
  "StateMonitor (\<lambda>_. dead_link) [] (replicate 4 0) 1 (Some \<lparr>capability = 0x0059, operationState = 2\<rparr>)
     \<lparr>consecutiveFailedPing = 0, lastFailedPing = None\<rparr> = None"
proof -
  have "ping_env_wf (\<lambda>_. dead_link)" "ping_answer dead_link [] = None"
    by (simp_all add: ping_env_wf_def xfer_wf_def dead_link_def ping_answer_def)
  with StateMonitor_exits_iff [OF this(1), of "replicate 4 0" "\<lparr>capability = 0x0059, operationState = 2\<rparr>"]
  show ?thesis by simp
qed

text \<open>
  \<^verbatim>\<open>StartSystem\<close> returns exactly when the coprocessor reports normal operation: if the first ping
  is answered, it returns if and only if some ping is answered with capability 0x0059 and
  state 2, however many fail or report the boot loader in between; if the first ping fails, it
  compares an uninitialised status.
\<close>

theorem StartSystem_waits:
  assumes "ping_env_wf env" and "length result = 4"
  shows "if ping_answer (env 0) junk = None then StartSystem env junk result 0 0 None st = Some (Inl UninitRead)
    else (\<exists>r. StartSystem env junk result 0 0 None st = Some r) = (\<exists>m a. ping_answer (env m) junk = Some a \<and> running a)"
proof (cases "ping_answer (env 0) junk")
  case None
  have "xfer_wf (link (env 0))" using assms(1) by (simp add: ping_env_wf_def)
  from systemPing_eq [OF this assms(2), of junk None st] None show ?thesis
    by (subst StartSystem.simps) auto
next
  case (Some a)
  then have s': "(case ping_answer (env 0) junk of None \<Rightarrow> None | Some a \<Rightarrow> Some a) = Some a" by simp
  obtain st' b where turn: "StartSystem env junk result 0 0 None st =
    (if running a then Some (Inr 0) else StartSystem env junk result (Suc 0) b (Some a) st')"
    using StartSystem_turn [OF assms s'] by blast
  have "\<exists>m a. ping_answer (env m) junk = Some a \<and> running a"
    if "StartSystem env junk result 0 0 None st = Some r" for r
    using that turn Some StartSystem_stop [of env junk result "Suc 0" b "Some a" st' r a] assms by (auto split: if_splits)
  moreover have "\<exists>r. StartSystem env junk result 0 0 None st = Some r"
    if "ping_answer (env m) junk = Some a'" "running a'" for m a'
    using StartSystem_reach [OF assms, of 0 m junk a' None 0 st] that s' by auto
  ultimately have "(\<exists>r. StartSystem env junk result 0 0 None st = Some r) =
    (\<exists>m a. ping_answer (env m) junk = Some a \<and> running a)" by blast
  then show ?thesis using Some by simp
qed

theorem StartSystem_waits_witness:
  "\<exists>r. StartSystem (\<lambda>n. if n = 1 then dead_link else live_link) [] (replicate 4 0) 0 0 None
     \<lparr>consecutiveFailedPing = 0, lastFailedPing = None\<rparr> = Some r"
proof -
  let ?env = "\<lambda>n :: nat. if n = 1 then dead_link else live_link"
  have wf: "ping_env_wf ?env"
    by (simp add: ping_env_wf_def xfer_wf_def dead_link_def live_link_def)
  have "ping_answer (?env 0) [] = Some \<lparr>capability = 0x0059, operationState = 2\<rparr>"
    by (simp add: ping_answer_def live_link_def slice_def)
  with StartSystem_waits [OF wf, of "replicate 4 0" "[]"] show ?thesis
    by (auto simp: running_def)
qed

text \<open>The layouts in which the device sends its answers.\<close>

definition assoc_bytes :: "associated_devices_t \<Rightarrow> byte list" where
  "assoc_bytes d = le_bytes 2 (shortAddr d) @ le_bytes 2 (addrIdx d) @
     [nodeRelation d, devStatus d, assocCnt d, age d, txCounter d, txCost d, rxLqi d, inKeySeqNum d] @
     le_bytes 4 (inFrmCntr d) @ le_bytes 2 (txFailure d)"

definition device_info_bytes :: "mt_device_info_t \<Rightarrow> byte list" where
  "device_info_bytes i = [di_status i] @ le_bytes 8 (di_IEEEAddr i) @ le_bytes 2 (di_NwkAddr i) @
     [di_DeviceType i, di_DeviceState i, di_NumAssocDevices i]"

definition nv_info_bytes :: "NvInfo_t \<Rightarrow> byte list" where
  "nv_info_bytes i = [info_status i] @ le_bytes 8 (info_IEEEAddr i) @ le_bytes 4 (info_ScanChannels i) @
     le_bytes 2 (info_PanId i) @ [info_SecurityLevel i]"

text \<open>
  The device answers are decoded as they are laid out: for every record, if the response
  starts with its little-endian encoding and has 256 bytes, the getter returns 0 and exactly
  that record, whatever the stack memory holds; if the transport fails, the getter returns -1
  and leaves the caller's record alone.
\<close>

theorem device_answers_decode:
  assumes "length r18 = 18" and "length r256 = 256" and "length pad1 = 238" and "length pad2 = 242" and "length pad3 = 240"
  shows "getAssocInfo (\<lambda>_. (0, assoc_bytes d @ pad1)) junk r18 old idx = Inr (0, d) \<and>
    getDeviceInfo (\<lambda>_. (0, device_info_bytes i @ pad2)) junk r256 old2 = Inr (0, i) \<and>
    GetNvInfo (\<lambda>_. (0, nv_info_bytes v @ pad3)) junk r256 old3 = Inr (0, v) \<and>
    getAssocInfo (\<lambda>_. (-1, p)) junk r18 old idx = Inr (-1, old) \<and>
    getDeviceInfo (\<lambda>_. (-1, p)) junk r256 old2 = Inr (-1, old2) \<and>
    GetNvInfo (\<lambda>_. (-1, p)) junk r256 old3 = Inr (-1, old3)"
proof (intro conjI)
  have "take 18 (assoc_bytes d @ pad1) = assoc_bytes d" by (simp add: assoc_bytes_def)
  then show "getAssocInfo (\<lambda>_. (0, assoc_bytes d @ pad1)) junk r18 old idx = Inr (0, d)"
    using assms(1,3)
    by (simp add: getAssocInfo_def mtUtilAssocFindDevice_def MTSEND_ok blit_whole assoc_bytes_def)
      (simp add: slice_def)
  show "getDeviceInfo (\<lambda>_. (0, device_info_bytes i @ pad2)) junk r256 old2 = Inr (0, i)"
    using assms(2,4)
    by (simp add: getDeviceInfo_def mtUtilGetDeviceInfo_def MTSEND_whole device_info_bytes_def)
      (simp add: slice_def nth_append)
  show "GetNvInfo (\<lambda>_. (0, nv_info_bytes v @ pad3)) junk r256 old3 = Inr (0, v)"
    using assms(2,5)
    by (simp add: GetNvInfo_def MTSEND_whole nv_info_bytes_def) (simp add: slice_def)
qed (simp_all add: getAssocInfo_def mtUtilAssocFindDevice_def getDeviceInfo_def mtUtilGetDeviceInfo_def GetNvInfo_def
    MTSEND_failed)

theorem device_answers_decode_witness:
  "getDeviceInfo (\<lambda>_. (0, [0, 1, 2, 3, 4, 5, 6, 7, 8, 0x34, 0x12, 7, 9, 2] @ replicate 242 0)) [] (replicate 256 0)
       \<lparr>di_status = 0, di_IEEEAddr = 0, di_NwkAddr = 0, di_DeviceType = 0, di_DeviceState = 0, di_NumAssocDevices = 0\<rparr>
     = Inr (0, \<lparr>di_status = 0, di_IEEEAddr = 0x0807060504030201, di_NwkAddr = 0x1234, di_DeviceType = 7,
         di_DeviceState = 9, di_NumAssocDevices = 2\<rparr>)"
proof -
  let ?i = "\<lparr>di_status = 0, di_IEEEAddr = 0x0807060504030201, di_NwkAddr = 0x1234, di_DeviceType = 7,
    di_DeviceState = 9, di_NumAssocDevices = 2\<rparr>"
  have b: "device_info_bytes ?i = [0, 1, 2, 3, 4, 5, 6, 7, 8, 0x34, 0x12, 7, 9, 2]"
    by (simp add: device_info_bytes_def le_bytes_def upt_rec)
  from device_answers_decode [of "replicate 18 0" "replicate 256 0" "replicate 238 0" "replicate 242 0" "replicate 240 0"
      undefined "[]" undefined undefined ?i "\<lparr>di_status = 0, di_IEEEAddr = 0, di_NwkAddr = 0, di_DeviceType = 0, di_DeviceState = 0, di_NumAssocDevices = 0\<rparr>" undefined undefined "[]"]
  show ?thesis unfolding b [symmetric] by simp
qed

text \<open>
  \<^verbatim>\<open>getChannel\<close> and \<^verbatim>\<open>getNwkUpdateId\<close> trust the item to be long enough.  When the device answers
  with fewer bytes than the offset they read (22 and 109), they return status 0 and a byte of
  uninitialised stack memory; the status byte inside the answer is not looked at.
\<close>

theorem getChannel_short_item:
  assumes "length result = 256" and "NvItem_wf stack" and "length data = 254" and "len \<noteq> 0" and "len \<noteq> 255"
    and "\<forall>m. x m = (0, status # len # data)"
  shows "getChannel x junk result stack out =
      Inr (0, if 22 < unat len then data ! 22 else nv_value stack ! 22) \<and>
    getNwkUpdateId x junk result stack out =
      Inr (0, if 109 < unat len then data ! 109 else nv_value stack ! 109)"
proof -
  let ?it = "nv_item stack 0x0021 0 0"
  have wf: "NvItem_wf ?it" "length (nv_value stack) = 256" using assms(2) by (simp_all add: NvItem_wf_def nv_item_def)
  have read: "OsalNvRead x junk result ?it = Inr (0, ?it\<lparr>nv_status := status, nv_len := len,
      nv_value := take (unat len) data @ drop (unat len) (nv_value ?it)\<rparr>)"
    using OsalNvRead_eq [OF assms(1) wf(1) _ assms(3)] assms(5,6) by simp
  have n: "unat len < 256" by (rule unat_byte)
  have "nv_get k x junk result stack out = Inr (0, if k < unat len then data ! k else nv_value stack ! k)"
    if "k < 254" for k
    using that read assms(3,4) wf(2) n by (auto simp: nv_get_def nv_item_def nth_append rd_def min_def)
  then show ?thesis by (simp add: getChannel_def getNwkUpdateId_def)
qed

theorem getChannel_short_item_witness:
  "getChannel (\<lambda>_. (0, 2 # 1 # replicate 254 9)) [] (replicate 256 0) sample_item 0 = Inr (0, 7)"
  using getChannel_short_item [of "replicate 256 0" sample_item "replicate 254 9" 1 "\<lambda>_. (0, 2 # 1 # replicate 254 9)" 2 "[]" 0]
  by (simp add: NvItem_wf_def sample_item_def)

end
