(* ===== verification/Watchdog.thy ===== *)
theory Watchdog
  imports Hal
begin

text \<open>
  The two processes that keep the gateway alive: the keep-alive file and the command line of
  kappaio.cpp, and the monitor kappaio-watch/source/kappaio_watch.cpp, which reads the file and
  the pid file every ten seconds and restarts the gateway.  Files are byte lists; \<open>None\<close> is a file
  that does not exist.
\<close>

section \<open>Decimal numbers in files\<close>

text \<open>\<^verbatim>\<open>sprintf("%d\n")\<close> of a number that is not negative, and \<^verbatim>\<open>fscanf("%d")\<close> of such a text.\<close>

function decimal :: "nat \<Rightarrow> byte list" where
  "decimal n = (if n < 10 then [0x30 + of_nat n] else decimal (n div 10) @ [0x30 + of_nat (n mod 10)])"
  by pat_completeness auto

termination by (relation "measure id") auto

declare decimal.simps [simp del]

definition is_digit :: "byte \<Rightarrow> bool" where
  "is_digit c \<longleftrightarrow> 0x30 \<le> c \<and> c \<le> 0x39"

definition digit_val :: "byte \<Rightarrow> nat" where
  "digit_val c = unat (c - 0x30)"

definition scan_decimal :: "byte list \<Rightarrow> nat option" where
  "scan_decimal body =
     (let ds = takeWhile is_digit body
      in if ds = [] then None else Some (foldl (\<lambda>a c. 10 * a + digit_val c) 0 ds))"

section \<open>The gateway's side\<close>

text \<open>A \<^verbatim>\<open>write\<close> at the start of a file opened without \<^verbatim>\<open>O_TRUNC\<close>: the old tail stays.\<close>

definition overwrite :: "byte list option \<Rightarrow> byte list \<Rightarrow> byte list" where
  "overwrite old new = new @ (case old of None \<Rightarrow> [] | Some f \<Rightarrow> drop (length new) f)"

text \<open>\<^verbatim>\<open>klaIncr\<close>: the static counter is an \<^verbatim>\<open>unsigned short\<close>.\<close>

definition klaIncr :: "u16 \<Rightarrow> byte list option \<Rightarrow> u16 \<times> byte list option" where
  "klaIncr keepAliveCount file =
     (keepAliveCount + 1, Some (overwrite file (decimal (unat keepAliveCount) @ [0x0A])))"

text \<open>
  \<^verbatim>\<open>handleWriteFlash\<close>: \<open>lib\<close> is the outcome of \<^verbatim>\<open>dlopen\<close>/\<^verbatim>\<open>dlsym\<close> of the flasher, \<open>pings\<close> the
  answers to the final pings (\<open>None\<close>: the ping failed and is repeated).  The result is the
  exit status and what is printed.
\<close>

datatype flash_output = StartingCRC | CRCFailed | CRCOk

partial_function (option) flash_ping :: "(nat \<Rightarrow> processorStatus option) \<Rightarrow> nat \<Rightarrow> processorStatus option" where
  "flash_ping pings n = (case pings n of None \<Rightarrow> flash_ping pings (Suc n) | Some s \<Rightarrow> Some s)"

definition handleWriteFlash_check ::
    "(nat \<Rightarrow> processorStatus option) \<Rightarrow> int \<Rightarrow> (int \<times> flash_output list) option" where
  "handleWriteFlash_check pings exitStatus =
     (case flash_ping pings 0 of
        None \<Rightarrow> None
      | Some s \<Rightarrow> Some (exitStatus, [StartingCRC] @ (if capability s \<noteq> 0x3275 then [CRCFailed] else []) @ [CRCOk]))"

definition handleWriteFlash ::
    "string list \<Rightarrow> (string \<Rightarrow> int) option \<Rightarrow> (nat \<Rightarrow> processorStatus option) \<Rightarrow> (int \<times> flash_output list) option" where
  "handleWriteFlash argv lib pings =
     (if length argv \<le> 1 then Some (-1, [])
      else let aargv = argv ! 1 in
        if length aargv > 1 \<and> aargv ! 0 = CHR ''-'' \<and> aargv ! 1 = CHR ''w''
        then (if length argv < 3 then Some (-1, [CRCOk])
              else case lib of
                     None \<Rightarrow> Some (-1, [CRCOk])
                   | Some flashImage \<Rightarrow> handleWriteFlash_check pings (flashImage (argv ! 2)))
        else handleWriteFlash_check pings (-1))"

text \<open>What \<^verbatim>\<open>main\<close> does with its arguments; \<open>NullText\<close> is a \<^verbatim>\<open>std::string\<close> made from a null pointer.\<close>

datatype main_call = Daemon | WriteFlash | Json string | NullText | Exit int

definition main_args :: "string list \<Rightarrow> main_call" where
  "main_args argv =
     (if length argv \<le> 1 then Daemon
      else let aargv = argv ! 1 in
        if length aargv \<le> 1 \<or> aargv ! 0 \<noteq> CHR ''-'' then Exit (-1)
        else if aargv ! 1 = CHR ''w'' then WriteFlash
        else if aargv ! 1 = CHR ''j'' then (if 2 < length argv then Json (argv ! 2) else NullText)
        else Exit (-1))"

text \<open>
  \<^verbatim>\<open>write_pid\<close> of both processes: \<^verbatim>\<open>open\<close> creates the file, \<^verbatim>\<open>flock\<close> fails on a bad descriptor and when
  another instance holds the lock.  The descriptor stays open, and with it the lock.
\<close>

definition write_pid :: "nat \<Rightarrow> bool \<Rightarrow> bool \<Rightarrow> byte list option \<Rightarrow> int \<times> byte list option" where
  "write_pid pid opened locked pidf =
     (if \<not> opened then (-1, pidf)
      else let body = (case pidf of None \<Rightarrow> [] | Some b \<Rightarrow> b) in
        if locked then (-1, Some body) else (0, Some (overwrite (Some body) (decimal pid @ [0x0A]))))"

text \<open>
  Becoming a daemon: the results of \<^verbatim>\<open>fork\<close>, \<^verbatim>\<open>setsid\<close> and \<^verbatim>\<open>chdir\<close>, and what becomes of the process; \<^verbatim>\<open>SIGTERM\<close> removes the
  pid file and ends it, the monitor having stopped the gateway before.
\<close>

datatype process = Exited int | Running

definition daemonize :: "int \<Rightarrow> int \<Rightarrow> int \<Rightarrow> process" where
  "daemonize pid sid cd =
     (if pid < 0 then Exited 1 else if pid > 0 then Exited 0 else if sid < 0 then Exited 1 else if cd < 0 then Exited 1 else Running)"

record files =
  pid_file :: "byte list option"
  kla_file :: "byte list option"

definition daemon_signal_handler :: "bool \<Rightarrow> process \<times> files \<Rightarrow> process \<times> files" where
  "daemon_signal_handler sigterm s = (if sigterm then (Exited 0, (snd s)\<lparr>pid_file := None\<rparr>) else s)"

text \<open>
  The monitor begins in the same way with a pid file of its own.  Its \<^verbatim>\<open>SIGTERM\<close> first stops the gateway: the script
  signals the process that the gateway's pid file names, if there is one.
\<close>

definition watch_begin :: "int \<Rightarrow> int \<Rightarrow> int \<Rightarrow> nat \<Rightarrow> bool \<Rightarrow> bool \<Rightarrow> byte list option \<Rightarrow> process \<times> byte list option" where
  "watch_begin pid sid cd mypid opened locked pidf =
     (case daemonize pid sid cd of
        Exited n \<Rightarrow> (Exited n, pidf)
      | Running \<Rightarrow> (case write_pid mypid opened locked pidf of (r, pf) \<Rightarrow> (if r < 0 then Exited 0 else Running, pf)))"

definition watch_signal_handler ::
    "bool \<Rightarrow> byte list option \<Rightarrow> process \<times> byte list option \<Rightarrow> nat list \<times> process \<times> byte list option" where
  "watch_signal_handler sigterm kappaio_pidf s =
     (if sigterm
      then (case kappaio_pidf of None \<Rightarrow> [] | Some b \<Rightarrow> (case scan_decimal b of None \<Rightarrow> [] | Some p \<Rightarrow> [p]), Exited 0, None)
      else ([], s))"

text \<open>The beginning of the daemon, up to the first keep-alive count; the result is the process, the counter and the files.\<close>

definition main_begin :: "int \<Rightarrow> int \<Rightarrow> int \<Rightarrow> nat \<Rightarrow> bool \<Rightarrow> bool \<Rightarrow> files \<Rightarrow> process \<times> u16 \<times> files" where
  "main_begin pid sid cd mypid opened locked f =
     (case daemonize pid sid cd of
        Exited n \<Rightarrow> (Exited n, 1, f)
      | Running \<Rightarrow>
          (case write_pid mypid opened locked (pid_file f) of (r, pf) \<Rightarrow>
             if r < 0 then (Exited 0, 1, f\<lparr>pid_file := pf\<rparr>)
             else (case klaIncr 1 (kla_file f) of (c, kf) \<Rightarrow> (Running, c, f\<lparr>pid_file := pf, kla_file := kf\<rparr>))))"

section \<open>The monitor\<close>

definition readKLA :: "byte list option \<Rightarrow> ub + int" where
  "readKLA file =
     (case file of None \<Rightarrow> Inr (-1)
      | Some body \<Rightarrow> (case scan_decimal body of None \<Rightarrow> Inl UninitRead | Some n \<Rightarrow> Inr (int n)))"

text \<open>\<open>stat_proc\<close>: the result of \<^verbatim>\<open>stat("/proc/<pid>")\<close>, an error other than \<^verbatim>\<open>ENOENT\<close> counts as running.\<close>

datatype stat_result = Exists | NoEnt | OtherError

definition checkByPIDFile :: "byte list option \<Rightarrow> (nat \<Rightarrow> stat_result) \<Rightarrow> ub + int" where
  "checkByPIDFile pidf stat_proc =
     (case pidf of None \<Rightarrow> Inr (-1)
      | Some body \<Rightarrow>
          (case scan_decimal body of None \<Rightarrow> Inl UninitRead
           | Some pid \<Rightarrow> Inr (if stat_proc pid = NoEnt then -1 else 0)))"

record watch =
  keepAliveCountRef :: int
  tolerance :: int

definition watch_init :: watch where
  "watch_init = \<lparr>keepAliveCountRef = 0, tolerance = 0\<rparr>"

text \<open>One turn of the loop of \<^verbatim>\<open>main\<close>, given the two checks; the boolean tells whether it restarts.\<close>

definition watch_turn :: "int \<times> int \<Rightarrow> watch \<Rightarrow> bool \<times> watch" where
  "watch_turn c w =
     (case c of (pid_check, keepAliveCount) \<Rightarrow>
        if pid_check < 0 then (True, w)
        else if keepAliveCount < 0 then (True, w)
        else if keepAliveCount \<noteq> keepAliveCountRef w
        then (False, w\<lparr>keepAliveCountRef := keepAliveCount, tolerance := 0\<rparr>)
        else if tolerance w > 0 then (True, w\<lparr>tolerance := 0\<rparr>)
        else (False, w\<lparr>tolerance := tolerance w + 1\<rparr>))"

fun watch_run :: "(int \<times> int) list \<Rightarrow> watch \<Rightarrow> bool list \<times> watch" where
  "watch_run [] w = ([], w)"
| "watch_run (c # cs) w =
     (let (r, w') = watch_turn c w; (rs, w'') = watch_run cs w' in (r # rs, w''))"

section \<open>Lemmas\<close>

lemma digit_facts: "n < 10 \<Longrightarrow> is_digit (0x30 + of_nat n) \<and> digit_val (0x30 + of_nat n) = n"
proof -
  have "\<forall>n \<in> {0..<10 :: nat}. is_digit (0x30 + of_nat n) \<and> digit_val (0x30 + of_nat n) = n"
    by (simp add: atLeastLessThan_upt upt_rec is_digit_def digit_val_def)
  then show "n < 10 \<Longrightarrow> is_digit (0x30 + of_nat n) \<and> digit_val (0x30 + of_nat n) = n" by auto
qed

lemma decimal_digits: "decimal n \<noteq> [] \<and> (\<forall>c \<in> set (decimal n). is_digit c)"
proof (induction n rule: decimal.induct)
  case (1 n)
  then show ?case
    using digit_facts [of n] digit_facts [of "n mod 10"] by (subst decimal.simps, subst (2) decimal.simps) auto
qed

lemma decimal_value: "foldl (\<lambda>a c. 10 * a + digit_val c) 0 (decimal n) = n"
proof (induction n rule: decimal.induct)
  case (1 n)
  then show ?case
    using digit_facts [of n] digit_facts [of "n mod 10"] by (subst decimal.simps) auto
qed

lemma scan_decimal_line: "scan_decimal (decimal n @ 0x0A # rest) = Some n"
proof -
  have "takeWhile is_digit (decimal n @ 0x0A # rest) = decimal n"
    using decimal_digits [of n] by (subst takeWhile_append2) (auto simp: is_digit_def)
  then show ?thesis using decimal_digits [of n] decimal_value [of n] by (simp add: scan_decimal_def)
qed

lemma watch_run_Cons:
  "watch_run (c # cs) w = (fst (watch_turn c w) # fst (watch_run cs (snd (watch_turn c w))),
     snd (watch_run cs (snd (watch_turn c w))))"
  by (simp add: case_prod_beta Let_def)

lemma watch_alive:
  "\<forall>c \<in> set cs. 0 \<le> fst c \<and> 0 \<le> snd c \<Longrightarrow> distinct_adj (keepAliveCountRef w # map snd cs) \<Longrightarrow>
   True \<notin> set (fst (watch_run cs w))"
proof (induction cs arbitrary: w)
  case Nil
  then show ?case by simp
next
  case (Cons c cs)
  obtain a k where c: "c = (a, k)" by (cases c)
  have turn: "watch_turn c w = (False, w\<lparr>keepAliveCountRef := k, tolerance := 0\<rparr>)"
    using Cons.prems c by (simp add: watch_turn_def)
  have "True \<notin> set (fst (watch_run cs (w\<lparr>keepAliveCountRef := k, tolerance := 0\<rparr>)))"
    using Cons.prems c by (intro Cons.IH) auto
  then show ?case by (simp only: watch_run_Cons turn) simp
qed

section \<open>Properties\<close>

text \<open>
  The monitor restarts a stalled gateway and leaves a healthy one alone.  A gateway that is
  not running or whose counter cannot be read is restarted at once; from any state, a counter
  that stays the same over three turns causes a restart within them; and as long as the
  process runs and its counter differs from turn to turn, no restart happens.
\<close>

theorem watch_restarts:
  "(\<forall>c w. fst c < 0 \<or> snd c < 0 \<longrightarrow> fst (watch_turn c w)) \<and>
   (\<forall>c1 c2 c3 w. snd c1 = snd c2 \<longrightarrow> snd c2 = snd c3 \<longrightarrow> 0 \<le> tolerance w \<longrightarrow>
      True \<in> set (fst (watch_run [c1, c2, c3] w))) \<and>
   (\<forall>cs w. (\<forall>c \<in> set cs. 0 \<le> fst c \<and> 0 \<le> snd c) \<longrightarrow> distinct_adj (keepAliveCountRef w # map snd cs) \<longrightarrow>
      True \<notin> set (fst (watch_run cs w)))"
proof (intro conjI allI impI)
  show "fst c < 0 \<or> snd c < 0 \<Longrightarrow> fst (watch_turn c w)" for c w
    by (auto simp: watch_turn_def split: prod.split)
  show "True \<in> set (fst (watch_run [c1, c2, c3] w))"
    if "snd c1 = snd c2" "snd c2 = snd c3" "0 \<le> tolerance w" for c1 c2 c3 w
    using that by (cases c1; cases c2; cases c3) (auto simp: watch_turn_def split: prod.splits)
  show "True \<notin> set (fst (watch_run cs w))"
    if "\<forall>c \<in> set cs. 0 \<le> fst c \<and> 0 \<le> snd c" "distinct_adj (keepAliveCountRef w # map snd cs)" for cs w
    using that by (rule watch_alive)
qed

theorem watch_restarts_witness:
  "fst (watch_run [(0, 1), (0, 3), (0, 5)] watch_init) = [False, False, False] \<and>
   True \<in> set (fst (watch_run [(0, 5), (0, 5), (0, 5)] watch_init))"
proof -
  have "True \<notin> set (fst (watch_run [(0, 1), (0, 3), (0, 5)] watch_init))"
    by (rule watch_restarts [THEN conjunct2, THEN conjunct2, THEN spec, THEN spec, THEN mp, THEN mp])
      (simp_all add: watch_init_def)
  moreover have "True \<in> set (fst (watch_run [(0, 5), (0, 5), (0, 5)] watch_init))"
    using watch_restarts [THEN conjunct2, THEN conjunct1, rule_format, of "(0, 5)" "(0, 5)" "(0, 5)" watch_init]
    by (simp add: watch_init_def)
  ultimately show ?thesis by (simp add: Let_def case_prod_beta)
qed

text \<open>
  The keep-alive file works although it is never truncated.  Whatever the file contained, the
  monitor reads back the counter that was written last; the counter is a 16-bit one, and two
  readings between which it was incremented at least once and less than 65536 times differ.
\<close>

theorem keep_alive_roundtrip:
  "readKLA (snd (klaIncr c file)) = Inr (int (unat c)) \<and> fst (klaIncr c file) = c + 1 \<and>
   (\<forall>d. 0 < d \<longrightarrow> d < 65536 \<longrightarrow> int (unat (c + of_nat d)) \<noteq> int (unat c))"
proof (intro conjI allI impI)
  show "readKLA (snd (klaIncr c file)) = Inr (int (unat c))"
    by (simp add: klaIncr_def readKLA_def overwrite_def scan_decimal_line)
  show "fst (klaIncr c file) = c + 1" by (simp add: klaIncr_def)
  fix d :: nat assume "0 < d" "d < 65536"
  then have "unat (of_nat d :: u16) = d" by (simp add: unat_of_nat)
  with \<open>0 < d\<close> have "(of_nat d :: u16) \<noteq> 0" by auto
  then have "c + of_nat d \<noteq> c" by simp
  then show "int (unat (c + of_nat d)) \<noteq> int (unat c)"
    unfolding of_nat_eq_iff word_unat_eq_iff [symmetric] .
qed

theorem keep_alive_roundtrip_witness:
  "readKLA (snd (klaIncr 0 (Some [0x36, 0x35, 0x35, 0x33, 0x35, 0x0A]))) = Inr 0 \<and>
   int (unat ((65535 :: u16) + of_nat 2)) \<noteq> int (unat (65535 :: u16))"
proof -
  have "int (unat ((65535 :: u16) + of_nat 2)) \<noteq> int (unat (65535 :: u16))"
    using keep_alive_roundtrip [of 65535 None] by fastforce
  moreover have "readKLA (snd (klaIncr 0 (Some [0x36, 0x35, 0x35, 0x33, 0x35, 0x0A]))) = Inr (int (unat (0 :: u16)))"
    using keep_alive_roundtrip by blast
  ultimately show ?thesis by simp
qed

text \<open>
  \<^verbatim>\<open>handleWriteFlash\<close> reports success whatever happened.  Whenever it returns after being
  given an option, the last thing it prints is that the CRC check is ok and the flash was
  successful: without an image path, without the flasher library, and also when the module
  answers with anything but a valid image, in which case the failure message comes first.
\<close>

theorem handleWriteFlash_always_ok:
  assumes "handleWriteFlash argv lib pings = Some (st, out)" and "1 < length argv"
  shows "last out = CRCOk \<and> out \<noteq> [] \<and>
    (CRCFailed \<in> set out \<longrightarrow> (\<exists>s. flash_ping pings 0 = Some s \<and> capability s \<noteq> 0x3275 \<and> out = [StartingCRC, CRCFailed, CRCOk])) \<and>
    ((lib = None \<or> length argv < 3) \<longrightarrow> st = -1)"
  using assms
  by (auto simp: handleWriteFlash_def handleWriteFlash_check_def Let_def split: if_splits option.splits)

theorem handleWriteFlash_always_ok_witness:
  "handleWriteFlash [''kappaio'', ''-w''] None (\<lambda>_. None) = Some (-1, [CRCOk]) \<and> last [CRCOk] = CRCOk"
proof -
  have "handleWriteFlash [''kappaio'', ''-w''] None (\<lambda>_. None) = Some (-1, [CRCOk])"
    by (simp add: handleWriteFlash_def)
  with handleWriteFlash_always_ok [OF this] show ?thesis by simp
qed

text \<open>
  The monitor finds the process that wrote the pid file, whatever an earlier one left in it, and a second
  instance leaves the file as it is; but between the creation of the file and its writing the
  monitor reads a number that is not there.
\<close>

theorem pid_file_roundtrip:
  assumes "write_pid pid opened locked pidf = (r, f)"
  shows "(r = 0 \<longrightarrow> (\<forall>stat_proc. checkByPIDFile f stat_proc = Inr (if stat_proc pid = NoEnt then -1 else 0))) \<and>
    (r \<noteq> 0 \<longrightarrow> r = -1 \<and> (pidf \<noteq> None \<longrightarrow> f = pidf)) \<and>
    (opened \<and> locked \<and> pidf = None \<longrightarrow> (\<forall>stat_proc. checkByPIDFile f stat_proc = Inl UninitRead))"
proof -
  have "scan_decimal [] = None" by (simp add: scan_decimal_def)
  then show ?thesis
    using assms by (auto simp: write_pid_def checkByPIDFile_def overwrite_def scan_decimal_line Let_def split: if_splits)
qed

theorem pid_file_roundtrip_witness:
  "checkByPIDFile (snd (write_pid 99 True False (Some [0x31, 0x32, 0x33, 0x34, 0x0A]))) (\<lambda>_. Exists) = Inr 0"
  using pid_file_roundtrip [of 99 True False "Some [0x31, 0x32, 0x33, 0x34, 0x0A]" 0 "snd (write_pid 99 True False (Some [0x31, 0x32, 0x33, 0x34, 0x0A]))"]
  by (simp add: write_pid_def)

text \<open>
  A daemon that has begun is found by the monitor, with its first count; one that finds the lock taken ends without
  touching the count of the other, and \<^verbatim>\<open>SIGTERM\<close> leaves no pid file behind, so that the monitor restarts at once.
\<close>

theorem daemon_begins:
  assumes "main_begin pid sid cd mypid opened locked f = (p, c, g)"
  shows "(p = Running \<longrightarrow> pid = 0 \<and> opened \<and> \<not> locked \<and> c = 2 \<and> readKLA (kla_file g) = Inr 1 \<and>
      (\<forall>stat_proc. stat_proc mypid \<noteq> NoEnt \<longrightarrow> checkByPIDFile (pid_file g) stat_proc = Inr 0)) \<and>
    (p \<noteq> Running \<longrightarrow> kla_file g = kla_file f) \<and>
    checkByPIDFile (pid_file (snd (daemon_signal_handler True (p, g)))) stat_proc = Inr (-1)"
proof -
  have "scan_decimal (decimal 1 @ 0x0A # r) = Some 1" for r by (rule scan_decimal_line)
  moreover have "checkByPIDFile None stat_proc = Inr (-1)" by (simp add: checkByPIDFile_def)
  ultimately show ?thesis
    using assms
    by (auto simp: main_begin_def daemonize_def daemon_signal_handler_def write_pid_def klaIncr_def readKLA_def checkByPIDFile_def
        overwrite_def scan_decimal_line Let_def split: process.splits if_splits)
qed

end
