(* ===== verification/AfMessage.thy ===== *)
theory AfMessage
  imports MtCommands
begin

text \<open>
  ZigBee application messages: the interfaces \<^verbatim>\<open>AFMessage\<close> and \<^verbatim>\<open>AFMessage_EXT\<close> of kzdef.h, their four
  implementations over a 255-byte array (hal/include/mtaf_impl.h for received messages,
  aps/source/aps_afmessage_impl.cpp for outgoing ones), and hal/source/mtaf.cpp, which turns
  received frames into messages and messages into frames.  A record holds what the getters of
  an object return; \<open>asdu\<close> is the part of the array its \<^verbatim>\<open>asdu()\<close> points to.  The getters
  \<^verbatim>\<open>wasBroadCast\<close> and \<^verbatim>\<open>securityUse\<close> of \<^verbatim>\<open>AFMessage_EXT\<close> return 0 in both implementations and their
  setters do nothing; they are left out of its record.
\<close>

section \<open>The interfaces\<close>

record AFMessage =
  dstAddr :: u16
  dstEndpoint :: byte
  groupId :: u16
  clusterId :: u16
  srcEndpoint :: byte
  srcAddr :: u16
  wasBroadCast :: byte
  linkQuality :: byte
  securityUse :: byte
  timeStamp :: u32
  tranSeqNum :: byte
  asduLen :: byte
  asdu :: "byte list"
  radius :: byte
  options :: byte
  dstAddrMode :: byte

record AFMessage_EXT =
  x_dstAddr :: u64
  x_dstEndpoint :: byte
  x_addrMode :: byte
  x_srcPanId :: u16
  x_dstPanId :: u16
  x_groupId :: u16
  x_clusterId :: u16
  x_srcEndpoint :: byte
  x_srcAddr :: u64
  x_linkQuality :: byte
  x_timeStamp :: u32
  x_tranSeqNum :: byte
  x_asduLen :: u16
  x_asdu :: "byte list"
  x_radius :: byte
  x_options :: byte

text \<open>The setters, as data, and what each promises.\<close>

datatype af_set =
    DstAddr u16 | DstEndpoint byte | GroupId u16 | ClusterId u16 | SrcEndpoint byte | SrcAddr u16
  | WasBroadCast byte | LinkQuality byte | SecurityUse byte | TimeStamp u32 | TranSeqNum byte
  | AsduLen byte | Radius byte | Options byte | DstAddrMode byte

fun promise :: "af_set \<Rightarrow> AFMessage \<Rightarrow> AFMessage" where
  "promise (DstAddr v) m = m\<lparr>dstAddr := v\<rparr>"
| "promise (DstEndpoint v) m = m\<lparr>dstEndpoint := v\<rparr>"
| "promise (GroupId v) m = m\<lparr>groupId := v\<rparr>"
| "promise (ClusterId v) m = m\<lparr>clusterId := v\<rparr>"
| "promise (SrcEndpoint v) m = m\<lparr>srcEndpoint := v\<rparr>"
| "promise (SrcAddr v) m = m\<lparr>srcAddr := v\<rparr>"
| "promise (WasBroadCast v) m = m\<lparr>wasBroadCast := v\<rparr>"
| "promise (LinkQuality v) m = m\<lparr>linkQuality := v\<rparr>"
| "promise (SecurityUse v) m = m\<lparr>securityUse := v\<rparr>"
| "promise (TimeStamp v) m = m\<lparr>timeStamp := v\<rparr>"
| "promise (TranSeqNum v) m = m\<lparr>tranSeqNum := v\<rparr>"
| "promise (AsduLen v) m = m\<lparr>asduLen := v\<rparr>"
| "promise (Radius v) m = m\<lparr>radius := v\<rparr>"
| "promise (Options v) m = m\<lparr>options := v\<rparr>"
| "promise (DstAddrMode v) m = m\<lparr>dstAddrMode := v\<rparr>"

datatype af_set_EXT =
    XDstAddr u64 | XDstEndpoint byte | XAddrMode byte | XSrcPanId u16 | XDstPanId u16 | XGroupId u16
  | XClusterId u16 | XSrcEndpoint byte | XSrcAddr u64 | XLinkQuality byte | XTimeStamp u32
  | XTranSeqNum byte | XAsduLen u16 | XRadius byte | XOptions byte

fun promise_EXT :: "af_set_EXT \<Rightarrow> AFMessage_EXT \<Rightarrow> AFMessage_EXT" where
  "promise_EXT (XDstAddr v) m = m\<lparr>x_dstAddr := v\<rparr>"
| "promise_EXT (XDstEndpoint v) m = m\<lparr>x_dstEndpoint := v\<rparr>"
| "promise_EXT (XAddrMode v) m = m\<lparr>x_addrMode := v\<rparr>"
| "promise_EXT (XSrcPanId v) m = m\<lparr>x_srcPanId := v\<rparr>"
| "promise_EXT (XDstPanId v) m = m\<lparr>x_dstPanId := v\<rparr>"
| "promise_EXT (XGroupId v) m = m\<lparr>x_groupId := v\<rparr>"
| "promise_EXT (XClusterId v) m = m\<lparr>x_clusterId := v\<rparr>"
| "promise_EXT (XSrcEndpoint v) m = m\<lparr>x_srcEndpoint := v\<rparr>"
| "promise_EXT (XSrcAddr v) m = m\<lparr>x_srcAddr := v\<rparr>"
| "promise_EXT (XLinkQuality v) m = m\<lparr>x_linkQuality := v\<rparr>"
| "promise_EXT (XTimeStamp v) m = m\<lparr>x_timeStamp := v\<rparr>"
| "promise_EXT (XTranSeqNum v) m = m\<lparr>x_tranSeqNum := v\<rparr>"
| "promise_EXT (XAsduLen v) m = m\<lparr>x_asduLen := v\<rparr>"
| "promise_EXT (XRadius v) m = m\<lparr>x_radius := v\<rparr>"
| "promise_EXT (XOptions v) m = m\<lparr>x_options := v\<rparr>"

section \<open>Fields of the byte array\<close>

definition proxyRd :: "nat \<Rightarrow> byte list \<Rightarrow> 'a::len word" where
  "proxyRd off data = le_word (slice off (LENGTH('a) div 8) data)"

definition proxyWr :: "nat \<Rightarrow> 'a::len word \<Rightarrow> byte list \<Rightarrow> byte list" where
  "proxyWr off v data = blit data off (le_bytes (LENGTH('a) div 8) v)"

section \<open>Outgoing messages\<close>

definition kr_afmessage :: "byte list \<Rightarrow> AFMessage" where
  "kr_afmessage data =
     \<lparr>dstAddr = proxyRd 0 data, dstEndpoint = data ! 2, groupId = 0, clusterId = proxyRd 4 data,
      srcEndpoint = data ! 3, srcAddr = 0, wasBroadCast = 0, linkQuality = 0, securityUse = 0, timeStamp = 0,
      tranSeqNum = data ! 6, asduLen = data ! 9, asdu = drop 10 data, radius = data ! 8, options = data ! 7,
      dstAddrMode = 0x02\<rparr>"

fun kr_set :: "af_set \<Rightarrow> byte list \<Rightarrow> byte list" where
  "kr_set (DstAddr v) data = proxyWr 0 v data"
| "kr_set (DstEndpoint v) data = data[2 := v]"
| "kr_set (ClusterId v) data = proxyWr 4 v data"
| "kr_set (SrcEndpoint v) data = data[3 := v]"
| "kr_set (TranSeqNum v) data = data[6 := v]"
| "kr_set (AsduLen v) data = data[9 := v]"
| "kr_set (Radius v) data = data[8 := v]"
| "kr_set (Options v) data = data[7 := v]"
| "kr_set _ data = data"

definition kr_supported :: "af_set \<Rightarrow> bool" where
  "kr_supported f = (case f of DstAddr _ \<Rightarrow> True | DstEndpoint _ \<Rightarrow> True | ClusterId _ \<Rightarrow> True | SrcEndpoint _ \<Rightarrow> True
     | TranSeqNum _ \<Rightarrow> True | AsduLen _ \<Rightarrow> True | Radius _ \<Rightarrow> True | Options _ \<Rightarrow> True | _ \<Rightarrow> False)"

definition kr_afmessage_EXT :: "byte list \<Rightarrow> AFMessage_EXT" where
  "kr_afmessage_EXT data =
     \<lparr>x_dstAddr = proxyRd 1 data, x_dstEndpoint = data ! 9, x_addrMode = data ! 0, x_srcPanId = 0,
      x_dstPanId = proxyRd 10 data, x_groupId = 0, x_clusterId = proxyRd 13 data, x_srcEndpoint = data ! 12,
      x_srcAddr = 0, x_linkQuality = 0, x_timeStamp = 0, x_tranSeqNum = data ! 15, x_asduLen = proxyRd 18 data,
      x_asdu = drop 20 data, x_radius = data ! 17, x_options = data ! 16\<rparr>"

fun kr_set_EXT :: "af_set_EXT \<Rightarrow> byte list \<Rightarrow> byte list" where
  "kr_set_EXT (XDstAddr v) data = proxyWr 1 v data"
| "kr_set_EXT (XDstEndpoint v) data = data[9 := v]"
| "kr_set_EXT (XAddrMode v) data = data[0 := v]"
| "kr_set_EXT (XDstPanId v) data = proxyWr 10 v data"
| "kr_set_EXT (XClusterId v) data = proxyWr 13 v data"
| "kr_set_EXT (XSrcEndpoint v) data = data[12 := v]"
| "kr_set_EXT (XTranSeqNum v) data = data[15 := v]"
| "kr_set_EXT (XAsduLen v) data = proxyWr 18 v data"
| "kr_set_EXT (XRadius v) data = data[17 := v]"
| "kr_set_EXT (XOptions v) data = data[16 := v]"
| "kr_set_EXT _ data = data"

definition kr_supported_EXT :: "af_set_EXT \<Rightarrow> bool" where
  "kr_supported_EXT f = (case f of XSrcPanId _ \<Rightarrow> False | XGroupId _ \<Rightarrow> False | XSrcAddr _ \<Rightarrow> False
     | XLinkQuality _ \<Rightarrow> False | XTimeStamp _ \<Rightarrow> False | _ \<Rightarrow> True)"

section \<open>Received messages\<close>

text \<open>\<^verbatim>\<open>groupId()\<close> returns the single byte \<^verbatim>\<open>data[0]\<close>, and its setter stores the low byte there.\<close>

definition mt_afmessage :: "byte list \<Rightarrow> AFMessage" where
  "mt_afmessage data =
     \<lparr>dstAddr = 0, dstEndpoint = data ! 7, groupId = ucast (data ! 0), clusterId = proxyRd 2 data,
      srcEndpoint = data ! 6, srcAddr = proxyRd 4 data, wasBroadCast = 0, linkQuality = data ! 9,
      securityUse = 0, timeStamp = proxyRd 11 data, tranSeqNum = data ! 15, asduLen = data ! 16,
      asdu = drop 17 data, radius = 0, options = 0, dstAddrMode = 0x02\<rparr>"

fun mt_set :: "af_set \<Rightarrow> byte list \<Rightarrow> byte list" where
  "mt_set (DstEndpoint v) data = data[7 := v]"
| "mt_set (GroupId v) data = data[0 := ucast v]"
| "mt_set (ClusterId v) data = proxyWr 2 v data"
| "mt_set (SrcEndpoint v) data = data[6 := v]"
| "mt_set (SrcAddr v) data = proxyWr 4 v data"
| "mt_set (TimeStamp v) data = proxyWr 11 v data"
| "mt_set (TranSeqNum v) data = data[15 := v]"
| "mt_set (AsduLen v) data = data[16 := v]"
| "mt_set _ data = data"

definition mt_supported :: "af_set \<Rightarrow> bool" where
  "mt_supported f = (case f of DstEndpoint _ \<Rightarrow> True | GroupId _ \<Rightarrow> True | ClusterId _ \<Rightarrow> True | SrcEndpoint _ \<Rightarrow> True
     | SrcAddr _ \<Rightarrow> True | TimeStamp _ \<Rightarrow> True | TranSeqNum _ \<Rightarrow> True | AsduLen _ \<Rightarrow> True | _ \<Rightarrow> False)"

definition mt_afmessage_EXT :: "byte list \<Rightarrow> AFMessage_EXT" where
  "mt_afmessage_EXT data =
     \<lparr>x_dstAddr = 0, x_dstEndpoint = data ! 16, x_addrMode = data ! 4, x_srcPanId = proxyRd 14 data,
      x_dstPanId = 0, x_groupId = ucast (data ! 0), x_clusterId = proxyRd 2 data, x_srcEndpoint = data ! 13,
      x_srcAddr = proxyRd 5 data, x_linkQuality = data ! 18, x_timeStamp = proxyRd 20 data,
      x_tranSeqNum = data ! 24, x_asduLen = proxyRd 26 data, x_asdu = drop 27 data, x_radius = 0, x_options = 0\<rparr>"

fun mt_set_EXT :: "af_set_EXT \<Rightarrow> byte list \<Rightarrow> byte list" where
  "mt_set_EXT (XDstEndpoint v) data = data[16 := v]"
| "mt_set_EXT (XAddrMode v) data = data[4 := v]"
| "mt_set_EXT (XSrcPanId v) data = proxyWr 14 v data"
| "mt_set_EXT (XGroupId v) data = data[0 := ucast v]"
| "mt_set_EXT (XClusterId v) data = proxyWr 2 v data"
| "mt_set_EXT (XSrcEndpoint v) data = data[13 := v]"
| "mt_set_EXT (XSrcAddr v) data = proxyWr 5 v data"
| "mt_set_EXT (XTimeStamp v) data = proxyWr 20 v data"
| "mt_set_EXT (XTranSeqNum v) data = data[24 := v]"
| "mt_set_EXT (XAsduLen v) data = proxyWr 26 v data"
| "mt_set_EXT _ data = data"

text \<open>\<^verbatim>\<open>loadStr\<close> copies the received data over the (uninitialised) array.\<close>

definition loadStr :: "byte list \<Rightarrow> byte list \<Rightarrow> nat \<Rightarrow> nat \<Rightarrow> ub + byte list" where
  "loadStr data src off n = memcpy2 data 0 src off n"

section \<open>Frames\<close>

text \<open>The results of the incoming processing: the message handed to a registered callback.\<close>

datatype af_event = AFMsg_Ind AFMessage | AFMsg_EXT_Ind AFMessage_EXT | DataConfirm | Unknown

definition MTAFIncomingMsgProc :: "bool \<Rightarrow> byte list \<Rightarrow> byte list \<Rightarrow> ub + af_event" where
  "MTAFIncomingMsgProc registered junk pBuf =
     bindE (rd pBuf 0) (\<lambda>len. bindE (loadStr junk pBuf 3 (unat len)) (\<lambda>data.
       if registered then Inr (AFMsg_Ind (mt_afmessage data)) else Inl NullDeref))"

definition MTAFIncomingMsgEXTProc :: "bool \<Rightarrow> byte list \<Rightarrow> byte list \<Rightarrow> ub + af_event" where
  "MTAFIncomingMsgEXTProc registered junk pBuf =
     bindE (rd pBuf 0) (\<lambda>len. bindE (loadStr junk pBuf 3 (unat len)) (\<lambda>data.
       if registered then Inr (AFMsg_EXT_Ind (mt_afmessage_EXT data)) else Inl NullDeref))"

definition MT_AfCommandProcessing :: "bool \<Rightarrow> bool \<Rightarrow> byte list \<Rightarrow> byte list \<Rightarrow> ub + (byte \<times> af_event)" where
  "MT_AfCommandProcessing reg reg_EXT junk pBuf =
     bindE (rd pBuf 2) (\<lambda>cmd1.
       if cmd1 = 0x81 then bindE (MTAFIncomingMsgProc reg junk pBuf) (\<lambda>e. Inr (0, e))
       else if cmd1 = 0x82 then bindE (MTAFIncomingMsgEXTProc reg_EXT junk pBuf) (\<lambda>e. Inr (0, e))
       else if cmd1 = 0x01 then Inr (0, DataConfirm)
       else Inr (2, Unknown))"

text \<open>A run of stores through a moving pointer, \<^verbatim>\<open>*p++ = b\<close> or \<^verbatim>\<open>p += hostIntToANSI(p, x)\<close>.\<close>

fun emit :: "byte list \<Rightarrow> nat \<Rightarrow> byte list list \<Rightarrow> ub + (nat \<times> byte list)" where
  "emit buf p [] = Inr (p, buf)"
| "emit buf p (bs # rest) = bindE (memcpy_to buf p bs) (\<lambda>buf. emit buf (p + length bs) rest)"

definition dataRequest :: "byte list \<Rightarrow> AFMessage_EXT \<Rightarrow> ub + mtMessage" where
  "dataRequest junk x =
     bindE (emit junk 0 [[x_addrMode x], le_bytes 8 (x_dstAddr x), [x_dstEndpoint x], le_bytes 2 (x_dstPanId x),
         [x_srcEndpoint x], le_bytes 2 (x_clusterId x), [x_tranSeqNum x], [x_options x], [x_radius x],
         le_bytes 2 (x_asduLen x)]) (\<lambda>(p, pd).
     bindE (memcpy2 pd p (x_asdu x) 0 (unat (x_asduLen x))) (\<lambda>pd.
       Inr (request 0x24 0x02 (20 + ucast (x_asduLen x) + 1) pd)))"

definition MT_AfDataRequest :: "byte list \<Rightarrow> AFMessage \<Rightarrow> ub + mtMessage" where
  "MT_AfDataRequest junk x =
     bindE (emit junk 0 [le_bytes 2 (dstAddr x), [dstEndpoint x], [srcEndpoint x], le_bytes 2 (clusterId x),
         [tranSeqNum x], [options x], [radius x], [asduLen x]]) (\<lambda>(p, pd).
     bindE (memcpy2 pd p (asdu x) 0 (unat (asduLen x))) (\<lambda>pd.
       Inr (request 0x24 0x01 (2 + 1 + 1 + 2 + 1 + 1 + 1 + asduLen x + 1) pd)))"

definition register_endpoint_TI :: "byte list \<Rightarrow> byte \<Rightarrow> u16 \<Rightarrow> u16 \<Rightarrow> byte \<Rightarrow> ub + (byte \<times> byte list)" where
  "register_endpoint_TI junk endpoint_id profile_id device_id device_ver =
     bindE (emit junk 0 [[endpoint_id], le_bytes 2 profile_id, le_bytes 2 device_id, [device_ver], [0], [0], [0]])
       (\<lambda>(len, px). Inr (of_nat len, px))"

definition register_interpan_cb_TI :: "byte list \<Rightarrow> byte \<Rightarrow> mtMessage" where
  "register_interpan_cb_TI junk ep = request 0x24 0x10 2 (junk[0 := 0x02, 1 := ep])"

definition interPanSet :: "byte list \<Rightarrow> byte \<Rightarrow> mtMessage" where
  "interPanSet junk ch = request 0x24 0x10 2 (junk[0 := 0x01, 1 := ch])"

definition intraPanSet :: "byte list \<Rightarrow> mtMessage" where
  "intraPanSet junk = request 0x24 0x10 1 (junk[0 := 0x00])"

section \<open>The contract of the setters\<close>

text \<open>
  A client of the interface relies on this: each supported setter changes what its getter
  returns and nothing else, and an unsupported one changes nothing.
\<close>

locale af_class =
  fixes view :: "byte list \<Rightarrow> 'm" and set_field :: "'f \<Rightarrow> byte list \<Rightarrow> byte list"
    and effect :: "'f \<Rightarrow> 'm \<Rightarrow> 'm" and supported :: "'f \<Rightarrow> bool"
  assumes length_set: "length d = 255 \<Longrightarrow> length (set_field f d) = 255"
    and view_set: "length d = 255 \<Longrightarrow> view (set_field f d) = (if supported f then effect f (view d) else view d)"
begin

lemma view_sets:
  "length d = 255 \<Longrightarrow> view (fold set_field fs d) = fold effect (filter supported fs) (view d)"
  by (induction fs arbitrary: d) (auto simp: length_set view_set)

end

named_theorems field_simps

lemma length_proxyWr [field_simps]:
  "off + LENGTH('a) div 8 \<le> length d \<Longrightarrow> length (proxyWr off (v :: 'a::len word) d) = length d"
  by (simp add: proxyWr_def)

lemma proxyRd_Wr [field_simps]:
  "8 * (LENGTH('a) div 8) = LENGTH('a) \<Longrightarrow> off + LENGTH('a) div 8 \<le> length d \<Longrightarrow>
   proxyRd off (proxyWr off v d) = (v :: 'a::len word)"
  by (simp add: proxyRd_def proxyWr_def)

lemma proxyRd_Wr_other [field_simps]:
  "off + LENGTH('a) div 8 \<le> length d \<Longrightarrow> off' + LENGTH('b) div 8 \<le> length d \<Longrightarrow>
   off' + LENGTH('b) div 8 \<le> off \<or> off + LENGTH('a) div 8 \<le> off' \<Longrightarrow>
   (proxyRd off' (proxyWr off (v :: 'a::len word) d) :: 'b::len word) = proxyRd off' d"
  by (simp add: proxyRd_def proxyWr_def slice_blit_other)

lemma slice_update_other:
  "i < off \<or> off + n \<le> i \<Longrightarrow> off + n \<le> length d \<Longrightarrow> slice off n (d[i := v]) = slice off n d"
  by (rule nth_equalityI) (auto simp: nth_list_update)

lemma proxyRd_update [field_simps]:
  "i < off \<or> off + LENGTH('a) div 8 \<le> i \<Longrightarrow> off + LENGTH('a) div 8 \<le> length d \<Longrightarrow>
   (proxyRd off (d[i := v]) :: 'a::len word) = proxyRd off d"
  by (simp add: proxyRd_def slice_update_other)

lemma nth_proxyWr [field_simps]:
  "off + LENGTH('a) div 8 \<le> length d \<Longrightarrow> i < length d \<Longrightarrow> i < off \<or> off + LENGTH('a) div 8 \<le> i \<Longrightarrow>
   proxyWr off (v :: 'a::len word) d ! i = d ! i"
  by (auto simp: proxyWr_def nth_blit)

lemma drop_proxyWr [field_simps]:
  "off + LENGTH('a) div 8 \<le> k \<Longrightarrow> k \<le> length d \<Longrightarrow> drop k (proxyWr off (v :: 'a::len word) d) = drop k d"
  by (simp add: proxyWr_def blit_def)

lemma kr_class: "length d = 255 \<Longrightarrow> length (kr_set f d) = 255 \<and>
   kr_afmessage (kr_set f d) = (if kr_supported f then promise f (kr_afmessage d) else kr_afmessage d)"
  by (cases f) (simp_all add: kr_afmessage_def kr_supported_def field_simps)

lemma kr_class_EXT: "length d = 255 \<Longrightarrow> length (kr_set_EXT f d) = 255 \<and>
   kr_afmessage_EXT (kr_set_EXT f d) =
     (if kr_supported_EXT f then promise_EXT f (kr_afmessage_EXT d) else kr_afmessage_EXT d)"
  by (cases f) (simp_all add: kr_afmessage_EXT_def kr_supported_EXT_def field_simps)

text \<open>What a setter of a received message does instead for the group id.\<close>

definition mt_effect :: "af_set \<Rightarrow> AFMessage \<Rightarrow> AFMessage" where
  "mt_effect f = (case f of GroupId v \<Rightarrow> promise (GroupId (v AND 0xFF)) | _ \<Rightarrow> promise f)"

lemma low_byte: "ucast (ucast (v :: u16) :: byte) = v AND (0xFF :: u16)"
proof (rule bit_word_eqI)
  fix i assume "i < LENGTH(16)"
  have "bit (0xFF :: u16) i \<longleftrightarrow> i < 8"
    using bit_mask_iff [of 8 i, where 'a = u16] by (simp add: mask_eq_exp_minus_1) auto
  then show "bit (ucast (ucast v :: byte) :: u16) i = bit (v AND 0xFF) i"
    using \<open>i < LENGTH(16)\<close> by (auto simp: bit_ucast_iff bit_and_iff)
qed

lemma mt_class: "length d = 255 \<Longrightarrow> length (mt_set f d) = 255 \<and>
   mt_afmessage (mt_set f d) = (if mt_supported f then mt_effect f (mt_afmessage d) else mt_afmessage d)"
  by (cases f) (simp_all add: mt_afmessage_def mt_supported_def mt_effect_def field_simps low_byte)

interpretation kr: af_class kr_afmessage kr_set promise kr_supported
  by unfold_locales (simp_all add: kr_class)

interpretation kr_EXT: af_class kr_afmessage_EXT kr_set_EXT promise_EXT kr_supported_EXT
  by unfold_locales (simp_all add: kr_class_EXT)

interpretation mt: af_class mt_afmessage mt_set mt_effect mt_supported
  by unfold_locales (simp_all add: mt_class)

section \<open>Frames of messages\<close>

lemma emit_ok:
  "p + length (concat bss) \<le> length buf \<Longrightarrow>
   emit buf p bss = Inr (p + length (concat bss), blit buf p (concat bss))"
proof (induction bss arbitrary: buf p)
  case Nil
  then show ?case by simp
next
  case (Cons bs bss)
  then have "emit (blit buf p bs) (p + length bs) bss
      = Inr (p + length bs + length (concat bss), blit (blit buf p bs) (p + length bs) (concat bss))"
    by (intro Cons.IH) simp
  with Cons.prems blit_blit_adjacent [of p bs "concat bss" buf "[]"] show ?case by simp
qed

text \<open>The array of an outgoing message has the layout of the frame.\<close>

lemma proxyRd_bytes: "off + 2 \<le> length d \<Longrightarrow> le_bytes 2 (proxyRd off d :: u16) = slice off 2 d"
  by (simp add: proxyRd_def le_bytes_le_word)

lemma proxyRd_bytes8: "off + 8 \<le> length d \<Longrightarrow> le_bytes 8 (proxyRd off d :: u64) = slice off 8 d"
  by (simp add: proxyRd_def le_bytes_le_word)

lemma kr_header:
  "length d = 255 \<Longrightarrow> concat [le_bytes 2 (dstAddr (kr_afmessage d)), [dstEndpoint (kr_afmessage d)],
     [srcEndpoint (kr_afmessage d)], le_bytes 2 (clusterId (kr_afmessage d)), [tranSeqNum (kr_afmessage d)],
     [options (kr_afmessage d)], [radius (kr_afmessage d)], [asduLen (kr_afmessage d)]] = take 10 d"
proof -
  assume d: "length d = 255"
  then have "Suc (Suc (Suc (Suc (Suc (Suc (Suc (Suc (Suc (Suc 0))))))))) \<le> length d" by simp
  then obtain x0 x1 x2 x3 x4 x5 x6 x7 x8 x9 r where "d = x0 # x1 # x2 # x3 # x4 # x5 # x6 # x7 # x8 # x9 # r"
    by (auto simp: Suc_le_length_iff)
  with d show ?thesis by (simp add: kr_afmessage_def proxyRd_bytes slice_def)
qed

lemma kr_header_EXT:
  "length d = 255 \<Longrightarrow> concat [[x_addrMode (kr_afmessage_EXT d)], le_bytes 8 (x_dstAddr (kr_afmessage_EXT d)),
     [x_dstEndpoint (kr_afmessage_EXT d)], le_bytes 2 (x_dstPanId (kr_afmessage_EXT d)),
     [x_srcEndpoint (kr_afmessage_EXT d)], le_bytes 2 (x_clusterId (kr_afmessage_EXT d)),
     [x_tranSeqNum (kr_afmessage_EXT d)], [x_options (kr_afmessage_EXT d)], [x_radius (kr_afmessage_EXT d)],
     le_bytes 2 (x_asduLen (kr_afmessage_EXT d))] = take 20 d"
proof -
  assume d: "length d = 255"
  then have "Suc (Suc (Suc (Suc (Suc (Suc (Suc (Suc (Suc (Suc (Suc (Suc (Suc (Suc (Suc (Suc (Suc (Suc (Suc (Suc 0))))))))))))))))))) \<le> length d" by simp
  then obtain x0 x1 x2 x3 x4 x5 x6 x7 x8 x9 x10 x11 x12 x13 x14 x15 x16 x17 x18 x19 r where "d = x0 # x1 # x2 # x3 # x4 # x5 # x6 # x7 # x8 # x9 # x10 # x11 # x12 # x13 # x14 # x15 # x16 # x17 # x18 # x19 # r"
    by (auto simp: Suc_le_length_iff)
  with d show ?thesis by (simp add: kr_afmessage_EXT_def proxyRd_bytes proxyRd_bytes8 slice_def)
qed

text \<open>Header and payload in one array.\<close>

lemma memcpy_payload:
  assumes "length junk = 256" and "length d = 255" and "h \<le> 20" and "h + n \<le> 255"
  shows "memcpy2 (blit junk 0 (take h d)) h (drop h d) 0 n = Inr (blit junk 0 (take (h + n) d))"
proof -
  have "take h d @ take n (drop h d) = take (h + n) d" by (simp add: take_add)
  then show ?thesis
    using assms blit_blit_adjacent [of 0 "take h d" "take n (drop h d)" junk "[]"]
    by (simp add: memcpy2_def slice_def)
qed

lemma memcpy_payload_oob: "length d = 255 \<Longrightarrow> h \<le> 255 \<Longrightarrow> 255 < h + n \<Longrightarrow> memcpy2 buf h (drop h d) 0 n = Inl OobRead"
  by (simp add: memcpy2_def)

text \<open>Up to 245 payload bytes the frame holds the header and the payload.\<close>

lemma data_request:
  assumes "length d = 255" and "length junk = 256" and "unat (asduLen (kr_afmessage d)) = n" and "n \<le> 245"
  shows "MT_AfDataRequest junk (kr_afmessage d) = Inr (request 0x24 0x01 (of_nat (10 + n)) (blit junk 0 (take (10 + n) d)))"
proof -
  let ?m = "kr_afmessage d"
  have e: "emit junk 0 [le_bytes 2 (dstAddr ?m), [dstEndpoint ?m], [srcEndpoint ?m], le_bytes 2 (clusterId ?m),
      [tranSeqNum ?m], [options ?m], [radius ?m], [asduLen ?m]] = Inr (10, blit junk 0 (take 10 d))"
    using kr_header [OF assms(1)] assms(1,2) by (subst emit_ok) simp_all
  have asdu: "asdu ?m = drop 10 d" by (simp add: kr_afmessage_def)
  have len: "2 + 1 + 1 + 2 + 1 + 1 + 1 + asduLen ?m + 1 = (of_nat (10 + n) :: byte)"
    using assms(3) by (simp flip: assms(3))
  show ?thesis
    using memcpy_payload [OF assms(2,1), of 10 n] assms(3,4) unfolding MT_AfDataRequest_def e asdu len by simp
qed

section \<open>Properties\<close>

text \<open>
  The setters keep the contract of the interface.  After any sequence of setters, the getters
  of an outgoing message return what the supported ones among them have set, and what they
  returned before for everything else; the same holds for the extended outgoing message, and
  for a received message except that its group id keeps only the low byte.
\<close>

theorem af_setters:
  assumes "length d = 255"
  shows "kr_afmessage (fold kr_set fs d) = fold promise (filter kr_supported fs) (kr_afmessage d) \<and>
    kr_afmessage_EXT (fold kr_set_EXT gs d) = fold promise_EXT (filter kr_supported_EXT gs) (kr_afmessage_EXT d) \<and>
    mt_afmessage (fold mt_set fs d) = fold mt_effect (filter mt_supported fs) (mt_afmessage d)"
  using kr.view_sets [OF assms] kr_EXT.view_sets [OF assms] mt.view_sets [OF assms] by simp

theorem af_setters_witness:
  "groupId (mt_afmessage (fold mt_set [GroupId 0x1234, ClusterId 6] (replicate 255 0))) = 0x34 \<and>
   clusterId (kr_afmessage (fold kr_set [ClusterId 6, GroupId 9, DstAddr 7] (replicate 255 0))) = 6"
  using af_setters [of "replicate 255 0" "[GroupId 0x1234, ClusterId 6]"]
    af_setters [of "replicate 255 0" "[ClusterId 6, GroupId 9, DstAddr 7]"]
  by (simp add: mt_supported_def mt_effect_def kr_supported_def)

text \<open>
  What \<^verbatim>\<open>MT_AfDataRequest\<close> and \<^verbatim>\<open>dataRequest\<close> put on the wire.  For an outgoing message of at
  most 245 payload bytes the frame data are exactly the first \<open>10 + n\<close> bytes of its array,
  with longer ones the payload copy reads past the array.  For the extended message of at most
  234 bytes one uninitialised byte follows its \<open>20 + n\<close> bytes; at 235 the 8-bit length wraps to
  an empty frame.
\<close>

theorem af_frames:
  assumes "length d = 255" and "length junk = 256"
  shows "(let n = unat (asduLen (kr_afmessage d)) in
      if n \<le> 245 then \<exists>req. MT_AfDataRequest junk (kr_afmessage d) = Inr req \<and> sent_data req = take (10 + n) d
      else MT_AfDataRequest junk (kr_afmessage d) = Inl OobRead) \<and>
    (let n = unat (x_asduLen (kr_afmessage_EXT d)) in
      if n \<le> 235 then \<exists>req. dataRequest junk (kr_afmessage_EXT d) = Inr req \<and>
          sent_data req = (if n = 235 then [] else take (20 + n) d @ [junk ! (20 + n)])
      else dataRequest junk (kr_afmessage_EXT d) = Inl OobRead)"
proof
  let ?m = "kr_afmessage d" and ?x = "kr_afmessage_EXT d"
  define n where "n = unat (asduLen ?m)"
  define k where "k = unat (x_asduLen ?x)"
  have asdu: "asdu ?m = drop 10 d" "x_asdu ?x = drop 20 d"
    by (simp_all add: kr_afmessage_def kr_afmessage_EXT_def)
  have e1: "emit junk 0 [le_bytes 2 (dstAddr ?m), [dstEndpoint ?m], [srcEndpoint ?m], le_bytes 2 (clusterId ?m),
      [tranSeqNum ?m], [options ?m], [radius ?m], [asduLen ?m]] = Inr (10, blit junk 0 (take 10 d))"
    using kr_header [OF assms(1)] assms by (subst emit_ok) simp_all
  have e2: "emit junk 0 [[x_addrMode ?x], le_bytes 8 (x_dstAddr ?x), [x_dstEndpoint ?x], le_bytes 2 (x_dstPanId ?x),
      [x_srcEndpoint ?x], le_bytes 2 (x_clusterId ?x), [x_tranSeqNum ?x], [x_options ?x], [x_radius ?x],
      le_bytes 2 (x_asduLen ?x)] = Inr (20, blit junk 0 (take 20 d))"
    using kr_header_EXT [OF assms(1)] assms by (subst emit_ok) simp_all
  have n: "n < 256" unfolding n_def by (rule unat_byte)
  have dl1: "unat (of_nat (10 + n) :: byte) = (10 + n) mod 256"
    unfolding unat_of_nat by simp
  have dl2: "unat (20 + ucast (x_asduLen ?x) + 1 :: byte) = (21 + k) mod 256"
    by (simp add: k_def unat_word_ariths unsigned_ucast_eq take_bit_eq_mod mod_simps)
  show "let n = unat (asduLen ?m) in
      if n \<le> 245 then \<exists>req. MT_AfDataRequest junk ?m = Inr req \<and> sent_data req = take (10 + n) d
      else MT_AfDataRequest junk ?m = Inl OobRead"
  proof (cases "n \<le> 245")
    case True
    then have "MT_AfDataRequest junk ?m = Inr (request 0x24 0x01 (of_nat (10 + n)) (blit junk 0 (take (10 + n) d)))"
      by (intro data_request [OF assms]) (simp_all add: n_def)
    moreover have "take (10 + n) (blit junk 0 (take (10 + n) d)) = take (10 + n) d"
      using True assms by (intro take_blit) simp_all
    ultimately show ?thesis
      using True dl1 unfolding n_def [symmetric] Let_def by (simp add: sent_data_def request_def)
  next
    case False
    then have "MT_AfDataRequest junk ?m = Inl OobRead"
      using memcpy_payload_oob [OF assms(1), of 10 n] unfolding MT_AfDataRequest_def e1 asdu n_def by simp
    with False show ?thesis unfolding n_def [symmetric] Let_def by simp
  qed
  show "let n = unat (x_asduLen ?x) in
      if n \<le> 235 then \<exists>req. dataRequest junk ?x = Inr req \<and>
          sent_data req = (if n = 235 then [] else take (20 + n) d @ [junk ! (20 + n)])
      else dataRequest junk ?x = Inl OobRead"
  proof (cases "k \<le> 235")
    case True
    then have "dataRequest junk ?x = Inr (request 0x24 0x02 (20 + ucast (x_asduLen ?x) + 1)
        (blit junk 0 (take (20 + k) d)))"
      using memcpy_payload [OF assms(2,1), of 20 k]
      unfolding dataRequest_def e2 asdu k_def by simp
    moreover have "take (21 + k) (blit junk 0 (take (20 + k) d)) = take (20 + k) d @ [junk ! (20 + k)]" if "k \<le> 234"
      using that assms by (simp add: blit_def take_Suc_conv_app_nth hd_drop_conv_nth take_Suc)
    ultimately show ?thesis
      using True dl2 unfolding k_def [symmetric] Let_def
      by (cases "k = 235") (simp_all add: sent_data_def request_def)
  next
    case False
    then have "dataRequest junk ?x = Inl OobRead"
      using memcpy_payload_oob [OF assms(1), of 20 k] unfolding dataRequest_def e2 asdu k_def by simp
    with False show ?thesis unfolding k_def [symmetric] Let_def by simp
  qed
qed

theorem af_frames_witness:
  "\<exists>req. MT_AfDataRequest (replicate 256 0xEE)
       (kr_afmessage ([0x34, 0x12, 8, 1, 6, 0, 5, 0, 30, 2, 0xAA, 0xBB] @ replicate 243 0)) = Inr req \<and>
     sent_data req = [0x34, 0x12, 8, 1, 6, 0, 5, 0, 30, 2, 0xAA, 0xBB]"
proof -
  let ?d = "[0x34, 0x12, 8, 1, 6, 0, 5, 0, 30, 2, 0xAA, 0xBB] @ replicate 243 (0 :: byte)"
  have "unat (asduLen (kr_afmessage ?d)) = 2" by (simp add: kr_afmessage_def)
  with af_frames [of ?d "replicate 256 0xEE"] show ?thesis by (simp add: Let_def)
qed

text \<open>The data of an incoming message indication, as the coprocessor sends them.\<close>

definition indication :: "AFMessage \<Rightarrow> byte list \<Rightarrow> byte list" where
  "indication m payload = le_bytes 2 (groupId m) @ le_bytes 2 (clusterId m) @ le_bytes 2 (srcAddr m) @
     [srcEndpoint m, dstEndpoint m, wasBroadCast m, linkQuality m, securityUse m] @ le_bytes 4 (timeStamp m) @
     [tranSeqNum m, asduLen m] @ payload"

text \<open>
  A received indication reaches the registered handler as it was sent: cluster, addresses,
  endpoints, link quality, time stamp, sequence number, length and payload are those of the
  frame; the group id is cut to its low byte, and the getters without storage return their
  constants.  Without a registered handler the null function pointer is called; whatever is in
  the frame, the copy into the 255-byte array stays inside it.
\<close>

theorem incoming_message:
  assumes "length payload \<le> 233" and "length junk = 255"
  shows "let n = 17 + length payload; pBuf = of_nat n # 0x44 # 0x81 # indication m payload @ tail in
    (\<exists>rest. MT_AfCommandProcessing True ext junk pBuf = Inr (0, AFMsg_Ind (m\<lparr>dstAddr := 0,
       groupId := groupId m AND 0xFF, wasBroadCast := 0, securityUse := 0, asdu := payload @ rest, radius := 0,
       options := 0, dstAddrMode := 2\<rparr>))) \<and>
    MT_AfCommandProcessing False ext junk pBuf = Inl NullDeref"
proof -
  let ?n = "17 + length payload"
  let ?i = "indication m payload"
  have len: "length ?i = ?n" by (simp add: indication_def)
  have un: "unat (of_nat ?n :: byte) = ?n" using assms(1) unat_len [of "?i"] len by simp
  have cp: "loadStr junk (of_nat ?n # 0x44 # 0x81 # ?i @ tail) 3 ?n = Inr (?i @ drop ?n junk)"
    using len assms by (simp add: loadStr_def memcpy2_def slice_def blit_def)
  have view: "mt_afmessage (?i @ rest) = m\<lparr>dstAddr := 0, groupId := groupId m AND 0xFF, wasBroadCast := 0,
      securityUse := 0, asdu := payload @ rest, radius := 0, options := 0, dstAddrMode := 2\<rparr>" for rest
    by (cases m) (simp add: mt_afmessage_def indication_def proxyRd_def slice_def nth_append low_byte
      flip: append_assoc)
  have "MTAFIncomingMsgProc True junk (of_nat ?n # 0x44 # 0x81 # ?i @ tail) = Inr (AFMsg_Ind (mt_afmessage (?i @ drop ?n junk)))"
    "MTAFIncomingMsgProc False junk (of_nat ?n # 0x44 # 0x81 # ?i @ tail) = Inl NullDeref"
    using cp un by (simp_all add: MTAFIncomingMsgProc_def rd_def del: of_nat_add)
  then show ?thesis
    unfolding Let_def view by (auto simp: MT_AfCommandProcessing_def rd_def)
qed

theorem incoming_message_witness:
  "\<exists>rest. MT_AfCommandProcessing True False (replicate 255 0)
     ([19, 0x44, 0x81, 0, 0, 6, 0, 0x34, 0x12, 1, 8, 0, 90, 0, 1, 0, 0, 0, 5, 2, 0xAA, 0xBB] @ [0xFF])
     = Inr (0, AFMsg_Ind \<lparr>dstAddr = 0, dstEndpoint = 8, groupId = 0, clusterId = 6, srcEndpoint = 1, srcAddr = 0x1234,
         wasBroadCast = 0, linkQuality = 90, securityUse = 0, timeStamp = 1, tranSeqNum = 5, asduLen = 2,
         asdu = [0xAA, 0xBB] @ rest, radius = 0, options = 0, dstAddrMode = 2\<rparr>)"
proof -
  let ?m = "\<lparr>dstAddr = 0, dstEndpoint = 8, groupId = 0, clusterId = 6, srcEndpoint = 1, srcAddr = 0x1234,
    wasBroadCast = 0, linkQuality = 90, securityUse = 0, timeStamp = 1, tranSeqNum = 5, asduLen = 2,
    asdu = [], radius = 0, options = 0, dstAddrMode = 2\<rparr>"
  have "indication ?m [0xAA, 0xBB] =
    [0, 0, 6, 0, 0x34, 0x12, 1, 8, 0, 90, 0, 1, 0, 0, 0, 5, 2, 0xAA, 0xBB]"
    by (simp add: indication_def le_bytes_def upt_rec)
  with incoming_message [where payload = "[0xAA, 0xBB]" and junk = "replicate 255 0" and ext = False and m = ?m and tail = "[0xFF]"] show ?thesis
    by (simp add: Let_def)
qed

text \<open>
  The fields of a received extended message overlap.  \<^verbatim>\<open>asdu()\<close> points one byte after the start
  of the 16-bit \<^verbatim>\<open>asduLen\<close>: the first payload byte is always the high byte of the length, and
  setting the length overwrites it.
\<close>

theorem mt_EXT_overlap:
  assumes "length d = 255"
  shows "hd (x_asdu (mt_afmessage_EXT d)) = ucast (drop_bit 8 (x_asduLen (mt_afmessage_EXT d))) \<and>
    x_asduLen (mt_afmessage_EXT (mt_set_EXT (XAsduLen v) d)) = v \<and>
    x_asdu (mt_afmessage_EXT (mt_set_EXT (XAsduLen v) d)) = ucast (drop_bit 8 v) # tl (x_asdu (mt_afmessage_EXT d))"
proof -
  have "Suc (Suc 0) \<le> length (drop 26 d)" using assms by simp
  then obtain a b r where r: "drop 26 d = a # b # r" by (auto simp: Suc_le_length_iff simp del: length_drop)
  moreover have "drop 27 d = drop 1 (drop 26 d)" "drop 28 d = drop 2 (drop 26 d)" by simp_all
  ultimately have s: "slice 26 2 d = [a, b]" "drop 27 d = b # r" "drop 28 d = r"
    by (simp_all add: slice_def)
  have "le_bytes 2 (le_word [a, b] :: u16) = [a, b]" by (rule le_bytes_le_word) simp_all
  then have "ucast (drop_bit 8 (le_word [a, b] :: u16)) = b" by (simp add: le_bytes_2)
  moreover have "drop 27 (blit d 26 (le_bytes 2 v)) = ucast (drop_bit 8 v) # r"
    using assms s by (simp add: blit_def le_bytes_2)
  ultimately show ?thesis
    using assms s by (simp add: mt_afmessage_EXT_def field_simps) (simp add: proxyRd_def proxyWr_def)
qed

theorem mt_EXT_overlap_witness:
  "x_asdu (mt_afmessage_EXT (mt_set_EXT (XAsduLen 3) (replicate 255 9))) = 0 # replicate 227 9"
  using mt_EXT_overlap [of "replicate 255 9" 3] by (simp add: mt_afmessage_EXT_def)

end
