(* ===== verification/KJson.thy ===== *)
theory KJson
  imports KUtil
begin

text \<open>
  The JSON wrapper kapi/source/kjson.cpp.  The values are trees, as the jansson library documents
  them: objects are maps from keys to values, arrays are lists.  A \<^verbatim>\<open>JSON&\<close> that \<^verbatim>\<open>operator[]\<close> returns
  is a path from the root, or the fault object on which every operation is void.  Access creates
  what it does not find.  Parsing and printing are jansson's: a file is the value it parses to, or
  \<open>None\<close>.  The wrapper objects in \<^verbatim>\<open>childList_\<close> and the references are in JsonRefs and JsonArrays.
\<close>

section \<open>Values and paths\<close>

datatype json = JNull | JBool bool | JInt u64 | JStr "byte list" | JArr "json list" | JObj "(string \<times> json) list"

datatype jstep = Key string | Idx nat

fun put_assoc :: "'k \<Rightarrow> 'v \<Rightarrow> ('k \<times> 'v) list \<Rightarrow> ('k \<times> 'v) list" where
  "put_assoc k v [] = [(k, v)]"
| "put_assoc k v ((a, b) # ms) = (if a = k then (k, v) # ms else (a, b) # put_assoc k v ms)"

lemma map_of_put_assoc [simp]: "map_of (put_assoc k v ms) = (map_of ms)(k \<mapsto> v)"
  by (induction k v ms rule: put_assoc.induct) auto

lemma put_assoc_keys: "set (map fst (put_assoc k v ms)) = insert k (set (map fst ms))"
  by (induction k v ms rule: put_assoc.induct) auto

lemma distinct_put_assoc: "distinct (map fst ms) \<Longrightarrow> distinct (map fst (put_assoc k v ms))"
  by (induction k v ms rule: put_assoc.induct) (auto simp: put_assoc_keys simp del: set_map)

fun jget :: "json \<Rightarrow> jstep list \<Rightarrow> json option" where
  "jget j [] = Some j"
| "jget (JObj ms) (Key k # p) = (case map_of ms k of None \<Rightarrow> None | Some v \<Rightarrow> jget v p)"
| "jget (JArr xs) (Idx i # p) = (if i < length xs then jget (xs ! i) p else None)"
| "jget _ _ = None"

fun jput :: "json \<Rightarrow> jstep list \<Rightarrow> json \<Rightarrow> json" where
  "jput j [] v = v"
| "jput (JObj ms) (Key k # p) v =
     JObj (put_assoc k (jput (case map_of ms k of None \<Rightarrow> JNull | Some x \<Rightarrow> x) p v) ms)"
| "jput (JArr xs) (Idx i # p) v = (if i < length xs then JArr (xs[i := jput (xs ! i) p v]) else JArr xs)"
| "jput j _ v = j"

section \<open>Access\<close>

datatype jref = Ref "jstep list" | Fault

text \<open>\<^verbatim>\<open>wrapper\<close>: an absent member becomes null; an array is filled up with nulls.\<close>

definition wrapper_key :: "string \<Rightarrow> jstep list \<Rightarrow> (string \<times> json) list \<Rightarrow> json \<Rightarrow> jref \<times> json" where
  [simp]: "wrapper_key k p ms root =
     (Ref (p @ [Key k]), if map_of ms k = None then jput root p (JObj (put_assoc k JNull ms)) else root)"

definition wrapper_index :: "nat \<Rightarrow> jstep list \<Rightarrow> json list \<Rightarrow> json \<Rightarrow> jref \<times> json" where
  [simp]: "wrapper_index i p xs root =
     (Ref (p @ [Idx i]), jput root p (JArr (xs @ replicate (Suc i - length xs) JNull)))"

text \<open>\<^verbatim>\<open>operator[](key)\<close>: a null becomes an object first.\<close>

fun at_key :: "string \<Rightarrow> jref \<Rightarrow> json \<Rightarrow> jref \<times> json" where
  "at_key k Fault root = (Fault, root)"
| "at_key k (Ref p) root =
     (case jget root p of
        Some (JObj ms) \<Rightarrow> wrapper_key k p ms root
      | Some JNull \<Rightarrow> wrapper_key k p [] (jput root p (JObj []))
      | _ \<Rightarrow> (Fault, root))"

fun at_index :: "nat \<Rightarrow> jref \<Rightarrow> json \<Rightarrow> jref \<times> json" where
  "at_index i Fault root = (Fault, root)"
| "at_index i (Ref p) root =
     (case jget root p of
        Some (JArr xs) \<Rightarrow> wrapper_index i p xs root
      | _ \<Rightarrow> (Fault, root))"

definition at_step :: "jstep \<Rightarrow> jref \<Rightarrow> json \<Rightarrow> jref \<times> json" where
  "at_step st r root = (case st of Key k \<Rightarrow> at_key k r root | Idx i \<Rightarrow> at_index i r root)"

text \<open>\<^verbatim>\<open>root[s1][s2]...\<close>\<close>

fun at_path :: "jstep list \<Rightarrow> jref \<Rightarrow> json \<Rightarrow> jref \<times> json" where
  "at_path [] r root = (r, root)"
| "at_path (st # sts) r root = (case at_step st r root of (r', root') \<Rightarrow> at_path sts r' root')"

definition json_size :: "json \<Rightarrow> nat" where
  "json_size j = (case j of JArr xs \<Rightarrow> length xs | JObj ms \<Rightarrow> length ms | _ \<Rightarrow> 0)"

definition newElement :: "jref \<Rightarrow> json \<Rightarrow> jref \<times> json" where
  "newElement r root =
     (case r of Fault \<Rightarrow> (Fault, root)
      | Ref p \<Rightarrow> at_index (case jget root p of Some j \<Rightarrow> json_size j | None \<Rightarrow> 0) r root)"

text \<open>All assignment operators: the old value is replaced whatever its type.\<close>

definition assign :: "jref \<Rightarrow> json \<Rightarrow> json \<Rightarrow> json" where
  "assign r v root = (case r of Fault \<Rightarrow> root | Ref p \<Rightarrow> jput root p v)"

definition json_set :: "jstep list \<Rightarrow> json \<Rightarrow> json \<Rightarrow> json" where
  "json_set p v root = (case at_path p (Ref []) root of (r, root') \<Rightarrow> assign r v root')"

definition exist_key :: "string \<Rightarrow> json \<Rightarrow> bool" where
  "exist_key k j = (case j of JObj ms \<Rightarrow> map_of ms k \<noteq> None | _ \<Rightarrow> False)"

definition exist_index :: "nat \<Rightarrow> json \<Rightarrow> bool" where
  "exist_index i j = (case j of JArr xs \<Rightarrow> i < length xs | _ \<Rightarrow> False)"

definition erase_key :: "string \<Rightarrow> json \<Rightarrow> int \<times> json" where
  "erase_key k j =
     (case j of JObj ms \<Rightarrow> if exist_key k j then (1, JObj (filter (\<lambda>m. fst m \<noteq> k) ms)) else (0, j) | _ \<Rightarrow> (0, j))"

definition erase_index :: "nat \<Rightarrow> json \<Rightarrow> int \<times> json" where
  "erase_index i j =
     (case j of JArr xs \<Rightarrow> if exist_index i j then (1, JArr (take i xs @ drop (Suc i) xs)) else (0, j) | _ \<Rightarrow> (0, j))"

section \<open>Conversion\<close>

definition json_toString :: "json \<Rightarrow> byte list" where
  "json_toString j = (case j of JStr s \<Rightarrow> s | _ \<Rightarrow> [])"

definition toBool :: "json \<Rightarrow> bool" where
  "toBool j = (j = JBool True)"

text \<open>
  A string is read as hexadecimal, with a 0 in front of an odd number of digits; a bad digit leaves
  what was converted before it.
\<close>

definition toInteger :: "json \<Rightarrow> ub + u64" where
  "toInteger j =
     (case j of
        JInt i \<Rightarrow> Inr i
      | JStr s \<Rightarrow>
          (let temp = (if odd (length s) then 0x30 # s else s)
           in bindE (kStrToInt (replicate 8 0) (temp @ [0]) (min (length temp div 2) 8)) (\<lambda>(_, rtn). Inr (le_word rtn)))
      | _ \<Rightarrow> Inr 0)"

text \<open>\<^verbatim>\<open>zar[IntToHexStr(x)]\<close>: the key of a number.\<close>

definition hexkey :: "'a::len word \<Rightarrow> string" where
  "hexkey x = map (\<lambda>b. char_of (unat b)) (IntToHexStr x)"

section \<open>Lemmas\<close>

lemma jget_append: "jget j (p @ q) = (case jget j p of None \<Rightarrow> None | Some x \<Rightarrow> jget x q)"
  by (induction j p rule: jget.induct) (auto split: option.splits)

lemma jget_jput_same: "jget j p \<noteq> None \<Longrightarrow> jget (jput j p v) p = Some v"
  by (induction j p v rule: jput.induct) (auto split: option.splits if_splits)

lemma jget_jput_below: "jget j p \<noteq> None \<Longrightarrow> jget (jput j p v) (p @ q) = jget v q"
  by (simp add: jget_append jget_jput_same)

lemma put_assoc_twice [simp]: "put_assoc k w (put_assoc k v ms) = put_assoc k w ms"
  by (induction k v ms rule: put_assoc.induct) auto

lemma jput_jput [simp]: "jput (jput j p v) p w = jput j p w"
  by (induction j p v rule: jput.induct) auto

text \<open>Paths that part from each other do not interfere.\<close>

fun apart :: "jstep list \<Rightarrow> jstep list \<Rightarrow> bool" where
  "apart (x # p) (y # q) = (x \<noteq> y \<or> apart p q)"
| "apart _ _ = False"

lemma apart_append: "apart p q \<Longrightarrow> apart (p @ r) q"
  by (induction p q rule: apart.induct) auto

lemma jget_jput_apart: "apart p q \<Longrightarrow> jget j p \<noteq> None \<Longrightarrow> jget (jput j p v) q = jget j q"
proof (induction p q arbitrary: j rule: apart.induct)
  case (1 x p y q)
  then show ?case
    by (cases j; cases x; cases y) (auto split: option.splits if_splits simp: nth_list_update)
qed auto

text \<open>Where an access by keys leads: into objects, nulls and members that are not there.\<close>

fun reaches :: "json \<Rightarrow> string list \<Rightarrow> bool" where
  "reaches j [] = True"
| "reaches (JObj ms) (k # ks) = (case map_of ms k of None \<Rightarrow> True | Some v \<Rightarrow> reaches v ks)"
| "reaches JNull (k # ks) = True"
| "reaches _ (k # ks) = False"

lemma reaches_Null [simp]: "reaches JNull ks"
  by (cases ks) auto

lemma at_key_step:
  assumes "jget root p = Some j" and "reaches j (k # ks)"
  shows "\<exists>root' j'. at_key k (Ref p) root = (Ref (p @ [Key k]), root') \<and> jget root' (p @ [Key k]) = Some j' \<and>
    reaches j' ks \<and> (\<forall>q. apart p q \<longrightarrow> jget root' q = jget root q) \<and>
    (\<forall>a q x. jget root (p @ Key a # q) = Some x \<longrightarrow> jget root' (p @ Key a # q) = Some x)"
proof (cases j)
  case JNull
  let ?r = "jput root p (JObj [(k, JNull)])"
  have "jget root (p @ Key a # q) = None" for a q
    using assms(1) JNull by (simp add: jget_append)
  then show ?thesis
    using assms(1) JNull
    by (intro exI [of _ ?r] exI [of _ JNull]) (simp add: jget_jput_below jget_jput_apart)
next
  case (JObj ms)
  show ?thesis
  proof (cases "map_of ms k")
    case None
    let ?r = "jput root p (JObj (put_assoc k JNull ms))"
    have keep: "jget ?r (p @ Key a # q) = Some x" if "jget root (p @ Key a # q) = Some x" for a q x
    proof -
      from that assms(1) JObj obtain v where "map_of ms a = Some v" "jget v q = Some x"
        by (auto simp: jget_append split: option.splits)
      with None assms(1) show ?thesis by (auto simp: jget_jput_below)
    qed
    show ?thesis
      by (rule exI [of _ ?r], rule exI [of _ JNull], intro conjI allI impI)
        (use assms(1) JObj None keep in \<open>simp_all add: jget_jput_below jget_jput_apart\<close>)
  next
    case (Some v)
    then show ?thesis
      by (intro exI [of _ root] exI [of _ v]) (use assms JObj in \<open>simp add: jget_append\<close>)
  qed
qed (use assms in simp_all)

lemma apart_cases:
  "apart (p @ x # r) q \<Longrightarrow> apart p q \<or> (\<exists>y q'. q = p @ y # q' \<and> (y \<noteq> x \<or> apart r q'))"
proof (induction p arbitrary: q)
  case Nil
  then show ?case by (cases q) auto
next
  case (Cons a p)
  then show ?case by (cases q) auto
qed

lemma at_keys:
  "jget root p = Some j \<Longrightarrow> reaches j ks \<Longrightarrow>
   \<exists>root'. at_path (map Key ks) (Ref p) root = (Ref (p @ map Key ks), root') \<and>
     jget root' (p @ map Key ks) \<noteq> None \<and>
     (\<forall>q x. apart (p @ map Key ks) q \<longrightarrow> jget root q = Some x \<longrightarrow> jget root' q = Some x)"
proof (induction ks arbitrary: root p j)
  case Nil
  then show ?case by simp
next
  case (Cons k ks)
  obtain root1 j1 where s: "at_key k (Ref p) root = (Ref (p @ [Key k]), root1)" "jget root1 (p @ [Key k]) = Some j1"
      "reaches j1 ks" "\<forall>q. apart p q \<longrightarrow> jget root1 q = jget root q"
      "\<forall>a q x. jget root (p @ Key a # q) = Some x \<longrightarrow> jget root1 (p @ Key a # q) = Some x"
    using at_key_step [OF Cons.prems] by blast
  obtain root' where r: "at_path (map Key ks) (Ref (p @ [Key k])) root1 = (Ref ((p @ [Key k]) @ map Key ks), root')"
      "jget root' ((p @ [Key k]) @ map Key ks) \<noteq> None"
      "\<forall>q x. apart ((p @ [Key k]) @ map Key ks) q \<longrightarrow> jget root1 q = Some x \<longrightarrow> jget root' q = Some x"
    using Cons.IH [OF s(2,3)] by blast
  have "jget root1 q = Some x" if "apart (p @ map Key (k # ks)) q" "jget root q = Some x" for q x
  proof -
    from that(1) have "apart p q \<or> (\<exists>y q'. q = p @ y # q')"
      using apart_cases [of p "Key k" "map Key ks" q] by auto
    then show ?thesis
    proof
      assume "apart p q"
      with s(4) that(2) show ?thesis by simp
    next
      assume "\<exists>y q'. q = p @ y # q'"
      then obtain y q' where q: "q = p @ y # q'" by blast
      have "\<exists>a. y = Key a"
        using that(2) Cons.prems q by (cases y; cases j) (auto simp: jget_append)
      with q s(5) that(2) show ?thesis by auto
    qed
  qed
  with r s(1) show ?case by (auto simp: at_step_def)
qed

lemma at_Fault: "at_path p Fault root = (Fault, root)"
  by (induction p) (auto simp: at_step_def split: jstep.splits)

lemma at_keys_fault:
  "jget root p = Some j \<Longrightarrow> \<not> reaches j ks \<Longrightarrow> at_path (map Key ks) (Ref p) root = (Fault, root)"
proof (induction ks arbitrary: p j)
  case Nil
  then show ?case by simp
next
  case (Cons k ks)
  show ?case
  proof (cases j)
    case (JObj ms)
    with Cons.prems obtain v where "map_of ms k = Some v" "\<not> reaches v ks" by (auto split: option.splits)
    with JObj Cons show ?thesis by (simp add: at_step_def jget_append)
  qed (use Cons.prems in \<open>auto simp: at_step_def at_Fault\<close>)
qed

lemma json_set_keys:
  "reaches root ks \<Longrightarrow>
     jget (json_set (map Key ks) v root) (map Key ks) = Some v \<and>
     (\<forall>q x. apart (map Key ks) q \<longrightarrow> jget root q = Some x \<longrightarrow> jget (json_set (map Key ks) v root) q = Some x)"
  using at_keys [of root "[]" root ks]
  by (auto simp: json_set_def assign_def jget_jput_same jget_jput_apart)

lemma toInteger_hex:
  assumes "LENGTH('a::len) = 8 * n" and "n \<le> 8"
  shows "toInteger (JStr (IntToHexStr (x :: 'a word))) = Inr (ucast x)"
proof -
  have n: "sizeof TYPE('a word) = n" using assms(1) by (simp add: sizeof_def)
  let ?bs = "le_bytes n x"
  have "kStrToInt (replicate 8 0) (hexs (rev ?bs) @ [0]) n = Inr (int (2 * n), blit (replicate 8 0) 0 ?bs)"
    using kStrToInt_hexs [of ?bs "replicate 8 0" "[0]"] assms(2) by simp
  moreover have "(le_word (blit (replicate 8 0) 0 ?bs) :: u64) = ucast x"
  proof (rule bit_word_eqI)
    fix i assume i: "i < LENGTH(64)"
    then have i8: "i div 8 < 8" by simp
    have "blit (replicate 8 0) 0 ?bs ! (i div 8) = (if i div 8 < n then ucast (drop_bit (8 * (i div 8)) x) else 0)"
      using i8 assms(2) by (simp add: nth_blit)
    moreover have "i div 8 < n \<longleftrightarrow> i < LENGTH('a)" using assms(1) by (simp add: div_less_iff_less_mult mult.commute)
    ultimately show "bit (le_word (blit (replicate 8 0) 0 ?bs) :: u64) i = bit (ucast x :: u64) i"
      using i i8 assms(2)
      by (auto simp: bit_le_word bit_ucast_iff bit_drop_bit_eq length_blit dest: bit_imp_le_length)
  qed
  ultimately show ?thesis
    using assms(2) by (simp add: toInteger_def IntToHexStr_def n Let_def min_def)
qed

section \<open>Properties\<close>


text \<open>The text of an integer of up to 8 bytes, stored as a string, converts back to the integer.\<close>

theorem toInteger_IntToHexStr:
  assumes "LENGTH('a::len) = 8 * n" and "n \<le> 8"
  shows "jget (json_set (map Key ks) (JStr (IntToHexStr (x :: 'a word))) JNull) (map Key ks) = Some (JStr (IntToHexStr x)) \<and>
    toInteger (JStr (IntToHexStr x)) = Inr (ucast x)"
  using toInteger_hex [OF assms] json_set_keys [of JNull ks] by simp

section \<open>Witnesses\<close>


theorem toInteger_IntToHexStr_witness:
  "jget (json_set (map Key [''nwkAddr'']) (JStr (IntToHexStr (0xBEEF :: u16))) JNull) (map Key [''nwkAddr'']) =
     Some (JStr (IntToHexStr (0xBEEF :: u16))) \<and> toInteger (JStr (IntToHexStr (0xBEEF :: u16))) = Inr 0xBEEF"
  using toInteger_IntToHexStr [where 'a = 16 and n = 2 and x = "0xBEEF" and ks = "[''nwkAddr'']"] by simp

end
