(* ===== verification/ObjectModel.thy ===== *)
theory ObjectModel
  imports KJson
begin

text \<open>
  The object model of the network (aps/include/apsdb.h and aps_object_models_impl.hpp): the gateway
  device with its associated devices, their endpoints, clusters and attributes, kept in
  \<^verbatim>\<open>forward_list\<close>s.  Every accessor by id is \<^verbatim>\<open>find_if\<close>, which creates what it does not find.  A
  reference into a list is the index of its element in the list as returned; \<^verbatim>\<open>parent\<close> pointers are
  implied by the nesting, and a \<^verbatim>\<open>localPeer\<close> pointer is the id of a local endpoint.
\<close>

section \<open>Data\<close>

record NodeDescriptor_t =
  LogicalType :: byte
  ComplexDescAvail :: byte
  UserDescAvail :: byte
  nd_Reserved :: byte
  APSFlags :: byte
  FrequencyBand :: byte
  CapabilityFlags :: byte
  ManufacturerCode :: u16
  MaxBufferSize :: byte
  MaxInTransferSize :: u16
  ServerMask :: u16
  MaxOutTransferSize :: u16
  DescriptorCapability :: byte

record SimpleDescriptor =
  outclusterList :: "u16 list"
  inclusterList :: "u16 list"
  endpointAddr :: byte
  profileId :: u16
  sd_deviceId :: u16
  deviceVersion :: byte

text \<open>\<^verbatim>\<open>AttributeValueDefault\<close>; the length of \<open>av_data\<close> is its \<^verbatim>\<open>size_\<close>.\<close>

record AttributeValue =
  av_data :: "byte list"
  typeId :: byte

record Attribute =
  attr_id :: u16
  attr_value :: AttributeValue

record Cluster =
  cluster_id :: u16
  cluster_attributes :: "Attribute list"

type_synonym ep_data = "(string \<times> byte list) list"

record Endpoint =
  ep_id :: byte
  simpleDescriptor :: SimpleDescriptor
  ep_data :: ep_data
  localPeer :: "byte option"
  ep_clusters :: "Cluster list"
  messageHandler :: "nat option"

record Device =
  dev_id :: u16
  ieee_id :: u64
  dev_capability :: byte
  nodeDescriptor :: NodeDescriptor_t
  dev_endpoints :: "Endpoint list"
  dev_active :: int

text \<open>Only the gateway itself has associated devices.\<close>

record Gateway = Device +
  dev_assocs :: "Device list"

section \<open>Constructors\<close>

definition str :: "string \<Rightarrow> byte list" where
  "str s = map of_char s"

definition node_descriptor_0 :: NodeDescriptor_t where
  "node_descriptor_0 =
     \<lparr>LogicalType = 0, ComplexDescAvail = 0, UserDescAvail = 0, nd_Reserved = 0, APSFlags = 0, FrequencyBand = 0,
      CapabilityFlags = 0, ManufacturerCode = 0, MaxBufferSize = 0, MaxInTransferSize = 0, ServerMask = 0,
      MaxOutTransferSize = 0, DescriptorCapability = 0\<rparr>"

definition simple_descriptor_0 :: SimpleDescriptor where
  "simple_descriptor_0 =
     \<lparr>outclusterList = [], inclusterList = [], endpointAddr = 0, profileId = 0, sd_deviceId = 0, deviceVersion = 0\<rparr>"

definition new_Device :: "u16 \<Rightarrow> Device" where
  "new_Device i =
     \<lparr>dev_id = i, ieee_id = 0, dev_capability = 0, nodeDescriptor = node_descriptor_0, dev_endpoints = [], dev_active = 0\<rparr>"

text \<open>\<^verbatim>\<open>data()[k] = v\<close>.\<close>

definition set_data :: "string \<Rightarrow> byte list \<Rightarrow> ep_data \<Rightarrow> ep_data" where
  "set_data k v d = put_assoc k v d"

definition new_Endpoint :: "byte \<Rightarrow> Endpoint" where
  "new_Endpoint i =
     \<lparr>ep_id = i, simpleDescriptor = simple_descriptor_0,
      ep_data = set_data ''datatypeLookupPath'' (str ''/usr/lib/kappaio/files/zcldatatypes.json'')
        (set_data ''ClusterLookupPath'' (str ''/usr/lib/kappaio/files/zclclusters.json'') []),
      localPeer = None, ep_clusters = [], messageHandler = None\<rparr>"

definition new_Cluster :: "u16 \<Rightarrow> Cluster" where
  "new_Cluster i = \<lparr>cluster_id = i, cluster_attributes = []\<rparr>"

text \<open>\<^verbatim>\<open>new uint8_t[size]\<close> is not initialised: its contents are a parameter.\<close>

definition new_AttributeValue :: "byte \<Rightarrow> byte list \<Rightarrow> AttributeValue" where
  "new_AttributeValue t fresh_data = \<lparr>av_data = fresh_data, typeId = t\<rparr>"

definition new_Attribute :: "byte \<Rightarrow> u16 \<Rightarrow> Attribute" where
  "new_Attribute fresh_byte i = \<lparr>attr_id = i, attr_value = new_AttributeValue 0 [fresh_byte]\<rparr>"

section \<open>Accessors\<close>

fun find_if_loop :: "'a list \<Rightarrow> ('a \<Rightarrow> bool) \<Rightarrow> nat option" where
  "find_if_loop [] p = None"
| "find_if_loop (x # xs) p = (if p x then Some 0 else map_option Suc (find_if_loop xs p))"

definition find_if :: "'a list \<Rightarrow> ('a \<Rightarrow> bool) \<Rightarrow> 'a \<Rightarrow> nat \<times> 'a list" where
  "find_if xs p new = (case find_if_loop xs p of Some i \<Rightarrow> (i, xs) | None \<Rightarrow> (0, new # xs))"

fun exist :: "'a list \<Rightarrow> ('a \<Rightarrow> bool) \<Rightarrow> bool" where
  "exist [] p = False"
| "exist (x # xs) p = (if p x then True else exist xs p)"

lemma find_if_loop_Some: "find_if_loop xs p = Some i \<Longrightarrow> i < length xs \<and> p (xs ! i)"
  by (induction xs arbitrary: i) (auto split: if_splits)

lemma find_if_loop_None: "find_if_loop xs p = None \<longleftrightarrow> (\<forall>x \<in> set xs. \<not> p x)"
  by (induction xs) (auto split: if_splits)

definition assocs16 :: "u16 \<Rightarrow> Gateway \<Rightarrow> nat \<times> Gateway" where
  "assocs16 i d = (case find_if (dev_assocs d) (\<lambda>x. dev_id x = i) (new_Device i) of
     (k, xs) \<Rightarrow> (k, d\<lparr>dev_assocs := xs\<rparr>))"

text \<open>The 64-bit argument is converted to the 16-bit parameter of the constructor.\<close>

definition assocs64 :: "u64 \<Rightarrow> Gateway \<Rightarrow> nat \<times> Gateway" where
  "assocs64 i d = (case find_if (dev_assocs d) (\<lambda>x. ieee_id x = i) (new_Device (ucast i)) of
     (k, xs) \<Rightarrow> (k, d\<lparr>dev_assocs := xs\<rparr>))"

definition assocExist16 :: "u16 \<Rightarrow> Gateway \<Rightarrow> bool" where
  "assocExist16 i d = exist (dev_assocs d) (\<lambda>x. dev_id x = i)"

definition assocExist64 :: "u64 \<Rightarrow> Gateway \<Rightarrow> bool" where
  "assocExist64 i d = exist (dev_assocs d) (\<lambda>x. ieee_id x = i)"

definition removeAssoc :: "u16 \<Rightarrow> Gateway \<Rightarrow> Gateway" where
  "removeAssoc i d = d\<lparr>dev_assocs := filter (\<lambda>x. dev_id x \<noteq> i) (dev_assocs d)\<rparr>"

text \<open>\<^verbatim>\<open>endpointPtr\<close> and \<^verbatim>\<open>endpoints(i)\<close> are the same function; so are \<^verbatim>\<open>clusterPtr\<close> and \<^verbatim>\<open>clusters(i)\<close>.\<close>

definition endpoints :: "byte \<Rightarrow> Endpoint list \<Rightarrow> nat \<times> Endpoint list" where
  "endpoints i es = find_if es (\<lambda>x. ep_id x = i) (new_Endpoint i)"

definition endpointExist :: "byte \<Rightarrow> Endpoint list \<Rightarrow> bool" where
  "endpointExist i es = exist es (\<lambda>x. ep_id x = i)"

fun newEndpoint_loop :: "nat \<Rightarrow> nat \<Rightarrow> Endpoint list \<Rightarrow> nat \<times> Endpoint list" where
  "newEndpoint_loop 0 j es = endpoints 241 es"
| "newEndpoint_loop (Suc left) j es =
     (if \<not> endpointExist (of_nat j) es then endpoints (of_nat j) es else newEndpoint_loop left (Suc j) es)"

text \<open>The loop counts \<^verbatim>\<open>j\<close> from 1 to 239.\<close>

definition newEndpoint :: "byte \<Rightarrow> Endpoint list \<Rightarrow> nat \<times> Endpoint list" where
  "newEndpoint i es = (if endpointExist i es then newEndpoint_loop 239 1 es else endpoints i es)"

definition clusters :: "u16 \<Rightarrow> Endpoint \<Rightarrow> nat \<times> Endpoint" where
  "clusters i e = (case find_if (ep_clusters e) (\<lambda>x. cluster_id x = i) (new_Cluster i) of
     (k, xs) \<Rightarrow> (k, e\<lparr>ep_clusters := xs\<rparr>))"

definition attributes :: "byte \<Rightarrow> u16 \<Rightarrow> Cluster \<Rightarrow> nat \<times> Cluster" where
  "attributes fresh_byte i c =
     (case find_if (cluster_attributes c) (\<lambda>x. attr_id x = i) (new_Attribute fresh_byte i) of
        (k, xs) \<Rightarrow> (k, c\<lparr>cluster_attributes := xs\<rparr>))"

text \<open>\<^verbatim>\<open>setValue\<close> copies \<^verbatim>\<open>size_\<close> bytes; \<^verbatim>\<open>toString\<close> prints the bytes from the last to the first.\<close>

definition setValue :: "byte list \<Rightarrow> AttributeValue \<Rightarrow> ub + (nat \<times> AttributeValue)" where
  "setValue d v =
     (if length (av_data v) \<le> length d
      then Inr (length (av_data v), v\<lparr>av_data := take (length (av_data v)) d\<rparr>) else Inl OobRead)"

definition toString :: "byte list \<Rightarrow> AttributeValue \<Rightarrow> ub + byte list" where
  "toString junk v =
     (let sz = length (av_data v)
      in bindE (hex_loop (take (push_bit (1 + 1) sz) junk) 0 (av_data v) (rev [0..<sz])) (\<lambda>buf.
           if 0 \<in> set buf then Inr (c_str buf) else Inl OobRead))"

section \<open>Snapshots\<close>

text \<open>
  The JSON values that \<^verbatim>\<open>nodeSnapshot\<close> builds; the order of the members of an object means nothing.
  \<^verbatim>\<open>data()[k]\<close> inserts an empty string when there is no \<^verbatim>\<open>k\<close>, so taking a snapshot of an endpoint
  changes it.
\<close>

definition json_get :: "string \<Rightarrow> json \<Rightarrow> json option" where
  "json_get k j = jget j [Key k]"

definition get_data :: "string \<Rightarrow> ep_data \<Rightarrow> byte list \<times> ep_data" where
  "get_data k d = (case map_of d k of Some v \<Rightarrow> (v, d) | None \<Rightarrow> ([], set_data k [] d))"

fun mapE :: "('a \<Rightarrow> ub + 'b) \<Rightarrow> 'a list \<Rightarrow> ub + 'b list" where
  "mapE f [] = Inr []"
| "mapE f (x # xs) = bindE (f x) (\<lambda>y. bindE (mapE f xs) (\<lambda>ys. Inr (y # ys)))"

definition nodeSnapshot_Attribute :: "byte list \<Rightarrow> Attribute \<Rightarrow> ub + json" where
  "nodeSnapshot_Attribute junk a =
     bindE (toString junk (attr_value a)) (\<lambda>v. Inr (JObj [(''id'', JStr (IntToHexStr (attr_id a))), (''value'', JStr v)]))"

definition nodeSnapshot_Cluster :: "byte list \<Rightarrow> Cluster \<Rightarrow> ub + json" where
  "nodeSnapshot_Cluster junk c =
     bindE (mapE (nodeSnapshot_Attribute junk) (cluster_attributes c)) (\<lambda>js.
       Inr (JObj [(''id'', JStr (IntToHexStr (cluster_id c))), (''attributes'', JArr js)]))"

definition inclusterCount :: "SimpleDescriptor \<Rightarrow> byte" where
  "inclusterCount s = of_nat (length (inclusterList s))"

definition outclusterCount :: "SimpleDescriptor \<Rightarrow> byte" where
  "outclusterCount s = of_nat (length (outclusterList s))"

definition snapshot_simple_descriptor :: "SimpleDescriptor \<Rightarrow> json" where
  "snapshot_simple_descriptor s = JObj
     [(''endpoint'', JStr (IntToHexStr (endpointAddr s))), (''profileId'', JStr (IntToHexStr (profileId s))),
      (''deviceId'', JStr (IntToHexStr (sd_deviceId s))), (''deviceVersion'', JStr (IntToHexStr (deviceVersion s))),
      (''inClusterCount'', JStr (IntToHexStr (inclusterCount s))),
      (''inClusterList'', JArr (map (\<lambda>i. JStr (IntToHexStr (inclusterList s ! i))) [0..<unat (inclusterCount s)])),
      (''outClusterCount'', JStr (IntToHexStr (inclusterCount s))),
      (''outClusterList'', JArr (map (\<lambda>i. JStr (IntToHexStr (outclusterList s ! i))) [0..<unat (outclusterCount s)]))]"

definition nodeSnapshot_Endpoint :: "byte list \<Rightarrow> Endpoint \<Rightarrow> ub + (json \<times> Endpoint)" where
  "nodeSnapshot_Endpoint junk e =
     (case get_data ''WidgetRoot'' (ep_data e) of (root, d1) \<Rightarrow>
      case get_data ''WidgetIndexFile'' d1 of (index, d2) \<Rightarrow>
        bindE (mapE (nodeSnapshot_Cluster junk) (ep_clusters e)) (\<lambda>cs.
          Inr (JObj
            ([(''id'', JStr (IntToHexStr (ep_id e))), (''paired'', JBool (localPeer e \<noteq> None))] @
             (case localPeer e of None \<Rightarrow> [] | Some p \<Rightarrow> [(''localEndpointOfContact'', JStr (IntToHexStr p))]) @
             [(''WidgetRoot'', JStr (c_str root)), (''WidgetIndexFile'', JStr (c_str index)),
              (''simpleDescriptor'', snapshot_simple_descriptor (simpleDescriptor e)),
              (''data'', JObj (map (\<lambda>(k, v). (k, JStr (c_str v))) d2)), (''clusters'', JArr cs)]),
           e\<lparr>ep_data := d2\<rparr>)))"

text \<open>The snapshot of a device; \<open>assocs\<close> are the snapshots of its associated devices.\<close>

definition device_json :: "'a Device_scheme \<Rightarrow> json list \<Rightarrow> json list \<Rightarrow> json" where
  "device_json d assocs eps = JObj
     [(''id'', JStr (IntToHexStr (dev_id d))), (''ieee_id'', JStr (IntToHexStr (ieee_id d))),
      (''capability'', JStr (IntToHexStr (dev_capability d))), (''assocs'', JArr assocs), (''endpoints'', JArr eps)]"

definition nodeSnapshot_Device :: "byte list \<Rightarrow> Device \<Rightarrow> ub + (json \<times> Device)" where
  "nodeSnapshot_Device junk d =
     bindE (mapE (nodeSnapshot_Endpoint junk) (dev_endpoints d)) (\<lambda>es.
       Inr (device_json d [] (map fst es), d\<lparr>dev_endpoints := map snd es\<rparr>))"

definition nodeSnapshot_Gateway :: "byte list \<Rightarrow> Gateway \<Rightarrow> ub + (json \<times> Gateway)" where
  "nodeSnapshot_Gateway junk d =
     bindE (mapE (nodeSnapshot_Device junk) (dev_assocs d)) (\<lambda>as.
     bindE (mapE (nodeSnapshot_Endpoint junk) (dev_endpoints d)) (\<lambda>es.
       Inr (device_json d (map fst as) (map fst es),
            d\<lparr>dev_assocs := map snd as, dev_endpoints := map snd es\<rparr>)))"

section \<open>Joining endpoints (aps/source/apsdb.cpp)\<close>

text \<open>
  \<^verbatim>\<open>establish_profile\<close> creates the attributes the library files list for the input clusters:
  \<open>clusLib\<close> gives for a cluster its attribute ids with the names of their types, \<open>dtLib\<close> a type's
  number and size, both read from JSON files; \<open>fresh n\<close> is the content of new memory.
\<close>

definition add_attribute :: "(nat \<Rightarrow> byte list) \<Rightarrow> (string \<Rightarrow> (byte \<times> nat) option) \<Rightarrow> u16 \<times> string \<Rightarrow> Cluster \<Rightarrow> Cluster" where
  "add_attribute fresh dtLib el c =
     (case dtLib (snd el) of
        None \<Rightarrow> c
      | Some (t, sz) \<Rightarrow>
          (case attributes (fresh 1 ! 0) (fst el) c of (k, c') \<Rightarrow>
             c'\<lparr>cluster_attributes := (cluster_attributes c')[k := (cluster_attributes c' ! k)\<lparr>attr_value := new_AttributeValue t (fresh sz)\<rparr>]\<rparr>))"

definition add_cluster ::
    "(nat \<Rightarrow> byte list) \<Rightarrow> (u16 \<Rightarrow> (u16 \<times> string) list option) \<Rightarrow> (string \<Rightarrow> (byte \<times> nat) option) \<Rightarrow> u16 \<Rightarrow> Endpoint \<Rightarrow> Endpoint" where
  "add_cluster fresh clusLib dtLib cId e =
     (case clusLib cId of
        None \<Rightarrow> e
      | Some attrList \<Rightarrow>
          (case clusters cId e of (k, e') \<Rightarrow>
             e'\<lparr>ep_clusters := (ep_clusters e')[k := fold (add_attribute fresh dtLib) attrList (ep_clusters e' ! k)]\<rparr>))"

type_synonym profile_lib = "(nat \<Rightarrow> byte list) \<times> (u16 \<Rightarrow> (u16 \<times> string) list option) \<times> (string \<Rightarrow> (byte \<times> nat) option)"

definition establish_profile :: "profile_lib \<Rightarrow> Endpoint \<Rightarrow> int \<times> Endpoint" where
  "establish_profile lib e =
     (case lib of (fresh, clusLib, dtLib) \<Rightarrow>
        if localPeer e = None then (-1, e)
        else (0, fold (add_cluster fresh clusLib dtLib) (inclusterList (simpleDescriptor e)) e))"

definition clusters_match :: "Endpoint \<Rightarrow> Endpoint \<Rightarrow> bool" where
  "clusters_match lcl remote \<longleftrightarrow>
     list_ex (\<lambda>out_cId. list_ex (\<lambda>in_cId. out_cId = in_cId) (inclusterList (simpleDescriptor remote))) (outclusterList (simpleDescriptor lcl))"

text \<open>
  \<^verbatim>\<open>aps_newpeer_handle\<close>: the libraries are those of the local endpoint.  The result is the return
  value, the local endpoint that gets the \<^verbatim>\<open>NewJoin\<close> event, and the remote endpoint.
\<close>

fun aps_newpeer_handle ::
    "(byte \<Rightarrow> profile_lib) \<Rightarrow> Endpoint list \<Rightarrow> Endpoint \<Rightarrow> int \<times> byte option \<times> Endpoint" where
  "aps_newpeer_handle libs [] remote = (-1, None, remote)"
| "aps_newpeer_handle libs (lcl # rest) remote =
     (if profileId (simpleDescriptor remote) = profileId (simpleDescriptor lcl)
      then (let remote = remote\<lparr>localPeer := Some (ep_id lcl)\<rparr> in
            if clusters_match lcl remote
            then (0, Some (ep_id lcl), snd (establish_profile (libs (ep_id lcl)) remote))
            else aps_newpeer_handle libs rest remote)
      else aps_newpeer_handle libs rest remote)"

text \<open>\<^verbatim>\<open>aps::cntr\<close>: an atomic byte.\<close>

definition cntr :: "byte \<Rightarrow> byte \<times> byte" where
  "cntr c = (c, c + 1)"

section \<open>Find or create\<close>

text \<open>The contract of an accessor by id: what the constructor makes has the id it was asked for.\<close>

locale find_or_create =
  fixes key :: "'a \<Rightarrow> 'k" and mk :: "'k \<Rightarrow> 'a"
  assumes key_mk: "key (mk k) = k"
begin

lemma loop_Some: "find_if_loop xs (\<lambda>x. key x = k) = Some i \<Longrightarrow> i < length xs \<and> key (xs ! i) = k"
  by (induction xs arbitrary: i) (auto split: if_splits)

lemma loop_None: "find_if_loop xs (\<lambda>x. key x = k) = None \<longleftrightarrow> k \<notin> key ` set xs"
  by (induction xs) auto

lemma found: "find_if xs (\<lambda>x. key x = k) (mk k) = (i, ys) \<Longrightarrow> i < length ys \<and> key (ys ! i) = k"
  using loop_Some by (auto simp: find_if_def key_mk split: option.splits)

lemma kept:
  "find_if xs (\<lambda>x. key x = k) (mk k) = (i, ys) \<Longrightarrow> ys = (if k \<in> key ` set xs then xs else mk k # xs)"
  using loop_None [of xs k] by (auto simp: find_if_def split: option.splits)

lemma keys: "find_if xs (\<lambda>x. key x = k) (mk k) = (i, ys) \<Longrightarrow> key ` set ys = insert k (key ` set xs)"
  using kept [of xs k i ys] by (auto simp: key_mk split: if_splits)

lemma distinct_kept:
  "find_if xs (\<lambda>x. key x = k) (mk k) = (i, ys) \<Longrightarrow> distinct (map key xs) \<Longrightarrow> distinct (map key ys)"
  using kept [of xs k i ys] by (auto simp: key_mk split: if_splits)

lemma again: "find_if xs (\<lambda>x. key x = k) (mk k) = (i, ys) \<Longrightarrow> find_if ys (\<lambda>x. key x = k) (mk k) = (i, ys)"
  by (auto simp: find_if_def key_mk split: option.splits)

lemma found_unique:
  "find_if xs (\<lambda>x. key x = k) (mk k) = (i, ys) \<Longrightarrow> distinct (map key xs) \<Longrightarrow> j < length ys \<Longrightarrow> key (ys ! j) = k \<Longrightarrow> j = i"
  using found distinct_kept by (metis length_map nth_eq_iff_index_eq nth_map)

end

interpretation devs: find_or_create dev_id new_Device
  by unfold_locales (simp add: new_Device_def)

interpretation eps: find_or_create ep_id new_Endpoint
  by unfold_locales (simp add: new_Endpoint_def)

interpretation cls: find_or_create cluster_id new_Cluster
  by unfold_locales (simp add: new_Cluster_def)

interpretation attrs: find_or_create attr_id "new_Attribute fresh_byte"
  by unfold_locales (simp add: new_Attribute_def)

lemma exist_iff: "exist xs p \<longleftrightarrow> (\<exists>x \<in> set xs. p x)"
  by (induction xs) auto

lemma endpointExist_iff: "endpointExist i es \<longleftrightarrow> i \<in> ep_id ` set es"
  by (auto simp: endpointExist_def exist_iff)

lemma find_if_new: "\<forall>x \<in> set xs. \<not> p x \<Longrightarrow> find_if xs p new = (0, new # xs)"
  by (induction xs) (auto simp: find_if_def split: option.splits)

lemma newEndpoint_loop_free:
  assumes "\<forall>k. j \<le> k \<and> k < m \<longrightarrow> of_nat k \<in> ep_id ` set es" and "of_nat m \<notin> ep_id ` set es"
  shows "j \<le> m \<Longrightarrow> m < j + left \<Longrightarrow> newEndpoint_loop left j es = endpoints (of_nat m) es"
  using assms
proof (induction left arbitrary: j)
  case 0
  then show ?case by simp
next
  case (Suc left)
  then show ?case
    by (cases "j = m") (auto simp: endpointExist_iff)
qed

lemma newEndpoint_loop_full:
  "\<forall>k. j \<le> k \<and> k < j + left \<longrightarrow> of_nat k \<in> ep_id ` set es \<Longrightarrow> newEndpoint_loop left j es = endpoints 241 es"
  by (induction left arbitrary: j) (auto simp: endpointExist_iff)

text \<open>Printing a value, and the snapshots of attributes and clusters.\<close>

definition values_ok :: "byte list \<Rightarrow> Endpoint \<Rightarrow> bool" where
  "values_ok junk e \<longleftrightarrow>
     (\<forall>c \<in> set (ep_clusters e). \<forall>a \<in> set (cluster_attributes c).
        av_data (attr_value a) \<noteq> [] \<and> 4 * length (av_data (attr_value a)) \<le> length junk)"

lemma toString_ok:
  assumes "av_data v \<noteq> []" and "4 * length (av_data v) \<le> length junk"
  shows "toString junk v = Inr (hexs (rev (av_data v)))"
proof -
  let ?n = "length (av_data v)" and ?buf = "take (4 * length (av_data v)) junk"
  have n: "0 < ?n" using assms(1) by simp
  have len: "2 * ?n + 1 \<le> length ?buf" using assms(2) n by (simp del: length_greater_0_conv)
  have "hex_loop ?buf 0 (av_data v) (rev [0..<?n]) = Inr (blit ?buf 0 (hexs (rev (av_data v)) @ [0]))"
    using kIntToStr_ok [OF assms(1) len] by (simp add: kIntToStr_def)
  moreover have "c_str (blit ?buf 0 (hexs (rev (av_data v)) @ [0])) = hexs (rev (av_data v))"
    by (simp add: blit_def)
  ultimately show ?thesis
    by (simp add: toString_def push_bit_eq_mult Let_def blit_def mult.commute)
qed

lemma mapE_total: "\<forall>x \<in> set xs. \<exists>y. f x = Inr y \<Longrightarrow> \<exists>ys. mapE f xs = Inr ys"
proof (induction xs)
  case Nil
  then show ?case by simp
next
  case (Cons x xs)
  then show ?case by fastforce
qed

lemma snapshot_clusters_total:
  assumes "values_ok junk e"
  shows "\<exists>js. mapE (nodeSnapshot_Cluster junk) (ep_clusters e) = Inr js"
proof (rule mapE_total, rule ballI)
  fix c assume c: "c \<in> set (ep_clusters e)"
  have "\<exists>js. mapE (nodeSnapshot_Attribute junk) (cluster_attributes c) = Inr js"
    using assms c by (intro mapE_total ballI) (simp add: values_ok_def nodeSnapshot_Attribute_def toString_ok)
  then show "\<exists>j. nodeSnapshot_Cluster junk c = Inr j"
    by (auto simp: nodeSnapshot_Cluster_def)
qed

lemma get_data_keeps: "get_data k d = (v, d') \<Longrightarrow> map_of d' k = Some v \<and> (\<forall>x. x \<noteq> k \<longrightarrow> map_of d' x = map_of d x)"
  by (auto simp: get_data_def set_data_def split: option.splits)

lemma get_data_Some: "map_of d k = Some v \<Longrightarrow> get_data k d = (v, d)"
  by (simp add: get_data_def)

lemma get_data_again: "get_data k d = (v, d') \<Longrightarrow> get_data k d' = (v, d')"
  by (intro get_data_Some) (blast dest: get_data_keeps)

lemma get_data_twice:
  assumes "get_data k d = (v, d1)" and "get_data l d1 = (w, d2)"
  shows "get_data k d2 = (v, d2) \<and> get_data l d2 = (w, d2)"
proof (intro conjI get_data_Some)
  show "map_of d2 l = Some w" using get_data_keeps [OF assms(2)] by blast
  show "map_of d2 k = Some v"
  proof (cases "k = l")
    case True
    then show ?thesis using assms get_data_again [OF assms(1)] get_data_keeps [OF assms(1)] by simp
  next
    case False
    then show ?thesis using get_data_keeps [OF assms(1)] get_data_keeps [OF assms(2)] by simp
  qed
qed

text \<open>What \<^verbatim>\<open>establish_profile\<close> adds, and that it never takes anything away.\<close>

lemma in_set_update: "x \<in> set xs \<Longrightarrow> k < length xs \<Longrightarrow> x = xs ! k \<or> x \<in> set (xs[k := y])"
  by (metis in_set_conv_nth length_list_update nth_list_update)

definition has_attr :: "u16 \<Rightarrow> u16 \<Rightarrow> Endpoint \<Rightarrow> bool" where
  "has_attr c a e \<longleftrightarrow> (\<exists>cl \<in> set (ep_clusters e). cluster_id cl = c \<and> a \<in> attr_id ` set (cluster_attributes cl))"

lemma map_update_same: "i < length xs \<Longrightarrow> f y = f (xs ! i) \<Longrightarrow> map f (xs[i := y]) = map f xs"
  by (metis list_update_id map_update)

lemma add_attribute_ids:
  "attr_id ` set (cluster_attributes (add_attribute fresh dtLib el c)) =
     attr_id ` set (cluster_attributes c) \<union> (if dtLib (snd el) = None then {} else {fst el}) \<and>
   cluster_id (add_attribute fresh dtLib el c) = cluster_id c \<and>
   (distinct (map attr_id (cluster_attributes c)) \<longrightarrow> distinct (map attr_id (cluster_attributes (add_attribute fresh dtLib el c))))"
proof (cases "dtLib (snd el)")
  case None
  then show ?thesis by (simp add: add_attribute_def)
next
  case (Some ts)
  obtain k xs where f: "find_if (cluster_attributes c) (\<lambda>x. attr_id x = fst el) (new_Attribute (fresh 1 ! 0) (fst el)) = (k, xs)"
    by fastforce
  have k: "k < length xs" using attrs.found [OF f] by simp
  let ?v = "\<lambda>t sz. (xs ! k)\<lparr>attr_value := new_AttributeValue t (fresh sz)\<rparr>"
  have m: "map attr_id (xs[k := ?v t sz]) = map attr_id xs" for t sz
    by (rule map_update_same [OF k]) simp
  then have "attr_id ` set (xs[k := ?v t sz]) = attr_id ` set xs" for t sz
    by (metis image_set)
  with m Some f attrs.keys [OF f] attrs.distinct_kept [OF f] show ?thesis
    by (cases ts) (simp add: add_attribute_def attributes_def)
qed

lemma add_attributes_ids:
  "attr_id ` set (cluster_attributes (fold (add_attribute fresh dtLib) els c)) =
     attr_id ` set (cluster_attributes c) \<union> {a. \<exists>t. (a, t) \<in> set els \<and> dtLib t \<noteq> None} \<and>
   cluster_id (fold (add_attribute fresh dtLib) els c) = cluster_id c \<and>
   (distinct (map attr_id (cluster_attributes c)) \<longrightarrow> distinct (map attr_id (cluster_attributes (fold (add_attribute fresh dtLib) els c))))"
proof (induction els arbitrary: c)
  case Nil
  then show ?case by simp
next
  case (Cons el els)
  show ?case
    using Cons.IH [of "add_attribute fresh dtLib el c"] add_attribute_ids [of fresh dtLib el c]
    by (cases el) auto
qed

definition endpoint_wf :: "Endpoint \<Rightarrow> bool" where
  "endpoint_wf e \<longleftrightarrow> distinct (map cluster_id (ep_clusters e)) \<and>
     (\<forall>c \<in> set (ep_clusters e). distinct (map attr_id (cluster_attributes c)))"

lemma endpoint_wf_new [simp]: "endpoint_wf (new_Endpoint i)"
  by (simp add: endpoint_wf_def new_Endpoint_def)

lemma add_cluster_effect:
  "(has_attr c a e \<longrightarrow> has_attr c a (add_cluster fresh clusLib dtLib cId e)) \<and>
   (clusLib cId = Some els \<and> (b, t) \<in> set els \<and> dtLib t \<noteq> None \<longrightarrow> has_attr cId b (add_cluster fresh clusLib dtLib cId e)) \<and>
   (endpoint_wf e \<longrightarrow> endpoint_wf (add_cluster fresh clusLib dtLib cId e)) \<and>
   add_cluster fresh clusLib dtLib cId e = e\<lparr>ep_clusters := ep_clusters (add_cluster fresh clusLib dtLib cId e)\<rparr>"
proof (cases "clusLib cId")
  case None
  then show ?thesis by (simp add: add_cluster_def)
next
  case (Some els')
  obtain k xs where f: "find_if (ep_clusters e) (\<lambda>x. cluster_id x = cId) (new_Cluster cId) = (k, xs)"
    by fastforce
  note k = cls.found [OF f]
  let ?y = "fold (add_attribute fresh dtLib) els' (xs ! k)"
  note y = add_attributes_ids [of fresh dtLib els' "xs ! k"]
  have eq: "add_cluster fresh clusLib dtLib cId e = e\<lparr>ep_clusters := xs[k := ?y]\<rparr>"
    using Some f by (simp add: add_cluster_def clusters_def)
  have sub: "set (ep_clusters e) \<subseteq> set xs" using cls.kept [OF f] by auto
  have in_y: "?y \<in> set (xs[k := ?y])" using k by (simp add: set_update_memI)
  have keep: "has_attr c a (e\<lparr>ep_clusters := xs[k := ?y]\<rparr>)" if h: "has_attr c a e"
  proof -
    from h sub obtain cl where cl: "cl \<in> set xs" "cluster_id cl = c" "a \<in> attr_id ` set (cluster_attributes cl)"
      unfolding has_attr_def by blast
    from in_set_update [OF cl(1)] k have "cl = xs ! k \<or> cl \<in> set (xs[k := ?y])" by blast
    then show ?thesis
    proof
      assume "cl = xs ! k"
      with cl y have "cluster_id ?y = c" "a \<in> attr_id ` set (cluster_attributes ?y)" by simp_all
      with in_y show ?thesis unfolding has_attr_def by (auto simp del: set_update_memI)
    next
      assume "cl \<in> set (xs[k := ?y])"
      with cl show ?thesis unfolding has_attr_def by auto
    qed
  qed
  have new: "has_attr cId b (e\<lparr>ep_clusters := xs[k := ?y]\<rparr>)" if "clusLib cId = Some els" "(b, t) \<in> set els" "dtLib t \<noteq> None"
  proof -
    from that Some y k have "cluster_id ?y = cId" "b \<in> attr_id ` set (cluster_attributes ?y)" by auto
    with in_y show ?thesis unfolding has_attr_def by auto
  qed
  have wf: "endpoint_wf (e\<lparr>ep_clusters := xs[k := ?y]\<rparr>)" if w: "endpoint_wf e"
  proof -
    have "map cluster_id (xs[k := ?y]) = map cluster_id xs" using k y by (intro map_update_same) simp_all
    moreover have "distinct (map cluster_id xs)" using w cls.distinct_kept [OF f] by (simp add: endpoint_wf_def)
    moreover have old: "distinct (map attr_id (cluster_attributes cl))" if "cl \<in> set xs" for cl
      using that w cls.kept [OF f] by (auto simp: endpoint_wf_def new_Cluster_def split: if_splits)
    moreover have "distinct (map attr_id (cluster_attributes ?y))" using y old k by simp
    ultimately show ?thesis
      using set_update_subset_insert [of xs k ?y] by (auto simp: endpoint_wf_def)
  qed
  from keep new wf show ?thesis unfolding eq by simp
qed

lemma add_clusters_effect:
  "(has_attr c a e \<longrightarrow> has_attr c a (fold (add_cluster fresh clusLib dtLib) cs e)) \<and>
   (c \<in> set cs \<and> clusLib c = Some els \<and> (b, t) \<in> set els \<and> dtLib t \<noteq> None \<longrightarrow>
      has_attr c b (fold (add_cluster fresh clusLib dtLib) cs e)) \<and>
   (endpoint_wf e \<longrightarrow> endpoint_wf (fold (add_cluster fresh clusLib dtLib) cs e)) \<and>
   fold (add_cluster fresh clusLib dtLib) cs e = e\<lparr>ep_clusters := ep_clusters (fold (add_cluster fresh clusLib dtLib) cs e)\<rparr>"
proof (induction cs arbitrary: a e)
  case Nil
  then show ?case by simp
next
  case (Cons d cs)
  let ?e = "add_cluster fresh clusLib dtLib d e" and ?f = "fold (add_cluster fresh clusLib dtLib) cs"
  note one = add_cluster_effect [of _ _ e fresh clusLib dtLib d]
  have "has_attr c b (?f ?e)" if "c = d" "clusLib c = Some els" "(b, t) \<in> set els" "dtLib t \<noteq> None"
    using that one Cons.IH [of b ?e] by blast
  moreover have "?f ?e = e\<lparr>ep_clusters := ep_clusters (?f ?e)\<rparr>"
    using one Cons.IH [of a ?e] by (metis (no_types, lifting) Endpoint.select_convs Endpoint.surjective Endpoint.update_convs(5))
  ultimately show ?case
    using one Cons.IH [of a ?e] by auto
qed

lemma newpeer_skip:
  "\<forall>x \<in> set xs. \<not> (profileId (simpleDescriptor remote) = profileId (simpleDescriptor x) \<and> clusters_match x remote) \<Longrightarrow>
   aps_newpeer_handle libs (xs @ ys) remote =
   aps_newpeer_handle libs ys
     (remote\<lparr>localPeer :=
        (case filter (\<lambda>x. profileId (simpleDescriptor remote) = profileId (simpleDescriptor x)) xs of
           [] \<Rightarrow> localPeer remote | cs \<Rightarrow> Some (ep_id (last cs)))\<rparr>)"
proof (induction xs arbitrary: remote)
  case Nil
  then show ?case by simp
next
  case (Cons x xs)
  have m: "clusters_match y (remote\<lparr>localPeer := p\<rparr>) = clusters_match y remote" for y p
    by (simp add: clusters_match_def)
  show ?case
    using Cons.prems Cons.IH [of remote] Cons.IH [of "remote\<lparr>localPeer := Some (ep_id x)\<rparr>"]
    by (auto simp: m Let_def split: list.splits)
qed

section \<open>Properties\<close>

text \<open>
  Asking for an endpoint by id finds the endpoint with this id, and creates one at the front of the
  list exactly when there is none; everything else keeps its place, ids stay distinct, and asking
  again finds the same one.  Associated devices by short address, clusters and attributes behave
  alike.  But an unknown IEEE address makes a new device each time, with the low 16 bits as its
  short address and no IEEE address.
\<close>

theorem find_or_create_by_id:
  "(let (k, es') = endpoints i es in
      k < length es' \<and> ep_id (es' ! k) = i \<and> es' = (if endpointExist i es then es else new_Endpoint i # es) \<and>
      endpoints i es' = (k, es') \<and> (distinct (map ep_id es) \<longrightarrow> distinct (map ep_id es'))) \<and>
   (let (k, d') = assocs16 a d in
      k < length (dev_assocs d') \<and> dev_id (dev_assocs d' ! k) = a \<and>
      dev_assocs d' = (if assocExist16 a d then dev_assocs d else new_Device a # dev_assocs d) \<and>
      assocs16 a d' = (k, d') \<and> (distinct (map dev_id (dev_assocs d)) \<longrightarrow> distinct (map dev_id (dev_assocs d')))) \<and>
   (let (k, e') = clusters c e in
      k < length (ep_clusters e') \<and> cluster_id (ep_clusters e' ! k) = c \<and> clusters c e' = (k, e')) \<and>
   (let (k, cl') = attributes fb b cl in
      k < length (cluster_attributes cl') \<and> attr_id (cluster_attributes cl' ! k) = b \<and> attributes fb b cl' = (k, cl')) \<and>
   (\<not> assocExist64 x d \<and> x \<noteq> 0 \<longrightarrow>
      (let (k, d') = assocs64 x d in
         k = 0 \<and> dev_assocs d' = new_Device (ucast x) # dev_assocs d \<and> \<not> assocExist64 x d'))"
proof (intro conjI impI)
  show "let (k, es') = endpoints i es in
      k < length es' \<and> ep_id (es' ! k) = i \<and> es' = (if endpointExist i es then es else new_Endpoint i # es) \<and>
      endpoints i es' = (k, es') \<and> (distinct (map ep_id es) \<longrightarrow> distinct (map ep_id es'))"
    using eps.found eps.kept eps.again eps.distinct_kept
    by (cases "endpoints i es") (simp add: endpoints_def endpointExist_iff)
  obtain k ds where ds: "find_if (dev_assocs d) (\<lambda>x. dev_id x = a) (new_Device a) = (k, ds)" by fastforce
  then show "let (k, d') = assocs16 a d in
      k < length (dev_assocs d') \<and> dev_id (dev_assocs d' ! k) = a \<and>
      dev_assocs d' = (if assocExist16 a d then dev_assocs d else new_Device a # dev_assocs d) \<and>
      assocs16 a d' = (k, d') \<and> (distinct (map dev_id (dev_assocs d)) \<longrightarrow> distinct (map dev_id (dev_assocs d')))"
    using devs.found [OF ds] devs.kept [OF ds] devs.again [OF ds] devs.distinct_kept [OF ds]
    by (auto simp: assocs16_def assocExist16_def exist_iff)
  obtain k cs where cs: "find_if (ep_clusters e) (\<lambda>x. cluster_id x = c) (new_Cluster c) = (k, cs)" by fastforce
  then show "let (k, e') = clusters c e in
      k < length (ep_clusters e') \<and> cluster_id (ep_clusters e' ! k) = c \<and> clusters c e' = (k, e')"
    using cls.found [OF cs] cls.again [OF cs] by (simp add: clusters_def)
  obtain k as where as: "find_if (cluster_attributes cl) (\<lambda>x. attr_id x = b) (new_Attribute fb b) = (k, as)" by fastforce
  then show "let (k, cl') = attributes fb b cl in
      k < length (cluster_attributes cl') \<and> attr_id (cluster_attributes cl' ! k) = b \<and> attributes fb b cl' = (k, cl')"
    using attrs.found [OF as] attrs.again [OF as] by (simp add: attributes_def)
next
  assume "\<not> assocExist64 x d \<and> x \<noteq> 0"
  then show "let (k, d') = assocs64 x d in
         k = 0 \<and> dev_assocs d' = new_Device (ucast x) # dev_assocs d \<and> \<not> assocExist64 x d'"
    by (auto simp: assocs64_def assocExist64_def exist_iff find_if_new new_Device_def)
qed

text \<open>
  \<^verbatim>\<open>newEndpoint\<close> makes an endpoint with the requested id if that is free, and otherwise with the
  least free id from 1 to 239.  When these are all taken it returns endpoint 241, which is a new
  one only the first time; later callers get the endpoint of the first.
\<close>

theorem newEndpoint_ids:
  "(\<not> endpointExist i es \<longrightarrow> newEndpoint i es = (0, new_Endpoint i # es)) \<and>
   (endpointExist i es \<and> 1 \<le> m \<and> m < 240 \<and> (\<forall>k. 1 \<le> k \<and> k < m \<longrightarrow> endpointExist (of_nat k) es) \<and>
      \<not> endpointExist (of_nat m) es \<longrightarrow> newEndpoint i es = (0, new_Endpoint (of_nat m) # es)) \<and>
   (endpointExist i es \<and> (\<forall>k. 1 \<le> k \<and> k < 240 \<longrightarrow> endpointExist (of_nat k) es) \<longrightarrow>
      newEndpoint i es = endpoints 241 es \<and>
      newEndpoint i (snd (newEndpoint i es)) = (fst (endpoints 241 es), snd (newEndpoint i es)))"
proof (intro conjI impI; (elim conjE)?)
  have new: "endpoints j es = (0, new_Endpoint j # es)" if "\<not> endpointExist j es" for j
    using that by (auto simp: endpoints_def endpointExist_iff intro: find_if_new)
  show "\<not> endpointExist i es \<Longrightarrow> newEndpoint i es = (0, new_Endpoint i # es)"
    by (simp add: newEndpoint_def new)
  assume i: "endpointExist i es"
  show "1 \<le> m \<Longrightarrow> m < 240 \<Longrightarrow> \<forall>k. 1 \<le> k \<and> k < m \<longrightarrow> endpointExist (of_nat k) es \<Longrightarrow>
      \<not> endpointExist (of_nat m) es \<Longrightarrow> newEndpoint i es = (0, new_Endpoint (of_nat m) # es)"
    using i newEndpoint_loop_free [of 1 m es 239] by (simp add: newEndpoint_def new endpointExist_iff)
  assume full: "\<forall>k. 1 \<le> k \<and> k < 240 \<longrightarrow> endpointExist (of_nat k) es"
  then show eq: "newEndpoint i es = endpoints 241 es"
    using i newEndpoint_loop_full [of 1 239 es] by (simp add: newEndpoint_def endpointExist_iff)
  obtain k es' where es': "endpoints 241 es = (k, es')" by fastforce
  have sub: "set es \<subseteq> set es'" using eps.kept [of es 241 k es'] es' by (auto simp: endpoints_def)
  then have sub: "ep_id ` set es \<subseteq> ep_id ` set es'" by blast
  then have "endpointExist i es'" and "\<forall>k. 1 \<le> k \<and> k < 1 + 239 \<longrightarrow> of_nat k \<in> ep_id ` set es'"
    using i full by (simp_all only: endpointExist_iff) (auto simp: subset_iff)
  then have "newEndpoint i es' = endpoints 241 es'"
    using newEndpoint_loop_full [of 1 239 es'] by (simp only: newEndpoint_def if_True)
  then show "newEndpoint i (snd (newEndpoint i es)) = (fst (endpoints 241 es), snd (newEndpoint i es))"
    using eq es' eps.again [of es 241 k es'] by (simp add: endpoints_def)
qed

text \<open>
  The snapshot of an endpoint with printable attribute values always succeeds, and shows the real
  lengths of both cluster lists in the lists themselves.  But the reported number of output clusters
  is that of the input clusters, and reading the snapshot changes the endpoint: its data get members
  for the widget root and index, after which further snapshots change nothing.
\<close>

theorem nodeSnapshot_Endpoint_reports:
  assumes "values_ok junk e"
  shows "\<exists>j e'. nodeSnapshot_Endpoint junk e = Inr (j, e') \<and>
    json_get ''simpleDescriptor'' j = Some (snapshot_simple_descriptor (simpleDescriptor e)) \<and>
    json_get ''outClusterCount'' (snapshot_simple_descriptor (simpleDescriptor e)) =
      Some (JStr (IntToHexStr (of_nat (length (inclusterList (simpleDescriptor e))) :: byte))) \<and>
    map_of (ep_data e') ''WidgetRoot'' \<noteq> None \<and> map_of (ep_data e') ''WidgetIndexFile'' \<noteq> None \<and>
    e' = e\<lparr>ep_data := ep_data e'\<rparr> \<and> nodeSnapshot_Endpoint junk e' = Inr (j, e')"
proof -
  obtain root d1 where d1: "get_data ''WidgetRoot'' (ep_data e) = (root, d1)" by fastforce
  obtain index d2 where d2: "get_data ''WidgetIndexFile'' d1 = (index, d2)" by fastforce
  obtain cs where cs: "mapE (nodeSnapshot_Cluster junk) (ep_clusters e) = Inr cs"
    using snapshot_clusters_total [OF assms] by blast
  note again = get_data_twice [OF d1 d2]
  have "map_of d2 ''WidgetRoot'' \<noteq> None" "map_of d2 ''WidgetIndexFile'' \<noteq> None"
    using again by (auto dest: get_data_keeps)
  then show ?thesis
    using d1 d2 cs again
    by (cases "localPeer e")
      (simp_all add: nodeSnapshot_Endpoint_def snapshot_simple_descriptor_def inclusterCount_def json_get_def)
qed

text \<open>
  C37: A joining endpoint is paired with the first local endpoint that has its profile and, among its output
  clusters, one of its input clusters; that endpoint gets the event, the joining one gets the listed
  attributes of all its known input clusters, and nothing it had is lost.  When no local endpoint
  matches the result is -1, but the joining endpoint still points to the last local endpoint with
  its profile.
\<close>

theorem newpeer_pairs:
  "(lcls = xs @ l # ys \<and>
    (\<forall>x \<in> set xs. \<not> (profileId (simpleDescriptor remote) = profileId (simpleDescriptor x) \<and> clusters_match x remote)) \<and>
    profileId (simpleDescriptor remote) = profileId (simpleDescriptor l) \<and> clusters_match l remote \<and>
    libs (ep_id l) = (fresh, clusLib, dtLib) \<longrightarrow>
    (\<exists>e. aps_newpeer_handle libs lcls remote = (0, Some (ep_id l), e) \<and>
       e = remote\<lparr>localPeer := Some (ep_id l), ep_clusters := ep_clusters e\<rparr> \<and>
       (has_attr c a remote \<longrightarrow> has_attr c a e) \<and> (endpoint_wf remote \<longrightarrow> endpoint_wf e) \<and>
       (c \<in> set (inclusterList (simpleDescriptor remote)) \<and> clusLib c = Some els \<and> (b, t) \<in> set els \<and> dtLib t \<noteq> None \<longrightarrow>
          has_attr c b e))) \<and>
   ((\<forall>x \<in> set lcls. \<not> (profileId (simpleDescriptor remote) = profileId (simpleDescriptor x) \<and> clusters_match x remote)) \<longrightarrow>
     aps_newpeer_handle libs lcls remote =
       (-1, None, remote\<lparr>localPeer :=
          (case filter (\<lambda>x. profileId (simpleDescriptor remote) = profileId (simpleDescriptor x)) lcls of
             [] \<Rightarrow> localPeer remote | cs \<Rightarrow> Some (ep_id (last cs)))\<rparr>))"
proof (intro conjI impI; (elim conjE)?)
  assume lcls: "lcls = xs @ l # ys"
    "\<forall>x \<in> set xs. \<not> (profileId (simpleDescriptor remote) = profileId (simpleDescriptor x) \<and> clusters_match x remote)"
    "profileId (simpleDescriptor remote) = profileId (simpleDescriptor l)" "clusters_match l remote"
    "libs (ep_id l) = (fresh, clusLib, dtLib)"
  let ?r = "remote\<lparr>localPeer := Some (ep_id l)\<rparr>"
  let ?e = "fold (add_cluster fresh clusLib dtLib) (inclusterList (simpleDescriptor remote)) ?r"
  have m: "clusters_match y (remote\<lparr>localPeer := p\<rparr>) = clusters_match y remote" for y p
    by (simp add: clusters_match_def)
  have "aps_newpeer_handle libs lcls remote = (0, Some (ep_id l), ?e)"
    using lcls by (simp add: newpeer_skip [OF lcls(2)] m establish_profile_def)
  moreover have "has_attr c a ?r = has_attr c a remote" and "endpoint_wf ?r = endpoint_wf remote"
    by (simp_all add: has_attr_def endpoint_wf_def)
  moreover note add_clusters_effect [of c a ?r fresh clusLib dtLib "inclusterList (simpleDescriptor remote)" els b t]
  ultimately show "\<exists>e. aps_newpeer_handle libs lcls remote = (0, Some (ep_id l), e) \<and>
       e = remote\<lparr>localPeer := Some (ep_id l), ep_clusters := ep_clusters e\<rparr> \<and>
       (has_attr c a remote \<longrightarrow> has_attr c a e) \<and> (endpoint_wf remote \<longrightarrow> endpoint_wf e) \<and>
       (c \<in> set (inclusterList (simpleDescriptor remote)) \<and> clusLib c = Some els \<and> (b, t) \<in> set els \<and> dtLib t \<noteq> None \<longrightarrow>
          has_attr c b e)"
    by (intro exI [of _ ?e]) simp
next
  assume "\<forall>x \<in> set lcls. \<not> (profileId (simpleDescriptor remote) = profileId (simpleDescriptor x) \<and> clusters_match x remote)"
  from newpeer_skip [OF this, of libs "[]"] show "aps_newpeer_handle libs lcls remote =
       (-1, None, remote\<lparr>localPeer :=
          (case filter (\<lambda>x. profileId (simpleDescriptor remote) = profileId (simpleDescriptor x)) lcls of
             [] \<Rightarrow> localPeer remote | cs \<Rightarrow> Some (ep_id (last cs)))\<rparr>)"
    by simp
qed

section \<open>Witnesses\<close>

definition lamp_descriptor :: SimpleDescriptor where
  "lamp_descriptor = \<lparr>outclusterList = [0x19], inclusterList = [0, 6], endpointAddr = 11, profileId = 0x104, sd_deviceId = 0x100, deviceVersion = 1\<rparr>"

definition lamp :: Endpoint where
  "lamp = (new_Endpoint 11)\<lparr>simpleDescriptor := lamp_descriptor\<rparr>"

definition switch_app :: Endpoint where
  "switch_app = (new_Endpoint 1)\<lparr>simpleDescriptor := lamp_descriptor\<lparr>outclusterList := [6], inclusterList := []\<rparr>\<rparr>"

definition other_app :: Endpoint where
  "other_app = (new_Endpoint 2)\<lparr>simpleDescriptor := lamp_descriptor\<lparr>outclusterList := [8]\<rparr>\<rparr>"

definition zcl_lib :: profile_lib where
  "zcl_lib = (\<lambda>n. replicate n 0, \<lambda>c. if c = 6 then Some [(0, ''bool'')] else None, \<lambda>t. if t = ''bool'' then Some (0x10, 1) else None)"

theorem find_or_create_by_id_witness:
  "let (k, d') = assocs64 0x1122334455667788 \<lparr>dev_id = 0, ieee_id = 1, dev_capability = 0, nodeDescriptor = node_descriptor_0,
       dev_endpoints = [], dev_active = 0, dev_assocs = [new_Device 0x7788]\<rparr> in
     k = 0 \<and> dev_assocs d' = [new_Device 0x7788, new_Device 0x7788] \<and> \<not> assocExist64 0x1122334455667788 d'"
  using find_or_create_by_id [THEN conjunct2, THEN conjunct2, THEN conjunct2, THEN conjunct2, of "0x1122334455667788"
      "\<lparr>dev_id = 0, ieee_id = 1, dev_capability = 0, nodeDescriptor = node_descriptor_0,
       dev_endpoints = [], dev_active = 0, dev_assocs = [new_Device 0x7788]\<rparr>"]
  by (simp add: assocExist64_def new_Device_def split: prod.splits)

theorem newEndpoint_ids_witness:
  "newEndpoint 2 [new_Endpoint 1] = (0, [new_Endpoint 2, new_Endpoint 1]) \<and>
   newEndpoint 1 [new_Endpoint 1] = (0, [new_Endpoint 2, new_Endpoint 1]) \<and>
   newEndpoint 7 (map (\<lambda>n. new_Endpoint (of_nat n)) [0..<242]) = endpoints 241 (map (\<lambda>n. new_Endpoint (of_nat n)) [0..<242])"
proof (intro conjI)
  show "newEndpoint 2 [new_Endpoint 1] = (0, [new_Endpoint 2, new_Endpoint 1])"
    using newEndpoint_ids [of 2 "[new_Endpoint 1]" 2] by (simp add: endpointExist_def new_Endpoint_def)
  show "newEndpoint 1 [new_Endpoint 1] = (0, [new_Endpoint 2, new_Endpoint 1])"
  proof -
    have "endpointExist (of_nat k) [new_Endpoint 1]" if "1 \<le> k \<and> k < 2" for k
    proof -
      from that have "k = 1" by linarith
      then show ?thesis by (simp add: endpointExist_def new_Endpoint_def)
    qed
    then have "\<forall>k. 1 \<le> k \<and> k < 2 \<longrightarrow> endpointExist (of_nat k) [new_Endpoint 1]" by blast
    moreover have "endpointExist 1 [new_Endpoint 1]" and "\<not> endpointExist (of_nat 2) [new_Endpoint 1]"
      by (simp_all add: endpointExist_def new_Endpoint_def)
    ultimately have "newEndpoint 1 [new_Endpoint 1] = (0, new_Endpoint (of_nat 2) # [new_Endpoint 1])"
      by (intro newEndpoint_ids [THEN conjunct2, THEN conjunct1, rule_format]) auto
    then show ?thesis by simp
  qed
  let ?es = "map (\<lambda>n. new_Endpoint (of_nat n)) [0..<242]"
  have all: "endpointExist (of_nat k) ?es" if "k < 242" for k
    using that by (force simp: endpointExist_iff new_Endpoint_def)
  from all [of 7] all show "newEndpoint 7 ?es = endpoints 241 ?es"
    using newEndpoint_ids [of 7 ?es 1, THEN conjunct2, THEN conjunct2] by simp
qed

theorem nodeSnapshot_Endpoint_reports_witness:
  "\<exists>j e'. nodeSnapshot_Endpoint (replicate 16 0) lamp = Inr (j, e') \<and>
     json_get ''outClusterCount'' (snapshot_simple_descriptor lamp_descriptor) = Some (JStr (IntToHexStr (2 :: byte)))"
  using nodeSnapshot_Endpoint_reports [of "replicate 16 0" lamp]
  by (fastforce simp: values_ok_def lamp_def new_Endpoint_def lamp_descriptor_def)

theorem newpeer_pairs_witness:
  "(\<exists>e. aps_newpeer_handle (\<lambda>_. zcl_lib) [other_app, switch_app] lamp = (0, Some 1, e) \<and> has_attr 6 0 e) \<and>
   aps_newpeer_handle (\<lambda>_. zcl_lib) [other_app] lamp = (-1, None, lamp\<lparr>localPeer := Some 2\<rparr>)"
proof
  note d = lamp_def switch_app_def other_app_def lamp_descriptor_def new_Endpoint_def clusters_match_def
  show "\<exists>e. aps_newpeer_handle (\<lambda>_. zcl_lib) [other_app, switch_app] lamp = (0, Some 1, e) \<and> has_attr 6 0 e"
    using newpeer_pairs [THEN conjunct1, of "[other_app, switch_app]" "[other_app]" switch_app "[]" lamp "\<lambda>_. zcl_lib"
        "fst zcl_lib" "fst (snd zcl_lib)" "snd (snd zcl_lib)" 6 0 "[(0, ''bool'')]" 0 "''bool''"]
    by (auto simp: d zcl_lib_def)
  show "aps_newpeer_handle (\<lambda>_. zcl_lib) [other_app] lamp = (-1, None, lamp\<lparr>localPeer := Some 2\<rparr>)"
    using newpeer_pairs [THEN conjunct2, of "[other_app]" lamp "\<lambda>_. zcl_lib"]
    by (simp add: d)
qed

end
