(* ===== verification/DataService.thy ===== *)
theory DataService
  imports AfMessage ObjectModel
begin

text \<open>
  The data service (aps/include/aps_data_service_impl.hpp and, with the same text for extended
  messages, aps_data_service_ext_impl.hpp): requests register a predicate and a callback in a
  \<^verbatim>\<open>forward_list\<close>, wait, and remove them again; each received message is offered to the list.
  The list is modelled with the addresses of its nodes, because a \<^verbatim>\<open>TxHandle\<close> keeps an iterator
  and \<^verbatim>\<open>remove\<close> swaps the contents of nodes.  The operations run under \<^verbatim>\<open>buffer__Mutex\<close>, one
  after the other.
\<close>

section \<open>State\<close>

text \<open>\<^verbatim>\<open>MsgRcvr_\<close>: predicate, callback (by number) and the flags of \<^verbatim>\<open>SyncInfo\<close>.\<close>

record 'm receiver =
  pred :: "'m \<Rightarrow> bool"
  callback :: nat
  sync :: bool
  rdy :: bool

record 'm handlers =
  buffer :: "(nat \<times> 'm receiver) list"
  fresh :: nat

definition handlers_wf :: "'m handlers \<Rightarrow> bool" where
  "handlers_wf s \<longleftrightarrow> distinct (map fst (buffer s)) \<and> (\<forall>a \<in> fst ` set (buffer s). a < fresh s)"

definition no_handlers :: "'m handlers" where
  "no_handlers = \<lparr>buffer = [], fresh = 0\<rparr>"

section \<open>Operations\<close>

text \<open>\<^verbatim>\<open>emplace_after(before_begin(), ...)\<close>: the new node goes to the front; its address is the handle.\<close>

definition registerHandlers :: "('m \<Rightarrow> bool) \<Rightarrow> nat \<Rightarrow> 'm handlers \<Rightarrow> nat \<times> 'm handlers" where
  "registerHandlers p cb s =
     (fresh s, s\<lparr>buffer := (fresh s, \<lparr>pred = p, callback = cb, sync = False, rdy = False\<rparr>) # buffer s,
                 fresh := fresh s + 1\<rparr>)"

text \<open>Access through an iterator.\<close>

definition update_at :: "nat \<Rightarrow> ('m receiver \<Rightarrow> 'm receiver) \<Rightarrow> 'm handlers \<Rightarrow> ub + 'm handlers" where
  "update_at a f s =
     (if a \<in> fst ` set (buffer s)
      then Inr (s\<lparr>buffer := map (\<lambda>(b, r). (b, if b = a then f r else r)) (buffer s)\<rparr>)
      else Inl Dangling)"

definition arm :: "nat \<Rightarrow> 'm handlers \<Rightarrow> ub + 'm handlers" where
  "arm h s = update_at h (\<lambda>r. r\<lparr>sync := True, rdy := False\<rparr>) s"

text \<open>
  \<^verbatim>\<open>wait_for\<close>: not armed (or already served) it returns at once; otherwise it waits for \<^verbatim>\<open>rdy\<close>.
  The result says whether it has to wait.
\<close>

definition wait_for :: "nat \<Rightarrow> 'm handlers \<Rightarrow> ub + bool" where
  "wait_for h s =
     (case map_of (buffer s) h of None \<Rightarrow> Inl Dangling | Some r \<Rightarrow> Inr (sync r \<and> \<not> rdy r))"

definition disarm :: "'m receiver \<Rightarrow> 'm receiver" where
  "disarm r = (if \<not> sync r then r else r\<lparr>sync := False, rdy := True\<rparr>)"

text \<open>\<^verbatim>\<open>swap(*it, front()); pop_front()\<close>.\<close>

definition remove_handler :: "nat \<Rightarrow> 'm handlers \<Rightarrow> ub + 'm handlers" where
  "remove_handler h s =
     (case buffer s of
        [] \<Rightarrow> Inl Dangling
      | (front, r) # rest \<Rightarrow>
          if h = front then Inr (s\<lparr>buffer := rest\<rparr>)
          else if h \<in> fst ` set rest
          then Inr (s\<lparr>buffer := map (\<lambda>(b, q). (b, if b = h then r else q)) rest\<rparr>)
          else Inl Dangling)"

fun indicate_loop :: "'m \<Rightarrow> (nat \<times> 'm receiver) list \<Rightarrow> nat option \<times> (nat \<times> 'm receiver) list" where
  "indicate_loop msg [] = (None, [])"
| "indicate_loop msg ((a, r) # rest) =
     (if pred r msg then (Some (callback r), (a, disarm r) # rest)
      else (case indicate_loop msg rest of (c, rest') \<Rightarrow> (c, (a, r) # rest')))"

definition indicate :: "'m \<Rightarrow> 'm handlers \<Rightarrow> nat option \<times> 'm handlers" where
  "indicate msg s = (case indicate_loop msg (buffer s) of (c, b) \<Rightarrow> (c, s\<lparr>buffer := b\<rparr>))"

text \<open>
  \<^verbatim>\<open>apsMessageIndicate\<close>: \<open>handled\<close> are the local endpoints with a \<^verbatim>\<open>messageHandler\<close>, \<open>es\<close> the local
  endpoints.  \<^verbatim>\<open>endpointPtr\<close> never returns NULL: it creates the endpoint, without a handler.
\<close>

datatype delivery = ToCallback nat | ToEndpoint byte | Dropped

definition apsMessageIndicate ::
    "(byte \<Rightarrow> bool) \<Rightarrow> AFMessage \<Rightarrow> AFMessage handlers \<Rightarrow> Endpoint list \<Rightarrow> delivery \<times> AFMessage handlers \<times> Endpoint list" where
  "apsMessageIndicate handled message s es =
     (case indicate message s of
        (Some c, s') \<Rightarrow> (ToCallback c, s', es)
      | (None, s') \<Rightarrow>
          (let i = dstEndpoint message in
           (if endpointExist i es \<and> handled i then ToEndpoint i else Dropped, s', snd (endpoints i es))))"

text \<open>
  \<^verbatim>\<open>request\<close> registers, arms, sends, waits until it is served or timed out, and removes.  What
  happens meanwhile is a list of activities: messages arriving, and requests of other threads that
  begin and end within the wait.  The result lists the callbacks that were run.
\<close>

datatype 'm activity = Arrive 'm | Request "'m \<Rightarrow> bool" nat "'m activity list"

fun activity_run :: "'m activity \<Rightarrow> 'm handlers \<Rightarrow> ub + (nat option list \<times> 'm handlers)"
  and activities_run :: "'m activity list \<Rightarrow> 'm handlers \<Rightarrow> ub + (nat option list \<times> 'm handlers)" where
  "activity_run (Arrive m) s = (case indicate m s of (c, s') \<Rightarrow> Inr ([c], s'))"
| "activity_run (Request p cb meanwhile) s =
     (case registerHandlers p cb s of (h, s1) \<Rightarrow>
        bindE (arm h s1) (\<lambda>s2.
        bindE (activities_run meanwhile s2) (\<lambda>(cs, s3).
        bindE (wait_for h s3) (\<lambda>_.
        bindE (remove_handler h s3) (\<lambda>s4. Inr (cs, s4))))))"
| "activities_run [] s = Inr ([], s)"
| "activities_run (a # as) s =
     bindE (activity_run a s) (\<lambda>(cs, s').
     bindE (activities_run as s') (\<lambda>(ds, s''). Inr (cs @ ds, s'')))"

text \<open>The extended service is the same code at the type of extended messages.\<close>

definition registerHandlers_EXT :: "(AFMessage_EXT \<Rightarrow> bool) \<Rightarrow> nat \<Rightarrow> AFMessage_EXT handlers \<Rightarrow> nat \<times> AFMessage_EXT handlers" where
  "registerHandlers_EXT = registerHandlers"

definition remove_handler_EXT :: "nat \<Rightarrow> AFMessage_EXT handlers \<Rightarrow> ub + AFMessage_EXT handlers" where
  "remove_handler_EXT = remove_handler"

definition activity_run_EXT ::
    "AFMessage_EXT activity \<Rightarrow> AFMessage_EXT handlers \<Rightarrow> ub + (nat option list \<times> AFMessage_EXT handlers)" where
  "activity_run_EXT = activity_run"

definition indicate_EXT :: "AFMessage_EXT \<Rightarrow> AFMessage_EXT handlers \<Rightarrow> nat option \<times> AFMessage_EXT handlers" where
  "indicate_EXT = indicate"

text \<open>Its \<^verbatim>\<open>apsMessageIndicate\<close> looks the endpoint up, which may create it, and does nothing with it.\<close>

definition apsMessageIndicate_EXT ::
    "AFMessage_EXT \<Rightarrow> AFMessage_EXT handlers \<Rightarrow> Endpoint list \<Rightarrow> delivery \<times> AFMessage_EXT handlers \<times> Endpoint list" where
  "apsMessageIndicate_EXT message s es =
     (case indicate_EXT message s of
        (Some c, s') \<Rightarrow> (ToCallback c, s', es)
      | (None, s') \<Rightarrow> (Dropped, s', snd (endpoints (x_dstEndpoint message) es)))"

section \<open>Lemmas\<close>

text \<open>The registrations of a buffer, without the flags.\<close>

definition registered :: "'m handlers \<Rightarrow> (nat \<times> ('m \<Rightarrow> bool) \<times> nat) list" where
  "registered s = map (\<lambda>(a, r). (a, pred r, callback r)) (buffer s)"

lemma addresses_registered: "map fst (buffer s) = map fst (registered s)"
  by (simp add: registered_def comp_def case_prod_unfold)

lemma disarm_same [simp]: "pred (disarm r) = pred r" "callback (disarm r) = callback r"
  by (simp_all add: disarm_def)

lemma indicate_loop_same:
  "map (\<lambda>(a, r). (a, pred r, callback r)) (snd (indicate_loop m b)) = map (\<lambda>(a, r). (a, pred r, callback r)) b"
  by (induction m b rule: indicate_loop.induct) (auto split: prod.splits)

lemma indicate_same [simp]:
  "registered (snd (indicate m s)) = registered s" "fresh (snd (indicate m s)) = fresh s"
  using indicate_loop_same [of m "buffer s"]
  by (cases "indicate_loop m (buffer s)"; simp add: indicate_def registered_def)+

lemma wf_registered:
  "registered s = registered t \<Longrightarrow> fresh t \<le> fresh s \<Longrightarrow> handlers_wf t \<Longrightarrow> handlers_wf s"
  using addresses_registered [of s] addresses_registered [of t]
  by (fastforce simp: handlers_wf_def simp flip: set_map)

lemma indicate_loop_none: "\<forall>x \<in> set b. \<not> pred (snd x) m \<Longrightarrow> indicate_loop m b = (None, b)"
  by (induction m b rule: indicate_loop.induct) auto

lemma indicate_loop_first:
  "\<forall>x \<in> set b. \<not> pred (snd x) m \<Longrightarrow> pred r m \<Longrightarrow>
   indicate_loop m (b @ (a, r) # c) = (Some (callback r), b @ (a, disarm r) # c)"
  by (induction m b rule: indicate_loop.induct) auto

lemma arm_registered:
  "arm h s = Inr t \<Longrightarrow> registered t = registered s \<and> fresh t = fresh s"
  by (auto simp: arm_def update_at_def registered_def split: if_splits)

text \<open>A request that is the last one registered finds its node at the front, and takes it away.\<close>

lemma remove_front:
  assumes "registered t = (h, p, cb) # registered s"
  shows "\<exists>u. remove_handler h t = Inr u \<and> registered u = registered s \<and> fresh u = fresh t \<and> (\<exists>w. wait_for h t = Inr w)"
proof -
  from assms obtain r b where "buffer t = (h, r) # b" and "map (\<lambda>(a, r). (a, pred r, callback r)) b = registered s"
    by (cases "buffer t") (auto simp: registered_def)
  then show ?thesis
    by (auto simp: remove_handler_def wait_for_def registered_def)
qed

lemma request_opened:
  assumes "registerHandlers p cb s = (h, s1)"
  shows "\<exists>s2. arm h s1 = Inr s2 \<and> registered s2 = (h, p, cb) # registered s \<and> fresh s2 = Suc (fresh s) \<and> h = fresh s"
  using assms by (auto simp: registerHandlers_def arm_def update_at_def registered_def)

lemma activities_restore:
  fixes a :: "'m activity" and as :: "'m activity list"
  shows "\<exists>cs t. activity_run a s = Inr (cs, t) \<and> registered t = registered s \<and> fresh s \<le> fresh t"
    and "\<exists>cs t. activities_run as s = Inr (cs, t) \<and> registered t = registered s \<and> fresh s \<le> fresh t"
proof (induction a s and as s rule: activity_run_activities_run.induct)
  case (1 m s)
  show ?case
    using indicate_same [of m s] by (cases "indicate m s") simp
next
  case (2 p cb meanwhile s)
  obtain h s1 where reg: "registerHandlers p cb s = (h, s1)" by fastforce
  then obtain s2 where s2: "arm h s1 = Inr s2" "registered s2 = (h, p, cb) # registered s" "fresh s2 = Suc (fresh s)"
    using request_opened by blast
  with 2 reg obtain cs s3 where s3: "activities_run meanwhile s2 = Inr (cs, s3)"
      "registered s3 = registered s2" "fresh s2 \<le> fresh s3" by metis
  obtain u w where "remove_handler h s3 = Inr u" "registered u = registered s" "fresh u = fresh s3" "wait_for h s3 = Inr w"
    using remove_front [of s3 h p cb s] s2 s3 by auto
  with reg s2 s3 show ?case by simp
next
  case (3 s)
  then show ?case by simp
next
  case (4 a as s)
  then obtain cs t where t: "activity_run a s = Inr (cs, t)" "registered t = registered s" "fresh s \<le> fresh t"
    by blast
  with 4 obtain ds u where "activities_run as t = Inr (ds, u)" "registered u = registered t" "fresh t \<le> fresh u"
    by blast
  with t show ?case by auto
qed

lemma remove_not_front:
  assumes "handlers_wf s" and "buffer s = (front, r) # rest" and "h \<in> fst ` set rest"
  shows "\<exists>t. remove_handler h s = Inr t \<and> (h, r) \<in> set (buffer t) \<and> front \<notin> fst ` set (buffer t) \<and>
           map fst (buffer t) = map fst rest"
proof -
  from assms have "h \<noteq> front" and "front \<notin> fst ` set rest"
    by (auto simp: handlers_wf_def image_def)
  with assms show ?thesis
    by (force simp: remove_handler_def comp_def case_prod_unfold image_def)
qed

lemma gone_dangles:
  assumes "a \<notin> fst ` set (buffer t)"
  shows "arm a t = Inl Dangling" and "wait_for a t = Inl Dangling" and "remove_handler a t = Inl Dangling"
proof -
  from assms show "arm a t = Inl Dangling" by (simp add: arm_def update_at_def)
  from assms have "map_of (buffer t) a = None" by (simp add: map_of_eq_None_iff)
  then show "wait_for a t = Inl Dangling" by (simp add: wait_for_def)
  from assms show "remove_handler a t = Inl Dangling"
    by (auto simp: remove_handler_def split: list.splits)
qed

lemma snd_endpoints: "snd (endpoints i es) = (if i \<in> ep_id ` set es then es else new_Endpoint i # es)"
  by (auto simp: endpoints_def find_if_def find_if_loop_None split: option.split dest!: find_if_loop_Some)

lemma indicated_none:
  "\<forall>x \<in> set (buffer s). \<not> pred (snd x) msg \<Longrightarrow>
   apsMessageIndicate handled msg s es =
     (let i = dstEndpoint msg; known = i \<in> ep_id ` set es in
      (if known \<and> handled i then ToEndpoint i else Dropped, s, if known then es else new_Endpoint i # es))"
  by (simp add: apsMessageIndicate_def indicate_def indicate_loop_none snd_endpoints endpointExist_iff Let_def)

section \<open>Properties\<close>


text \<open>
  C21: Requests that nest (each one that begins during another one's wait also ends in it) never
  touch a dead node, whatever messages arrive, and leave exactly the registrations that were there
  before; the next registration again gets a node of its own.
\<close>

theorem requests_nested_restore:
  assumes "handlers_wf s"
  shows "\<exists>cs t. activity_run a s = Inr (cs, t) \<and> registered t = registered s \<and> handlers_wf t"
  using activities_restore(1) [of a s] wf_registered [of _ s] assms by blast

text \<open>
  Requests that do not nest break the list.  When a request other than the most recent one is
  removed, \<^verbatim>\<open>swap\<close> moves the most recent registration into its node and the node of the most recent
  registration is freed: the handle of that request is dangling from then on, so that its own wait
  and its own removal are undefined behaviour, and its registration stays behind.  The extended
  service has the same fault.
\<close>

theorem remove_out_of_order:
  assumes "handlers_wf s" and "buffer s = (front, r) # rest" and "h \<in> fst ` set rest"
  shows "\<exists>t. remove_handler h s = Inr t \<and> (h, r) \<in> set (buffer t) \<and>
           wait_for front t = Inl Dangling \<and> remove_handler front t = Inl Dangling"
  using remove_not_front [OF assms] gone_dangles by blast

section \<open>Witnesses\<close>

definition two_requests :: "nat handlers" where
  "two_requests = snd (registerHandlers (\<lambda>m. m = 7) 1 (snd (registerHandlers (\<lambda>m. m < 10) 0 no_handlers)))"

lemma two_requests_buffer:
  "buffer two_requests =
     [(1, \<lparr>pred = \<lambda>m. m = 7, callback = 1, sync = False, rdy = False\<rparr>),
      (0, \<lparr>pred = \<lambda>m. m < 10, callback = 0, sync = False, rdy = False\<rparr>)]"
  by (simp add: two_requests_def registerHandlers_def no_handlers_def)

lemma two_requests_wf: "handlers_wf two_requests"
  by (simp add: handlers_wf_def two_requests_def registerHandlers_def no_handlers_def)

definition report_receiver :: "AFMessage receiver" where
  "report_receiver = \<lparr>pred = \<lambda>m. dstEndpoint m = 5, callback = 4, sync = True, rdy = False\<rparr>"

definition other_receiver :: "AFMessage receiver" where
  "other_receiver = \<lparr>pred = \<lambda>m. dstEndpoint m = 6, callback = 3, sync = True, rdy = False\<rparr>"

definition report :: AFMessage where
  "report = kr_afmessage [0, 0, 5, 1, 6, 0, 1, 0, 30, 0]"


theorem requests_nested_restore_witness:
  "\<exists>cs t. activity_run (Request (\<lambda>m. m = 9) 2 [Arrive 9, Request (\<lambda>m. m = 7) 3 [Arrive 7], Arrive 8]) two_requests = Inr (cs, t) \<and>
     registered t = registered two_requests \<and> handlers_wf t"
  by (rule requests_nested_restore [OF two_requests_wf])

theorem remove_out_of_order_witness:
  "\<exists>t. remove_handler 0 two_requests = Inr t \<and>
     (0, \<lparr>pred = \<lambda>m. m = 7, callback = 1, sync = False, rdy = False\<rparr>) \<in> set (buffer t) \<and>
     wait_for 1 t = Inl Dangling \<and> remove_handler 1 t = Inl Dangling"
  by (rule remove_out_of_order [OF two_requests_wf two_requests_buffer]) simp

end
