(* ===== verification/Bootload.thy ===== *)
theory Bootload
  imports MtProc
begin

text \<open>
  The serial boot loader client of sbl/source/serial_bootload.cpp: checking an image file, the
  handshake, and writing the image to the flash memory of the coprocessor in chunks of 64 bytes,
  each of which is read back.  The coprocessor is not part of the program: \<open>boot_link\<close> is what
  \<^verbatim>\<open>mtSend\<close> returns for a request in a given state of it, \<open>None\<close> when no answer came (a negative
  result, which leaves the response buffer alone).
\<close>

section \<open>The image and its checksum\<close>

definition HAL_SB_IMG_SIZE :: nat where "HAL_SB_IMG_SIZE = 0x40000 - 0x2000 - 0x3000 - 0x0800"
definition HAL_SB_IMG_ADDR :: nat where "HAL_SB_IMG_ADDR = 0x2000"
definition HAL_SB_CRC_ADDR :: nat where "HAL_SB_CRC_ADDR = 0x2090"

definition runPoly_bit :: "u16 \<Rightarrow> bool \<Rightarrow> u16" where
  "runPoly_bit crc b =
     (let msb = bit crc 15;
          crc = push_bit 1 crc;
          crc = (if b then crc OR 0x0001 else crc)
      in if msb then crc XOR 0x1021 else crc)"

fun runPoly_loop :: "nat \<Rightarrow> u16 \<Rightarrow> byte \<Rightarrow> u16" where
  "runPoly_loop 0 crc val = crc"
| "runPoly_loop (Suc cnt) crc val = runPoly_loop cnt (runPoly_bit crc (val AND 0x80 \<noteq> 0)) (push_bit 1 val)"

definition runPoly :: "u16 \<Rightarrow> byte \<Rightarrow> u16" where
  "runPoly crc val = runPoly_loop 8 crc val"

function calcCRC_loop :: "byte list \<Rightarrow> nat \<Rightarrow> u16 \<Rightarrow> u16" where
  "calcCRC_loop firmwareBuffer addr crc =
     (if addr < HAL_SB_IMG_SIZE
      then if addr = HAL_SB_CRC_ADDR - HAL_SB_IMG_ADDR
           then calcCRC_loop firmwareBuffer (addr + 3 + 1) crc
           else calcCRC_loop firmwareBuffer (addr + 1) (runPoly crc (firmwareBuffer ! addr))
      else crc)"
  by pat_completeness auto
termination by (relation "measure (\<lambda>(f, addr, c). HAL_SB_IMG_SIZE - addr)") auto

declare calcCRC_loop.simps [simp del]

definition calcCRC :: "byte list \<Rightarrow> u16" where
  "calcCRC firmwareBuffer = runPoly (runPoly (calcCRC_loop firmwareBuffer 0 0) 0) 0"

text \<open>\<open>file\<close> is \<open>None\<close> when the file cannot be opened; \<^verbatim>\<open>read\<close> takes at most the size of the buffer.\<close>

definition sb_image_check :: "byte list option \<Rightarrow> int" where
  "sb_image_check file =
     (case file of
        None \<Rightarrow> -1
      | Some f \<Rightarrow>
          let firmwareBuffer = take HAL_SB_IMG_SIZE f in
          if length firmwareBuffer \<noteq> HAL_SB_IMG_SIZE then -1
          else let crc = le_word (slice (HAL_SB_CRC_ADDR - HAL_SB_IMG_ADDR) 2 firmwareBuffer) :: u16
               in if crc = 0xFFFF \<or> crc = 0x0000 \<or> crc \<noteq> calcCRC firmwareBuffer then -1 else 0)"

section \<open>The link to the boot loader\<close>

text \<open>State of the coprocessor, request, and awaited command id.\<close>

type_synonym 'd boot_link = "'d \<Rightarrow> mtMessage \<Rightarrow> byte \<Rightarrow> mtMessage option \<times> 'd"

definition SB_RPC_SYS_BOOT :: byte where "SB_RPC_SYS_BOOT = 0x4D"
definition SB_WRITE_CMD :: byte where "SB_WRITE_CMD = 0x01"
definition SB_READ_CMD :: byte where "SB_READ_CMD = 0x02"
definition SB_HANDSHAKE_CMD :: byte where "SB_HANDSHAKE_CMD = 0x04"
definition SB_WRITE_RSP :: byte where "SB_WRITE_RSP = 0x81"
definition SB_READ_RSP :: byte where "SB_READ_RSP = 0x82"
definition SB_HANDSHAKE_RSP :: byte where "SB_HANDSHAKE_RSP = 0x84"
definition SB_SUCCESS :: byte where "SB_SUCCESS = 0"
definition SB_RW_BUF_LEN :: nat where "SB_RW_BUF_LEN = 64"

lemmas sb_consts = SB_RPC_SYS_BOOT_def SB_WRITE_CMD_def SB_READ_CMD_def SB_HANDSHAKE_CMD_def
  SB_WRITE_RSP_def SB_READ_RSP_def SB_HANDSHAKE_RSP_def SB_SUCCESS_def SB_RW_BUF_LEN_def

text \<open>The handshake, and the loop of \<^verbatim>\<open>flashImage\<close> that repeats it until it is answered.\<close>

definition sb_handshake :: "'d boot_link \<Rightarrow> byte list \<Rightarrow> 'd \<Rightarrow> int \<times> 'd" where
  "sb_handshake link junk d =
     (case link d \<lparr>cmdType = SB_RPC_SYS_BOOT, cmdId = SB_HANDSHAKE_CMD, dataLength = 0, pData = junk\<rparr> SB_HANDSHAKE_RSP of
        (None, d') \<Rightarrow> (-1, d')
      | (Some r, d') \<Rightarrow> (0, d'))"

partial_function (option) handshake_loop :: "'d boot_link \<Rightarrow> byte list \<Rightarrow> 'd \<Rightarrow> 'd option" where
  "handshake_loop link junk d =
     (case sb_handshake link junk d of (rtn, d') \<Rightarrow>
        if rtn < 0 then handshake_loop link junk d' else Some d')"

text \<open>\<^verbatim>\<open>sb_callback\<close> keeps a copy of each frame; the previous copy is never freed.\<close>

record sbmessage =
  incoming :: bool
  sb_buffer :: "byte list option"
  leaked :: nat

definition sb_callback :: "byte list \<Rightarrow> sbmessage \<Rightarrow> ub + sbmessage" where
  "sb_callback pBuf msg =
     bindE (rd pBuf 0) (\<lambda>len.
       if unat len + 3 \<le> length pBuf
       then Inr \<lparr>incoming = True, sb_buffer = Some (take (unat len + 3) pBuf),
                 leaked = (case sb_buffer msg of None \<Rightarrow> leaked msg | Some b \<Rightarrow> Suc (leaked msg))\<rparr>
       else Inl OobRead)"

section \<open>Writing the image\<close>

text \<open>The locals of \<^verbatim>\<open>sb_image_write\<close> that outlive a chunk, and the coprocessor behind the link.\<close>

record 'd image_writer =
  wrReq :: mtMessage
  rdReq :: mtMessage
  rdRsp :: mtMessage
  rtnval :: int
  addr :: u16
  flash :: 'd

definition put_addr :: "u16 \<Rightarrow> mtMessage \<Rightarrow> mtMessage" where
  "put_addr a m = m\<lparr>pData := (pData m)[0 := ucast (a AND 0x00FF), 1 := ucast (drop_bit 8 a)]\<rparr>"

text \<open>The innermost write loop: \<open>wrRetry\<close> counts refusals only, not missing answers.\<close>

partial_function (option) write_loop ::
    "'d boot_link \<Rightarrow> byte \<Rightarrow> nat \<Rightarrow> 'd image_writer \<Rightarrow> (byte \<times> 'd image_writer) option" where
  "write_loop link returnStatus wrRetry s =
     (if returnStatus \<noteq> SB_SUCCESS \<and> wrRetry < 3 then
        (let req = put_addr (addr s) (wrReq s) in
         case link (flash s) req SB_WRITE_RSP of
           (None, d') \<Rightarrow> write_loop link returnStatus wrRetry (s\<lparr>wrReq := req, flash := d'\<rparr>)
         | (Some wrRsp, d') \<Rightarrow>
             (let returnStatus = pData wrRsp ! 0 in
              write_loop link returnStatus (if returnStatus \<noteq> SB_SUCCESS then Suc wrRetry else wrRetry)
                (s\<lparr>wrReq := req, flash := d'\<rparr>)))
      else Some (returnStatus, s))"

text \<open>
  The innermost read loop, entered with \<^verbatim>\<open>readbackStatus\<close> -1: it goes round again only when the
  device refuses.  Without an answer the comparison is made with the previous response.
\<close>

definition compare_chunk :: "'d image_writer \<Rightarrow> int \<times> 'd image_writer" where
  "compare_chunk s =
     (if slice 2 SB_RW_BUF_LEN (pData (wrReq s)) \<noteq> slice 3 SB_RW_BUF_LEN (pData (rdRsp s))
      then (-1, s\<lparr>rtnval := -1\<rparr>) else (0, s))"

function read_loop :: "'d boot_link \<Rightarrow> nat \<Rightarrow> 'd image_writer \<Rightarrow> int \<times> 'd image_writer" where
  "read_loop link rdRetry s =
     (if rdRetry < 3 then
        (let req = put_addr (addr s) (rdReq s) in
         case link (flash s) req SB_READ_RSP of
           (None, d') \<Rightarrow> compare_chunk (s\<lparr>rdReq := req, flash := d'\<rparr>)
         | (Some r, d') \<Rightarrow>
             (let s' = s\<lparr>rdReq := req, rdRsp := r, flash := d'\<rparr> in
              if pData r ! 0 \<noteq> SB_SUCCESS then read_loop link (Suc rdRetry) s' else compare_chunk s'))
      else (-1, s))"
  by pat_completeness auto
termination by (relation "measure (\<lambda>(l, n, s). 3 - n)") auto

declare read_loop.simps [simp del]

text \<open>The loop over write and read back of one chunk; \<open>returnStatus\<close> is not reset between its turns.\<close>

function chunk_loop ::
    "'d boot_link \<Rightarrow> nat \<Rightarrow> int \<Rightarrow> byte \<Rightarrow> 'd image_writer \<Rightarrow> (int \<times> 'd image_writer) option" where
  "chunk_loop link rwRetry readbackStatus returnStatus s =
     (if readbackStatus \<noteq> 0 \<and> rwRetry < 3 then
        (case write_loop link returnStatus 0 s of
           None \<Rightarrow> None
         | Some (st, s') \<Rightarrow>
             if st \<noteq> SB_SUCCESS then chunk_loop link (Suc rwRetry) readbackStatus st s'
             else (case read_loop link 0 s' of (rb, s'') \<Rightarrow> chunk_loop link (Suc rwRetry) rb st s''))
      else Some (readbackStatus, s))"
  by pat_completeness auto
termination by (relation "measure (\<lambda>(l, n, rb, st, s). 3 - n)") auto

declare chunk_loop.simps [simp del]

text \<open>
  The loop over the file: \<^verbatim>\<open>read\<close> overwrites the start of the request's data with up to 64 bytes of
  the file.  A chunk that cannot be read back ends the process.
\<close>

datatype write_end = Exited | Returned int

function image_loop :: "'d boot_link \<Rightarrow> byte list \<Rightarrow> 'd image_writer \<Rightarrow> (write_end \<times> 'd) option" where
  "image_loop link file s =
     (if file = [] then Some (Returned (rtnval s), flash s)
      else
        (case chunk_loop link 0 (-1) 0xff
             (s\<lparr>wrReq := (wrReq s)\<lparr>pData := blit (pData (wrReq s)) 2 (take SB_RW_BUF_LEN file)\<rparr>\<rparr>) of
           None \<Rightarrow> None
         | Some (readbackStatus, s') \<Rightarrow>
             if readbackStatus \<noteq> 0 then Some (Exited, flash s')
             else image_loop link (drop SB_RW_BUF_LEN file) (s'\<lparr>addr := addr s' + 16\<rparr>)))"
  by pat_completeness auto
termination
  by (relation "measure (\<lambda>(l, f, s). length f)") (auto simp: SB_RW_BUF_LEN_def)

declare image_loop.simps [simp del]

text \<open>\<open>stack\<close> holds the uninitialised data of the three messages.\<close>

definition sb_image_write ::
    "'d boot_link \<Rightarrow> byte list \<times> byte list \<times> byte list \<Rightarrow> byte list option \<Rightarrow> 'd \<Rightarrow> (write_end \<times> 'd) option" where
  "sb_image_write link stack file d =
     (case file of
        None \<Rightarrow> Some (Returned (-1), d)
      | Some f \<Rightarrow>
          image_loop link f
            \<lparr>wrReq = \<lparr>cmdType = SB_RPC_SYS_BOOT, cmdId = SB_WRITE_CMD, dataLength = of_nat (SB_RW_BUF_LEN + 2), pData = fst stack\<rparr>,
             rdReq = \<lparr>cmdType = SB_RPC_SYS_BOOT, cmdId = SB_READ_CMD, dataLength = of_nat (SB_RW_BUF_LEN + 3), pData = fst (snd stack)\<rparr>,
             rdRsp = \<lparr>cmdType = 0, cmdId = 0, dataLength = 0, pData = snd (snd stack)\<rparr>,
             rtnval = 0, addr = 0, flash = d\<rparr>)"

text \<open>\<^verbatim>\<open>sb_image_read\<close> compares the whole memory with the file; it is not called.\<close>

function image_read_loop :: "'d boot_link \<Rightarrow> byte list \<Rightarrow> byte list \<Rightarrow> u16 \<Rightarrow> mtMessage \<Rightarrow> mtMessage \<Rightarrow> 'd \<Rightarrow> int \<times> 'd" where
  "image_read_loop link FileBuf file a req rsp d =
     (if file = [] then (0, d)
      else
        (let FileBuf = blit FileBuf 0 (take SB_RW_BUF_LEN file);
             req = put_addr a req;
             (ans, d') = link d req SB_READ_RSP;
             rsp = (case ans of None \<Rightarrow> rsp | Some r \<Rightarrow> r)
         in if take SB_RW_BUF_LEN FileBuf \<noteq> slice 3 SB_RW_BUF_LEN (pData rsp) then (-1, d')
            else image_read_loop link FileBuf (drop SB_RW_BUF_LEN file) (a + 16) req rsp d'))"
  by pat_completeness auto
termination
  by (relation "measure (\<lambda>(l, b, f, a, rq, rs, d). length f)") (auto simp: SB_RW_BUF_LEN_def)

declare image_read_loop.simps [simp del]

definition sb_image_read ::
    "'d boot_link \<Rightarrow> byte list \<times> byte list \<times> byte list \<Rightarrow> byte list option \<Rightarrow> 'd \<Rightarrow> int \<times> 'd" where
  "sb_image_read link stack file d =
     (case file of
        None \<Rightarrow> (-1, d)
      | Some f \<Rightarrow>
          image_read_loop link (fst stack) f 0
            \<lparr>cmdType = SB_RPC_SYS_BOOT, cmdId = SB_READ_CMD, dataLength = of_nat (SB_RW_BUF_LEN + 3), pData = fst (snd stack)\<rparr>
            \<lparr>cmdType = 0, cmdId = 0, dataLength = 0, pData = snd (snd stack)\<rparr> d)"

text \<open>\<open>None\<close> is a call that never returns.\<close>

definition flashImage ::
    "'d boot_link \<Rightarrow> byte list \<times> byte list \<times> byte list \<Rightarrow> mt_handler option list \<Rightarrow> mt_handler \<Rightarrow> byte list option \<Rightarrow> 'd \<Rightarrow>
     ub + (write_end \<times> 'd) option" where
  "flashImage link stack table callback imageFile d =
     bindE (registerSubsystemCb table 0x0d callback) (\<lambda>(rtn, table').
       if rtn < 0 then Inr (Some (Returned (-1), d))
       else if sb_image_check imageFile < 0 then Inr (Some (Exited, d))
       else Inr (case handshake_loop link (fst stack) d of
                   None \<Rightarrow> None
                 | Some d' \<Rightarrow>
                     (case sb_image_write link stack imageFile d' of
                        None \<Rightarrow> None
                      | Some (Exited, d'') \<Rightarrow> Some (Exited, d'')
                      | Some (Returned r, d'') \<Rightarrow> Some (Returned (if r < 0 then -1 else 0), d''))))"

section \<open>Lemmas on the checksum\<close>

lemma bit_runPoly_bit:
  assumes "n < 16"
  shows "bit (runPoly_bit c b) n =
    ((if n = 0 then b else bit c (n - 1)) \<noteq> (bit c 15 \<and> bit (0x1021 :: u16) n))"
proof -
  have "bit (push_bit 1 c) n = (n \<noteq> 0 \<and> bit c (n - 1))"
    using assms by (simp only: bit_push_bit_iff) (auto simp: possible_bit_def)
  moreover have "bit (0x0001 :: u16) n = (n = 0)"
    by (simp add: bit_1_iff)
  ultimately show ?thesis
    unfolding runPoly_bit_def Let_def
    by (cases b; cases "bit c 15"; simp only: if_True if_False bit_xor_iff bit_or_iff; auto)
qed

lemma runPoly_bit_xor: "runPoly_bit (c XOR d) (b \<noteq> e) = runPoly_bit c b XOR runPoly_bit d e"
proof (rule bit_word_eqI)
  fix n assume "n < LENGTH(16)"
  then have "n < 16" by simp
  then show "bit (runPoly_bit (c XOR d) (b \<noteq> e)) n = bit (runPoly_bit c b XOR runPoly_bit d e) n"
    by (simp only: bit_xor_iff bit_runPoly_bit) auto
qed

lemma runPoly_loop_xor:
  "runPoly_loop n (c XOR d) (v XOR w) = runPoly_loop n c v XOR runPoly_loop n d w"
proof (induction n arbitrary: c d v w)
  case 0
  then show ?case by simp
next
  case (Suc n)
  have 1: "((v XOR w) AND 0x80 \<noteq> 0) = ((v AND 0x80 \<noteq> 0) \<noteq> (w AND 0x80 \<noteq> 0))" for v w :: byte
  proof -
    have "(x AND 0x80 \<noteq> 0) = bit x 7" for x :: byte
      using and_exp_eq_0_iff_not_bit [of x 7] by simp
    then show ?thesis by (simp add: bit_xor_iff)
  qed
  have 2: "push_bit 1 (v XOR w) = push_bit 1 v XOR push_bit 1 w" by (rule push_bit_xor)
  show ?case
    by (simp only: runPoly_loop.simps 1 2 runPoly_bit_xor Suc.IH)
qed

lemma runPoly_xor: "runPoly (c XOR d) (v XOR w) = runPoly c v XOR runPoly d w"
  unfolding runPoly_def by (rule runPoly_loop_xor)

text \<open>The checksum step loses nothing: neither a register nor two consecutive bytes.\<close>

lemma bit_byte_high: "bit (v :: byte) n \<Longrightarrow> n < 8"
  using bit_imp_le_length [of v n] by simp

lemma and_0x80: "(v AND 0x80 \<noteq> 0) = bit (v :: byte) 7"
  using and_exp_eq_0_iff_not_bit [of v 7] by simp

lemma runPoly_loop_bits:
  "k \<le> 8 \<Longrightarrow> \<forall>i \<ge> 16 - k. \<not> bit c i \<Longrightarrow> n < 16 \<Longrightarrow>
   bit (runPoly_loop k c v) n = (if n < k then bit v (8 - k + n) else bit c (n - k))"
proof (induction k arbitrary: c v n)
  case 0
  then show ?case by simp
next
  case (Suc k)
  let ?c = "runPoly_bit c (bit v 7)"
  from Suc.prems have c15: "\<not> bit c 15" by simp
  have c: "bit ?c i = (if i = 0 then bit v 7 else bit c (i - 1))" if "i < 16" for i
    using that c15 by (simp add: bit_runPoly_bit)
  have high: "\<forall>i \<ge> 16 - k. \<not> bit ?c i"
  proof (intro allI impI)
    fix i assume i: "16 - k \<le> i"
    show "\<not> bit ?c i"
    proof (cases "i < 16")
      case True
      with i Suc.prems show ?thesis by (auto simp: c)
    next
      case False
      then show ?thesis using bit_imp_le_length [of ?c i] by auto
    qed
  qed
  have v: "bit (push_bit 1 v) i = (0 < i \<and> i < 8 \<and> bit v (i - 1))" for i
    by (simp only: bit_push_bit_iff) (auto simp: possible_bit_def dest: bit_byte_high)
  have "bit (runPoly_loop (Suc k) c v) n = bit (runPoly_loop k ?c (push_bit 1 v)) n"
    by (simp only: runPoly_loop.simps and_0x80)
  also have "\<dots> = (if n < k then bit (push_bit 1 v) (8 - k + n) else bit ?c (n - k))"
    using Suc.IH [OF _ high] Suc.prems by simp
  also have "\<dots> = (if n < Suc k then bit v (8 - Suc k + n) else bit c (n - Suc k))"
    using Suc.prems by (auto simp only: v c) (auto simp: c less_Suc_eq Suc_diff_Suc)
  finally show ?case .
qed

lemma runPoly_small:
  assumes "\<forall>i \<ge> 8. \<not> bit c i" and "n < 16"
  shows "bit (runPoly c v) n = (if n < 8 then bit v n else bit c (n - 8))"
  using runPoly_loop_bits [of 8 c n v] assms by (simp add: runPoly_def)

lemma xor_zero_eq: "(a :: 'a::len word) XOR b = 0 \<Longrightarrow> a = b"
proof (rule bit_word_eqI)
  fix n assume "a XOR b = 0"
  then have "bit (a XOR b) n = False" by simp
  then show "bit a n = bit b n" by (simp only: bit_xor_iff) simp
qed

lemma runPoly_two_zero:
  assumes "runPoly (runPoly 0 v) w = 0"
  shows "v = 0 \<and> w = 0"
proof -
  have 1: "bit (runPoly 0 v) n = (n < 8 \<and> bit v n)" for n
  proof (cases "n < 16")
    case True
    have "\<forall>i \<ge> 8. \<not> bit (0 :: u16) i" by simp
    from runPoly_small [OF this True, of v] show ?thesis by simp
  next
    case False
    then show ?thesis using bit_imp_le_length [of "runPoly 0 v" n] by auto
  qed
  then have high: "\<forall>i \<ge> 8. \<not> bit (runPoly 0 v) i" by simp
  have 2: "(if n < 8 then bit w n else bit v (n - 8)) = False" if n: "n < 16" for n
  proof -
    have "bit (runPoly (runPoly 0 v) w) n = False" by (simp add: assms)
    then show ?thesis
      using runPoly_small [OF high n, of w] 1 [of "n - 8"] n by (simp split: if_splits)
  qed
  have low: "\<not> bit w n \<and> \<not> bit v n" if "n < 8" for n
    using 2 [of n] 2 [of "n + 8"] that by simp
  show ?thesis
  proof
    show "v = 0" by (rule bit_word_eqI) (use low in simp)
    show "w = 0" by (rule bit_word_eqI) (use low in simp)
  qed
qed

lemma runPoly_bit_zero: "runPoly_bit c False = 0 \<Longrightarrow> c = 0"
proof (rule bit_word_eqI)
  fix n assume z: "runPoly_bit c False = 0" and "n < LENGTH(16)"
  then have n: "n < 16" by simp
  have z': "bit (runPoly_bit c False) m = False" for m by (simp add: z)
  have 15: "\<not> bit c 15"
    using z' [of 0] by (simp add: bit_runPoly_bit)
  show "bit c n = bit 0 n"
    using z' [of "Suc n"] 15 n by (cases "n = 15") (simp_all add: bit_runPoly_bit)
qed

lemma runPoly_loop_zero: "runPoly_loop n c 0 = 0 \<Longrightarrow> c = 0"
  by (induction n arbitrary: c) (auto dest: runPoly_bit_zero)

lemma runPoly_inject: "runPoly c v = runPoly d v \<Longrightarrow> c = d"
proof -
  assume eq: "runPoly c v = runPoly d v"
  have "runPoly (c XOR d) (v XOR v) = runPoly d v XOR runPoly d v"
    by (simp only: runPoly_xor eq)
  then have "runPoly_loop 8 (c XOR d) 0 = 0"
    by (simp only: runPoly_def xor_self_eq)
  then have "c XOR d = 0" by (rule runPoly_loop_zero)
  then show ?thesis by (rule xor_zero_eq)
qed

lemma runPoly_two_inject:
  assumes "runPoly (runPoly c v) w = runPoly (runPoly c v') w'"
  shows "v = v' \<and> w = w'"
proof -
  have "runPoly (runPoly c v XOR runPoly c v') (w XOR w') = runPoly (runPoly c v) w XOR runPoly (runPoly c v') w'"
    by (rule runPoly_xor)
  moreover have "runPoly c v XOR runPoly c v' = runPoly (c XOR c) (v XOR v')"
    by (rule runPoly_xor [symmetric])
  ultimately have "runPoly (runPoly 0 (v XOR v')) (w XOR w') = 0"
    using assms by simp
  then have "v XOR v' = 0 \<and> w XOR w' = 0"
    by (rule runPoly_two_zero)
  then show ?thesis using xor_zero_eq by blast
qed

text \<open>The checksum of an image as a function of its bytes outside the checksum field.\<close>

definition checked_pos :: "nat \<Rightarrow> bool" where
  "checked_pos j \<longleftrightarrow> j < HAL_SB_IMG_SIZE \<and> \<not> (0x90 \<le> j \<and> j < 0x94)"

lemma crc_at: "HAL_SB_CRC_ADDR - HAL_SB_IMG_ADDR = 0x90"
  by (simp add: HAL_SB_CRC_ADDR_def HAL_SB_IMG_ADDR_def)

lemma calcCRC_same_tail:
  "a \<le> 0x90 \<or> 0x94 \<le> a \<Longrightarrow> \<forall>j \<ge> a. checked_pos j \<longrightarrow> f ! j = g ! j \<Longrightarrow>
   calcCRC_loop f a c = calcCRC_loop g a d \<longleftrightarrow> c = d"
proof (induction f a c arbitrary: d rule: calcCRC_loop.induct)
  case (1 f a c)
  consider "HAL_SB_IMG_SIZE \<le> a" | "a < HAL_SB_IMG_SIZE" "a = 0x90" | "a < HAL_SB_IMG_SIZE" "a \<noteq> 0x90"
    by linarith
  then show ?case
  proof cases
    case 1
    then show ?thesis by (simp add: calcCRC_loop.simps [of _ a])
  next
    case 2
    with "1.prems" "1.IH"(1) [of d] show ?thesis
      by (simp add: calcCRC_loop.simps [of _ 144] crc_at)
  next
    case 3
    with "1.prems" have "checked_pos a" by (auto simp: checked_pos_def)
    with "1.prems" have "f ! a = g ! a" by simp
    with 3 "1.prems" "1.IH"(2) [of "runPoly d (g ! a)"] show ?thesis
      by (auto simp: calcCRC_loop.simps [of _ a] crc_at dest: runPoly_inject)
  qed
qed

lemma calcCRC_same_head:
  "a \<le> i \<Longrightarrow> a \<le> 0x90 \<or> 0x94 \<le> a \<Longrightarrow> checked_pos i \<Longrightarrow>
   \<forall>j. a \<le> j \<and> j < i \<longrightarrow> checked_pos j \<longrightarrow> f ! j = g ! j \<Longrightarrow>
   \<exists>e. calcCRC_loop f a c = calcCRC_loop f i e \<and> calcCRC_loop g a c = calcCRC_loop g i e"
proof (induction f a c rule: calcCRC_loop.induct)
  case (1 f a c)
  show ?case
  proof (cases "a = i")
    case True
    then show ?thesis by blast
  next
    case False
    with "1.prems" have a: "a < i" "a < HAL_SB_IMG_SIZE" by (auto simp: checked_pos_def)
    show ?thesis
    proof (cases "a = 0x90")
      case True
      with a "1.prems"(3) have "0x94 \<le> i" by (auto simp: checked_pos_def)
      with True a "1.prems" "1.IH"(1) show ?thesis
        by (simp add: calcCRC_loop.simps [of _ 144] crc_at)
    next
      case False
      with a "1.prems" have "checked_pos a" by (auto simp: checked_pos_def)
      with a "1.prems" have "f ! a = g ! a" by blast
      moreover from False "1.prems"(2) have "a < 144 \<or> 147 \<le> a" by auto
      ultimately show ?thesis
        using False a "1.prems" "1.IH"(2) by (simp add: calcCRC_loop.simps [of _ a] crc_at Suc_le_eq)
    qed
  qed
qed

lemma calcCRC_inject_two:
  assumes "checked_pos i" and "f ! i \<noteq> g ! i"
    and other: "\<forall>j. checked_pos j \<longrightarrow> j \<noteq> i \<longrightarrow> j \<noteq> Suc i \<longrightarrow> f ! j = g ! j"
  shows "calcCRC_loop f 0 0 \<noteq> calcCRC_loop g 0 0"
proof
  assume eq: "calcCRC_loop f 0 0 = calcCRC_loop g 0 0"
  obtain e where e: "calcCRC_loop f 0 0 = calcCRC_loop f i e" "calcCRC_loop g 0 0 = calcCRC_loop g i e"
    using calcCRC_same_head [of 0 i f g 0] assms by auto
  from assms(1) have i: "i < HAL_SB_IMG_SIZE" "i \<noteq> 0x90" "i < 0x90 \<or> 0x94 \<le> i" by (auto simp: checked_pos_def)
  then have "calcCRC_loop f (Suc i) (runPoly e (f ! i)) = calcCRC_loop g (Suc i) (runPoly e (g ! i))"
    using eq e by (simp add: calcCRC_loop.simps [of _ i] crc_at)
  then have two: "runPoly (runPoly e (f ! i)) w = runPoly (runPoly e (g ! i)) w'" if "w = f ! Suc i" "w' = g ! Suc i" "checked_pos (Suc i)" for w w'
    using that i other calcCRC_same_tail [of "Suc (Suc i)" f g "runPoly (runPoly e (f ! i)) w" "runPoly (runPoly e (g ! i)) w'"]
    by (auto simp: checked_pos_def calcCRC_loop.simps [of _ "Suc i"] crc_at)
  show False
  proof (cases "checked_pos (Suc i)")
    case True
    from runPoly_two_inject [OF two [OF refl refl True]] assms show ?thesis by simp
  next
    case False
    then have "\<forall>j \<ge> Suc i. checked_pos j \<longrightarrow> f ! j = g ! j"
      using other by (metis Suc_n_not_le_n)
    moreover have "Suc i \<le> 0x90 \<or> 0x94 \<le> Suc i" using i by auto
    ultimately have "runPoly e (f ! i) = runPoly e (g ! i)"
      using calcCRC_same_tail \<open>calcCRC_loop f (Suc i) _ = _\<close> by blast
    then have "runPoly (runPoly e (f ! i)) 0 = runPoly (runPoly e (g ! i)) 0" by simp
    from runPoly_two_inject [OF this] assms show ?thesis by simp
  qed
qed

lemma calcCRC_eq_iff: "calcCRC f = calcCRC g \<longleftrightarrow> calcCRC_loop f 0 0 = calcCRC_loop g 0 0"
  unfolding calcCRC_def by (metis runPoly_inject)

text \<open>The stored checksum.\<close>

definition crc_field :: "byte list \<Rightarrow> u16" where
  "crc_field f = le_word (slice 0x90 2 f)"

lemma crc_field_bytes:
  assumes "0x92 \<le> length f" and "0x92 \<le> length g"
  shows "crc_field f = crc_field g \<longleftrightarrow> f ! 0x90 = g ! 0x90 \<and> f ! 0x91 = g ! 0x91"
proof
  assume "crc_field f = crc_field g"
  then have "le_bytes 2 (crc_field f) = le_bytes 2 (crc_field g)" by simp
  then have "slice 0x90 2 f = slice 0x90 2 g"
    using assms by (simp add: crc_field_def le_bytes_le_word)
  then have "slice 0x90 2 f ! k = slice 0x90 2 g ! k" for k by simp
  from this [of 0] this [of 1] assms show "f ! 0x90 = g ! 0x90 \<and> f ! 0x91 = g ! 0x91"
    by simp
next
  assume "f ! 0x90 = g ! 0x90 \<and> f ! 0x91 = g ! 0x91"
  then have "slice 0x90 2 f = slice 0x90 2 g"
    using assms by (intro nth_equalityI) (auto simp: less_2_cases_iff)
  then show "crc_field f = crc_field g" by (simp add: crc_field_def)
qed

lemma sb_image_check_iff:
  assumes "HAL_SB_IMG_SIZE \<le> length f"
  shows "sb_image_check (Some f) =
    (if crc_field f = 0xFFFF \<or> crc_field f = 0 \<or> crc_field f \<noteq> calcCRC f then -1 else 0)"
proof -
  have "slice 0x90 2 (take HAL_SB_IMG_SIZE f) = slice 0x90 2 f"
    by (simp add: slice_def HAL_SB_IMG_SIZE_def drop_take)
  moreover have "calcCRC (take HAL_SB_IMG_SIZE f) = calcCRC f"
    using calcCRC_same_tail [of 0 "take HAL_SB_IMG_SIZE f" f 0 0] by (simp add: calcCRC_eq_iff checked_pos_def)
  ultimately show ?thesis
    using assms unfolding sb_image_check_def crc_at by (auto simp: crc_field_def min_def Let_def)
qed

section \<open>Lemmas on writing\<close>

definition req_addr :: "mtMessage \<Rightarrow> u16" where
  "req_addr m = le_word (slice 0 2 (pData m))"

definition chunk :: "mtMessage \<Rightarrow> byte list" where
  "chunk m = slice 2 SB_RW_BUF_LEN (pData m)"

lemma put_addr_blit: "2 \<le> length (pData m) \<Longrightarrow> put_addr a m = m\<lparr>pData := blit (pData m) 0 (le_bytes 2 a)\<rparr>"
proof -
  assume "2 \<le> length (pData m)"
  then obtain x y d where d: "pData m = x # y # d"
    by (metis Suc_le_length_iff numeral_2_eq_2)
  have "(0x00FF :: u16) = mask 8" by (simp add: mask_eq_exp_minus_1)
  then have "(ucast (a AND 0x00FF) :: byte) = ucast a"
    by (intro bit_word_eqI) (simp only: bit_ucast_iff bit_and_iff bit_mask_iff, auto)
  then show ?thesis
    by (simp add: put_addr_def d blit_def le_bytes_2)
qed

lemma put_addr_simps [simp]:
  "cmdId (put_addr a m) = cmdId m" "cmdType (put_addr a m) = cmdType m" "dataLength (put_addr a m) = dataLength m"
  "length (pData (put_addr a m)) = length (pData m)"
  by (simp_all add: put_addr_def)

lemma req_addr_put_addr [simp]: "2 \<le> length (pData m) \<Longrightarrow> req_addr (put_addr a m) = a"
  by (simp add: put_addr_blit req_addr_def)

lemma chunk_put_addr [simp]: "66 \<le> length (pData m) \<Longrightarrow> chunk (put_addr a m) = chunk m"
  by (simp add: put_addr_blit chunk_def SB_RW_BUF_LEN_def slice_blit_other)

text \<open>What the coprocessor has to do for the write to be worth anything.\<close>

definition honest_reads :: "'d boot_link \<Rightarrow> ('d \<Rightarrow> u16 \<Rightarrow> byte list) \<Rightarrow> bool" where
  "honest_reads link content \<longleftrightarrow>
     (\<forall>d m. cmdId m = SB_READ_CMD \<longrightarrow>
        (\<exists>r d'. link d m SB_READ_RSP = (Some r, d') \<and> content d' = content d \<and>
           (pData r ! 0 = SB_SUCCESS \<longrightarrow> slice 3 SB_RW_BUF_LEN (pData r) = content d (req_addr m))))"

definition local_writes :: "'d boot_link \<Rightarrow> ('d \<Rightarrow> u16 \<Rightarrow> byte list) \<Rightarrow> bool" where
  "local_writes link content \<longleftrightarrow>
     (\<forall>d m. cmdId m = SB_WRITE_CMD \<longrightarrow>
        (\<exists>r d'. link d m SB_WRITE_RSP = (Some r, d') \<and> (\<forall>a. a \<noteq> req_addr m \<longrightarrow> content d' a = content d a)))"

definition accepts :: "'d boot_link \<Rightarrow> ('d \<Rightarrow> u16 \<Rightarrow> byte list) \<Rightarrow> bool" where
  "accepts link content \<longleftrightarrow>
     (\<forall>d m r d'. link d m SB_WRITE_RSP = (Some r, d') \<longrightarrow> cmdId m = SB_WRITE_CMD \<longrightarrow> 66 \<le> length (pData m) \<longrightarrow>
        pData r ! 0 = SB_SUCCESS \<and> content d' (req_addr m) = chunk m) \<and>
     (\<forall>d m r d'. link d m SB_READ_RSP = (Some r, d') \<longrightarrow> pData r ! 0 = SB_SUCCESS)"

definition writer_wf :: "'d image_writer \<Rightarrow> bool" where
  "writer_wf s \<longleftrightarrow> cmdId (wrReq s) = SB_WRITE_CMD \<and> cmdId (rdReq s) = SB_READ_CMD \<and>
     66 \<le> length (pData (wrReq s)) \<and> 66 \<le> length (pData (rdReq s))"

definition same_chunk :: "'d image_writer \<Rightarrow> 'd image_writer \<Rightarrow> bool" where
  "same_chunk s t \<longleftrightarrow> chunk (wrReq t) = chunk (wrReq s) \<and> addr t = addr s \<and>
     length (pData (wrReq t)) = length (pData (wrReq s))"

definition same_elsewhere :: "('d \<Rightarrow> u16 \<Rightarrow> byte list) \<Rightarrow> 'd image_writer \<Rightarrow> 'd image_writer \<Rightarrow> bool" where
  "same_elsewhere content s t \<longleftrightarrow> (\<forall>a. a \<noteq> addr s \<longrightarrow> content (flash t) a = content (flash s) a)"

lemma same_chunk_trans: "same_chunk s t \<Longrightarrow> same_chunk t u \<Longrightarrow> same_chunk s u"
  by (simp add: same_chunk_def)

lemma same_elsewhere_trans:
  "same_elsewhere content s t \<Longrightarrow> same_elsewhere content t u \<Longrightarrow> addr t = addr s \<Longrightarrow> same_elsewhere content s u"
  by (simp add: same_elsewhere_def)

lemma write_loop_done: "write_loop link SB_SUCCESS n s = Some (SB_SUCCESS, s)"
  by (subst write_loop.simps) simp

lemma write_loop_spec:
  assumes "local_writes link content"
  shows "writer_wf s \<Longrightarrow>
    \<exists>st' s'. write_loop link st n s = Some (st', s') \<and> writer_wf s' \<and> same_chunk s s' \<and>
      same_elsewhere content s s' \<and> rtnval s' = rtnval s"
proof (induction "3 - n" arbitrary: n st s)
  case 0
  then show ?case
    by (subst write_loop.simps) (simp add: same_chunk_def same_elsewhere_def)
next
  case (Suc k)
  show ?case
  proof (cases "st = SB_SUCCESS")
    case True
    then show ?thesis using Suc.prems
      by (simp add: write_loop_done same_chunk_def same_elsewhere_def)
  next
    case False
    let ?req = "put_addr (addr s) (wrReq s)"
    from Suc.prems assms obtain r d' where r: "link (flash s) ?req SB_WRITE_RSP = (Some r, d')"
        "\<forall>a. a \<noteq> addr s \<longrightarrow> content d' a = content (flash s) a"
      unfolding local_writes_def writer_wf_def
      by (metis put_addr_simps(1) req_addr_put_addr order_trans [of 2 66] numeral_le_iff semiring_norm(69,72,68,71))
    let ?s = "s\<lparr>wrReq := ?req, flash := d'\<rparr>"
    from Suc.hyps(2) have n: "n < 3" and k: "k = 3 - Suc n" by simp_all
    have s: "writer_wf ?s" "same_chunk s ?s" "same_elsewhere content s ?s" "rtnval ?s = rtnval s"
      using Suc.prems r(2) by (simp_all add: writer_wf_def same_chunk_def same_elsewhere_def)
    have step: "write_loop link st n s =
        write_loop link (pData r ! 0) (if pData r ! 0 \<noteq> SB_SUCCESS then Suc n else n) ?s"
      using False n r(1) by (subst write_loop.simps) (simp add: Let_def)
    show ?thesis
    proof (cases "pData r ! 0 = SB_SUCCESS")
      case True
      with step s show ?thesis by (simp add: write_loop_done)
    next
      case False
      then obtain st' s' where "write_loop link (pData r ! 0) (Suc n) ?s = Some (st', s')" "writer_wf s'"
          "same_chunk ?s s'" "same_elsewhere content ?s s'" "rtnval s' = rtnval ?s"
        using Suc.hyps(1) [OF k s(1), of "pData r ! 0"] by blast
      moreover from this(3,4) have "same_chunk s s'" "same_elsewhere content s s'"
        using same_chunk_trans [OF s(2)] same_elsewhere_trans [OF s(3)] by simp_all
      ultimately show ?thesis using step False by auto
    qed
  qed
qed

lemma compare_chunk_cases:
  "compare_chunk s = (if chunk (wrReq s) \<noteq> slice 3 SB_RW_BUF_LEN (pData (rdRsp s))
      then (-1, s\<lparr>rtnval := -1\<rparr>) else (0, s))"
  by (simp add: compare_chunk_def chunk_def)

lemma read_loop_spec:
  assumes "honest_reads link content"
  shows "writer_wf s \<Longrightarrow> read_loop link n s = (rb, s') \<Longrightarrow>
    writer_wf s' \<and> same_chunk s s' \<and> content (flash s') = content (flash s) \<and>
    (if rb = 0 then content (flash s) (addr s) = chunk (wrReq s) \<and> rtnval s' = rtnval s
     else rtnval s' = rtnval s \<or> content (flash s) (addr s) \<noteq> chunk (wrReq s))"
proof (induction "3 - n" arbitrary: n s)
  case 0
  then show ?case
    by (simp add: read_loop.simps [of _ n] same_chunk_def split: if_splits)
next
  case (Suc k)
  let ?req = "put_addr (addr s) (rdReq s)"
  from Suc.prems(1) have "cmdId ?req = SB_READ_CMD" and a: "req_addr ?req = addr s"
    by (simp_all add: writer_wf_def)
  with assms obtain r d' where r: "link (flash s) ?req SB_READ_RSP = (Some r, d')" "content d' = content (flash s)"
      "pData r ! 0 = SB_SUCCESS \<longrightarrow> slice 3 SB_RW_BUF_LEN (pData r) = content (flash s) (addr s)"
    unfolding honest_reads_def by metis
  let ?s = "s\<lparr>rdReq := ?req, rdRsp := r, flash := d'\<rparr>"
  from Suc.hyps(2) have n: "n < 3" and k: "k = 3 - Suc n" by simp_all
  have s: "writer_wf ?s" "same_chunk s ?s"
    using Suc.prems by (simp_all add: writer_wf_def same_chunk_def)
  have step: "read_loop link n s = (if pData r ! 0 \<noteq> SB_SUCCESS then read_loop link (Suc n) ?s else compare_chunk ?s)"
    using n r(1) by (subst read_loop.simps) (simp add: Let_def)
  show ?case
  proof (cases "pData r ! 0 = SB_SUCCESS")
    case True
    with step Suc.prems(2) r s show ?thesis
      by (auto simp: compare_chunk_cases same_chunk_def writer_wf_def split: if_splits)
  next
    case False
    with step Suc.prems(2) have "read_loop link (Suc n) ?s = (rb, s')" by simp
    with Suc.hyps(1) [OF k s(1)] s r(2) show ?thesis
      by (cases "rb = 0") (simp_all add: same_chunk_def)
  qed
qed

lemma chunk_loop_spec:
  assumes "honest_reads link content" and "local_writes link content"
  shows "writer_wf s \<Longrightarrow>
    (if rb = 0 then content (flash s) (addr s) = chunk (wrReq s) \<and> rtnval s = v
     else rtnval s = v \<or> st = SB_SUCCESS \<and> content (flash s) (addr s) \<noteq> chunk (wrReq s)) \<Longrightarrow>
    \<exists>rb' s'. chunk_loop link n rb st s = Some (rb', s') \<and> writer_wf s' \<and> addr s' = addr s \<and>
      same_elsewhere content s s' \<and>
      (rb' = 0 \<longrightarrow> content (flash s') (addr s) = chunk (wrReq s) \<and> rtnval s' = v)"
proof (induction "3 - n" arbitrary: n rb st s)
  case 0
  then show ?case
    by (auto simp: chunk_loop.simps [of _ n] same_elsewhere_def)
next
  case (Suc k)
  from Suc.hyps(2) have n: "n < 3" and k: "k = 3 - Suc n" by simp_all
  show ?case
  proof (cases "rb = 0")
    case True
    with Suc.prems show ?thesis by (simp add: chunk_loop.simps [of _ n] same_elsewhere_def)
  next
    case rb: False
    obtain st1 s1 where w: "write_loop link st 0 s = Some (st1, s1)" "writer_wf s1" "same_chunk s s1"
        "same_elsewhere content s s1" "rtnval s1 = rtnval s"
      using write_loop_spec [OF assms(2) Suc.prems(1)] by blast
    have skip: "st = SB_SUCCESS \<Longrightarrow> st1 = SB_SUCCESS \<and> s1 = s"
      using w(1) by (simp add: write_loop_done)
    show ?thesis
    proof (cases "st1 = SB_SUCCESS")
      case False
      then have "chunk_loop link n rb st s = chunk_loop link (Suc n) rb st1 s1"
        using rb n w(1) by (simp add: chunk_loop.simps [of _ n])
      moreover have "rtnval s1 = v"
        using Suc.prems(2) rb skip False w(5) by auto
      ultimately show ?thesis
        using Suc.hyps(1) [OF k w(2), of rb st1] rb w
        by (auto simp: same_chunk_def same_elsewhere_def)
    next
      case True
      obtain rb2 s2 where r: "read_loop link 0 s1 = (rb2, s2)" by fastforce
      note r' = read_loop_spec [OF assms(1) w(2) r]
      have step: "chunk_loop link n rb st s = chunk_loop link (Suc n) rb2 st1 s2"
        using rb n w(1) r True by (simp add: chunk_loop.simps [of _ n])
      have pre: "if rb2 = 0 then content (flash s2) (addr s2) = chunk (wrReq s2) \<and> rtnval s2 = v
           else rtnval s2 = v \<or> st1 = SB_SUCCESS \<and> content (flash s2) (addr s2) \<noteq> chunk (wrReq s2)"
        using r' Suc.prems(2) rb skip w(5) True by (auto simp: same_chunk_def)
      show ?thesis
        using Suc.hyps(1) [OF k _ pre] step r' w
        by (auto simp: same_chunk_def same_elsewhere_def)
    qed
  qed
qed

text \<open>A device that accepts everything needs one turn for each chunk.\<close>

lemma chunk_loop_accepts:
  assumes "honest_reads link content" and "local_writes link content" and "accepts link content" and "writer_wf s"
  shows "\<exists>s'. chunk_loop link 0 (-1) 0xff s = Some (0, s')"
proof -
  let ?req = "put_addr (addr s) (wrReq s)"
  have req: "cmdId ?req = SB_WRITE_CMD" "req_addr ?req = addr s" "chunk ?req = chunk (wrReq s)"
      "66 \<le> length (pData ?req)"
    using assms(4) by (simp_all add: writer_wf_def)
  with assms(2,3) obtain r d' where r: "link (flash s) ?req SB_WRITE_RSP = (Some r, d')" "pData r ! 0 = SB_SUCCESS"
      "content d' (addr s) = chunk (wrReq s)"
    unfolding local_writes_def accepts_def by metis
  let ?s = "s\<lparr>wrReq := ?req, flash := d'\<rparr>"
  have w: "write_loop link 0xff 0 s = Some (SB_SUCCESS, ?s)"
    using r by (subst write_loop.simps) (simp add: write_loop_done [unfolded SB_SUCCESS_def] sb_consts)
  let ?rd = "put_addr (addr s) (rdReq s)"
  have rd: "cmdId ?rd = SB_READ_CMD" "req_addr ?rd = addr s"
    using assms(4) by (simp_all add: writer_wf_def)
  with assms(1,3) obtain q d'' where q: "link d' ?rd SB_READ_RSP = (Some q, d'')" "pData q ! 0 = SB_SUCCESS"
      "slice 3 SB_RW_BUF_LEN (pData q) = content d' (addr s)"
    unfolding honest_reads_def accepts_def by metis
  then have "read_loop link 0 ?s = (0, ?s\<lparr>rdReq := ?rd, rdRsp := q, flash := d''\<rparr>)"
    using r(3) req(3) by (subst read_loop.simps) (simp add: compare_chunk_cases Let_def)
  with w show ?thesis
    by (subst chunk_loop.simps) (simp add: chunk_loop.simps [of _ "Suc 0"])
qed

text \<open>The memory holds a file from an address on, 16 flash words to the chunk.\<close>

definition holds_file :: "(u16 \<Rightarrow> byte list) \<Rightarrow> u16 \<Rightarrow> byte list \<Rightarrow> bool" where
  "holds_file mem a file \<longleftrightarrow>
     (\<forall>j. 64 * j < length file \<longrightarrow>
        take (length (slice (64 * j) 64 file)) (mem (a + of_nat (16 * j))) = slice (64 * j) 64 file)"

lemma holds_file_drop:
  assumes "take (length (take 64 file)) (mem a) = take 64 file" and "holds_file mem (a + 16) (drop 64 file)"
  shows "holds_file mem a file"
  unfolding holds_file_def
proof (intro allI impI)
  fix j assume j: "64 * j < length file"
  show "take (length (slice (64 * j) 64 file)) (mem (a + of_nat (16 * j))) = slice (64 * j) 64 file"
  proof (cases j)
    case 0
    with assms(1) show ?thesis by (simp add: slice_def)
  next
    case (Suc i)
    have "slice (64 * i) 64 (drop 64 file) = slice (64 * j) 64 file"
      by (simp add: slice_def Suc add.commute)
    moreover have "a + 16 + of_nat (16 * i) = a + of_nat (16 * j)"
      by (simp add: Suc algebra_simps)
    moreover have "64 * i < length (drop 64 file)" using j Suc by simp
    ultimately show ?thesis using assms(2) unfolding holds_file_def by metis
  qed
qed

lemma later_addr: "16 * Suc j < 0x10000 \<Longrightarrow> (a :: u16) + 16 + of_nat (16 * j) \<noteq> a"
proof
  assume j: "16 * Suc j < 0x10000" and "a + 16 + of_nat (16 * j) = a"
  then have "word_of_nat (16 * Suc j) = (0 :: u16)" by (simp add: algebra_simps)
  then have "2 ^ LENGTH(16) dvd 16 * Suc j" by (rule iffD1 [OF word_of_nat_eq_0_iff])
  then have "2 ^ LENGTH(16) \<le> 16 * Suc j" by (rule dvd_imp_le) simp
  with j show False by simp
qed

lemma image_loop_spec:
  assumes "honest_reads link content" and "local_writes link content"
  shows "writer_wf s \<Longrightarrow> length img \<le> 0x40000 \<Longrightarrow>
    \<exists>e d'. image_loop link img s = Some (e, d') \<and>
      (\<forall>a. (\<forall>j. 64 * j < length img \<longrightarrow> a \<noteq> addr s + of_nat (16 * j)) \<longrightarrow> content d' a = content (flash s) a) \<and>
      (accepts link content \<longrightarrow> e = Returned (rtnval s)) \<and>
      (e \<noteq> Exited \<longrightarrow> e = Returned (rtnval s) \<and> holds_file (content d') (addr s) img)"
proof (induction "length img" arbitrary: img s rule: less_induct)
  case less
  show ?case
  proof (cases "img = []")
    case True
    then show ?thesis by (simp add: image_loop.simps holds_file_def)
  next
    case False
    let ?s = "s\<lparr>wrReq := (wrReq s)\<lparr>pData := blit (pData (wrReq s)) 2 (take 64 img)\<rparr>\<rparr>"
    have "length (blit (pData (wrReq s)) 2 (take 64 img)) = length (pData (wrReq s))"
      using less.prems by (intro length_blit) (simp add: writer_wf_def min_def)
    then have s: "writer_wf ?s" using less.prems by (simp add: writer_wf_def)
    have chunk: "take (length (take 64 img)) (chunk (wrReq ?s)) = take 64 img"
    proof (cases "length img \<le> 64")
      case True
      then show ?thesis using less.prems by (simp add: chunk_def slice_def blit_def SB_RW_BUF_LEN_def writer_wf_def)
    next
      case False
      then show ?thesis using less.prems by (simp add: chunk_def slice_def blit_def SB_RW_BUF_LEN_def writer_wf_def)
    qed
    obtain rb s' where c: "chunk_loop link 0 (-1) 0xff ?s = Some (rb, s')" "writer_wf s'" "addr s' = addr s"
        "same_elsewhere content ?s s'"
        "rb = 0 \<longrightarrow> content (flash s') (addr s) = chunk (wrReq ?s) \<and> rtnval s' = rtnval s"
      using chunk_loop_spec [OF assms s, of "-1" "rtnval s" "0xff" 0] by auto
    have step: "image_loop link img s = (if rb \<noteq> 0 then Some (Exited, flash s')
        else image_loop link (drop 64 img) (s'\<lparr>addr := addr s + 16\<rparr>))"
      using False c(1,3) by (subst image_loop.simps) (simp add: SB_RW_BUF_LEN_def)
    show ?thesis
    proof (cases "rb = 0")
      case rb: False
      have "\<not> accepts link content"
        using chunk_loop_accepts [OF assms _ s] c(1) rb by auto
      moreover have "content (flash s') a = content (flash s) a"
        if "\<forall>j. 64 * j < length img \<longrightarrow> a \<noteq> addr s + of_nat (16 * j)" for a
        using that [rule_format, of 0] c(4) False by (simp add: same_elsewhere_def)
      ultimately show ?thesis using step rb by auto
    next
      case rb: True
      let ?t = "s'\<lparr>addr := addr s + 16\<rparr>"
      have t: "writer_wf ?t" "rtnval ?t = rtnval s" "addr ?t = addr s + 16" "flash ?t = flash s'"
        using c(2,5) rb by (simp_all add: writer_wf_def)
      have shorter: "length (drop 64 img) < length img" "length (drop 64 img) \<le> 0x40000"
        using less.prems(2) False by auto
      obtain e d' where i: "image_loop link (drop 64 img) ?t = Some (e, d')"
          "\<forall>a. (\<forall>j. 64 * j < length (drop 64 img) \<longrightarrow> a \<noteq> addr s + 16 + of_nat (16 * j)) \<longrightarrow> content d' a = content (flash s') a"
          "accepts link content \<longrightarrow> e = Returned (rtnval s)"
          "e \<noteq> Exited \<longrightarrow> e = Returned (rtnval s) \<and> holds_file (content d') (addr s + 16) (drop 64 img)"
        using less.hyps [OF shorter(1) t(1) shorter(2)] t by auto
      have "addr s \<noteq> addr s + 16 + of_nat (16 * j)" if j: "64 * j < length (drop 64 img)" for j
      proof -
        from j less.prems(2) have "16 * Suc j < 0x10000" by simp
        from later_addr [OF this, of "addr s"] show ?thesis by (rule not_sym)
      qed
      then have "content d' (addr s) = content (flash s') (addr s)"
        by (intro i(2) [rule_format])
      then have here: "content d' (addr s) = chunk (wrReq ?s)"
        using c(5) rb by simp
      have "content d' a = content (flash s) a"
        if a: "\<forall>j. 64 * j < length img \<longrightarrow> a \<noteq> addr s + of_nat (16 * j)" for a
      proof -
        have "a \<noteq> addr s + 16 + of_nat (16 * j)" if "64 * j < length (drop 64 img)" for j
          using a [rule_format, of "Suc j"] that by (simp add: algebra_simps)
        then have "content d' a = content (flash s') a"
          by (intro i(2) [rule_format])
        moreover have "a \<noteq> addr s" using a [rule_format, of 0] False by simp
        ultimately show ?thesis using c(4) by (simp add: same_elsewhere_def)
      qed
      moreover have "e \<noteq> Exited \<longrightarrow> e = Returned (rtnval s) \<and> holds_file (content d') (addr s) img"
      proof
        assume e: "e \<noteq> Exited"
        have "take (length (take 64 img)) (content d' (addr s)) = take 64 img"
          using chunk by (simp only: here)
        moreover from i(4) e have "e = Returned (rtnval s)" "holds_file (content d') (addr s + 16) (drop 64 img)"
          by simp_all
        ultimately show "e = Returned (rtnval s) \<and> holds_file (content d') (addr s) img"
          using holds_file_drop [of img "content d'" "addr s"] by blast
      qed
      moreover have "image_loop link img s = Some (e, d')" using step rb i(1) by simp
      ultimately show ?thesis using i(3) by blast
    qed
  qed
qed

lemma write_loop_unanswered:
  "write_loop link st n s = Some y \<Longrightarrow> \<forall>d m. fst (link d m SB_WRITE_RSP) = None \<Longrightarrow> st = SB_SUCCESS \<or> 3 \<le> n"
proof (induction rule: write_loop.raw_induct [rotated, consumes 1])
  case (1 write_loop link st n s y)
  show ?case
  proof (rule ccontr)
    assume go: "\<not> (st = SB_SUCCESS \<or> 3 \<le> n)"
    let ?req = "put_addr (addr s) (wrReq s)"
    from 1(3) have "fst (link (flash s) ?req SB_WRITE_RSP) = None" by blast
    then obtain d' where "link (flash s) ?req SB_WRITE_RSP = (None, d')" by (metis prod.collapse)
    with 1(2) go have "write_loop link st n (s\<lparr>wrReq := ?req, flash := d'\<rparr>) = Some y"
      by (simp add: Let_def)
    from 1(1) [OF this 1(3)] go show False by simp
  qed
qed

lemma handshake_loop_unanswered:
  "handshake_loop link junk d = Some y \<Longrightarrow> \<forall>d m. fst (link d m SB_HANDSHAKE_RSP) = None \<Longrightarrow> False"
proof (induction rule: handshake_loop.raw_induct [rotated, consumes 1])
  case (1 handshake_loop link junk d y)
  let ?req = "\<lparr>cmdType = SB_RPC_SYS_BOOT, cmdId = SB_HANDSHAKE_CMD, dataLength = 0, pData = junk\<rparr>"
  from 1(3) have "fst (link d ?req SB_HANDSHAKE_RSP) = None" by blast
  then obtain d' where "link d ?req SB_HANDSHAKE_RSP = (None, d')" by (metis prod.collapse)
  with 1(2) have "handshake_loop link junk d' = Some y" by (simp add: sb_handshake_def)
  from 1(1) [OF this 1(3)] show False .
qed

section \<open>Properties\<close>

text \<open>
  C23: The image check accepts by the first \<open>HAL_SB_IMG_SIZE\<close> bytes alone, and among these the two
  bytes after the checksum do not count: files that agree elsewhere get the same verdict.  A file
  that differs from an accepted one in the checksum only, or otherwise only in one byte or in two
  neighbouring bytes, is rejected.
\<close>

theorem image_check_detects:
  assumes "HAL_SB_IMG_SIZE \<le> length f" and "HAL_SB_IMG_SIZE \<le> length g"
  shows "((\<forall>j < HAL_SB_IMG_SIZE. j \<noteq> 0x92 \<and> j \<noteq> 0x93 \<longrightarrow> f ! j = g ! j) \<longrightarrow>
           sb_image_check (Some g) = sb_image_check (Some f)) \<and>
         (sb_image_check (Some f) = 0 \<and> (\<forall>j. checked_pos j \<longrightarrow> f ! j = g ! j) \<and> crc_field g \<noteq> crc_field f \<longrightarrow>
           sb_image_check (Some g) = -1) \<and>
         (sb_image_check (Some f) = 0 \<and> crc_field g = crc_field f \<and>
          (\<forall>j. checked_pos j \<longrightarrow> j \<noteq> i \<longrightarrow> j \<noteq> Suc i \<longrightarrow> f ! j = g ! j) \<and>
          (\<exists>j. checked_pos j \<and> f ! j \<noteq> g ! j) \<longrightarrow>
           sb_image_check (Some g) = -1)"
proof (intro conjI impI; (elim conjE)?)
  assume same: "\<forall>j < HAL_SB_IMG_SIZE. j \<noteq> 0x92 \<and> j \<noteq> 0x93 \<longrightarrow> f ! j = g ! j"
  then have "\<forall>j. checked_pos j \<longrightarrow> f ! j = g ! j" by (auto simp: checked_pos_def)
  then have "calcCRC f = calcCRC g"
    using calcCRC_same_tail [of 0 f g 0 0] by (simp add: calcCRC_eq_iff)
  moreover have "crc_field f = crc_field g"
    using assms same by (subst crc_field_bytes) (auto simp: HAL_SB_IMG_SIZE_def)
  ultimately show "sb_image_check (Some g) = sb_image_check (Some f)"
    using assms by (simp add: sb_image_check_iff)
next
  assume ok: "sb_image_check (Some f) = 0" and "\<forall>j. checked_pos j \<longrightarrow> f ! j = g ! j" and new: "crc_field g \<noteq> crc_field f"
  then have "calcCRC f = calcCRC g"
    using calcCRC_same_tail [of 0 f g 0 0] by (simp add: calcCRC_eq_iff)
  with ok new show "sb_image_check (Some g) = -1"
    using assms by (auto simp: sb_image_check_iff split: if_splits)
next
  assume ok: "sb_image_check (Some f) = 0" and crc: "crc_field g = crc_field f"
    and near: "\<forall>j. checked_pos j \<longrightarrow> j \<noteq> i \<longrightarrow> j \<noteq> Suc i \<longrightarrow> f ! j = g ! j"
    and "\<exists>j. checked_pos j \<and> f ! j \<noteq> g ! j"
  then obtain k where k: "checked_pos k" "f ! k \<noteq> g ! k" "\<forall>j < k. checked_pos j \<longrightarrow> f ! j = g ! j"
    using exists_least_iff [of "\<lambda>j. checked_pos j \<and> f ! j \<noteq> g ! j"] by blast
  with near have "k = i \<or> k = Suc i" by blast
  with near k have "\<forall>j. checked_pos j \<longrightarrow> j \<noteq> k \<longrightarrow> j \<noteq> Suc k \<longrightarrow> f ! j = g ! j"
    by (metis lessI)
  with k have "calcCRC f \<noteq> calcCRC g"
    using calcCRC_inject_two by (simp add: calcCRC_eq_iff)
  with ok crc show "sb_image_check (Some g) = -1"
    using assms by (auto simp: sb_image_check_iff split: if_splits)
qed


text \<open>
  C19: If the boot loader answers, reads tell what the memory holds and a write touches only the chunk
  it names, then flashing an image of at most 256 kB always ends.  An image that fails the check is
  not written.  A result other than exiting the process is 0, and then the memory holds the file,
  chunk by chunk, even if writes were acknowledged without effect; a device that accepts every
  write always gets there.
\<close>

theorem flashImage_verified:
  assumes "honest_reads link content" and "local_writes link content"
    and "\<forall>d m. fst (link d m SB_HANDSHAKE_RSP) \<noteq> None"
    and "registerSubsystemCb table 0x0d callback = Inr (0, table')"
    and "length (fst stack) = 256" and "length (fst (snd stack)) = 256" and "length f \<le> 0x40000"
  shows "\<exists>e d'. flashImage link stack table callback (Some f) d = Inr (Some (e, d')) \<and>
           (sb_image_check (Some f) \<noteq> 0 \<longrightarrow> e = Exited \<and> d' = d) \<and>
           (sb_image_check (Some f) = 0 \<and> accepts link content \<longrightarrow> e = Returned 0) \<and>
           (e \<noteq> Exited \<longrightarrow> e = Returned 0 \<and> holds_file (content d') 0 f)"
proof (cases "sb_image_check (Some f) = 0")
  case False
  then have "sb_image_check (Some f) < 0"
    by (auto simp: sb_image_check_def Let_def split: if_splits)
  with False assms(4) show ?thesis by (simp add: flashImage_def)
next
  case True
  obtain r d1 where "link d \<lparr>cmdType = SB_RPC_SYS_BOOT, cmdId = SB_HANDSHAKE_CMD, dataLength = 0, pData = fst stack\<rparr>
      SB_HANDSHAKE_RSP = (Some r, d1)"
    using assms(3) by (metis option.exhaust prod.collapse)
  then have h: "handshake_loop link (fst stack) d = Some d1"
    by (subst handshake_loop.simps) (simp add: sb_handshake_def)
  let ?s = "\<lparr>wrReq = \<lparr>cmdType = SB_RPC_SYS_BOOT, cmdId = SB_WRITE_CMD, dataLength = of_nat (SB_RW_BUF_LEN + 2), pData = fst stack\<rparr>,
             rdReq = \<lparr>cmdType = SB_RPC_SYS_BOOT, cmdId = SB_READ_CMD, dataLength = of_nat (SB_RW_BUF_LEN + 3), pData = fst (snd stack)\<rparr>,
             rdRsp = \<lparr>cmdType = 0, cmdId = 0, dataLength = 0, pData = snd (snd stack)\<rparr>,
             rtnval = 0, addr = 0, flash = d1\<rparr>"
  have "writer_wf ?s" using assms(5,6) by (simp add: writer_wf_def)
  from image_loop_spec [OF assms(1,2) this assms(7)] obtain e d' where
    "image_loop link f ?s = Some (e, d')" "accepts link content \<longrightarrow> e = Returned 0"
    "e \<noteq> Exited \<longrightarrow> e = Returned 0 \<and> holds_file (content d') 0 f"
    by auto
  with True h assms(4) show ?thesis
    by (cases e) (auto simp: flashImage_def sb_image_write_def)
qed

text \<open>
  The retry loops fail in three ways.  Requests that are never answered are repeated forever: the
  handshake, and the write of any nonempty image.  A read that is not answered compares the chunk
  with the previous response, so that after an equal chunk a write that was acknowledged but did
  nothing passes as verified.
\<close>

theorem flashImage_retry_faults:
  "((\<forall>d m. fst (link d m SB_HANDSHAKE_RSP) = None) \<longrightarrow> handshake_loop link junk d = None) \<and>
   ((\<forall>d m. fst (link d m SB_WRITE_RSP) = None) \<and> f \<noteq> [] \<longrightarrow> sb_image_write link stack (Some f) d = None) \<and>
   (slice 3 SB_RW_BUF_LEN (pData (rdRsp s)) = chunk (wrReq s) \<and> 66 \<le> length (pData (wrReq s)) \<and>
    link (flash s) (put_addr (addr s) (wrReq s)) SB_WRITE_RSP = (Some ack, flash s) \<and> pData ack ! 0 = SB_SUCCESS \<and>
    link (flash s) (put_addr (addr s) (rdReq s)) SB_READ_RSP = (None, flash s) \<longrightarrow>
    (\<exists>s'. chunk_loop link 0 (-1) 0xff s = Some (0, s') \<and> flash s' = flash s \<and> rtnval s' = rtnval s))"
proof (intro conjI impI; (elim conjE)?)
  assume "\<forall>d m. fst (link d m SB_HANDSHAKE_RSP) = None"
  then show "handshake_loop link junk d = None"
    using handshake_loop_unanswered by (meson not_None_eq)
next
  assume "\<forall>d m. fst (link d m SB_WRITE_RSP) = None" and f: "f \<noteq> []"
  then have "write_loop link 0xff 0 s = None" for s
    using write_loop_unanswered [of link "0xff" 0 s] by (cases "write_loop link 0xff 0 s") (auto simp: SB_SUCCESS_def)
  then have "chunk_loop link 0 (-1) 0xff s = None" for s
    by (subst chunk_loop.simps) simp
  with f show "sb_image_write link stack (Some f) d = None"
    by (simp add: sb_image_write_def image_loop.simps)
next
  assume a: "slice 3 SB_RW_BUF_LEN (pData (rdRsp s)) = chunk (wrReq s)" "66 \<le> length (pData (wrReq s))"
    "link (flash s) (put_addr (addr s) (wrReq s)) SB_WRITE_RSP = (Some ack, flash s)" "pData ack ! 0 = SB_SUCCESS"
    "link (flash s) (put_addr (addr s) (rdReq s)) SB_READ_RSP = (None, flash s)"
  let ?s = "s\<lparr>wrReq := put_addr (addr s) (wrReq s), flash := flash s\<rparr>"
  have "write_loop link 0xff 0 s = Some (SB_SUCCESS, ?s)"
    using a by (subst write_loop.simps) (simp add: write_loop_done [unfolded SB_SUCCESS_def] sb_consts)
  moreover have "read_loop link 0 ?s = (0, ?s\<lparr>rdReq := put_addr (addr s) (rdReq s)\<rparr>)"
    using a by (subst read_loop.simps) (simp add: compare_chunk_cases Let_def)
  ultimately show "\<exists>s'. chunk_loop link 0 (-1) 0xff s = Some (0, s') \<and> flash s' = flash s \<and> rtnval s' = rtnval s"
    by (subst chunk_loop.simps) (simp add: chunk_loop.simps [of _ "Suc 0"])
qed

section \<open>Witnesses\<close>

text \<open>An image of zeros that ends in a one, with its checksum, is accepted.\<close>

definition small_image :: "byte list" where
  "small_image = (replicate HAL_SB_IMG_SIZE 0)[HAL_SB_IMG_SIZE - 1 := 1, 0x90 := 0x21, 0x91 := 0x10]"

lemma small_image_length [simp]: "length small_image = HAL_SB_IMG_SIZE"
  by (simp add: small_image_def)

lemma small_image_nth:
  "j < HAL_SB_IMG_SIZE \<Longrightarrow> small_image ! j =
     (if j = 0x91 then 0x10 else if j = 0x90 then 0x21 else if j = HAL_SB_IMG_SIZE - 1 then 1 else 0)"
  by (simp add: small_image_def nth_list_update HAL_SB_IMG_SIZE_def)

lemma calcCRC_zeros:
  "\<forall>j. a \<le> j \<and> checked_pos j \<longrightarrow> f ! j = 0 \<Longrightarrow> a \<le> 0x90 \<or> 0x94 \<le> a \<Longrightarrow> calcCRC_loop f a 0 = 0"
proof (induction f a "0 :: u16" rule: calcCRC_loop.induct)
  case (1 f a)
  have 0: "runPoly 0 0 = 0" by code_simp
  consider "HAL_SB_IMG_SIZE \<le> a" | "a < HAL_SB_IMG_SIZE" "a = 0x90" | "a < HAL_SB_IMG_SIZE" "a \<noteq> 0x90"
    by linarith
  then show ?case
  proof cases
    case 1
    then show ?thesis by (simp add: calcCRC_loop.simps [of _ a])
  next
    case 2
    with "1.prems" "1.hyps"(1) show ?thesis
      by (simp add: calcCRC_loop.simps [of _ 144] crc_at)
  next
    case 3
    with "1.prems" have "checked_pos a" by (auto simp: checked_pos_def)
    with "1.prems" have "f ! a = 0" by simp
    with 3 "1.prems" "1.hyps"(2) 0 show ?thesis
      by (auto simp: calcCRC_loop.simps [of _ a] crc_at)
  qed
qed

lemma small_image_crc: "calcCRC small_image = 0x1021" and small_image_crc_field: "crc_field small_image = 0x1021"
proof -
  let ?z = "small_image[HAL_SB_IMG_SIZE - 1 := 0]" and ?l = "HAL_SB_IMG_SIZE - 1"
  have z: "calcCRC_loop ?z 0 0 = 0"
    by (rule calcCRC_zeros) (auto simp: checked_pos_def small_image_nth nth_list_update HAL_SB_IMG_SIZE_def)
  have l: "?l = 0x3A7FF" "HAL_SB_IMG_SIZE = 0x3A800" by (simp_all add: HAL_SB_IMG_SIZE_def)
  have "\<exists>e. calcCRC_loop ?z 0 0 = calcCRC_loop ?z ?l e \<and> calcCRC_loop small_image 0 0 = calcCRC_loop small_image ?l e"
    by (rule calcCRC_same_head) (auto simp: checked_pos_def HAL_SB_IMG_SIZE_def)
  then obtain e where e: "calcCRC_loop ?z 0 0 = calcCRC_loop ?z ?l e" "calcCRC_loop small_image 0 0 = calcCRC_loop small_image ?l e"
    by blast
  have last: "calcCRC_loop f ?l e = runPoly e (f ! ?l)" for f
    by (simp add: calcCRC_loop.simps [of _ "0x3A7FF"] calcCRC_loop.simps [of _ "0x3A800"] l crc_at)
  have "runPoly 0 0 = 0" by code_simp
  with z e(1) last [of ?z] have "runPoly e 0 = runPoly 0 0" by (simp add: HAL_SB_IMG_SIZE_def)
  then have "e = 0" by (rule runPoly_inject)
  with e(2) last [of small_image] have "calcCRC_loop small_image 0 0 = runPoly 0 1"
    by (simp add: small_image_nth HAL_SB_IMG_SIZE_def)
  then have "calcCRC small_image = runPoly (runPoly (runPoly 0 1) 0) 0" by (simp add: calcCRC_def)
  also have "\<dots> = 0x1021" by code_simp
  finally show "calcCRC small_image = 0x1021" .
  have "slice 0x90 2 small_image = [0x21, 0x10]"
    by (rule nth_equalityI) (auto simp: small_image_nth HAL_SB_IMG_SIZE_def less_2_cases_iff)
  then have "crc_field small_image = le_word [0x21, 0x10]" by (simp add: crc_field_def)
  also have "\<dots> = 0x1021" by code_simp
  finally show "crc_field small_image = 0x1021" .
qed

lemma small_image_ok: "sb_image_check (Some small_image) = 0"
  by (simp add: sb_image_check_iff small_image_crc small_image_crc_field)

theorem image_check_detects_witness:
  "sb_image_check (Some (small_image[0x92 := 1])) = sb_image_check (Some small_image) \<and>
   sb_image_check (Some (small_image[0 := 5, 1 := 7])) = -1 \<and> sb_image_check (Some (small_image[0x90 := 1])) = -1"
proof (intro conjI)
  let ?a = "small_image[0x92 := 1]"
  show "sb_image_check (Some ?a) = sb_image_check (Some small_image)"
    using image_check_detects [of small_image ?a 0] by (simp add: nth_list_update)
  let ?b = "small_image[0 := 5, 1 := 7]"
  have "crc_field ?b = crc_field small_image"
    by (subst crc_field_bytes) (simp_all add: HAL_SB_IMG_SIZE_def nth_list_update)
  moreover have "checked_pos 0" and "small_image ! 0 \<noteq> ?b ! 0"
    by (simp_all add: checked_pos_def HAL_SB_IMG_SIZE_def small_image_nth nth_list_update)
  then have "\<exists>j. checked_pos j \<and> small_image ! j \<noteq> ?b ! j" by blast
  ultimately show "sb_image_check (Some ?b) = -1"
    using image_check_detects [of small_image ?b 0, THEN conjunct2, THEN conjunct2] small_image_ok
    by (simp add: nth_list_update)
  let ?c = "small_image[0x90 := 1]"
  have "crc_field ?c \<noteq> crc_field small_image"
    by (subst crc_field_bytes) (simp_all add: HAL_SB_IMG_SIZE_def nth_list_update small_image_nth)
  moreover have "\<forall>j. checked_pos j \<longrightarrow> small_image ! j = ?c ! j"
    by (auto simp: checked_pos_def nth_list_update)
  ultimately show "sb_image_check (Some ?c) = -1"
    using image_check_detects [of small_image ?c 0, THEN conjunct2, THEN conjunct1] small_image_ok by simp
qed

text \<open>A memory that stores what it is told, and one that stores nothing and does not answer reads.\<close>

definition reply :: "byte list \<Rightarrow> mtMessage" where
  "reply d = \<lparr>cmdType = 0x4D, cmdId = 0, dataLength = 0, pData = d\<rparr>"

definition cell :: "(u16 \<Rightarrow> byte list) \<Rightarrow> u16 \<Rightarrow> byte list" where
  "cell mem a = take 64 (mem a @ replicate 64 0)"

definition flash_chip :: "(u16 \<Rightarrow> byte list) boot_link" where
  "flash_chip mem m rsp =
     (if rsp = SB_WRITE_RSP then (Some (reply [0]), mem(req_addr m := chunk m @ replicate (64 - length (chunk m)) 0))
      else (Some (reply ([0, 0, 0] @ cell mem (req_addr m))), mem))"

definition lazy_chip :: "(u16 \<Rightarrow> byte list) boot_link" where
  "lazy_chip mem m rsp = (if rsp = SB_WRITE_RSP then (Some (reply [0]), mem) else (None, mem))"

lemma slice_cell: "slice 3 64 ([0, 0, 0] @ cell mem a) = cell mem a"
  by (simp add: slice_def cell_def)

lemma chips_ok:
  "honest_reads flash_chip cell" "local_writes flash_chip cell" "accepts flash_chip cell"
  unfolding honest_reads_def local_writes_def accepts_def
  by (auto simp: flash_chip_def reply_def sb_consts slice_cell [simplified] slice_def)
    (auto simp: cell_def chunk_def slice_def SB_RW_BUF_LEN_def)

theorem flashImage_verified_witness:
  "(\<exists>d'. flashImage flash_chip (replicate 256 0, replicate 256 0, []) (replicate 15 None) (Registered 0)
       (Some small_image) (\<lambda>_. []) = Inr (Some (Returned 0, d')) \<and> holds_file (cell d') 0 small_image) \<and>
   (\<exists>d'. flashImage flash_chip (replicate 256 0, replicate 256 0, []) (replicate 15 None) (Registered 0)
       (Some []) (\<lambda>_. []) = Inr (Some (Exited, d')))"
proof -
  note flashImage_verified [OF chips_ok(1,2), of "replicate 15 None" "Registered 0"
      "(replicate 15 None)[13 := Some (Registered 0)]" "(replicate 256 0, replicate 256 0, [])"]
  note v = this [of small_image "\<lambda>_. []"] this [of "[]" "\<lambda>_. []"]
  have "registerSubsystemCb (replicate 15 None) 0x0d (Registered 0) =
      Inr (0, (replicate 15 None)[13 := Some (Registered 0)])"
    by (simp add: registerSubsystemCb_def)
  moreover have "\<forall>d m. fst (flash_chip d m SB_HANDSHAKE_RSP) \<noteq> None"
    by (simp add: flash_chip_def sb_consts)
  moreover have "sb_image_check (Some []) \<noteq> 0"
    by (simp add: sb_image_check_def HAL_SB_IMG_SIZE_def)
  moreover have "length small_image \<le> 0x40000" by (simp add: HAL_SB_IMG_SIZE_def)
  ultimately show ?thesis
    using v small_image_ok chips_ok(3) by auto
qed

definition equal_chunks :: "(u16 \<Rightarrow> byte list) image_writer" where
  "equal_chunks =
     \<lparr>wrReq = \<lparr>cmdType = 0x4D, cmdId = 1, dataLength = 66, pData = replicate 256 7\<rparr>,
      rdReq = \<lparr>cmdType = 0x4D, cmdId = 2, dataLength = 67, pData = replicate 256 0\<rparr>,
      rdRsp = \<lparr>cmdType = 0x4D, cmdId = 0x82, dataLength = 67, pData = replicate 256 7\<rparr>,
      rtnval = 0, addr = 16, flash = \<lambda>_. []\<rparr>"

theorem flashImage_retry_faults_witness:
  "handshake_loop (\<lambda>(d :: unit) m rsp. (None, d)) [] () = None \<and>
   sb_image_write (\<lambda>(d :: unit) m rsp. (None, d)) ([], [], []) (Some [1]) () = None \<and>
   (\<exists>s'. chunk_loop lazy_chip 0 (-1) 0xff equal_chunks = Some (0, s') \<and> flash s' = (\<lambda>_. []) \<and> rtnval s' = 0)"
proof (intro conjI)
  show "handshake_loop (\<lambda>(d :: unit) m rsp. (None, d)) [] () = None"
    by (rule flashImage_retry_faults [THEN conjunct1, rule_format]) simp
  show "sb_image_write (\<lambda>(d :: unit) m rsp. (None, d)) ([], [], []) (Some [1]) () = None"
    by (rule flashImage_retry_faults [THEN conjunct2, THEN conjunct1, rule_format]) simp
  show "\<exists>s'. chunk_loop lazy_chip 0 (-1) 0xff equal_chunks = Some (0, s') \<and> flash s' = (\<lambda>_. []) \<and> rtnval s' = 0"
    using flashImage_retry_faults [THEN conjunct2, THEN conjunct2, rule_format, of equal_chunks lazy_chip "reply [0]"]
    by (simp add: equal_chunks_def lazy_chip_def sb_consts reply_def chunk_def slice_def)
qed

end
