(* ===== verification/Zdo.thy ===== *)
theory Zdo
  imports AfMessage ObjectModel
begin

text \<open>
  ZigBee device objects: zdo/include/zdo.h, zdo/source/zdo.cpp and the archive of known devices,
  zdo/source/zdo_archive.cpp.  The archive file is the JSON value it holds.  A request blocks
  its thread until the answer has been processed or a second has passed; \<open>reply\<close> gives for the
  cluster, address and endpoint asked the payload of the accepted answer, \<open>None\<close> for a timeout.
\<close>

section \<open>Requests\<close>

text \<open>The frame builders write to a buffer and return how much; here they return what they write.\<close>

definition zdpHdr_with_NwkaddrOfInterest :: "byte \<Rightarrow> u16 \<Rightarrow> byte list" where
  "zdpHdr_with_NwkaddrOfInterest c nwkaddr = [c] @ le_bytes 2 nwkaddr"

definition simple_desc_frm :: "byte \<Rightarrow> u16 \<Rightarrow> byte \<Rightarrow> byte list" where
  "simple_desc_frm c dst epId = zdpHdr_with_NwkaddrOfInterest c dst @ [epId]"

definition Mgmt_Permit_Joining_req_frm :: "byte \<Rightarrow> byte \<Rightarrow> byte \<Rightarrow> byte list" where
  "Mgmt_Permit_Joining_req_frm c PermitDuration TC_Significance = [c, PermitDuration, TC_Significance]"

definition Mgmt_Leave_req_frm :: "byte \<Rightarrow> u64 \<Rightarrow> byte list" where
  "Mgmt_Leave_req_frm c ieee = [c] @ le_bytes 8 ieee @ le_bytes 8 (0 :: u64)"

definition IEEE_addr_req_frm :: "byte \<Rightarrow> u16 \<Rightarrow> byte \<Rightarrow> byte \<Rightarrow> byte list" where
  "IEEE_addr_req_frm c nwk RequestType StartIndex =
     zdpHdr_with_NwkaddrOfInterest c nwk @ le_bytes 2 nwk @ le_bytes 1 RequestType @ le_bytes 1 StartIndex"

definition Mgmt_NWK_Update_req_frm :: "byte \<Rightarrow> u32 \<Rightarrow> byte \<Rightarrow> byte \<Rightarrow> byte \<Rightarrow> u16 \<Rightarrow> byte list" where
  "Mgmt_NWK_Update_req_frm c ScanChannels ScanDuration ScanCount nwkUpdateId nwkManagerAddr =
     [c] @ le_bytes 4 ScanChannels @ [ScanDuration] @
     (if ScanDuration \<ge> 0 \<and> ScanDuration \<le> 5 then [ScanCount] else []) @
     (if ScanDuration = 0xfe \<or> ScanDuration = 0xff then [nwkUpdateId] else []) @
     (if ScanDuration = 0xff then le_bytes 2 nwkManagerAddr else [])"

text \<open>\<^verbatim>\<open>APDU\<close>: the setters of its constructor on the 255-byte array, then the frame at \<^verbatim>\<open>asdu()\<close>.\<close>

definition APDU :: "byte list \<Rightarrow> u16 \<Rightarrow> u16 \<Rightarrow> byte list \<Rightarrow> byte list" where
  "APDU junk nwkaddr cId zclFrame =
     (let data = fold kr_set [ClusterId cId, DstAddr nwkaddr, DstEndpoint 0, SrcEndpoint 0, Options 0, TranSeqNum 0,
                   Radius 3, AsduLen 0] junk;
          data = blit data 10 zclFrame
      in kr_set (AsduLen (data ! 9 + of_nat (length zclFrame))) data)"

definition zdpPred :: "AFMessage \<Rightarrow> AFMessage \<Rightarrow> bool" where
  "zdpPred req i \<longleftrightarrow> asdu i ! 0 = asdu req ! 0 \<and> clusterId i = 0x8000 OR clusterId req \<and> dstEndpoint i = 0"

section \<open>Received descriptors\<close>

definition ZDO_RESPONSE_BIT :: u16 where "ZDO_RESPONSE_BIT = 0x8000"
definition ZDP_SUCCESS :: byte where "ZDP_SUCCESS = 0x00"

text \<open>\<^verbatim>\<open>message_preprocess_\<close>: the offset of the body and the address of interest; \<open>None\<close> is NULL.\<close>

definition message_preprocess :: "AFMessage \<Rightarrow> nat \<Rightarrow> bool \<Rightarrow> ub + (nat \<times> u16) option" where
  "message_preprocess msg asduLen_exp want_nwkaddr =
     (if unat (asduLen msg) \<noteq> asduLen_exp then Inr None
      else bindE (rd (asdu msg) 0) (\<lambda>transeqnum.
        bindE (if clusterId msg AND ZDO_RESPONSE_BIT \<noteq> 0
               then bindE (rd (asdu msg) 1) (\<lambda>status. Inr (status = ZDP_SUCCESS, 2))
               else Inr (True, 1)) (\<lambda>(ok, p).
          if \<not> ok then Inr None
          else if want_nwkaddr then bindE (ANSITohostInt (asdu msg) p) (\<lambda>(n, nwk). Inr (Some (p + n, nwk)))
          else Inr (Some (p, 0)))))"

fun active_ep_loop :: "nat \<Rightarrow> byte list \<Rightarrow> nat \<Rightarrow> Endpoint list \<Rightarrow> ub + Endpoint list" where
  "active_ep_loop 0 apdu p es = Inr es"
| "active_ep_loop (Suc n) apdu p es = bindE (rd apdu p) (\<lambda>i. active_ep_loop n apdu (Suc p) (snd (endpoints i es)))"

definition active_ep_req_apdu_process :: "byte list \<Rightarrow> Device \<Rightarrow> ub + Device" where
  "active_ep_req_apdu_process apdu d =
     bindE (rd apdu 0) (\<lambda>ActiveEPCount.
     bindE (active_ep_loop (unat ActiveEPCount) apdu 1 (dev_endpoints d)) (\<lambda>es. Inr (d\<lparr>dev_endpoints := es\<rparr>)))"

definition node_desc_req_apdu_process :: "byte list \<Rightarrow> ub + NodeDescriptor_t" where
  "node_desc_req_apdu_process apdu =
     bindE (rd apdu 0) (\<lambda>b0. bindE (rd apdu 1) (\<lambda>b1. bindE (rd apdu 2) (\<lambda>b2.
     bindE (ANSITohostInt apdu 3) (\<lambda>(n1, manufacturer). bindE (rd apdu (3 + n1)) (\<lambda>maxBuffer.
     bindE (ANSITohostInt apdu (4 + n1)) (\<lambda>(n2, maxIn).
     bindE (ANSITohostInt apdu (4 + n1 + n2)) (\<lambda>(n3, mask).
     bindE (ANSITohostInt apdu (4 + n1 + n2 + n3)) (\<lambda>(n4, maxOut).
     bindE (rd apdu (4 + n1 + n2 + n3 + n4)) (\<lambda>cap.
       Inr \<lparr>LogicalType = b0 AND 0x07, ComplexDescAvail = drop_bit 3 (b0 AND 0x08), UserDescAvail = drop_bit 4 (b0 AND 0x10),
            nd_Reserved = drop_bit 5 (b0 AND 0xE0), APSFlags = b1 AND 0x07, FrequencyBand = drop_bit 3 (b1 AND 0xF8),
            CapabilityFlags = b2, ManufacturerCode = manufacturer, MaxBufferSize = maxBuffer, MaxInTransferSize = maxIn,
            ServerMask = mask, MaxOutTransferSize = maxOut, DescriptorCapability = cap\<rparr>)))))))))"

fun read_clusters :: "nat \<Rightarrow> byte list \<Rightarrow> nat \<Rightarrow> ub + (u16 list \<times> nat)" where
  "read_clusters 0 apdu p = Inr ([], p)"
| "read_clusters (Suc n) apdu p =
     bindE (ANSITohostInt apdu p) (\<lambda>(k, i). bindE (read_clusters n apdu (p + k)) (\<lambda>(is, q). Inr (i # is, q)))"

definition simple_desc_req_apdu_process :: "byte list \<Rightarrow> ub + SimpleDescriptor" where
  "simple_desc_req_apdu_process apdu =
     bindE (rd apdu 0) (\<lambda>ep. bindE (ANSITohostInt apdu 1) (\<lambda>(n1, profile).
     bindE (ANSITohostInt apdu (1 + n1)) (\<lambda>(n2, device). bindE (rd apdu (1 + n1 + n2)) (\<lambda>version.
     bindE (rd apdu (2 + n1 + n2)) (\<lambda>incount. bindE (read_clusters (unat incount) apdu (3 + n1 + n2)) (\<lambda>(ins, p).
     bindE (rd apdu p) (\<lambda>outcount. bindE (read_clusters (unat outcount) apdu (Suc p)) (\<lambda>(outs, q).
       Inr \<lparr>outclusterList = outs, inclusterList = ins, endpointAddr = ep, profileId = profile, sd_deviceId = device,
            deviceVersion = version\<rparr>))))))))"

section \<open>The archive (zdo_archive.cpp)\<close>

type_synonym archive = "json option"

text \<open>A bad or absent file is replaced by an empty object.\<close>

definition load_archive :: "archive \<Rightarrow> json" where
  "load_archive zar = (case zar of None \<Rightarrow> JObj [] | Some j \<Rightarrow> j)"

definition saveDevAddresses :: "Device \<Rightarrow> archive \<Rightarrow> archive" where
  "saveDevAddresses d zar =
     Some (json_set (map Key [hexkey (ieee_id d), ''nwkAddr'']) (JStr (IntToHexStr (dev_id d)))
       (json_set (map Key [hexkey (ieee_id d), ''ieeeAddr'']) (JStr (IntToHexStr (ieee_id d))) (load_archive zar)))"

definition saveIds :: "Device \<Rightarrow> Endpoint \<Rightarrow> archive \<Rightarrow> archive" where
  "saveIds d e zar =
     Some (json_set (map Key [hexkey (ieee_id d), ''endpointList'', hexkey (ep_id e), ''Id'']) (JStr (IntToHexStr (ep_id e)))
       (load_archive (saveDevAddresses d zar)))"

text \<open>\<^verbatim>\<open>char apduString[apduLength << 1 + 1]\<close> has four bytes for each byte, none for an empty APDU.\<close>

definition apduString :: "byte list \<Rightarrow> byte list \<Rightarrow> nat \<Rightarrow> ub + byte list" where
  "apduString junk apdu apduLength =
     bindE (kByteToHexString (take (push_bit (1 + 1) apduLength) junk) apdu apduLength) (\<lambda>(_, buf).
       if 0 \<in> set buf then Inr (c_str buf) else Inl OobRead)"

definition saveEndpointApdu :: "byte list \<Rightarrow> Device \<Rightarrow> Endpoint \<Rightarrow> string \<Rightarrow> byte list \<Rightarrow> nat \<Rightarrow> archive \<Rightarrow> ub + archive" where
  "saveEndpointApdu junk d e label apdu apduLength zar =
     bindE (apduString junk apdu apduLength) (\<lambda>txt0.
       Inr (Some (json_set (map Key [hexkey (ieee_id d), ''endpointList'', hexkey (ep_id e), label]) (JStr txt0)
         (load_archive (saveIds d e zar)))))"

definition saveDevApdu :: "byte list \<Rightarrow> Device \<Rightarrow> string \<Rightarrow> byte list \<Rightarrow> nat \<Rightarrow> archive \<Rightarrow> ub + archive" where
  "saveDevApdu junk d label apdu apduLength zar =
     bindE (apduString junk apdu apduLength) (\<lambda>txt0.
       Inr (Some (json_set (map Key [hexkey (ieee_id d), label]) (JStr txt0) (load_archive (saveDevAddresses d zar)))))"

definition removeDev :: "u64 \<Rightarrow> archive \<Rightarrow> int \<times> archive" where
  "removeDev ieee zar = (case zar of None \<Rightarrow> (-1, None) | Some j \<Rightarrow> (0, Some (snd (erase_key (hexkey ieee) j))))"

section \<open>Handlers\<close>

text \<open>The gateway with its associated devices, and the archive file.\<close>

record zdo_state =
  gateway :: Gateway
  zar :: archive

type_synonym zdp_reply = "u16 \<Rightarrow> u16 \<Rightarrow> byte \<Rightarrow> byte list option"

definition MSGBODY :: nat where "MSGBODY = 4"

text \<open>Every request function returns 0, answered or not; so their results are left out.\<close>

definition node_desc_req :: "byte list \<Rightarrow> zdp_reply \<Rightarrow> Device \<times> archive \<Rightarrow> ub + (Device \<times> archive)" where
  "node_desc_req junk reply s =
     (case s of (d, z) \<Rightarrow>
        (case reply 0x0002 (dev_id d) 0 of
           None \<Rightarrow> Inr (d, z)
         | Some x \<Rightarrow>
             bindE (saveDevApdu junk d ''NodeDescApduString'' (drop MSGBODY x) 13 z) (\<lambda>z.
             bindE (node_desc_req_apdu_process (drop MSGBODY x)) (\<lambda>nd. Inr (d\<lparr>nodeDescriptor := nd\<rparr>, z)))))"

definition active_ep_req :: "byte list \<Rightarrow> zdp_reply \<Rightarrow> Device \<times> archive \<Rightarrow> ub + (Device \<times> archive)" where
  "active_ep_req junk reply s =
     (case s of (d, z) \<Rightarrow>
        (case reply 0x0005 (dev_id d) 0 of
           None \<Rightarrow> Inr (d, z)
         | Some x \<Rightarrow>
             bindE (rd x 4) (\<lambda>ActiveEPCount.
             bindE (saveDevApdu junk d ''ActiveEndpointApduString'' (drop MSGBODY x) (unat ActiveEPCount + 1) z) (\<lambda>z.
             bindE (active_ep_req_apdu_process (drop MSGBODY x) d) (\<lambda>d. Inr (d, z))))))"

text \<open>The local endpoints are those of the gateway; \<open>libs\<close> their profile libraries.\<close>

definition simple_desc_req ::
    "(byte \<Rightarrow> profile_lib) \<Rightarrow> Endpoint list \<Rightarrow> byte list \<Rightarrow> zdp_reply \<Rightarrow> Device \<Rightarrow> Endpoint \<times> archive \<Rightarrow> ub + (Endpoint \<times> archive)" where
  "simple_desc_req libs lcls junk reply d s =
     (case s of (e, z) \<Rightarrow>
        (case reply 0x0004 (dev_id d) (ep_id e) of
           None \<Rightarrow> Inr (e, z)
         | Some x \<Rightarrow>
             bindE (rd x 4) (\<lambda>SimpleDescLength.
             bindE (saveEndpointApdu junk d e ''SimpleDescApdu'' (drop (MSGBODY + 1) x) (unat SimpleDescLength) z) (\<lambda>z.
             bindE (simple_desc_req_apdu_process (drop (MSGBODY + 1) x)) (\<lambda>sd.
               Inr (snd (snd (aps_newpeer_handle libs lcls (e\<lparr>simpleDescriptor := sd\<rparr>))), z))))))"

fun getAllEndpointSimpleDesc_loop ::
    "(byte \<Rightarrow> profile_lib) \<Rightarrow> Endpoint list \<Rightarrow> byte list \<Rightarrow> zdp_reply \<Rightarrow> Device \<Rightarrow> Endpoint list \<Rightarrow> archive \<Rightarrow>
     ub + (Endpoint list \<times> archive)" where
  "getAllEndpointSimpleDesc_loop libs lcls junk reply d [] z = Inr ([], z)"
| "getAllEndpointSimpleDesc_loop libs lcls junk reply d (e # es) z =
     bindE (if ep_id e \<noteq> 0 then simple_desc_req libs lcls junk reply d (e, z) else Inr (e, z)) (\<lambda>(e, z).
     bindE (getAllEndpointSimpleDesc_loop libs lcls junk reply d es z) (\<lambda>(es, z). Inr (e # es, z)))"

definition getAllEndpointSimpleDesc ::
    "(byte \<Rightarrow> profile_lib) \<Rightarrow> Endpoint list \<Rightarrow> byte list \<Rightarrow> zdp_reply \<Rightarrow> Device \<times> archive \<Rightarrow> ub + (Device \<times> archive)" where
  "getAllEndpointSimpleDesc libs lcls junk reply s =
     (case s of (d, z) \<Rightarrow>
        bindE (getAllEndpointSimpleDesc_loop libs lcls junk reply d (dev_endpoints d) z) (\<lambda>(es, z).
          Inr (d\<lparr>dev_endpoints := es\<rparr>, z)))"

text \<open>What \<^verbatim>\<open>device_annce_proc\<close> and \<^verbatim>\<open>deviceQuery\<close> do to a device once they have it.\<close>

definition query_device ::
    "(byte \<Rightarrow> profile_lib) \<Rightarrow> Endpoint list \<Rightarrow> byte list \<Rightarrow> zdp_reply \<Rightarrow> Device \<times> archive \<Rightarrow> ub + (Device \<times> archive)" where
  "query_device libs lcls junk reply s =
     bindE (node_desc_req junk reply s) (\<lambda>s.
     bindE (active_ep_req junk reply s) (\<lambda>s.
     bindE (getAllEndpointSimpleDesc libs lcls junk reply s) (\<lambda>(d, z). Inr (d\<lparr>dev_active := 1\<rparr>, z))))"

definition set_assoc :: "nat \<Rightarrow> Device \<Rightarrow> Gateway \<Rightarrow> Gateway" where
  "set_assoc k d g = g\<lparr>dev_assocs := (dev_assocs g)[k := d]\<rparr>"

definition device_annce_proc ::
    "(byte \<Rightarrow> profile_lib) \<Rightarrow> byte list \<Rightarrow> zdp_reply \<Rightarrow> AFMessage \<Rightarrow> zdo_state \<Rightarrow> ub + zdo_state" where
  "device_annce_proc libs junk reply msg s =
     bindE (message_preprocess msg 12 True) (\<lambda>r.
       case r of
         None \<Rightarrow> Inr s
       | Some (p, NwkAddrOfInterest) \<Rightarrow>
           bindE (ANSITohostInt (asdu msg) p) (\<lambda>(n, ieee_addr :: u64).
           bindE (rd (asdu msg) (p + n)) (\<lambda>cap.
             case assocs64 ieee_addr (gateway s) of (k, g) \<Rightarrow>
               bindE (query_device libs (dev_endpoints g) junk reply
                   ((dev_assocs g ! k)\<lparr>dev_id := NwkAddrOfInterest, ieee_id := ieee_addr, dev_capability := cap\<rparr>, zar s)) (\<lambda>(d, z).
                 Inr \<lparr>gateway = set_assoc k d g, zar = z\<rparr>))))"

text \<open>\<open>extAddr\<close> is what \<^verbatim>\<open>getAssocExtAddr\<close> returns.\<close>

definition deviceQuery ::
    "(byte \<Rightarrow> profile_lib) \<Rightarrow> byte list \<Rightarrow> zdp_reply \<Rightarrow> u64 \<Rightarrow> u16 \<Rightarrow> zdo_state \<Rightarrow> ub + zdo_state" where
  "deviceQuery libs junk reply extAddr shortAddr s =
     (case assocs16 shortAddr (gateway s) of (k, g) \<Rightarrow>
        bindE (query_device libs (dev_endpoints g) junk reply
            ((dev_assocs g ! k)\<lparr>dev_id := shortAddr, ieee_id := extAddr\<rparr>, zar s)) (\<lambda>(d, z).
          Inr \<lparr>gateway = set_assoc k d g, zar = z\<rparr>))"

definition refreshDevice ::
    "(byte \<Rightarrow> profile_lib) \<Rightarrow> byte list \<Rightarrow> zdp_reply \<Rightarrow> u64 \<Rightarrow> u16 \<Rightarrow> zdo_state \<Rightarrow> ub + zdo_state" where
  "refreshDevice libs junk reply extAddr shortAddr s =
     deviceQuery libs junk reply extAddr shortAddr (s\<lparr>gateway := removeAssoc shortAddr (gateway s)\<rparr>)"

text \<open>\<^verbatim>\<open>match_Desc_req_proc\<close> reads one byte; the fallback prints messages of one cluster into a 128-byte array.\<close>

definition zdo_callback ::
    "(byte \<Rightarrow> profile_lib) \<Rightarrow> byte list \<Rightarrow> byte list \<Rightarrow> zdp_reply \<Rightarrow> AFMessage \<Rightarrow> zdo_state \<Rightarrow> ub + zdo_state" where
  "zdo_callback libs junk apduStr reply msg s =
     (if clusterId msg = 0x0013 then device_annce_proc libs junk reply msg s
      else if clusterId msg = 0x0006 then bindE (rd (asdu msg) 4) (\<lambda>_. Inr s)
      else if clusterId msg AND 0x7fff = 0x0036
      then bindE (kByteToHexString apduStr (asdu msg) (unat (asduLen msg))) (\<lambda>_. Inr s)
      else Inr s)"

text \<open>The handler of \<^verbatim>\<open>Mgmt_Leave_req\<close>, and the permit-join request; the result is the status reported.\<close>

definition Mgmt_Leave_req :: "zdp_reply \<Rightarrow> u64 \<Rightarrow> zdo_state \<Rightarrow> ub + (int \<times> zdo_state)" where
  "Mgmt_Leave_req reply ieeeAddr s =
     (case assocs64 ieeeAddr (gateway s) of (k, g) \<Rightarrow>
        (let s' = \<lparr>gateway = removeAssoc (dev_id (dev_assocs g ! k)) g, zar = snd (removeDev ieeeAddr (zar s))\<rparr> in
         case reply 0x0034 0 0 of
           None \<Rightarrow> Inr (-1, s')
         | Some x \<Rightarrow> bindE (rd x 1) (\<lambda>status. Inr (int (unat status), s'))))"

definition Mgmt_Permit_Joining_req :: "zdp_reply \<Rightarrow> byte \<Rightarrow> ub + byte" where
  "Mgmt_Permit_Joining_req reply status =
     (case reply 0x0036 0 0 of None \<Rightarrow> Inr status | Some x \<Rightarrow> rd x 1)"

section \<open>Recovery at start-up\<close>

definition json_at :: "string \<Rightarrow> json \<Rightarrow> json" where
  "json_at k j = (case jget j [Key k] of Some x \<Rightarrow> x | None \<Rightarrow> JNull)"

fun recover_simple_desc ::
    "(byte \<Rightarrow> profile_lib) \<Rightarrow> Endpoint list \<Rightarrow> json \<Rightarrow> Endpoint list \<Rightarrow> ub + Endpoint list" where
  "recover_simple_desc libs lcls dev [] = Inr []"
| "recover_simple_desc libs lcls dev (e # es) =
     bindE (let sd = json_toString (json_at ''SimpleDescApdu'' (json_at (hexkey (ep_id e)) (json_at ''endpointList'' dev))) in
            if ep_id e \<noteq> 0 \<and> 0 < length sd
            then bindE (hexStrToByteVec sd) (\<lambda>v. bindE (simple_desc_req_apdu_process v) (\<lambda>d.
                   Inr (snd (snd (aps_newpeer_handle libs lcls (e\<lparr>simpleDescriptor := d\<rparr>))))))
            else Inr e) (\<lambda>e. bindE (recover_simple_desc libs lcls dev es) (\<lambda>es. Inr (e # es)))"

definition recover_device :: "(byte \<Rightarrow> profile_lib) \<Rightarrow> json \<Rightarrow> Gateway \<Rightarrow> ub + Gateway" where
  "recover_device libs dev g =
     bindE (toInteger (json_at ''nwkAddr'' dev)) (\<lambda>nwk.
       case assocs16 (ucast nwk) g of (k, g) \<Rightarrow>
       bindE (toInteger (json_at ''ieeeAddr'' dev)) (\<lambda>ieee.
       let d = (dev_assocs g ! k)\<lparr>ieee_id := ieee, dev_active := 1\<rparr> in
       bindE (hexStrToByteVec (json_toString (json_at ''NodeDescApduString'' dev))) (\<lambda>v.
       bindE (node_desc_req_apdu_process v) (\<lambda>nd.
       bindE (hexStrToByteVec (json_toString (json_at ''ActiveEndpointApduString'' dev))) (\<lambda>v.
       bindE (active_ep_req_apdu_process v (d\<lparr>nodeDescriptor := nd\<rparr>)) (\<lambda>d.
       bindE (recover_simple_desc libs (dev_endpoints g) dev (dev_endpoints d)) (\<lambda>es.
         Inr (set_assoc k (d\<lparr>dev_endpoints := es\<rparr>) g))))))))"

fun recover_devices :: "(byte \<Rightarrow> profile_lib) \<Rightarrow> (string \<times> json) list \<Rightarrow> Gateway \<Rightarrow> ub + Gateway" where
  "recover_devices libs [] g = Inr g"
| "recover_devices libs (m # ms) g = bindE (recover_device libs (snd m) g) (recover_devices libs ms)"

text \<open>Without a readable archive the file is cleared and the process restarts.\<close>

definition recoverEndpoint :: "(byte \<Rightarrow> profile_lib) \<Rightarrow> zdo_state \<Rightarrow> ub + (int \<times> zdo_state)" where
  "recoverEndpoint libs s =
     (case zar s of
        None \<Rightarrow> Inr (-1, s\<lparr>zar := Some (JObj [])\<rparr>)
      | Some (JObj ms) \<Rightarrow> bindE (recover_devices libs ms (gateway s)) (\<lambda>g. Inr (0, s\<lparr>gateway := g\<rparr>))
      | Some _ \<Rightarrow> Inr (0, s))"

section \<open>Descriptors as the specification lays them out\<close>

definition node_desc_bytes :: "NodeDescriptor_t \<Rightarrow> byte list" where
  "node_desc_bytes nd =
     [LogicalType nd OR push_bit 3 (ComplexDescAvail nd) OR push_bit 4 (UserDescAvail nd) OR push_bit 5 (nd_Reserved nd),
      APSFlags nd OR push_bit 3 (FrequencyBand nd), CapabilityFlags nd] @
     le_bytes 2 (ManufacturerCode nd) @ [MaxBufferSize nd] @ le_bytes 2 (MaxInTransferSize nd) @
     le_bytes 2 (ServerMask nd) @ le_bytes 2 (MaxOutTransferSize nd) @ [DescriptorCapability nd]"

text \<open>The widths of the bit fields.\<close>

definition node_desc_wf :: "NodeDescriptor_t \<Rightarrow> bool" where
  "node_desc_wf nd \<longleftrightarrow> LogicalType nd = take_bit 3 (LogicalType nd) \<and> ComplexDescAvail nd = take_bit 1 (ComplexDescAvail nd) \<and>
     UserDescAvail nd = take_bit 1 (UserDescAvail nd) \<and> nd_Reserved nd = take_bit 3 (nd_Reserved nd) \<and>
     APSFlags nd = take_bit 3 (APSFlags nd) \<and> FrequencyBand nd = take_bit 5 (FrequencyBand nd)"

definition simple_desc_bytes :: "SimpleDescriptor \<Rightarrow> byte list" where
  "simple_desc_bytes sd =
     [endpointAddr sd] @ le_bytes 2 (profileId sd) @ le_bytes 2 (sd_deviceId sd) @ [deviceVersion sd] @
     [of_nat (length (inclusterList sd))] @ concat (map (le_bytes 2) (inclusterList sd)) @
     [of_nat (length (outclusterList sd))] @ concat (map (le_bytes 2) (outclusterList sd))"

lemma ANSI_u16 [simp]:
  "off + 2 \<le> length buf \<Longrightarrow> ANSITohostInt buf off = Inr (2, le_word (slice off 2 buf) :: u16)"
  by (simp add: ANSITohostInt_def sizeof_def)

lemma ANSI_u64 [simp]:
  "off + 8 \<le> length buf \<Longrightarrow> ANSITohostInt buf off = Inr (8, le_word (slice off 8 buf) :: u64)"
  by (simp add: ANSITohostInt_def sizeof_def)

text \<open>The masks of the source as fields, and fields packed into a byte.\<close>

lemma byte_masks:
  "(b :: byte) AND 0x07 = take_bit 3 b" "drop_bit 3 (b AND 0x08) = take_bit 1 (drop_bit 3 b)"
  "drop_bit 4 (b AND 0x10) = take_bit 1 (drop_bit 4 b)" "drop_bit 5 (b AND 0xE0) = take_bit 3 (drop_bit 5 b)"
  "drop_bit 3 (b AND 0xF8) = take_bit 5 (drop_bit 3 b)"
  unfolding drop_bit_and take_bit_eq_mask by (simp_all add: mask_eq_exp_minus_1)

lemma bit_field: "a = take_bit k a \<Longrightarrow> bit (a :: byte) n \<Longrightarrow> n < k"
  by (metis bit_take_bit_iff)

lemma bit_pushed: "n < 8 \<Longrightarrow> bit (push_bit k (b :: byte)) n \<longleftrightarrow> k \<le> n \<and> bit b (n - k)"
  by (simp add: bit_push_bit_iff possible_bit_def)

lemma bit_byte: "bit (b :: byte) n \<Longrightarrow> n < 8"
  using bit_imp_le_length [of b n] by simp

lemma four_fields:
  assumes "a = take_bit 3 a" and "b = take_bit 1 b" and "c = take_bit 1 c" and "d = take_bit 3 (d :: byte)"
  defines "w \<equiv> a OR push_bit 3 b OR push_bit 4 c OR push_bit 5 d"
  shows "take_bit 3 w = a" and "take_bit 1 (drop_bit 3 w) = b" and "take_bit 1 (drop_bit 4 w) = c" and "take_bit 3 (drop_bit 5 w) = d"
proof -
  note f = bit_field [OF assms(1)] bit_field [OF assms(2)] bit_field [OF assms(3)] bit_field [OF assms(4)]
  have w: "bit w n \<longleftrightarrow> n < 8 \<and> (bit a n \<or> 3 \<le> n \<and> bit b (n - 3) \<or> 4 \<le> n \<and> bit c (n - 4) \<or> 5 \<le> n \<and> bit d (n - 5))" for n
    unfolding w_def by (cases "n < 8") (auto simp: bit_or_iff bit_pushed dest: bit_byte)
  show "take_bit 3 w = a"
    by (rule bit_word_eqI) (simp only: bit_take_bit_iff w, auto dest: f)
  show "take_bit 1 (drop_bit 3 w) = b"
    by (rule bit_word_eqI) (simp only: bit_take_bit_iff bit_drop_bit_eq comp_apply w, auto dest: f)
  show "take_bit 1 (drop_bit 4 w) = c"
    by (rule bit_word_eqI) (simp only: bit_take_bit_iff bit_drop_bit_eq comp_apply w, auto dest: f)
  show "take_bit 3 (drop_bit 5 w) = d"
    by (rule bit_word_eqI) (simp only: bit_take_bit_iff bit_drop_bit_eq comp_apply w, auto dest: f)
qed

lemma two_fields:
  assumes "a = take_bit 3 a" and "b = take_bit 5 (b :: byte)"
  shows "take_bit 3 (a OR push_bit 3 b) = a" and "take_bit 5 (drop_bit 3 (a OR push_bit 3 b)) = b"
proof -
  note f = bit_field [OF assms(1)] bit_field [OF assms(2)]
  have w: "bit (a OR push_bit 3 b) n \<longleftrightarrow> n < 8 \<and> (bit a n \<or> 3 \<le> n \<and> bit b (n - 3))" for n
    by (cases "n < 8") (auto simp: bit_or_iff bit_pushed dest: bit_byte)
  show "take_bit 3 (a OR push_bit 3 b) = a"
    by (rule bit_word_eqI) (simp only: bit_take_bit_iff w, auto dest: f)
  show "take_bit 5 (drop_bit 3 (a OR push_bit 3 b)) = b"
    by (rule bit_word_eqI) (simp only: bit_take_bit_iff bit_drop_bit_eq comp_apply w, auto dest: f)
qed

lemma fields_of_byte:
  "take_bit 3 b OR push_bit 3 (take_bit 1 (drop_bit 3 b)) OR push_bit 4 (take_bit 1 (drop_bit 4 b)) OR
     push_bit 5 (take_bit 3 (drop_bit 5 b)) = (b :: byte)"
  "take_bit 3 b OR push_bit 3 (take_bit 5 (drop_bit 3 b)) = b"
proof -
  show "take_bit 3 b OR push_bit 3 (take_bit 1 (drop_bit 3 b)) OR push_bit 4 (take_bit 1 (drop_bit 4 b)) OR
     push_bit 5 (take_bit 3 (drop_bit 5 b)) = b"
  proof (rule bit_word_eqI)
    fix n assume "n < LENGTH(8)"
    then have n: "n < 8" by simp
    then have "n < 3 \<or> n = 3 \<or> n = 4 \<or> 5 \<le> n" by linarith
    then show "bit (take_bit 3 b OR push_bit 3 (take_bit 1 (drop_bit 3 b)) OR push_bit 4 (take_bit 1 (drop_bit 4 b)) OR
       push_bit 5 (take_bit 3 (drop_bit 5 b))) n = bit b n"
      by (simp only: bit_or_iff bit_pushed [OF n] bit_take_bit_iff bit_drop_bit_eq comp_apply, elim disjE) (use n in auto)
  qed
  show "take_bit 3 b OR push_bit 3 (take_bit 5 (drop_bit 3 b)) = b"
  proof (rule bit_word_eqI)
    fix n assume "n < LENGTH(8)"
    then have n: "n < 8" by simp
    then show "bit (take_bit 3 b OR push_bit 3 (take_bit 5 (drop_bit 3 b))) n = bit b n"
      by (simp only: bit_or_iff bit_pushed [OF n] bit_take_bit_iff bit_drop_bit_eq comp_apply) auto
  qed
qed
lemma length_concat_le_bytes [simp]: "length (concat (map (le_bytes 2) is)) = 2 * length is"
  by (induction "is") simp_all

lemma node_desc_parse:
  assumes "node_desc_wf nd"
  shows "node_desc_req_apdu_process (node_desc_bytes nd @ rest) = Inr nd"
proof -
  let ?a = "node_desc_bytes nd @ rest"
  let ?b0 = "LogicalType nd OR push_bit 3 (ComplexDescAvail nd) OR push_bit 4 (UserDescAvail nd) OR push_bit 5 (nd_Reserved nd)"
  let ?b1 = "APSFlags nd OR push_bit 3 (FrequencyBand nd)"
  have r: "rd ?a 0 = Inr ?b0" "rd ?a 1 = Inr ?b1" "rd ?a 2 = Inr (CapabilityFlags nd)" "rd ?a (3 + 2) = Inr (MaxBufferSize nd)"
    "rd ?a (4 + 2 + 2 + 2 + 2) = Inr (DescriptorCapability nd)"
    by (simp_all add: rd_def node_desc_bytes_def le_bytes_2)
  have m: "ANSITohostInt ?a 3 = Inr (2, ManufacturerCode nd)" "ANSITohostInt ?a (4 + 2) = Inr (2, MaxInTransferSize nd)"
    "ANSITohostInt ?a (4 + 2 + 2) = Inr (2, ServerMask nd)" "ANSITohostInt ?a (4 + 2 + 2 + 2) = Inr (2, MaxOutTransferSize nd)"
    by (simp_all add: node_desc_bytes_def slice_def)
  note w0 = assms [unfolded node_desc_wf_def]
  note w = w0 [THEN conjunct1] w0 [THEN conjunct2, THEN conjunct1] w0 [THEN conjunct2, THEN conjunct2, THEN conjunct1]
    w0 [THEN conjunct2, THEN conjunct2, THEN conjunct2, THEN conjunct1]
    w0 [THEN conjunct2, THEN conjunct2, THEN conjunct2, THEN conjunct2, THEN conjunct1]
    w0 [THEN conjunct2, THEN conjunct2, THEN conjunct2, THEN conjunct2, THEN conjunct2]
  have f: "take_bit 3 ?b0 = LogicalType nd" "take_bit 1 (drop_bit 3 ?b0) = ComplexDescAvail nd"
    "take_bit 1 (drop_bit 4 ?b0) = UserDescAvail nd" "take_bit 3 (drop_bit 5 ?b0) = nd_Reserved nd"
    "take_bit 3 ?b1 = APSFlags nd" "take_bit 5 (drop_bit 3 ?b1) = FrequencyBand nd"
    by (fact four_fields [OF w(1,2,3,4)] two_fields [OF w(5,6)])+
  show ?thesis
    unfolding node_desc_req_apdu_process_def byte_masks by (simp only: r m f bindE_simps prod.case) simp
qed

lemma read_clusters_parse:
  "read_clusters (length is) (pre @ concat (map (le_bytes 2) is) @ rest) (length pre) = Inr (is, length pre + 2 * length is)"
proof (induction "is" arbitrary: pre)
  case Nil
  then show ?case by simp
next
  case (Cons i "is")
  have "slice (length pre) 2 (pre @ concat (map (le_bytes 2) (i # is)) @ rest) = le_bytes 2 i"
    by (simp add: slice_def)
  moreover have "read_clusters (length is) ((pre @ le_bytes 2 i) @ concat (map (le_bytes 2) is) @ rest) (length (pre @ le_bytes 2 i)) =
      Inr (is, length (pre @ le_bytes 2 i) + 2 * length is)"
    by (rule Cons.IH)
  ultimately show ?case by simp
qed

lemma simple_desc_parse:
  assumes "length (inclusterList sd) < 256" and "length (outclusterList sd) < 256"
  shows "simple_desc_req_apdu_process (simple_desc_bytes sd @ rest) = Inr sd"
proof -
  let ?in = "inclusterList sd" and ?out = "outclusterList sd"
  let ?h = "[endpointAddr sd] @ le_bytes 2 (profileId sd) @ le_bytes 2 (sd_deviceId sd) @ [deviceVersion sd] @ [of_nat (length ?in)]"
  let ?t = "concat (map (le_bytes 2) ?out) @ rest"
  let ?a = "?h @ concat (map (le_bytes 2) ?in) @ [of_nat (length ?out)] @ ?t"
  have a: "simple_desc_bytes sd @ rest = ?a" by (simp add: simple_desc_bytes_def)
  have n: "unat (of_nat (length ?in) :: byte) = length ?in" "unat (of_nat (length ?out) :: byte) = length ?out"
    using assms by (simp_all add: unat_of_nat)
  have 1: "read_clusters (length ?in) ?a 7 = Inr (?in, 7 + 2 * length ?in)"
    using read_clusters_parse [of ?in ?h "[of_nat (length ?out)] @ ?t"] by simp
  have 2: "?a ! (7 + 2 * length ?in) = of_nat (length ?out)" "7 + 2 * length ?in < length ?a"
    by (simp_all add: nth_append)
  have 3: "read_clusters (length ?out) ?a (8 + 2 * length ?in) = Inr (?out, 8 + 2 * length ?in + 2 * length ?out)"
  proof -
    let ?pre = "?h @ concat (map (le_bytes 2) ?in) @ [of_nat (length ?out)]"
    have l: "length ?pre = 8 + 2 * length ?in" by simp
    show ?thesis using read_clusters_parse [of ?out ?pre rest] unfolding l by (simp only: append_assoc append.simps)
  qed
  have r: "rd ?a 0 = Inr (endpointAddr sd)" "rd ?a (1 + 2 + 2) = Inr (deviceVersion sd)" "rd ?a (2 + 2 + 2) = Inr (of_nat (length ?in))"
    by (simp_all add: rd_def le_bytes_2)
  have r': "rd ?a (7 + 2 * length ?in) = Inr (of_nat (length ?out))"
    unfolding rd_def using 2 by (simp only: if_True)
  have m: "ANSITohostInt ?a 1 = Inr (2, profileId sd)" "ANSITohostInt ?a (1 + 2) = Inr (2, sd_deviceId sd)"
    by (simp_all add: slice_def)
  have e: "3 + 2 + 2 = (7::nat)" "Suc (7 + 2 * length ?in) = 8 + 2 * length ?in" by simp_all
  show ?thesis
    unfolding a simple_desc_req_apdu_process_def
    by (simp only: r r' m e n 1 3 bindE_simps prod.case) simp
qed

lemma length_13_bytes:
  assumes "13 \<le> length a"
  shows "\<exists>b0 b1 b2 b3 b4 b5 b6 b7 b8 b9 b10 b11 b12 r. a = [b0, b1, b2, b3, b4, b5, b6, b7, b8, b9, b10, b11, b12] @ r"
  using assms by (auto simp: numeral_eq_Suc Suc_le_length_iff)

text \<open>Any 13 bytes are the image of a descriptor.\<close>

lemma node_desc_cover:
  assumes "13 \<le> length a"
  shows "\<exists>nd. node_desc_wf nd \<and> a = node_desc_bytes nd @ drop 13 a"
proof -
  obtain b0 b1 b2 b3 b4 b5 b6 b7 b8 b9 b10 b11 b12 r where
    a: "a = [b0, b1, b2, b3, b4, b5, b6, b7, b8, b9, b10, b11, b12] @ r"
    using length_13_bytes [OF assms] by blast
  let ?nd = "\<lparr>LogicalType = take_bit 3 b0, ComplexDescAvail = take_bit 1 (drop_bit 3 b0), UserDescAvail = take_bit 1 (drop_bit 4 b0),
    nd_Reserved = take_bit 3 (drop_bit 5 b0), APSFlags = take_bit 3 b1, FrequencyBand = take_bit 5 (drop_bit 3 b1),
    CapabilityFlags = b2, ManufacturerCode = le_word [b3, b4], MaxBufferSize = b5, MaxInTransferSize = le_word [b6, b7],
    ServerMask = le_word [b8, b9], MaxOutTransferSize = le_word [b10, b11], DescriptorCapability = b12\<rparr>"
  have le: "le_bytes 2 (le_word [x, y] :: u16) = [x, y]" for x y
    by (rule le_bytes_le_word) simp_all
  have "node_desc_wf ?nd"
    unfolding node_desc_wf_def NodeDescriptor_t.select_convs by (simp only: take_bit_take_bit min.idem)
  moreover have "a = node_desc_bytes ?nd @ drop 13 a"
    unfolding a node_desc_bytes_def NodeDescriptor_t.select_convs fields_of_byte le by simp
  ultimately show ?thesis by blast
qed

lemma node_desc_short:
  assumes "length a < 13"
  shows "node_desc_req_apdu_process a = Inl OobRead"
proof -
  have "\<exists>e. node_desc_req_apdu_process a = Inl e \<and> e = OobRead"
    using assms unfolding node_desc_req_apdu_process_def
    by (auto simp: rd_def ANSITohostInt_def sizeof_def bindE_def split: sum.splits if_splits)
  then show ?thesis by blast
qed

section \<open>Properties\<close>

text \<open>
  C35: The received node and simple descriptors are read as the specification lays them out: any descriptor
  with its bit fields in range and up to 255 clusters in each list is recovered from its bytes,
  whatever follows them; and every node descriptor of at least 13 bytes is read completely, while a
  shorter one is read past its end.
\<close>

theorem descriptors_roundtrip:
  "(node_desc_wf nd \<longrightarrow> node_desc_req_apdu_process (node_desc_bytes nd @ rest) = Inr nd) \<and>
   (13 \<le> length a \<longrightarrow> (\<exists>nd. node_desc_req_apdu_process a = Inr nd \<and> node_desc_wf nd \<and> node_desc_bytes nd = take 13 a)) \<and>
   (length a < 13 \<longrightarrow> node_desc_req_apdu_process a = Inl OobRead) \<and>
   (length (inclusterList sd) < 256 \<and> length (outclusterList sd) < 256 \<longrightarrow>
      simple_desc_req_apdu_process (simple_desc_bytes sd @ rest) = Inr sd)"
proof (intro conjI impI)
  show "13 \<le> length a \<Longrightarrow> \<exists>nd. node_desc_req_apdu_process a = Inr nd \<and> node_desc_wf nd \<and> node_desc_bytes nd = take 13 a"
  proof -
    assume "13 \<le> length a"
    from node_desc_cover [OF this] obtain d where d: "node_desc_wf d" "a = node_desc_bytes d @ drop 13 a" by blast
    have "length (node_desc_bytes d) = 13" by (simp add: node_desc_bytes_def)
    with d(2) have "node_desc_bytes d = take 13 a" by (metis append_eq_conv_conj)
    with d node_desc_parse [OF d(1), of "drop 13 a"] show ?thesis by auto
  qed
qed (use node_desc_parse node_desc_short simple_desc_parse in blast)+

section \<open>Witnesses\<close>

definition router_descriptor :: NodeDescriptor_t where
  "router_descriptor = node_descriptor_0\<lparr>LogicalType := 1, FrequencyBand := 8, CapabilityFlags := 0x8E, ManufacturerCode := 0x100B,
     MaxBufferSize := 82, MaxInTransferSize := 128, MaxOutTransferSize := 128\<rparr>"

theorem descriptors_roundtrip_witness:
  "node_desc_req_apdu_process (node_desc_bytes router_descriptor @ [7]) = Inr router_descriptor \<and>
   (\<exists>nd. node_desc_req_apdu_process (replicate 13 0xFF) = Inr nd \<and> node_desc_bytes nd = replicate 13 0xFF) \<and>
   node_desc_req_apdu_process (replicate 12 0) = Inl OobRead \<and>
   simple_desc_req_apdu_process (simple_desc_bytes lamp_descriptor @ [7]) = Inr lamp_descriptor"
proof (intro conjI)
  have "node_desc_wf router_descriptor" by (simp add: node_desc_wf_def router_descriptor_def node_descriptor_0_def)
  then show "node_desc_req_apdu_process (node_desc_bytes router_descriptor @ [7]) = Inr router_descriptor"
    by (rule descriptors_roundtrip [THEN conjunct1, rule_format])
  show "\<exists>nd. node_desc_req_apdu_process (replicate 13 0xFF) = Inr nd \<and> node_desc_bytes nd = replicate 13 0xFF"
    using descriptors_roundtrip [THEN conjunct2, THEN conjunct1, of "replicate 13 0xFF"] by auto
  show "node_desc_req_apdu_process (replicate 12 0) = Inl OobRead"
    using descriptors_roundtrip [THEN conjunct2, THEN conjunct2, THEN conjunct1, of "replicate 12 0"] by simp
  show "simple_desc_req_apdu_process (simple_desc_bytes lamp_descriptor @ [7]) = Inr lamp_descriptor"
    using descriptors_roundtrip [THEN conjunct2, THEN conjunct2, THEN conjunct2, of lamp_descriptor "[7]"]
    by (simp add: lamp_descriptor_def)
qed

end
