(* ===== verification/Network.thy ===== *)
theory Network
  imports Zdo
begin

text \<open>
  What the ZigBee device objects of theory Zdo do to the network the gateway keeps: the state after
  any sequence of announcements and leave requests, the effect of each, and what becomes of the
  archive at the next start.
\<close>

section \<open>Steps of the network\<close>

definition device_wf :: "Device \<Rightarrow> bool" where
  "device_wf d \<longleftrightarrow> distinct (map ep_id (dev_endpoints d)) \<and> (\<forall>e \<in> set (dev_endpoints d). endpoint_wf e)"

definition network_wf :: "zdo_state \<Rightarrow> bool" where
  "network_wf s \<longleftrightarrow> distinct (map ieee_id (dev_assocs (gateway s))) \<and> (\<forall>d \<in> set (dev_assocs (gateway s)). device_wf d)"

inductive zdo_step :: "(byte \<Rightarrow> profile_lib) \<Rightarrow> zdo_state \<Rightarrow> zdo_state \<Rightarrow> bool" for libs where
  step_message: "zdo_callback libs junk apduStr reply msg s = Inr t \<Longrightarrow> zdo_step libs s t"
| step_leave: "Mgmt_Leave_req reply ieee s = Inr (r, t) \<Longrightarrow> zdo_step libs s t"

definition zdo_start :: "zdo_state \<Rightarrow> bool" where
  "zdo_start s \<longleftrightarrow> dev_assocs (gateway s) = []"

section \<open>The queries keep endpoints apart\<close>

lemma newpeer_keeps:
  "ep_id (snd (snd (aps_newpeer_handle libs lcls r))) = ep_id r \<and>
   (endpoint_wf r \<longrightarrow> endpoint_wf (snd (snd (aps_newpeer_handle libs lcls r))))"
proof (induction libs lcls r rule: aps_newpeer_handle.induct)
  case (1 libs remote)
  then show ?case by simp
next
  case (2 libs lcl rest remote)
  obtain fresh clusLib dtLib where lib: "libs (ep_id lcl) = (fresh, clusLib, dtLib)" by (cases "libs (ep_id lcl)")
  let ?r = "remote\<lparr>localPeer := Some (ep_id lcl)\<rparr>"
  have wf: "endpoint_wf ?r = endpoint_wf remote" by (simp add: endpoint_wf_def)
  let ?f = "fold (add_cluster fresh clusLib dtLib) (inclusterList (simpleDescriptor remote)) ?r"
  note add = add_clusters_effect [of _ _ ?r fresh clusLib dtLib "inclusterList (simpleDescriptor remote)"]
  have "ep_id ?f = ep_id remote"
    by (subst add [THEN conjunct2, THEN conjunct2, THEN conjunct2]) simp
  moreover have "endpoint_wf remote \<longrightarrow> endpoint_wf ?f"
    using add [THEN conjunct2, THEN conjunct2, THEN conjunct1] wf by simp
  ultimately show ?case
    using 2 wf lib by (simp add: establish_profile_def Let_def)
qed

lemma simple_desc_req_keeps:
  "simple_desc_req libs lcls junk reply d (e, z) = Inr (e', z') \<Longrightarrow>
   ep_id e' = ep_id e \<and> (endpoint_wf e \<longrightarrow> endpoint_wf e')"
  using newpeer_keeps [of libs lcls "e\<lparr>simpleDescriptor := sd\<rparr>" for sd]
  by (fastforce simp: simple_desc_req_def returns_iff endpoint_wf_def split: option.splits)

lemma getAll_loop_keeps:
  "getAllEndpointSimpleDesc_loop libs lcls junk reply d es z = Inr (es', z') \<Longrightarrow>
   map ep_id es' = map ep_id es \<and> ((\<forall>e \<in> set es. endpoint_wf e) \<longrightarrow> (\<forall>e \<in> set es'. endpoint_wf e))"
proof (induction es arbitrary: z es')
  case Nil
  then show ?case by simp
next
  case (Cons e es)
  from Cons.prems obtain e1 z1 es1 where
    one: "(if ep_id e \<noteq> 0 then simple_desc_req libs lcls junk reply d (e, z) else Inr (e, z)) = Inr (e1, z1)"
    and rest: "getAllEndpointSimpleDesc_loop libs lcls junk reply d es z1 = Inr (es1, z')" and es': "es' = e1 # es1"
    by (auto simp: returns_iff simp del: getAllEndpointSimpleDesc_loop.simps(1))
  have "ep_id e1 = ep_id e \<and> (endpoint_wf e \<longrightarrow> endpoint_wf e1)"
    using one simple_desc_req_keeps [of libs lcls junk reply d e z e1 z1] by (auto split: if_splits)
  with Cons.IH [OF rest] es' show ?case by auto
qed

lemma active_ep_loop_keeps:
  "active_ep_loop n apdu p es = Inr es' \<Longrightarrow> distinct (map ep_id es) \<Longrightarrow> (\<forall>e \<in> set es. endpoint_wf e) \<Longrightarrow>
   distinct (map ep_id es') \<and> (\<forall>e \<in> set es'. endpoint_wf e)"
proof (induction n arbitrary: p es)
  case 0
  then show ?case by simp
next
  case (Suc n)
  from Suc.prems(1) obtain i where i: "active_ep_loop n apdu (Suc p) (snd (endpoints i es)) = Inr es'"
    by (auto simp: returns_iff)
  obtain k fs where fs: "find_if es (\<lambda>x. ep_id x = i) (new_Endpoint i) = (k, fs)" by fastforce
  have "distinct (map ep_id fs)" by (rule eps.distinct_kept [OF fs Suc.prems(2)])
  moreover have "\<forall>e \<in> set fs. endpoint_wf e" using eps.kept [OF fs] Suc.prems(3) by auto
  ultimately show ?case using Suc.IH [OF i] fs by (simp add: endpoints_def)
qed

lemma node_desc_req_keeps:
  "node_desc_req junk reply (d, z) = Inr (d', z') \<Longrightarrow> \<exists>nd. d' = d\<lparr>nodeDescriptor := nd\<rparr>"
  by (auto simp: node_desc_req_def returns_iff split: option.splits intro: exI [of _ "nodeDescriptor d"])

lemma active_ep_req_keeps:
  "active_ep_req junk reply (d, z) = Inr (d', z') \<Longrightarrow>
   (\<exists>fs. d' = d\<lparr>dev_endpoints := fs\<rparr>) \<and> (device_wf d \<longrightarrow> device_wf d')"
proof (cases "reply 0x0005 (dev_id d) 0")
  case None
  then show "active_ep_req junk reply (d, z) = Inr (d', z') \<Longrightarrow> ?thesis"
    by (simp add: active_ep_req_def) (metis Device.surjective Device.update_convs(5))
next
  case (Some x)
  assume "active_ep_req junk reply (d, z) = Inr (d', z')"
  with Some obtain n p fs where loop: "active_ep_loop n p 1 (dev_endpoints d) = Inr fs" and d': "d' = d\<lparr>dev_endpoints := fs\<rparr>"
    by (auto simp: active_ep_req_def active_ep_req_apdu_process_def returns_iff)
  have "device_wf d \<longrightarrow> device_wf d'"
    using active_ep_loop_keeps [OF loop] d' by (simp add: device_wf_def)
  with d' show ?thesis by blast
qed

lemma query_device_keeps:
  assumes "query_device libs lcls junk reply (d, z) = Inr (d', z')"
  shows "dev_id d' = dev_id d \<and> ieee_id d' = ieee_id d \<and> dev_capability d' = dev_capability d \<and> dev_active d' = 1 \<and>
    (device_wf d \<longrightarrow> device_wf d')"
proof -
  from assms obtain d1 z1 d2 z2 es z3 where
    1: "node_desc_req junk reply (d, z) = Inr (d1, z1)" and 2: "active_ep_req junk reply (d1, z1) = Inr (d2, z2)"
    and 3: "getAllEndpointSimpleDesc_loop libs lcls junk reply d2 (dev_endpoints d2) z2 = Inr (es, z3)"
    and d': "d' = d2\<lparr>dev_endpoints := es, dev_active := 1\<rparr>"
    unfolding query_device_def getAllEndpointSimpleDesc_def by (auto simp: returns_iff)
  obtain nd where d1: "d1 = d\<lparr>nodeDescriptor := nd\<rparr>" using node_desc_req_keeps [OF 1] by blast
  obtain fs where d2: "d2 = d1\<lparr>dev_endpoints := fs\<rparr>" "device_wf d1 \<longrightarrow> device_wf d2"
    using active_ep_req_keeps [OF 2] by blast
  have "device_wf d1 = device_wf d" using d1 by (simp add: device_wf_def)
  moreover have "device_wf d2 \<longrightarrow> device_wf d'" using getAll_loop_keeps [OF 3] d' by (simp add: device_wf_def)
  ultimately show ?thesis using d1 d2 d' by simp
qed

section \<open>Finding the device\<close>

lemma find_if_cases:
  "find_if xs p new = (k, ys) \<Longrightarrow>
   (ys = xs \<and> k < length xs \<and> p (xs ! k)) \<or> ((\<forall>x \<in> set xs. \<not> p x) \<and> k = 0 \<and> ys = new # xs)"
proof -
  have some: "find_if_loop xs p = Some i \<Longrightarrow> i < length xs \<and> p (xs ! i)" for i
    by (induction xs arbitrary: i) (auto split: if_splits)
  have none: "find_if_loop xs p = None \<Longrightarrow> \<forall>x \<in> set xs. \<not> p x"
    by (induction xs) (auto split: if_splits)
  assume "find_if xs p new = (k, ys)"
  with some none show ?thesis by (auto simp: find_if_def split: option.splits)
qed

lemma assocs64_cases:
  assumes "assocs64 i g = (k, g')"
  shows "(g' = g \<and> k < length (dev_assocs g) \<and> ieee_id (dev_assocs g ! k) = i) \<or>
    (i \<notin> ieee_id ` set (dev_assocs g) \<and> k = 0 \<and> g' = g\<lparr>dev_assocs := new_Device (ucast i) # dev_assocs g\<rparr>)"
proof -
  obtain ys where f: "find_if (dev_assocs g) (\<lambda>x. ieee_id x = i) (new_Device (ucast i)) = (k, ys)" and g': "g' = g\<lparr>dev_assocs := ys\<rparr>"
    using assms by (auto simp: assocs64_def split: prod.splits)
  from find_if_cases [OF f] g' show ?thesis by auto
qed

lemma annce_effect:
  assumes "device_annce_proc libs junk reply msg s = Inr t"
  shows "t = s \<or> (\<exists>k g nwk ieee cap d z. assocs64 ieee (gateway s) = (k, g) \<and>
     query_device libs (dev_endpoints g) junk reply
       ((dev_assocs g ! k)\<lparr>dev_id := nwk, ieee_id := ieee, dev_capability := cap\<rparr>, zar s) = Inr (d, z) \<and>
     t = \<lparr>gateway = set_assoc k d g, zar = z\<rparr>)"
proof -
  obtain r where r: "message_preprocess msg 12 True = Inr r"
    using assms by (auto simp: device_annce_proc_def returns_iff)
  show ?thesis
  proof (cases r)
    case None
    with r assms show ?thesis by (simp add: device_annce_proc_def)
  next
    case (Some pn)
    obtain p nwk where pn: "pn = (p, nwk)" by fastforce
    with assms r Some obtain n cap and ieee :: u64 where a: "ANSITohostInt (asdu msg) p = Inr (n, ieee)" "rd (asdu msg) (p + n) = Inr cap"
      by (auto simp: device_annce_proc_def returns_iff)
    obtain k g where g: "assocs64 ieee (gateway s) = (k, g)" by fastforce
    from assms r Some pn a g obtain d z where
      "query_device libs (dev_endpoints g) junk reply
         ((dev_assocs g ! k)\<lparr>dev_id := nwk, ieee_id := ieee, dev_capability := cap\<rparr>, zar s) = Inr (d, z)"
      "t = \<lparr>gateway = set_assoc k d g, zar = z\<rparr>"
      unfolding device_annce_proc_def by (auto simp: bindE_Inr_iff)
    with g show ?thesis by blast
  qed
qed

lemma distinct_map_update:
  "distinct (map f xs) \<Longrightarrow> f y \<notin> f ` set xs \<or> (k < length xs \<and> f y = f (xs ! k)) \<Longrightarrow> distinct (map f (xs[k := y]))"
proof (elim disjE)
  assume d: "distinct (map f xs)" and n: "f y \<notin> f ` set xs"
  then show "distinct (map f (xs[k := y]))" by (simp add: map_update distinct_list_update)
next
  assume "distinct (map f xs)" and "k < length xs \<and> f y = f (xs ! k)"
  then show "distinct (map f (xs[k := y]))" using map_update_same [of k xs f y] by simp
qed

lemma network_wf_annce:
  assumes "network_wf s" and "device_annce_proc libs junk reply msg s = Inr t"
  shows "network_wf t"
proof -
  consider "t = s" | k g nwk ieee cap d z where "assocs64 ieee (gateway s) = (k, g)"
     "query_device libs (dev_endpoints g) junk reply
       ((dev_assocs g ! k)\<lparr>dev_id := nwk, ieee_id := ieee, dev_capability := cap\<rparr>, zar s) = Inr (d, z)"
     "t = \<lparr>gateway = set_assoc k d g, zar = z\<rparr>"
    using annce_effect [OF assms(2)] by blast
  then show ?thesis
  proof cases
    case 1
    then show ?thesis using assms(1) by simp
  next
    case 2
    let ?old = "dev_assocs (gateway s)"
    have wf_upd: "device_wf (x\<lparr>dev_id := a, ieee_id := b, dev_capability := c\<rparr>) = device_wf x" for x a b c
      by (simp add: device_wf_def)
    have new: "device_wf (new_Device i)" for i by (simp add: device_wf_def new_Device_def)
    note q = query_device_keeps [OF 2(2)]
    from assocs64_cases [OF 2(1)] show ?thesis
    proof
      assume a: "g = gateway s \<and> k < length ?old \<and> ieee_id (?old ! k) = ieee"
      then have "device_wf d" using q assms(1) wf_upd by (simp add: network_wf_def)
      then have "\<forall>x \<in> set (?old[k := d]). device_wf x"
        using assms(1) set_update_subset_insert [of ?old k d] by (auto simp: network_wf_def)
      moreover have "distinct (map ieee_id (?old[k := d]))"
        using assms(1) a q by (intro distinct_map_update) (auto simp: network_wf_def)
      ultimately show ?thesis using a 2(3) by (simp add: network_wf_def set_assoc_def)
    next
      assume a: "ieee \<notin> ieee_id ` set ?old \<and> k = 0 \<and> g = gateway s\<lparr>dev_assocs := new_Device (ucast ieee) # ?old\<rparr>"
      then have "device_wf d" and "ieee_id d = ieee" using q new wf_upd by simp_all
      then show ?thesis using a 2(3) assms(1) by (simp add: network_wf_def set_assoc_def)
    qed
  qed
qed

lemma leave_effect:
  assumes "Mgmt_Leave_req reply ieee s = Inr (r, t)"
  shows "gateway t = (case assocs64 ieee (gateway s) of (k, g) \<Rightarrow> removeAssoc (dev_id (dev_assocs g ! k)) g) \<and>
    zar t = snd (removeDev ieee (zar s)) \<and> (reply 0x0034 0 0 = None \<longrightarrow> r = -1)"
  using assms by (auto simp: Mgmt_Leave_req_def Let_def returns_iff split: prod.splits option.splits)

lemma leave_unknown:
  assumes "Mgmt_Leave_req reply ieee s = Inr (r, t)" and "ieee \<notin> ieee_id ` set (dev_assocs (gateway s))"
  shows "dev_assocs (gateway t) = filter (\<lambda>x. dev_id x \<noteq> ucast ieee) (dev_assocs (gateway s))"
proof -
  obtain k g where g: "assocs64 ieee (gateway s) = (k, g)" by fastforce
  from assocs64_cases [OF g] assms(2) have "k = 0" "g = gateway s\<lparr>dev_assocs := new_Device (ucast ieee) # dev_assocs (gateway s)\<rparr>"
    by auto
  with leave_effect [OF assms(1)] g show ?thesis by (simp add: removeAssoc_def new_Device_def)
qed

lemma leave_known:
  assumes "Mgmt_Leave_req reply ieee s = Inr (r, t)" and "ieee \<in> ieee_id ` set (dev_assocs (gateway s))"
  shows "\<exists>d \<in> set (dev_assocs (gateway s)). ieee_id d = ieee \<and>
    dev_assocs (gateway t) = filter (\<lambda>x. dev_id x \<noteq> dev_id d) (dev_assocs (gateway s))"
proof -
  obtain k g where g: "assocs64 ieee (gateway s) = (k, g)" by fastforce
  from assocs64_cases [OF g] assms(2) have k: "g = gateway s" "k < length (dev_assocs g)" "ieee_id (dev_assocs g ! k) = ieee"
    by auto
  with leave_effect [OF assms(1)] g show ?thesis
    by (intro bexI [of _ "dev_assocs g ! k"]) (simp_all add: removeAssoc_def)
qed

lemma assocs64_endpoints: "assocs64 i g = (k, g') \<Longrightarrow> dev_endpoints g' = dev_endpoints g"
  using assocs64_cases [of i g k g'] by auto

text \<open>The gateway's own endpoints stay.\<close>

lemma zdo_step_endpoints:
  assumes "zdo_step libs s t"
  shows "dev_endpoints (gateway t) = dev_endpoints (gateway s)"
  using assms
proof (cases rule: zdo_step.cases)
  case (step_message junk apduStr reply msg)
  then have "t = s \<or> device_annce_proc libs junk reply msg s = Inr t"
    by (auto simp: zdo_callback_def returns_iff split: if_splits)
  then show ?thesis using annce_effect [of libs junk reply msg s t] by (auto simp: set_assoc_def dest!: assocs64_endpoints)
next
  case (step_leave reply ieee r)
  then show ?thesis
    using leave_effect [OF step_leave] by (auto simp: removeAssoc_def dest!: assocs64_endpoints split: prod.splits)
qed

lemma network_wf_filter:
  "network_wf s \<Longrightarrow> dev_assocs (gateway t) = filter p (dev_assocs (gateway s)) \<Longrightarrow> network_wf t"
  by (auto simp: network_wf_def distinct_map_filter)

lemma network_wf_step:
  assumes "network_wf s" and "zdo_step libs s t"
  shows "network_wf t"
  using assms(2)
proof (cases rule: zdo_step.cases)
  case (step_message junk apduStr reply msg)
  then have "t = s \<or> device_annce_proc libs junk reply msg s = Inr t"
    by (auto simp: zdo_callback_def returns_iff split: if_splits)
  with assms(1) network_wf_annce show ?thesis by blast
next
  case (step_leave reply ieee r)
  show ?thesis
  proof (cases "ieee \<in> ieee_id ` set (dev_assocs (gateway s))")
    case True
    with leave_known [OF step_leave] network_wf_filter [OF assms(1)] show ?thesis by blast
  next
    case False
    from network_wf_filter [OF assms(1) leave_unknown [OF step_leave False]] show ?thesis .
  qed
qed

text \<open>The network is a system with this invariant.\<close>

interpretation net: invariant_system zdo_start "zdo_step libs" network_wf
  by unfold_locales (simp add: zdo_start_def network_wf_def, rule network_wf_step)

section \<open>The archive of a device\<close>

lemma apduString_ok:
  assumes "0 < n" and "n \<le> length apdu" and "4 * n \<le> length junk"
  shows "apduString junk apdu n = Inr (hexs (take n apdu))"
proof -
  let ?buf = "take (4 * n) junk"
  have m: "map ((!) apdu) [0..<n] = take n apdu"
    using assms(2) by (intro nth_equalityI) simp_all
  have h: "hex_loop ?buf 0 apdu [0..<n] = Inr (blit ?buf 0 (hexs (take n apdu) @ [0]))"
    using assms by (subst hex_loop_ok) (simp_all add: m)
  have "c_str (blit ?buf 0 (hexs (take n apdu) @ [0])) = hexs (take n apdu)" and "0 \<in> set (blit ?buf 0 (hexs (take n apdu) @ [0]))"
    by (simp_all add: blit_def)
  with h show ?thesis
    by (simp add: apduString_def kByteToHexString_def push_bit_eq_mult mult.commute)
qed

text \<open>Whether a member of a device's entry can be set does not depend on the member.\<close>

lemma reaches_member: "reaches j [a, b] = reaches j [a, c]"
proof (cases j)
  case (JObj ms)
  then show ?thesis
  proof (cases "map_of ms a")
    case (Some v)
    with JObj show ?thesis by (cases v) (auto split: option.splits)
  qed simp
qed simp_all

lemma jget_reaches: "jget j [Key a, Key b] = Some v \<Longrightarrow> reaches j [a, c]"
proof (cases j)
  case (JObj ms)
  assume "jget j [Key a, Key b] = Some v"
  with JObj obtain w where w: "map_of ms a = Some w" "jget w [Key b] = Some v" by (auto split: option.splits)
  then have "reaches w [c]" by (cases w) (auto split: option.splits)
  with w JObj show ?thesis by simp
qed simp_all

lemma json_set_member:
  assumes "reaches j [a, b]"
  shows "jget (json_set (map Key [a, b]) v j) [Key a, Key b] = Some v \<and> reaches (json_set (map Key [a, b]) v j) [a, c] \<and>
    (b \<noteq> d \<and> jget j [Key a, Key d] = Some w \<longrightarrow> jget (json_set (map Key [a, b]) v j) [Key a, Key d] = Some w)"
proof -
  have "apart (map Key [a, b]) [Key a, Key d]" if "b \<noteq> d" using that by simp
  with json_set_keys [OF assms, of v] jget_reaches [of "json_set (map Key [a, b]) v j" a b v c] show ?thesis
    by auto
qed

lemma saveDevAddresses_member:
  assumes "reaches (load_archive z) [hexkey (ieee_id d), b]"
  shows "jget (load_archive (saveDevAddresses d z)) [Key (hexkey (ieee_id d)), Key ''nwkAddr''] = Some (JStr (IntToHexStr (dev_id d))) \<and>
    jget (load_archive (saveDevAddresses d z)) [Key (hexkey (ieee_id d)), Key ''ieeeAddr''] = Some (JStr (IntToHexStr (ieee_id d))) \<and>
    reaches (load_archive (saveDevAddresses d z)) [hexkey (ieee_id d), c]"
proof -
  let ?a = "hexkey (ieee_id d)"
  let ?j = "json_set (map Key [?a, ''ieeeAddr'']) (JStr (IntToHexStr (ieee_id d))) (load_archive z)"
  have "reaches (load_archive z) [?a, ''ieeeAddr'']" using assms reaches_member by blast
  note 1 = json_set_member [OF this, where c = "''nwkAddr''"]
  note 2 = json_set_member [OF 1 [THEN conjunct2, THEN conjunct1], where c = c and d = "''ieeeAddr''"]
  show ?thesis using 1 2 by (simp add: saveDevAddresses_def load_archive_def)
qed

lemma saveDevApdu_member:
  assumes "reaches (load_archive z) [hexkey (ieee_id d), b]" and "label \<noteq> ''nwkAddr''" and "label \<noteq> ''ieeeAddr''"
    and "0 < n" and "n \<le> length apdu" and "4 * n \<le> length junk"
  shows "\<exists>z'. saveDevApdu junk d label apdu n z = Inr z' \<and>
    jget (load_archive z') [Key (hexkey (ieee_id d)), Key label] = Some (JStr (hexs (take n apdu))) \<and>
    jget (load_archive z') [Key (hexkey (ieee_id d)), Key ''nwkAddr''] = Some (JStr (IntToHexStr (dev_id d))) \<and>
    jget (load_archive z') [Key (hexkey (ieee_id d)), Key ''ieeeAddr''] = Some (JStr (IntToHexStr (ieee_id d)))"
proof -
  let ?a = "hexkey (ieee_id d)" and ?j = "load_archive (saveDevAddresses d z)"
  let ?z = "Some (json_set (map Key [?a, label]) (JStr (hexs (take n apdu))) ?j)"
  note s = saveDevAddresses_member [OF assms(1), where c = label]
  note m = json_set_member [OF s [THEN conjunct2, THEN conjunct2], of "JStr (hexs (take n apdu))"]
  have "saveDevApdu junk d label apdu n z = Inr ?z"
    by (simp add: saveDevApdu_def apduString_ok [OF assms(4-6)])
  moreover have "jget (load_archive ?z) [Key ?a, Key label] = Some (JStr (hexs (take n apdu)))"
    using m by (simp add: load_archive_def)
  moreover have "jget (load_archive ?z) [Key ?a, Key ''nwkAddr''] = Some (JStr (IntToHexStr (dev_id d)))"
    using m [where d = "''nwkAddr''"] s assms(2) by (simp add: load_archive_def)
  moreover have "jget (load_archive ?z) [Key ?a, Key ''ieeeAddr''] = Some (JStr (IntToHexStr (ieee_id d)))"
    using m [where d = "''ieeeAddr''"] s assms(3) by (simp add: load_archive_def)
  ultimately show ?thesis by (intro exI [of _ ?z]) simp
qed

text \<open>One entry that cannot be recovered ends the recovery.\<close>

lemma recover_devices_fault:
  "(k, dev) \<in> set ms \<Longrightarrow> \<forall>g. \<exists>e. recover_device libs dev g = Inl e \<Longrightarrow> \<exists>e. recover_devices libs ms g = Inl e"
proof (induction ms arbitrary: g)
  case Nil
  then show ?case by simp
next
  case (Cons m ms)
  show ?case
  proof (cases "recover_device libs (snd m) g")
    case (Inl e)
    then show ?thesis by simp
  next
    case (Inr g')
    moreover obtain e where "recover_device libs dev g = Inl e" using Cons.prems(2) by blast
    ultimately have "(k, dev) \<in> set ms" using Cons.prems(1) by auto
    from Cons.IH [OF this Cons.prems(2), of g'] Inr show ?thesis by simp
  qed
qed

lemma recover_device_fault:
  assumes "json_at ''NodeDescApduString'' dev = JStr (hexs bs)" and "bs \<noteq> []"
  shows "\<exists>e. recover_device libs dev g = Inl e"
proof -
  have "hexStrToByteVec (json_toString (json_at ''NodeDescApduString'' dev)) = Inl OobRead"
    using assms hexStrToByteVec_overruns [of bs] by (simp add: json_toString_def)
  then show ?thesis
    by (cases "toInteger (json_at ''nwkAddr'' dev)"; cases "toInteger (json_at ''ieeeAddr'' dev)")
      (auto simp: recover_device_def Let_def split: prod.splits)
qed

lemma recovery_fault:
  assumes "jget j [Key a, Key ''NodeDescApduString''] = Some (JStr (hexs bs))" and "bs \<noteq> []"
  shows "\<exists>e. recoverEndpoint libs (s\<lparr>zar := Some j\<rparr>) = Inl e"
proof -
  obtain ms dev where ms: "j = JObj ms" "map_of ms a = Some dev" "jget dev [Key ''NodeDescApduString''] = Some (JStr (hexs bs))"
    using assms(1) by (cases j) (auto split: option.splits)
  then have "\<forall>g. \<exists>e. recover_device libs dev g = Inl e"
    using assms(2) by (intro allI recover_device_fault) (simp_all add: json_at_def)
  with ms recover_devices_fault [OF map_of_SomeD [OF ms(2)], of libs "gateway s"] show ?thesis
    by (auto simp: recoverEndpoint_def)
qed

section \<open>An announcement\<close>

lemma preprocess_request:
  "asduLen msg = 12 \<Longrightarrow> clusterId msg AND ZDO_RESPONSE_BIT = 0 \<Longrightarrow> asdu msg = t # le_bytes 2 (nwk :: u16) @ rest \<Longrightarrow>
   message_preprocess msg 12 True = Inr (Some (3, nwk))"
  by (simp add: message_preprocess_def slice_def)

lemma annce_frame:
  assumes "clusterId msg = 0x0013" and "asduLen msg = 12"
    and "asdu msg = t # le_bytes 2 (nwk :: u16) @ le_bytes 8 (ieee :: u64) @ cap # rest" and "assocs64 ieee (gateway s) = (k, g)"
  shows "zdo_callback libs junk apduStr reply msg s =
    bindE (query_device libs (dev_endpoints g) junk reply
        ((dev_assocs g ! k)\<lparr>dev_id := nwk, ieee_id := ieee, dev_capability := cap\<rparr>, zar s))
      (\<lambda>(d, z). Inr \<lparr>gateway = set_assoc k d g, zar = z\<rparr>)"
proof -
  have pre: "message_preprocess msg 12 True = Inr (Some (3, nwk))"
    using assms(1-3) by (intro preprocess_request) (simp_all add: ZDO_RESPONSE_BIT_def)
  have mac: "ANSITohostInt (asdu msg) 3 = Inr (8, ieee)" and c: "rd (asdu msg) (3 + 8) = Inr cap"
    by (simp_all add: assms(3) slice_def nth_append rd_def)
  show ?thesis
    unfolding zdo_callback_def device_annce_proc_def assms(1)
    by (simp only: pre mac c bindE_simps prod.case option.case assms(4)) simp
qed

lemma getAll_unanswered:
  "\<forall>c a e. reply c a e = None \<Longrightarrow> getAllEndpointSimpleDesc_loop libs lcls junk reply d es z = Inr (es, z)"
  by (induction es) (simp_all add: simple_desc_req_def)

lemma query_unanswered:
  assumes "\<forall>c a e. reply c a e = None"
  shows "query_device libs lcls junk reply (d, z) = Inr (d\<lparr>dev_active := 1\<rparr>, z)"
  by (simp add: query_device_def node_desc_req_def active_ep_req_def getAllEndpointSimpleDesc_def
      assms [rule_format] getAll_unanswered [OF assms])

section \<open>Properties\<close>

text \<open>
  C13: Whatever messages arrive for the device objects and whatever devices are told to leave, and whether the
  requests sent on the way are answered or not and with what: the IEEE addresses of the associated
  devices stay distinct, so do the endpoints of a device, the clusters of an endpoint and the
  attributes of a cluster.
\<close>

theorem network_invariant:
  "reach zdo_start (zdo_step libs) s \<Longrightarrow>
     distinct (map ieee_id (dev_assocs (gateway s))) \<and>
     (\<forall>d \<in> set (dev_assocs (gateway s)).
        distinct (map ep_id (dev_endpoints d)) \<and>
        (\<forall>e \<in> set (dev_endpoints d). distinct (map cluster_id (ep_clusters e)) \<and>
           (\<forall>c \<in> set (ep_clusters e). distinct (map attr_id (cluster_attributes c)))))"
  using net.inv_reach [of libs s] by (simp add: network_wf_def device_wf_def endpoint_wf_def)

text \<open>
  A well-formed announcement records the device's short address, IEEE address and capability in the
  entry with this IEEE address, new if there was none, marks it active, and touches no other device,
  whatever the answers to the queries that follow; and it always completes when nothing is
  answered: the device is then active without any descriptor.  A message of another length changes nothing.
\<close>

theorem device_annce_updates:
  "(clusterId msg = 0x0013 \<and> asduLen msg = 12 \<and> asdu msg = t # le_bytes 2 (nwk :: u16) @ le_bytes 8 (ieee :: u64) @ cap # rest \<and>
      assocs64 ieee (gateway s) = (k, g) \<longrightarrow>
      (zdo_callback libs junk apduStr reply msg s = Inr s' \<longrightarrow>
         (\<exists>d. gateway s' = g\<lparr>dev_assocs := (dev_assocs g)[k := d]\<rparr> \<and> k < length (dev_assocs g) \<and> dev_id d = nwk \<and>
            ieee_id d = ieee \<and> dev_capability d = cap \<and> dev_active d = 1)) \<and>
      ((\<forall>c a e. reply c a e = None) \<longrightarrow>
         zdo_callback libs junk apduStr reply msg s =
           Inr \<lparr>gateway = g\<lparr>dev_assocs := (dev_assocs g)[k := (dev_assocs g ! k)\<lparr>dev_id := nwk, ieee_id := ieee, dev_capability := cap, dev_active := 1\<rparr>]\<rparr>,
                zar = zar s\<rparr>)) \<and>
   (clusterId msg = 0x0013 \<and> asduLen msg \<noteq> 12 \<longrightarrow> zdo_callback libs junk apduStr reply msg s = Inr s)"
proof (intro conjI impI; (elim conjE)?)
  assume a: "clusterId msg = 0x0013" "asduLen msg = 12"
    "asdu msg = t # le_bytes 2 nwk @ le_bytes 8 ieee @ cap # rest" "assocs64 ieee (gateway s) = (k, g)"
  note frame = annce_frame [OF a, of libs junk apduStr reply]
  let ?d = "(dev_assocs g ! k)\<lparr>dev_id := nwk, ieee_id := ieee, dev_capability := cap\<rparr>"
  have k: "k < length (dev_assocs g)" using assocs64_cases [OF a(4)] by auto
  show "\<exists>d. gateway s' = g\<lparr>dev_assocs := (dev_assocs g)[k := d]\<rparr> \<and> k < length (dev_assocs g) \<and> dev_id d = nwk \<and>
            ieee_id d = ieee \<and> dev_capability d = cap \<and> dev_active d = 1"
    if "zdo_callback libs junk apduStr reply msg s = Inr s'"
  proof -
    from that obtain d z where q: "query_device libs (dev_endpoints g) junk reply (?d, zar s) = Inr (d, z)"
        and s': "s' = \<lparr>gateway = set_assoc k d g, zar = z\<rparr>"
      by (auto simp: frame bindE_Inr_iff)
    then show ?thesis
      using query_device_keeps [OF q] k by (intro exI [of _ d]) (simp add: set_assoc_def)
  qed
  show "zdo_callback libs junk apduStr reply msg s =
           Inr \<lparr>gateway = g\<lparr>dev_assocs := (dev_assocs g)[k := (dev_assocs g ! k)\<lparr>dev_id := nwk, ieee_id := ieee, dev_capability := cap, dev_active := 1\<rparr>]\<rparr>,
                zar = zar s\<rparr>"
    if "\<forall>c a e. reply c a e = None"
    by (simp add: frame query_unanswered [OF that] set_assoc_def)
next
  assume "clusterId msg = 0x0013" "asduLen msg \<noteq> 12"
  moreover from this(2) have "unat (asduLen msg) \<noteq> unat (12 :: byte)" by (simp add: word_unat_eq_iff)
  ultimately show "zdo_callback libs junk apduStr reply msg s = Inr s"
    by (simp add: zdo_callback_def device_annce_proc_def message_preprocess_def)
qed

text \<open>
  C34: Telling a known device to leave removes it, and with it every device of the same short address, and erases
  its entry from the archive.  But for an IEEE address that is not known, every device whose short
  address happens to be the low 16 bits of it is removed, and its entry stays in the archive.
\<close>

theorem Mgmt_Leave_removes:
  assumes "Mgmt_Leave_req reply ieee s = Inr (r, t)"
  shows "(dev_assocs (gateway s) = xs @ d # ys \<and> ieee_id d = ieee \<and> ieee \<notin> ieee_id ` set xs \<union> ieee_id ` set ys \<longrightarrow>
      dev_assocs (gateway t) = filter (\<lambda>x. dev_id x \<noteq> dev_id d) xs @ filter (\<lambda>x. dev_id x \<noteq> dev_id d) ys) \<and>
    (ieee \<notin> ieee_id ` set (dev_assocs (gateway s)) \<longrightarrow>
      dev_assocs (gateway t) = filter (\<lambda>x. dev_id x \<noteq> ucast ieee) (dev_assocs (gateway s))) \<and>
    (zar s = Some (JObj ms) \<longrightarrow> zar t = Some (JObj (filter (\<lambda>m. fst m \<noteq> hexkey ieee) ms)))"
proof (intro conjI impI)
  assume a: "dev_assocs (gateway s) = xs @ d # ys \<and> ieee_id d = ieee \<and> ieee \<notin> ieee_id ` set xs \<union> ieee_id ` set ys"
  then have "ieee \<in> ieee_id ` set (dev_assocs (gateway s))" by auto
  from leave_known [OF assms this] obtain e where e: "e \<in> set (dev_assocs (gateway s))" "ieee_id e = ieee"
    "dev_assocs (gateway t) = filter (\<lambda>x. dev_id x \<noteq> dev_id e) (dev_assocs (gateway s))" by blast
  with a have "e = d" by auto
  with a e show "dev_assocs (gateway t) = filter (\<lambda>x. dev_id x \<noteq> dev_id d) xs @ filter (\<lambda>x. dev_id x \<noteq> dev_id d) ys"
    by simp
next
  assume "ieee \<notin> ieee_id ` set (dev_assocs (gateway s))"
  then show "dev_assocs (gateway t) = filter (\<lambda>x. dev_id x \<noteq> ucast ieee) (dev_assocs (gateway s))"
    by (rule leave_unknown [OF assms])
next
  assume "zar s = Some (JObj ms)"
  moreover have "filter (\<lambda>m. fst m \<noteq> hexkey ieee) ms = ms" if "map_of ms (hexkey ieee) = None"
    using that by (intro filter_True) (force simp: map_of_eq_None_iff)
  ultimately show "zar t = Some (JObj (filter (\<lambda>m. fst m \<noteq> hexkey ieee) ms))"
    using leave_effect [OF assms] by (auto simp: removeDev_def erase_key_def exist_key_def)
qed

text \<open>
  An answered node descriptor request stores the descriptor in the device and its text in the archive,
  beside the device's addresses.  The next start then always fails: reading the archive back runs
  past the end of the very text that was written.
\<close>

theorem recovery_after_archive:
  assumes "reply 0x0002 (dev_id d) 0 = Some x" and "17 \<le> length x" and "52 \<le> length junk"
    and "reaches (load_archive z) [hexkey (ieee_id d), ''NodeDescApduString'']"
  shows "\<exists>nd z'. node_desc_req junk reply (d, z) = Inr (d\<lparr>nodeDescriptor := nd\<rparr>, Some z') \<and>
    jget z' [Key (hexkey (ieee_id d)), Key ''NodeDescApduString''] = Some (JStr (hexs (take 13 (drop 4 x)))) \<and>
    jget z' [Key (hexkey (ieee_id d)), Key ''nwkAddr''] = Some (JStr (IntToHexStr (dev_id d))) \<and>
    jget z' [Key (hexkey (ieee_id d)), Key ''ieeeAddr''] = Some (JStr (IntToHexStr (ieee_id d))) \<and>
    (\<exists>e. recoverEndpoint libs \<lparr>gateway = g, zar = Some z'\<rparr> = Inl e)"
proof -
  let ?nd = "\<lambda>nd. d\<lparr>nodeDescriptor := nd\<rparr>"
  have len: "13 \<le> length (drop 4 x)" using assms(2) by simp
  then obtain nd where nd: "node_desc_req_apdu_process (drop 4 x) = Inr nd"
    using node_desc_cover [OF len] node_desc_parse by metis
  obtain w where w: "saveDevApdu junk d ''NodeDescApduString'' (drop 4 x) 13 z = Inr w"
    "jget (load_archive w) [Key (hexkey (ieee_id d)), Key ''NodeDescApduString''] = Some (JStr (hexs (take 13 (drop 4 x))))"
    "jget (load_archive w) [Key (hexkey (ieee_id d)), Key ''nwkAddr''] = Some (JStr (IntToHexStr (dev_id d)))"
    "jget (load_archive w) [Key (hexkey (ieee_id d)), Key ''ieeeAddr''] = Some (JStr (IntToHexStr (ieee_id d)))"
    using saveDevApdu_member [OF assms(4), of "''NodeDescApduString''" 13 "drop 4 x" junk] len assms(3) by auto
  then obtain z' where z': "w = Some z'" by (auto simp: saveDevApdu_def returns_iff)
  have ne: "take 13 (drop 4 x) \<noteq> []" using len by auto
  have "\<exists>e. recoverEndpoint libs (\<lparr>gateway = g, zar = None\<rparr>\<lparr>zar := Some z'\<rparr>) = Inl e"
    by (rule recovery_fault [OF _ ne]) (use w(2) z' in \<open>simp add: load_archive_def\<close>)
  with w z' nd assms(1) show ?thesis
    by (intro exI [of _ nd] exI [of _ z']) (simp add: node_desc_req_def MSGBODY_def load_archive_def)
qed

section \<open>Witnesses\<close>

definition hub :: Gateway where
  "hub = \<lparr>dev_id = 0, ieee_id = 1, dev_capability = 0, nodeDescriptor = node_descriptor_0, dev_endpoints = [], dev_active = 0, dev_assocs = []\<rparr>"

definition bulb :: Device where
  "bulb = (new_Device 0x4567)\<lparr>ieee_id := 0x00124B0001020304, dev_capability := 0x8E, dev_active := 1\<rparr>"

definition plug :: Device where
  "plug = (new_Device 0x0304)\<lparr>ieee_id := 0x00124B00AABBCCDD, dev_active := 1\<rparr>"

definition bulb_annce :: AFMessage where
  "bulb_annce = \<lparr>dstAddr = 0, dstEndpoint = 0, groupId = 0, clusterId = 0x0013, srcEndpoint = 0, srcAddr = 0x4567, wasBroadCast = 1,
     linkQuality = 0, securityUse = 0, timeStamp = 0, tranSeqNum = 0, asduLen = 12,
     asdu = 7 # le_bytes 2 (0x4567 :: u16) @ le_bytes 8 (0x00124B0001020304 :: u64) @ [0x8E], radius = 0, options = 0, dstAddrMode = 0\<rparr>"

definition no_reply :: zdp_reply where
  "no_reply = (\<lambda>_ _ _. None)"

lemma bulb_joins:
  "zdo_callback libs [] [] no_reply bulb_annce \<lparr>gateway = hub, zar = None\<rparr> =
     Inr \<lparr>gateway = hub\<lparr>dev_assocs := [bulb]\<rparr>, zar = None\<rparr>"
proof -
  let ?s = "\<lparr>gateway = hub, zar = None\<rparr>"
  have g: "assocs64 0x00124B0001020304 (gateway ?s) = (0, hub\<lparr>dev_assocs := [new_Device 0x0304]\<rparr>)"
    by (simp add: assocs64_def find_if_def hub_def new_Device_def)
  have "zdo_callback libs [] [] no_reply bulb_annce ?s =
    bindE (query_device libs (dev_endpoints (hub\<lparr>dev_assocs := [new_Device 0x0304]\<rparr>)) [] no_reply
        ((dev_assocs (hub\<lparr>dev_assocs := [new_Device 0x0304]\<rparr>) ! 0)\<lparr>dev_id := 0x4567, ieee_id := 0x00124B0001020304, dev_capability := 0x8E\<rparr>, zar ?s))
      (\<lambda>(d, z). Inr \<lparr>gateway = set_assoc 0 d (hub\<lparr>dev_assocs := [new_Device 0x0304]\<rparr>), zar = z\<rparr>)"
    by (rule annce_frame [OF _ _ _ g, where t = 7 and rest = "[]"]) (simp_all add: bulb_annce_def)
  then show ?thesis
    by (simp add: query_unanswered no_reply_def set_assoc_def bulb_def new_Device_def)
qed

theorem network_invariant_witness:
  "reach zdo_start (zdo_step (\<lambda>_. zcl_lib)) \<lparr>gateway = hub\<lparr>dev_assocs := [bulb]\<rparr>, zar = None\<rparr> \<and>
   distinct (map ieee_id [bulb])"
proof -
  let ?step = "zdo_step (\<lambda>_. zcl_lib)"
  have "reach zdo_start ?step \<lparr>gateway = hub, zar = None\<rparr>"
    by (rule reach_start) (simp add: zdo_start_def hub_def)
  moreover have "?step \<lparr>gateway = hub, zar = None\<rparr> \<lparr>gateway = hub\<lparr>dev_assocs := [bulb]\<rparr>, zar = None\<rparr>"
    by (rule step_message [OF bulb_joins])
  ultimately have r: "reach zdo_start ?step \<lparr>gateway = hub\<lparr>dev_assocs := [bulb]\<rparr>, zar = None\<rparr>"
    by (rule reach_step)
  with network_invariant [OF r] show ?thesis by simp
qed

theorem device_annce_updates_witness:
  "zdo_callback (\<lambda>_. zcl_lib) [] [] no_reply bulb_annce \<lparr>gateway = hub\<lparr>dev_assocs := [plug, bulb]\<rparr>, zar = None\<rparr> =
     Inr \<lparr>gateway = hub\<lparr>dev_assocs := [plug, bulb]\<rparr>, zar = None\<rparr> \<and>
   (\<exists>d. hub\<lparr>dev_assocs := [plug, bulb]\<rparr> = hub\<lparr>dev_assocs := [plug, d]\<rparr> \<and> dev_active d = 1) \<and>
   zdo_callback (\<lambda>_. zcl_lib) [] [] no_reply (bulb_annce\<lparr>asduLen := 11\<rparr>) \<lparr>gateway = hub, zar = None\<rparr> = Inr \<lparr>gateway = hub, zar = None\<rparr>"
proof -
  have g: "assocs64 0x00124B0001020304 (hub\<lparr>dev_assocs := [plug, bulb]\<rparr>) = (1, hub\<lparr>dev_assocs := [plug, bulb]\<rparr>)"
    by (simp add: assocs64_def find_if_def hub_def bulb_def plug_def new_Device_def)
  let ?s = "\<lparr>gateway = hub\<lparr>dev_assocs := [plug, bulb]\<rparr>, zar = None\<rparr>"
  note u = device_annce_updates [of bulb_annce 7 "0x4567" "0x00124B0001020304" "0x8E" "[]" ?s 1 "hub\<lparr>dev_assocs := [plug, bulb]\<rparr>"
      "\<lambda>_. zcl_lib" "[]" "[]" no_reply ?s]
  have p: "clusterId bulb_annce = 0x0013 \<and> asduLen bulb_annce = 12 \<and>
     asdu bulb_annce = 7 # le_bytes 2 (0x4567 :: u16) @ le_bytes 8 (0x00124B0001020304 :: u64) @ 0x8E # [] \<and>
     assocs64 0x00124B0001020304 (gateway ?s) = (1, hub\<lparr>dev_assocs := [plug, bulb]\<rparr>)"
    using g by (simp add: bulb_annce_def)
  note v = u [THEN conjunct1, THEN mp, OF p]
  have 1: "zdo_callback (\<lambda>_. zcl_lib) [] [] no_reply bulb_annce ?s = Inr ?s"
    using v [THEN conjunct2] by (simp add: no_reply_def bulb_def hub_def new_Device_def)
  moreover have "\<exists>d. hub\<lparr>dev_assocs := [plug, bulb]\<rparr> = hub\<lparr>dev_assocs := [plug, d]\<rparr> \<and> dev_active d = 1"
    using v [THEN conjunct1, THEN mp, OF 1] by (auto simp: hub_def)
  moreover have "zdo_callback (\<lambda>_. zcl_lib) [] [] no_reply (bulb_annce\<lparr>asduLen := 11\<rparr>) \<lparr>gateway = hub, zar = None\<rparr> = Inr \<lparr>gateway = hub, zar = None\<rparr>"
    by (rule device_annce_updates [THEN conjunct2, rule_format]) (simp add: bulb_annce_def)
  ultimately show ?thesis by blast
qed

text \<open>The plug leaves although the bulb was meant: its short address is the end of the bulb's IEEE address.\<close>

theorem Mgmt_Leave_removes_witness:
  "\<exists>t. Mgmt_Leave_req no_reply 0x00124B0001020304 \<lparr>gateway = hub\<lparr>dev_assocs := [plug]\<rparr>, zar = None\<rparr> = Inr (-1, t) \<and>
     dev_assocs (gateway t) = []"
proof -
  let ?s = "\<lparr>gateway = hub\<lparr>dev_assocs := [plug]\<rparr>, zar = None\<rparr>"
  obtain t where t: "Mgmt_Leave_req no_reply 0x00124B0001020304 ?s = Inr (-1, t)"
    by (cases "assocs64 0x00124B0001020304 (hub\<lparr>dev_assocs := [plug]\<rparr>)") (simp add: Mgmt_Leave_req_def no_reply_def Let_def)
  from Mgmt_Leave_removes [OF t] have "dev_assocs (gateway t) = []"
    by (simp add: plug_def new_Device_def)
  with t show ?thesis by blast
qed

theorem recovery_after_archive_witness:
  "\<exists>nd z'. node_desc_req (replicate 64 0) (\<lambda>_ _ _. Some (replicate 17 0)) (bulb, None) = Inr (bulb\<lparr>nodeDescriptor := nd\<rparr>, Some z') \<and>
     (\<exists>e. recoverEndpoint (\<lambda>_. zcl_lib) \<lparr>gateway = hub, zar = Some z'\<rparr> = Inl e)"
  using recovery_after_archive [of "\<lambda>_ _ _. Some (replicate 17 0)" bulb "replicate 17 0" "replicate 64 0" None "\<lambda>_. zcl_lib" hub]
  by (auto simp: load_archive_def)

end
