(* ===== verification/JsonRefs.thy ===== *)
theory JsonRefs
  imports KJson
begin

text \<open>
  References of kapi/source/kjson.cpp.  A wrapper of an object keeps one wrapper for each member that has been accessed;
  it does not own the member's value, the object does.  Of jansson only the rules of its references are used: a new
  value comes with one reference, which the program must give back (\<^verbatim>\<open>json_decref\<close>) or hand over to a container
  (\<^verbatim>\<open>json_object_set_new\<close>); \<^verbatim>\<open>json_object_get\<close> lends; null, true and false are never freed.  The ledger \<open>held\<close> lists
  the references that the program has; to give one that it has not is the fault \<open>NotHeld\<close>, as the value is freed
  while the container still uses it.  KJson shows what the operations do to the values.
\<close>

section \<open>Types and construction\<close>

datatype JSONType = JSON_OBJECT | JSON_ARRAY | JSON_STRING | JSON_INTEGER | JSON_REAL | JSON_TRUE | JSON_FALSE | JSON_NULL
  | JSON_EMPTY | JSON_FAULT

fun json_typeof :: "json \<Rightarrow> JSONType" where
  "json_typeof JNull = JSON_NULL"
| "json_typeof (JBool b) = (if b then JSON_TRUE else JSON_FALSE)"
| "json_typeof (JInt i) = JSON_INTEGER"
| "json_typeof (JStr s) = JSON_STRING"
| "json_typeof (JArr xs) = JSON_ARRAY"
| "json_typeof (JObj ms) = JSON_OBJECT"

definition static_value :: "json \<Rightarrow> bool" where
  "static_value v \<longleftrightarrow> json_typeof v \<in> {JSON_NULL, JSON_TRUE, JSON_FALSE}"

text \<open>\<^verbatim>\<open>JSON(JSONType)\<close>: the value, the type and the fail bit.\<close>

definition JSON_of_type :: "JSONType \<Rightarrow> json \<times> JSONType \<times> bool" where
  "JSON_of_type t =
     (case t of
        JSON_OBJECT \<Rightarrow> (JObj [], JSON_OBJECT, False) | JSON_ARRAY \<Rightarrow> (JArr [], JSON_ARRAY, False)
      | JSON_STRING \<Rightarrow> (JStr [], JSON_STRING, False) | JSON_INTEGER \<Rightarrow> (JInt 0, JSON_INTEGER, False)
      | JSON_FAULT \<Rightarrow> (JNull, JSON_FAULT, True) | _ \<Rightarrow> (JNull, JSON_NULL, False))"

section \<open>A wrapper of an object and the wrappers of its members\<close>

text \<open>Values that are not static have an address; the root's is 0.\<close>

record kid =
  json_ptr :: "nat option"
  ktype :: JSONType
  borrowed :: bool

record doc =
  members :: "(string \<times> json \<times> nat option) list"
  childList :: "(string \<times> kid) list"
  held :: "nat list"
  next_addr :: nat

datatype ref_fault = NotHeld nat

fun number_members :: "nat \<Rightarrow> (string \<times> json) list \<Rightarrow> (string \<times> json \<times> nat option) list" where
  "number_members n [] = []"
| "number_members n ((k, v) # ms) = (k, v, if static_value v then None else Some n) # number_members (Suc n) ms"

text \<open>What a constructor makes of an object that has been parsed or is new.\<close>

definition JSON_reset :: "(string \<times> json) list \<Rightarrow> doc" where
  "JSON_reset ms = \<lparr>members = number_members 1 ms, childList = [], held = [0], next_addr = Suc (length ms)\<rparr>"

definition value_of :: "doc \<Rightarrow> json" where
  "value_of d = JObj (map (\<lambda>(k, v, _). (k, v)) (members d))"

definition json_new :: "json \<Rightarrow> doc \<Rightarrow> nat option \<times> doc" where
  "json_new v d =
     (if static_value v then (None, d)
      else (Some (next_addr d), d\<lparr>held := next_addr d # held d, next_addr := Suc (next_addr d)\<rparr>))"

definition json_give :: "nat option \<Rightarrow> doc \<Rightarrow> ref_fault + doc" where
  "json_give p d =
     (case p of
        None \<Rightarrow> Inr d
      | Some a \<Rightarrow> if a \<in> set (held d) then Inr (d\<lparr>held := remove1 a (held d)\<rparr>) else Inl (NotHeld a))"

definition json_object_set_new :: "string \<Rightarrow> json \<Rightarrow> nat option \<Rightarrow> doc \<Rightarrow> ref_fault + doc" where
  "json_object_set_new k v p d = bindE (json_give p d) (\<lambda>d. Inr (d\<lparr>members := put_assoc k (v, p) (members d)\<rparr>))"

text \<open>\<^verbatim>\<open>operator[]\<close> with \<^verbatim>\<open>wrapper\<close>: the wrapper there is, or a new one, for a member that becomes null if there is none.\<close>

definition doc_at :: "string \<Rightarrow> doc \<Rightarrow> ref_fault + doc" where
  "doc_at k d =
     (if map_of (childList d) k \<noteq> None then Inr d
      else (case map_of (members d) k of
              Some (v, p) \<Rightarrow> Inr (d\<lparr>childList := childList d @ [(k, \<lparr>json_ptr = p, ktype = json_typeof v, borrowed = True\<rparr>)]\<rparr>)
            | None \<Rightarrow>
                bindE (json_object_set_new k JNull None d) (\<lambda>d.
                  Inr (d\<lparr>childList := childList d @ [(k, \<lparr>json_ptr = None, ktype = JSON_NULL, borrowed = True\<rparr>)]\<rparr>))))"

text \<open>\<^verbatim>\<open>reset\<close> of a member's wrapper gives back what the wrapper points to, borrowed or not.\<close>

definition kid_reset :: "string \<Rightarrow> kid \<Rightarrow> json \<Rightarrow> nat option \<Rightarrow> doc \<Rightarrow> ref_fault + doc" where
  "kid_reset k x v p d =
     bindE (json_give (json_ptr x) d) (\<lambda>d.
       Inr (d\<lparr>childList := put_assoc k (x\<lparr>json_ptr := p, ktype := json_typeof v\<rparr>) (childList d)\<rparr>))"

text \<open>A new value for a member: \<^verbatim>\<open>reset\<close>, then \<^verbatim>\<open>updateParent\<close>.\<close>

definition assign_new :: "string \<Rightarrow> kid \<Rightarrow> json \<Rightarrow> doc \<Rightarrow> ref_fault + doc" where
  "assign_new k x v d =
     (case json_new v d of (p, d) \<Rightarrow> bindE (kid_reset k x v p d) (json_object_set_new k v p))"

text \<open>
  The assignment operators: a text or a number is set in place if the value has that type already; a truth value
  and a copy of another value are always new.
\<close>

datatype assignment = SetText "byte list" | SetInt u64 | SetBool bool | SetCopy json

fun assigned :: "assignment \<Rightarrow> json" where
  "assigned (SetText s) = JStr s"
| "assigned (SetInt i) = JInt i"
| "assigned (SetBool b) = JBool b"
| "assigned (SetCopy v) = v"

definition in_place :: "assignment \<Rightarrow> JSONType \<Rightarrow> bool" where
  "in_place a t \<longleftrightarrow> (case a of SetText _ \<Rightarrow> t = JSON_STRING | SetInt _ \<Rightarrow> t = JSON_INTEGER | _ \<Rightarrow> False)"

definition doc_assign :: "string \<Rightarrow> assignment \<Rightarrow> doc \<Rightarrow> ref_fault + doc" where
  "doc_assign k a d =
     bindE (doc_at k d) (\<lambda>d.
       let x = the (map_of (childList d) k)
       in if in_place a (ktype x) then Inr (d\<lparr>members := put_assoc k (assigned a, json_ptr x) (members d)\<rparr>)
          else assign_new k x (assigned a) d)"

definition doc_erase :: "string \<Rightarrow> doc \<Rightarrow> ref_fault + doc" where
  "doc_erase k d =
     (if map_of (members d) k = None then Inr d
      else bindE (doc_at k d) (\<lambda>d.
        let x = the (map_of (childList d) k);
            d = (if borrowed x then d\<lparr>members := filter (\<lambda>m. fst m \<noteq> k) (members d)\<rparr> else d)
        in Inr (d\<lparr>childList := filter (\<lambda>c. fst c \<noteq> k) (childList d)\<rparr>)))"

text \<open>\<^verbatim>\<open>forEachInObj\<close> with a function that reads each member.\<close>

definition forEachInObj :: "doc \<Rightarrow> ref_fault + doc" where
  "forEachInObj d = fold (\<lambda>k r. bindE r (doc_at k)) (map fst (members d)) (Inr d)"

text \<open>The destructor: first the wrappers of the members, then the root's value.\<close>

fun kids_destroy :: "(string \<times> kid) list \<Rightarrow> doc \<Rightarrow> ref_fault + doc" where
  "kids_destroy [] d = Inr d"
| "kids_destroy ((k, x) # xs) d = bindE (if borrowed x then Inr d else json_give (json_ptr x) d) (kids_destroy xs)"

definition doc_destroy :: "doc \<Rightarrow> ref_fault + nat list" where
  "doc_destroy d = bindE (json_give (Some 0) d) (\<lambda>d. bindE (kids_destroy (childList d) d) (\<lambda>d. Inr (held d)))"

datatype doc_op = Access string | Assign string assignment | Erase string | ForEach

fun doc_step :: "doc_op \<Rightarrow> doc \<Rightarrow> ref_fault + doc" where
  "doc_step (Access k) d = doc_at k d"
| "doc_step (Assign k a) d = doc_assign k a d"
| "doc_step (Erase k) d = doc_erase k d"
| "doc_step ForEach d = forEachInObj d"

fun doc_run :: "doc_op list \<Rightarrow> doc \<Rightarrow> ref_fault + doc" where
  "doc_run [] d = Inr d"
| "doc_run (op # ops) d = bindE (doc_step op d) (doc_run ops)"

section \<open>What the values are meant to be\<close>

fun tree_step :: "doc_op \<Rightarrow> json \<Rightarrow> json" where
  "tree_step (Access k) t = snd (at_key k (Ref []) t)"
| "tree_step (Assign k a) t = json_set [Key k] (assigned a) t"
| "tree_step (Erase k) t = snd (erase_key k t)"
| "tree_step ForEach t = t"

text \<open>An assignment is safe to a member that is absent, static, or set in place.\<close>

definition op_safe :: "doc_op \<Rightarrow> json \<Rightarrow> bool" where
  "op_safe op t =
     (case (op, t) of
        (Assign k a, JObj ms) \<Rightarrow>
          (case map_of ms k of None \<Rightarrow> True | Some v \<Rightarrow> static_value v \<or> in_place a (json_typeof v))
      | _ \<Rightarrow> True)"

fun ops_safe :: "doc_op list \<Rightarrow> json \<Rightarrow> bool" where
  "ops_safe [] t = True"
| "ops_safe (op # ops) t = (op_safe op t \<and> ops_safe ops (tree_step op t))"

section \<open>Lemmas\<close>

definition kid_ok :: "(string \<times> json \<times> nat option) list \<Rightarrow> string \<times> kid \<Rightarrow> bool" where
  "kid_ok ms c \<longleftrightarrow> (case map_of ms (fst c) of None \<Rightarrow> False
     | Some (v, p) \<Rightarrow> json_ptr (snd c) = p \<and> ktype (snd c) = json_typeof v \<and> borrowed (snd c))"

definition doc_wf :: "doc \<Rightarrow> bool" where
  "doc_wf d \<longleftrightarrow> distinct (map fst (members d)) \<and> distinct (map fst (childList d)) \<and> held d = [0] \<and> 0 < next_addr d \<and>
     (\<forall>k v p. map_of (members d) k = Some (v, p) \<longrightarrow> (p = None \<longleftrightarrow> static_value v) \<and> (\<forall>a. p = Some a \<longrightarrow> 0 < a \<and> a < next_addr d)) \<and>
     (\<forall>c \<in> set (childList d). kid_ok (members d) c)"

lemma value_members: "map_of (map (\<lambda>(k, v, _). (k, v)) ms) k = map_option fst (map_of ms k)"
  by (induction ms) auto

lemma value_put: "map (\<lambda>(k, v, _). (k, v)) (put_assoc k (v, p) ms) = put_assoc k v (map (\<lambda>(k, v, _). (k, v)) ms)"
  by (induction k "(v, p)" ms rule: put_assoc.induct) auto

lemma put_assoc_same: "map_of ms k = Some v \<Longrightarrow> put_assoc k v ms = ms"
  by (induction k v ms rule: put_assoc.induct) (auto split: if_splits)

lemma put_assoc_other: "fst c \<noteq> k \<Longrightarrow> c \<in> set (put_assoc k v ms) \<Longrightarrow> c \<in> set ms"
  by (induction k v ms rule: put_assoc.induct) (auto split: if_splits)

lemma kid_found:
  assumes "doc_wf d" and "map_of (childList d) k = Some x"
  shows "\<exists>v. map_of (members d) k = Some (v, json_ptr x) \<and> ktype x = json_typeof v \<and> borrowed x"
proof -
  from assms have "kid_ok (members d) (k, x)" by (auto simp: doc_wf_def dest: map_of_SomeD)
  then show ?thesis by (auto simp: kid_ok_def split: option.splits)
qed

lemma at_value:
  "tree_step (Access k) (value_of d) = (if map_of (members d) k = None then JObj (put_assoc k JNull (map (\<lambda>(k, v, _). (k, v)) (members d))) else value_of d)"
  by (auto simp: value_of_def value_members)

lemma doc_at_wf:
  assumes "doc_wf d"
  shows "\<exists>d' x. doc_at k d = Inr d' \<and> doc_wf d' \<and> value_of d' = tree_step (Access k) (value_of d) \<and> map_of (childList d') k = Some x"
proof (cases "map_of (childList d) k")
  case (Some x)
  with kid_found [OF assms Some] assms show ?thesis unfolding at_value by (auto simp: doc_at_def)
next
  case None
  then have new: "k \<notin> fst ` set (childList d)" by (simp add: map_of_eq_None_iff)
  have kids: "kid_ok (put_assoc k (JNull, None) (members d)) c" if "c \<in> set (childList d)" for c
    using assms that new by (force simp: doc_wf_def kid_ok_def)
  have app: "map_of (childList d @ [(k, x)]) k = Some x" for x using None by (simp add: map_add_def)
  show ?thesis
  proof (cases "map_of (members d) k")
    case None2: None
    with None assms new kids app show ?thesis unfolding at_value
      by (auto simp: doc_at_def json_object_set_new_def json_give_def value_of_def value_put doc_wf_def kid_ok_def static_value_def
          distinct_put_assoc)
  next
    case Some2: (Some m)
    with None assms new app show ?thesis unfolding at_value
      by (cases m) (auto simp: doc_at_def value_of_def doc_wf_def kid_ok_def)
  qed
qed


lemma assign_value:
  "tree_step (Assign k a) (value_of d) = JObj (put_assoc k (assigned a) (map (\<lambda>(k, v, _). (k, v)) (members d)))"
  by (auto simp: json_set_def assign_def value_of_def value_members at_step_def)

lemma fresh_wf:
  assumes "doc_wf d" and "map_of (childList d) k = Some x" and "p = None \<longleftrightarrow> static_value v" and "\<forall>a. p = Some a \<longrightarrow> 0 < a \<and> a < n"
    and "next_addr d \<le> n"
  shows "doc_wf (d\<lparr>next_addr := n, members := put_assoc k (v, p) (members d),
     childList := put_assoc k (x\<lparr>json_ptr := p, ktype := json_typeof v\<rparr>) (childList d)\<rparr>)"
proof -
  let ?y = "x\<lparr>json_ptr := p, ktype := json_typeof v\<rparr>"
  have x: "borrowed x" using kid_found [OF assms(1,2)] by auto
  have k: "kid_ok (put_assoc k (v, p) (members d)) c" if "c \<in> set (put_assoc k ?y (childList d))" for c
  proof (cases "fst c = k")
    case True
    have "map_of (put_assoc k ?y (childList d)) (fst c) = Some (snd c)"
      using that assms(1) by (intro map_of_is_SomeI) (auto simp: doc_wf_def distinct_put_assoc)
    with True have "snd c = ?y" by simp
    with True x show ?thesis by (simp add: kid_ok_def)
  next
    case False
    with that have "c \<in> set (childList d)" by (rule put_assoc_other [rotated])
    with False assms(1) show ?thesis by (auto simp: doc_wf_def kid_ok_def)
  qed
  have m: "(q = None \<longleftrightarrow> static_value w) \<and> (\<forall>a. q = Some a \<longrightarrow> 0 < a \<and> a < n)"
    if "map_of (put_assoc k (v, p) (members d)) j = Some (w, q)" for j w q
    using that assms by (cases "j = k") (fastforce simp: doc_wf_def)+
  show ?thesis using assms(1,5) k m by (auto simp: doc_wf_def distinct_put_assoc)
qed

lemma assign_in_place:
  assumes "doc_wf d" and "map_of (childList d) k = Some x" and "map_of (members d) k = Some (w, p)" and "in_place a (json_typeof w)"
  shows "doc_wf (d\<lparr>members := put_assoc k (assigned a, json_ptr x) (members d)\<rparr>)"
proof -
  have x: "json_ptr x = p" "ktype x = json_typeof w" using kid_found [OF assms(1,2)] assms(3) by auto
  from assms(4) have t: "static_value (assigned a) = static_value w" "json_typeof (assigned a) = ktype x"
    by (auto simp: in_place_def static_value_def x split: assignment.splits)
  have p: "p = None \<longleftrightarrow> static_value w" "\<forall>b. p = Some b \<longrightarrow> 0 < b \<and> b < next_addr d"
    using assms(1,3) by (auto simp: doc_wf_def)
  have "put_assoc k (x\<lparr>json_ptr := p, ktype := json_typeof (assigned a)\<rparr>) (childList d) = childList d"
    using t(2) x by (intro put_assoc_same) (simp add: assms(2))
  with fresh_wf [OF assms(1,2), of p "assigned a" "next_addr d"] p t show ?thesis by (simp add: x)
qed

lemma assign_static:
  assumes "doc_wf d" and "map_of (childList d) k = Some x" and "map_of (members d) k = Some (w, p)" and "static_value w"
  shows "\<exists>d'. assign_new k x v d = Inr d' \<and> doc_wf d' \<and> value_of d' = JObj (put_assoc k v (map (\<lambda>(k, v, _). (k, v)) (members d)))"
proof -
  have "json_ptr x = p" using kid_found [OF assms(1,2)] assms(3) by auto
  moreover have "p = None" using assms(1,3,4) by (auto simp: doc_wf_def)
  ultimately have x: "json_ptr x = None" by simp
  have h: "held d = [0]" "0 < next_addr d" using assms(1) by (auto simp: doc_wf_def)
  show ?thesis
  proof (cases "static_value v")
    case True
    with fresh_wf [OF assms(1,2), of None v "next_addr d"] show ?thesis
      by (simp add: assign_new_def json_new_def kid_reset_def json_give_def json_object_set_new_def x doc_wf_def value_of_def value_put)
  next
    case False
    with fresh_wf [OF assms(1,2), of "Some (next_addr d)" v "Suc (next_addr d)"] h show ?thesis
      by (simp add: assign_new_def json_new_def kid_reset_def json_give_def json_object_set_new_def x doc_wf_def value_of_def value_put)
  qed
qed

lemma assign_unsafe:
  assumes "doc_wf d" and "map_of (childList d) k = Some x" and "map_of (members d) k = Some (w, p)" and "\<not> static_value w"
  shows "\<exists>b. assign_new k x v d = Inl (NotHeld b)"
proof -
  have "json_ptr x = p" using kid_found [OF assms(1,2)] assms(3) by auto
  moreover have "p \<noteq> None" "\<forall>b. p = Some b \<longrightarrow> 0 < b \<and> b < next_addr d" using assms(1,3,4) by (auto simp: doc_wf_def)
  ultimately obtain b where b: "json_ptr x = Some b" "0 < b" "b < next_addr d" by auto
  have "held d = [0]" using assms(1) by (simp add: doc_wf_def)
  with b show ?thesis by (simp add: assign_new_def json_new_def kid_reset_def json_give_def)
qed


lemma map_of_others: "map_of (filter (\<lambda>m. fst m \<noteq> k) ms) j = (if j = k then None else map_of ms j)"
  by (induction ms) auto

lemma value_filter: "map (\<lambda>(k, v, _). (k, v)) (filter (\<lambda>m. fst m \<noteq> k) ms) = filter (\<lambda>m. fst m \<noteq> k) (map (\<lambda>(k, v, _). (k, v)) ms)"
  by (induction ms) auto

lemma erased_wf:
  "doc_wf d \<Longrightarrow> doc_wf (d\<lparr>members := filter (\<lambda>m. fst m \<noteq> k) (members d), childList := filter (\<lambda>c. fst c \<noteq> k) (childList d)\<rparr>)"
  by (auto simp: doc_wf_def kid_ok_def map_of_others distinct_map_filter split: option.splits if_splits)

lemma accesses:
  "doc_wf d \<Longrightarrow> \<forall>k \<in> set ks. map_of (members d) k \<noteq> None \<Longrightarrow>
   \<exists>d'. fold (\<lambda>k r. bindE r (doc_at k)) ks (Inr d) = Inr d' \<and> doc_wf d' \<and> value_of d' = value_of d"
proof (induction ks arbitrary: d)
  case (Cons k ks)
  from doc_at_wf [OF Cons.prems(1), of k] Cons.prems(2) obtain e where e: "doc_at k d = Inr e" "doc_wf e" "value_of e = value_of d"
    unfolding at_value by auto
  then have "map_of (map (\<lambda>(k, v, _). (k, v)) (members e)) j = map_of (map (\<lambda>(k, v, _). (k, v)) (members d)) j" for j
    by (simp add: value_of_def)
  then have "\<forall>k \<in> set ks. map_of (members e) k \<noteq> None"
    using Cons.prems(2) unfolding value_members by (metis list.set_intros(2) option.map_disc_iff)
  with Cons.IH [OF e(2)] e show ?case by simp
qed simp

lemma step_value:
  assumes "doc_wf d"
  shows "if op_safe op (value_of d)
    then \<exists>d'. doc_step op d = Inr d' \<and> doc_wf d' \<and> value_of d' = tree_step op (value_of d)
    else \<exists>b. doc_step op d = Inl (NotHeld b)"
proof (cases op)
  case (Access k)
  with doc_at_wf [OF assms, of k] show ?thesis by (auto simp: op_safe_def)
next
  case (Assign k a)
  obtain e x where e: "doc_at k d = Inr e" "doc_wf e" "value_of e = tree_step (Access k) (value_of d)" "map_of (childList e) k = Some x"
    using doc_at_wf [OF assms, of k] by blast
  obtain w where w: "map_of (members e) k = Some (w, json_ptr x)" "ktype x = json_typeof w" using kid_found [OF e(2,4)] by blast
  have old: "w = (case map_of (members d) k of None \<Rightarrow> JNull | Some (v, _) \<Rightarrow> v)"
    using arg_cong [OF e(3), of "\<lambda>t. case t of JObj ms \<Rightarrow> map_of ms k | _ \<Rightarrow> None"] w(1)
    unfolding at_value by (auto simp: value_of_def value_members split: option.splits if_splits)
  have safe: "op_safe op (value_of d) \<longleftrightarrow> static_value w \<or> in_place a (json_typeof w)"
    using old by (auto simp: Assign op_safe_def value_of_def value_members static_value_def split: option.splits)
  have new: "tree_step op (value_of d) = JObj (put_assoc k (assigned a) (map (\<lambda>(k, v, _). (k, v)) (members e)))"
    using e(3) unfolding at_value Assign assign_value by (auto simp: value_of_def split: if_splits)
  show ?thesis
  proof (cases "in_place a (json_typeof w)")
    case True
    with assign_in_place [OF e(2,4) w(1)] safe new show ?thesis
      by (simp add: Assign doc_assign_def e w(2) value_of_def value_put)
  next
    case False
    with assign_static [OF e(2,4) w(1), of "assigned a"] assign_unsafe [OF e(2,4) w(1), of "assigned a"] safe new show ?thesis
      by (auto simp: Assign doc_assign_def e w(2) value_of_def value_put)
  qed
next
  case (Erase k)
  obtain e x where e: "doc_at k d = Inr e" "doc_wf e" "value_of e = tree_step (Access k) (value_of d)" "map_of (childList e) k = Some x"
    using doc_at_wf [OF assms, of k] by blast
  have safe: "op_safe op (value_of d)" by (simp add: Erase op_safe_def)
  show ?thesis
  proof (cases "map_of (members d) k")
    case None
    with assms safe show ?thesis by (simp add: Erase doc_erase_def erase_key_def exist_key_def value_of_def value_members)
  next
    case (Some m)
    with e(3) have "value_of e = value_of d" unfolding at_value by simp
    then have same: "map (\<lambda>(k, v, _). (k, v)) (members d) = map (\<lambda>(k, v, _). (k, v)) (members e)" by (simp add: value_of_def)
    have "borrowed x" using kid_found [OF e(2,4)] by blast
    with erased_wf [OF e(2), of k] e Some have
      "\<exists>d'. doc_step op d = Inr d' \<and> doc_wf d' \<and> members d' = filter (\<lambda>m. fst m \<noteq> k) (members e)"
      by (simp add: Erase doc_erase_def)
    moreover have "tree_step op (value_of d) = JObj (filter (\<lambda>m. fst m \<noteq> k) (map (\<lambda>(k, v, _). (k, v)) (members e)))"
      using Some by (simp add: Erase erase_key_def exist_key_def value_of_def value_members same [symmetric])
    ultimately show ?thesis using safe by (auto simp: value_of_def value_filter)
  qed
next
  case ForEach
  have "\<forall>k \<in> set (map fst (members d)). map_of (members d) k \<noteq> None" by (auto simp: map_of_eq_None_iff)
  from accesses [OF assms this] ForEach show ?thesis by (auto simp: op_safe_def forEachInObj_def)
qed


lemma number_members_keys [simp]: "map fst (number_members n ms) = map fst ms"
  by (induction n ms rule: number_members.induct) auto

lemma number_members_values: "map (\<lambda>(k, v, _). (k, v)) (number_members n ms) = ms"
  by (induction n ms rule: number_members.induct) auto

lemma number_members_addr:
  "(k, v, p) \<in> set (number_members n ms) \<Longrightarrow> (p = None \<longleftrightarrow> static_value v) \<and> (\<forall>a. p = Some a \<longrightarrow> n \<le> a \<and> a < n + length ms)"
  by (induction n ms rule: number_members.induct) (fastforce split: if_splits)+

lemma reset_wf: "distinct (map fst ms) \<Longrightarrow> doc_wf (JSON_reset ms)"
  using number_members_addr [of _ _ _ 1 ms] by (fastforce simp: doc_wf_def JSON_reset_def dest: map_of_SomeD)

lemma value_reset: "value_of (JSON_reset ms) = JObj ms"
  by (simp add: value_of_def JSON_reset_def number_members_values)

lemma run_value:
  "doc_wf d \<Longrightarrow>
   if ops_safe ops (value_of d)
   then \<exists>d'. doc_run ops d = Inr d' \<and> doc_wf d' \<and> value_of d' = fold tree_step ops (value_of d)
   else \<exists>b. doc_run ops d = Inl (NotHeld b)"
proof (induction ops arbitrary: d)
  case (Cons op ops)
  show ?case
  proof (cases "op_safe op (value_of d)")
    case True
    with step_value [OF Cons.prems, of op] obtain e where e: "doc_step op d = Inr e" "doc_wf e" "value_of e = tree_step op (value_of d)"
      by auto
    with Cons.IH [OF e(2)] True show ?thesis by (cases "ops_safe ops (tree_step op (value_of d))") simp_all
  next
    case False
    with step_value [OF Cons.prems, of op] show ?thesis by auto
  qed
qed simp

lemma kids_keep: "\<forall>c \<in> set cs. borrowed (snd c) \<Longrightarrow> kids_destroy cs d = Inr d"
  by (induction cs) auto

lemma destroys: "doc_wf d \<Longrightarrow> doc_destroy d = Inr []"
proof -
  assume d: "doc_wf d"
  then have "\<forall>c \<in> set (childList d). borrowed (snd c)" by (auto simp: doc_wf_def kid_ok_def split: option.splits)
  with d show ?thesis by (simp add: doc_destroy_def json_give_def doc_wf_def kids_keep)
qed

section \<open>Properties\<close>

text \<open>
  C16: An object that has been parsed or made, with any sequence of accesses, assignments, erasures and loops:
  as long as each assignment goes to a member that is absent, null, a truth value, or a text or number that is set to another of its
  type, the program gives back every reference exactly once, has none left when the object is destroyed, and the value
  is what the assignments say.  The first assignment of any other kind gives back a reference that the object holds,
  so that the value is freed twice.
\<close>

theorem json_references:
  assumes "distinct (map fst ms)"
  shows "if ops_safe ops (JObj ms)
    then \<exists>d. doc_run ops (JSON_reset ms) = Inr d \<and> value_of d = fold tree_step ops (JObj ms) \<and> doc_destroy d = Inr []
    else \<exists>a. doc_run ops (JSON_reset ms) = Inl (NotHeld a)"
  using run_value [OF reset_wf [OF assms], of ops] destroys by (auto simp: value_reset split: if_splits)

text \<open>Signing in sets \<^verbatim>\<open>mac\<close> in the client's parameters; a client that sends a number there makes it free the number twice.\<close>

theorem json_references_witness:
  "(\<exists>d. doc_run [Assign ''mac'' (SetText [1]), Assign ''n'' (SetInt 5), Erase ''mac'', ForEach] (JSON_reset [(''n'', JInt 2)]) = Inr d \<and>
      value_of d = JObj [(''n'', JInt 5)] \<and> doc_destroy d = Inr []) \<and>
   (\<exists>a. doc_run [Assign ''mac'' (SetText [1])] (JSON_reset [(''mac'', JInt 2)]) = Inl (NotHeld a))"
  using json_references [of "[(''n'', JInt 2)]" "[Assign ''mac'' (SetText [1]), Assign ''n'' (SetInt 5), Erase ''mac'', ForEach]"]
    json_references [of "[(''mac'', JInt 2)]" "[Assign ''mac'' (SetText [1])]"]
  by (simp add: op_safe_def in_place_def static_value_def json_set_def assign_def at_step_def erase_key_def exist_key_def)

end
