(* ===== verification/Restful.thy ===== *)
theory Restful
  imports JsonRefs
begin

text \<open>
  The application interface: event handlers by event, URI and argument type (kapi/include/notification.h),
  the contexts of the URIs and the dispatch of a request (aps/source/restful.cpp), and the widget
  registry behind it (kintf/include/widget_manager.hpp).  jansson's parser and printer are the
  parameters \<open>loads\<close> and \<open>dumps\<close>, the files it can load are \<open>disk\<close>.
\<close>

section \<open>Event handlers (notification.h)\<close>

text \<open>A \<^verbatim>\<open>type_index\<close> is a number; \<^verbatim>\<open>map::operator[]\<close> creates what it does not find.\<close>

type_synonym 'h Handlers = "(nat \<times> 'h) list"
type_synonym 'h repository = "(byte list \<times> (byte list \<times> 'h Handlers) list) list"

definition container :: "byte list \<Rightarrow> byte list \<Rightarrow> 'h repository \<Rightarrow> 'h Handlers \<times> 'h repository" where
  "container e u R =
     (let M = (case map_of R e of None \<Rightarrow> [] | Some M \<Rightarrow> M);
          H = (case map_of M u of None \<Rightarrow> [] | Some H \<Rightarrow> H)
      in (H, put_assoc e (put_assoc u H M) R))"

definition set_container :: "byte list \<Rightarrow> byte list \<Rightarrow> 'h Handlers \<Rightarrow> 'h repository \<Rightarrow> 'h repository" where
  "set_container e u H R = put_assoc e (put_assoc u H (case map_of R e of None \<Rightarrow> [] | Some M \<Rightarrow> M)) R"

definition handler :: "byte list \<Rightarrow> byte list \<Rightarrow> nat \<Rightarrow> 'h \<Rightarrow> 'h repository \<Rightarrow> 'h repository" where
  "handler e u ty f R = (case container e u R of (H, R) \<Rightarrow> set_container e u (put_assoc ty f H) R)"

text \<open>
  The handlers a trigger calls, those from \<^verbatim>\<open>lower_bound\<close> to \<^verbatim>\<open>upper_bound\<close> of its argument types.
\<close>

definition trigger :: "byte list \<Rightarrow> byte list \<Rightarrow> nat \<Rightarrow> 'h repository \<Rightarrow> 'h list \<times> 'h repository" where
  "trigger e u ty R = (case container e u R of (H, R) \<Rightarrow> (case map_of H ty of None \<Rightarrow> [] | Some f \<Rightarrow> [f], R))"

definition simpleHandler :: "byte list \<Rightarrow> nat \<Rightarrow> 'h \<Rightarrow> 'h repository \<Rightarrow> 'h repository" where
  "simpleHandler u ty f R = handler [0x5f] u ty f R"

definition simpleTrigger :: "byte list \<Rightarrow> nat \<Rightarrow> 'h repository \<Rightarrow> 'h list \<times> 'h repository" where
  "simpleTrigger u ty R = trigger [0x5f] u ty R"

section \<open>JSON from text\<close>

text \<open>
  A text that does not parse is taken as the name of a file; when that does not load either the
  object is the fault object, here \<open>None\<close>.  Only arrays and objects are printed.
\<close>

definition JSON_source :: "(byte list \<Rightarrow> json option) \<Rightarrow> (byte list \<Rightarrow> json option) \<Rightarrow> byte list \<Rightarrow> json option" where
  "JSON_source loads disk source = (case loads source of Some j \<Rightarrow> Some j | None \<Rightarrow> disk source)"

definition stringify :: "(json \<Rightarrow> byte list) \<Rightarrow> json \<Rightarrow> byte list" where
  "stringify dumps j = (case j of JObj _ \<Rightarrow> dumps j | JArr _ \<Rightarrow> dumps j | _ \<Rightarrow> [])"

text \<open>A member for reading: null when the value has none.\<close>

definition member :: "string \<Rightarrow> json option \<Rightarrow> json" where
  "member k j = (case j of None \<Rightarrow> JNull | Some j \<Rightarrow> (case jget j [Key k] of None \<Rightarrow> JNull | Some v \<Rightarrow> v))"

section \<open>Requests (restful.cpp)\<close>

record Context =
  URI :: "byte list"
  parameter :: "byte list"
  response :: "byte list"
  request :: "byte list"

definition new_Context :: "byte list \<Rightarrow> Context" where
  "new_Context uri = \<lparr>URI = uri, parameter = [], response = [], request = []\<rparr>"

text \<open>The second call finds the context that the first has appended.\<close>

fun find_context :: "byte list \<Rightarrow> Context list \<Rightarrow> nat option" where
  "find_context uri [] = None"
| "find_context uri (x # xs) = (if URI x = uri then Some 0 else map_option Suc (find_context uri xs))"

definition getContext :: "byte list \<Rightarrow> Context list \<Rightarrow> nat \<times> Context list" where
  "getContext uri cs =
     (case find_context uri cs of
        Some k \<Rightarrow> (k, cs)
      | None \<Rightarrow> (case find_context uri (cs @ [new_Context uri]) of
                   Some k \<Rightarrow> (k, cs @ [new_Context uri]) | None \<Rightarrow> (0, cs @ [new_Context uri])))"

text \<open>A handler works on its context and on the rest of the program, \<open>world\<close>.\<close>

type_synonym 'w app_handler = "Context \<Rightarrow> 'w \<Rightarrow> ub + (Context \<times> 'w)"

record 'w interface =
  Contexts :: "Context list"
  repo :: "'w app_handler repository"
  world :: 'w

definition Application :: "byte list" where
  "Application = map of_char ''Application''"

fun run_handlers :: "'w app_handler list \<Rightarrow> Context \<Rightarrow> 'w \<Rightarrow> ub + (Context \<times> 'w)" where
  "run_handlers [] c w = Inr (c, w)"
| "run_handlers (f # fs) c w = bindE (f c w) (\<lambda>(c, w). run_handlers fs c w)"

definition path_uri :: "json \<Rightarrow> byte list" where
  "path_uri path = (case path of JArr xs \<Rightarrow> concat (map (\<lambda>j. json_toString j @ [0x2f]) xs) | _ \<Rightarrow> [])"

text \<open>The type of a handler of contexts.\<close>

definition ctx_type :: nat where "ctx_type = 1"

text \<open>\<^verbatim>\<open>uri.pop_back()\<close> on an empty string writes in front of it.\<close>

definition handleRESTful ::
    "(byte list \<Rightarrow> json option) \<Rightarrow> (json \<Rightarrow> byte list) \<Rightarrow> ('w \<Rightarrow> byte list \<Rightarrow> json option) \<Rightarrow> byte list \<Rightarrow> 'w interface \<Rightarrow>
     ub + (byte list \<times> 'w interface)" where
  "handleRESTful loads dumps disk req s =
     (let rq = JSON_source loads (disk (world s)) req;
          uri = path_uri (member ''path'' rq)
      in if uri = [] then Inl OobWrite
         else (case getContext (butlast uri) (Contexts s) of (k, cs) \<Rightarrow>
           let c = (cs ! k)\<lparr>parameter := stringify dumps (member ''parameter'' rq), request := req\<rparr> in
           case trigger Application (butlast uri) ctx_type (repo s) of (fs, R) \<Rightarrow>
             bindE (run_handlers fs c (world s)) (\<lambda>(c, w).
               Inr (response c, \<lparr>Contexts = cs[k := c], repo = R, world = w\<rparr>))))"

section \<open>The widget registry (widget\_manager.hpp)\<close>

text \<open>\<open>None\<close> is the fault object: it has no members, and a criterion without members holds.\<close>

definition pred_matches :: "json option \<Rightarrow> json \<Rightarrow> bool" where
  "pred_matches bl cmp =
     (case bl of
        Some (JObj ms) \<Rightarrow>
          list_all (\<lambda>(key, val). exist_key key cmp \<longrightarrow> json_toString (member key (Some cmp)) = json_toString val) ms
      | _ \<Rightarrow> True)"

definition source_size :: "json option \<Rightarrow> nat" where
  "source_size j = (case j of None \<Rightarrow> 0 | Some j \<Rightarrow> json_size j)"

text \<open>The index goes on after an erased element; the bound is read anew each time.\<close>

function delete_loop :: "json option \<Rightarrow> nat \<Rightarrow> json list \<Rightarrow> json list" where
  "delete_loop p i xs =
     (if i < length xs
      then delete_loop p (Suc i) (if pred_matches p (xs ! i) then take i xs @ drop (Suc i) xs else xs)
      else xs)"
  by pat_completeness auto
termination by (relation "measure (\<lambda>(p, i, xs). length xs - i)") auto

declare delete_loop.simps [simp del]

definition method_is :: "string \<Rightarrow> json option \<Rightarrow> bool" where
  "method_is m req \<longleftrightarrow> json_toString (member ''method'' req) = map of_char m"

text \<open>\<^verbatim>\<open>list\<close>: what is not an array is replaced by an empty one; it is part of the registry if that is an object.\<close>

definition registry_list :: "json \<Rightarrow> json list" where
  "registry_list reg = (case member ''list'' (Some reg) of JArr xs \<Rightarrow> xs | _ \<Rightarrow> [])"

definition registry_with :: "json \<Rightarrow> json list \<Rightarrow> json" where
  "registry_with reg xs =
     (case reg of JObj ms \<Rightarrow> JObj (put_assoc ''list'' (JArr xs) ms) | JNull \<Rightarrow> JObj [(''list'', JArr xs)] | _ \<Rightarrow> reg)"

definition widget_result :: "json option \<Rightarrow> json option \<Rightarrow> json list \<Rightarrow> json list \<times> (string \<times> json) list" where
  "widget_result param req xs =
     (if method_is ''DELETE'' req
      then (if source_size param = 0 then [] else delete_loop param 0 xs, [(''status'', JInt 0)])
      else if method_is ''POST'' req
      then (if list_ex (pred_matches param) xs then xs
            else xs @ [case param of None \<Rightarrow> JNull | Some j \<Rightarrow> j], [(''status'', JInt 0)])
      else if method_is ''GET'' req then (xs, [(''result'', JArr xs), (''status'', JInt 0)])
      else (xs, [(''err'', JStr (json_toString (member ''method'' req) @ map of_char '' not supported'')), (''status'', JInt (- 1))]))"

definition widget_registry_json :: "byte list" where
  "widget_registry_json = map of_char ''/usr/lib/kappaio/files/widget_registry.json''"

text \<open>The files with the registry among them.\<close>

definition with_registry :: "(byte list \<Rightarrow> json option) \<Rightarrow> json option \<Rightarrow> byte list \<Rightarrow> json option" where
  "with_registry other regfile name = (if name = widget_registry_json then regfile else other name)"

text \<open>
  \<^verbatim>\<open>list\<close> is a member of the registry's object, so to assign an array to it gives back a reference that the object holds,
  unless the member is absent or null: when it is of another type, and whenever a request clears the list.  If the registry
  is not an object, \<^verbatim>\<open>list\<close> is the fault object, which owns its value.
\<close>

definition registry_frees :: "json option \<Rightarrow> json option \<Rightarrow> json \<Rightarrow> bool" where
  "registry_frees param req reg \<longleftrightarrow>
     (case member ''list'' (Some reg) of JArr xs \<Rightarrow> False | _ \<Rightarrow> \<not> op_safe (Assign ''list'' (SetCopy (JArr []))) reg) \<or>
     method_is ''DELETE'' req \<and> source_size param = 0 \<and> json_typeof reg \<in> {JSON_OBJECT, JSON_NULL}"

text \<open>The statements on \<^verbatim>\<open>reg\<close> and \<^verbatim>\<open>list\<close> up to that.\<close>

definition registry_refs :: "json option \<Rightarrow> json option \<Rightarrow> json \<Rightarrow> doc_op list" where
  "registry_refs param req reg =
     Access ''list'' # (case member ''list'' (Some reg) of JArr xs \<Rightarrow> [] | _ \<Rightarrow> [Assign ''list'' (SetCopy (JArr []))]) @
     (if method_is ''DELETE'' req \<and> source_size param = 0 then [Assign ''list'' (SetCopy (JArr []))] else [])"

text \<open>The registry file is the state; the result is the response set and the file written.\<close>

definition widgetRegistry ::
    "(byte list \<Rightarrow> json option) \<Rightarrow> (json \<Rightarrow> byte list) \<Rightarrow> (json option \<Rightarrow> byte list \<Rightarrow> json option) \<Rightarrow> json option app_handler" where
  "widgetRegistry loads dumps disk C regfile =
     (let param = JSON_source loads (disk regfile) (parameter C);
          reg = (case regfile of None \<Rightarrow> JObj [] | Some j \<Rightarrow> j);
          req = JSON_source loads (disk regfile) (request C)
      in if registry_frees param req reg then Inl Dangling
         else case widget_result param req (registry_list reg) of (xs, rsp) \<Rightarrow>
           Inr (C\<lparr>response := stringify dumps (JObj rsp)\<rparr>, Some (registry_with reg xs)))"

text \<open>
  \<^verbatim>\<open>widgetLoad\<close>: for a match, \<^verbatim>\<open>EncodeDir\<close> is given a pointer into a string that no longer exists.
  The elements of an object by index are the fault object, which like null has no members.
\<close>

definition load_list :: "json \<Rightarrow> json list" where
  "load_list reg =
     (case member ''list'' (Some reg) of JArr xs \<Rightarrow> xs | JObj ms \<Rightarrow> replicate (length ms) JNull | _ \<Rightarrow> [])"

definition widgetLoad ::
    "(byte list \<Rightarrow> json option) \<Rightarrow> (json \<Rightarrow> byte list) \<Rightarrow> (json option \<Rightarrow> byte list \<Rightarrow> json option) \<Rightarrow> json option app_handler" where
  "widgetLoad loads dumps disk C regfile =
     (let param = JSON_source loads (disk regfile) (parameter C);
          xs = (case regfile of None \<Rightarrow> [] | Some reg \<Rightarrow> load_list reg)
      in if list_ex (pred_matches param) xs then Inl Dangling
         else Inr (C\<lparr>response := stringify dumps (JObj [(''status'', JInt (- 1))])\<rparr>, regfile))"

section \<open>Lemmas\<close>

lemma URI_new [simp]: "URI (new_Context uri) = uri"
  by (simp add: new_Context_def)

lemma find_context_iff:
  "find_context uri cs = None \<longleftrightarrow> uri \<notin> URI ` set cs"
  "find_context uri cs = Some k \<Longrightarrow> k < length cs \<and> URI (cs ! k) = uri"
  by (induction cs arbitrary: k) (auto split: if_splits)

lemma find_context_append: "uri \<notin> URI ` set cs \<Longrightarrow> find_context uri (cs @ [new_Context uri]) = Some (length cs)"
  by (induction cs) auto

lemma getContext_cases:
  "getContext uri cs = (k, ds) \<Longrightarrow>
   (uri \<in> URI ` set cs \<and> ds = cs \<or> uri \<notin> URI ` set cs \<and> ds = cs @ [new_Context uri] \<and> k = length cs) \<and>
   k < length ds \<and> URI (ds ! k) = uri"
  using find_context_iff [of uri cs]
  by (auto simp: getContext_def find_context_append split: option.splits)

lemma container_handler:
  "fst (container e u (handler e' u' ty f R)) =
     (if e = e' \<and> u = u' then put_assoc ty f (fst (container e u R)) else fst (container e u R))"
  by (auto simp: handler_def container_def set_container_def Let_def)

lemma container_kept [simp]: "fst (container e u (snd (container e' u' R))) = fst (container e u R)"
  by (auto simp: container_def Let_def)

lemma trigger_handler:
  "fst (trigger e u ty (handler e' u' ty' f R)) =
     (if e = e' \<and> u = u' \<and> ty = ty' then [f] else fst (trigger e u ty R))"
proof -
  have "fst (trigger e u ty S) = (case map_of (fst (container e u S)) ty of None \<Rightarrow> [] | Some f \<Rightarrow> [f])" for S :: "'a repository"
    by (simp add: trigger_def split: prod.splits option.splits)
  then show ?thesis by (simp add: container_handler)
qed

lemma delete_loop_Suc: "delete_loop p (Suc i) (x # xs) = x # delete_loop p i xs"
proof (induction p i xs rule: delete_loop.induct)
  case (1 p i xs)
  show ?case
    using 1 by (cases "i < length xs"; cases "pred_matches p (xs ! i)"; subst (1 2) delete_loop.simps) simp_all
qed

text \<open>What the loop does to a list: the element after an erased one is kept unseen.\<close>

fun delete_skipping :: "(json \<Rightarrow> bool) \<Rightarrow> json list \<Rightarrow> json list" where
  "delete_skipping p [] = []"
| "delete_skipping p [x] = (if p x then [] else [x])"
| "delete_skipping p (x # y # xs) = (if p x then y # delete_skipping p xs else x # delete_skipping p (y # xs))"

lemma delete_loop_eq: "delete_loop p 0 xs = delete_skipping (pred_matches p) xs"
proof (induction "pred_matches p" xs rule: delete_skipping.induct)
  case 1
  show ?case by (simp add: delete_loop.simps)
next
  case (2 x)
  show ?case by (simp add: delete_loop.simps)
next
  case (3 x y xs)
  have "delete_loop p 0 (x # y # xs) = delete_loop p 1 (if pred_matches p x then y # xs else x # y # xs)"
    by (subst delete_loop.simps) simp
  also have "\<dots> = (if pred_matches p x then y # delete_loop p 0 xs else x # delete_loop p 0 (y # xs))"
    using delete_loop_Suc [of p 0] by simp
  finally show ?case using 3 by simp
qed

fun no_two :: "(json \<Rightarrow> bool) \<Rightarrow> json list \<Rightarrow> bool" where
  "no_two p (x # y # xs) \<longleftrightarrow> \<not> (p x \<and> p y) \<and> no_two p (y # xs)"
| "no_two p _ \<longleftrightarrow> True"

lemma no_two_Cons: "no_two p (x # xs) \<Longrightarrow> no_two p xs"
  by (cases xs) auto

lemma delete_skipping_filter: "no_two p xs \<Longrightarrow> delete_skipping p xs = filter (\<lambda>x. \<not> p x) xs"
  by (induction p xs rule: delete_skipping.induct) (auto dest: no_two_Cons)

lemma delete_skipping_kept: "filter (\<lambda>x. \<not> p x) (delete_skipping p xs) = filter (\<lambda>x. \<not> p x) xs"
  by (induction p xs rule: delete_skipping.induct) auto

lemma handled:
  assumes "JSON_source loads (disk (world s)) req = Some rq" and "path_uri (member ''path'' (Some rq)) = uri @ [0x2f]"
    and "getContext uri (Contexts s) = (k, cs)" and "fst (trigger Application uri ctx_type (repo s)) = fs"
  shows "handleRESTful loads dumps disk req s =
    bindE (run_handlers fs ((cs ! k)\<lparr>parameter := stringify dumps (member ''parameter'' (Some rq)), request := req\<rparr>) (world s))
      (\<lambda>(c, w). Inr (response c, \<lparr>Contexts = cs[k := c], repo = snd (trigger Application uri ctx_type (repo s)), world = w\<rparr>))"
  using assms by (cases "trigger Application uri ctx_type (repo s)") (simp add: handleRESTful_def Let_def)

lemma registry_list_with:
  "registry_list (registry_with (JObj ms) xs) = xs"
  by (simp add: registry_list_def registry_with_def member_def)

lemma distinct_URI_update:
  "distinct (map URI cs) \<Longrightarrow> k < length cs \<Longrightarrow> URI c = URI (cs ! k) \<Longrightarrow> distinct (map URI (cs[k := c]))"
  by (metis list_update_id map_update)

section \<open>Properties\<close>

text \<open>
  C36: A request reaches the handler registered last for its URI and for context arguments, with its own text and
  parameter, and is answered with the response of that URI's context; the contexts of all other URIs
  are kept and no URI gets a second one.  Without a handler the answer is whatever response the
  context still holds.  A request without path elements, or one that is neither JSON nor the name of
  a JSON file, writes in front of an empty string.
\<close>

theorem restful_dispatch:
  assumes "getContext uri (Contexts s) = (k, cs)" and "distinct (map URI (Contexts s))"
  shows "(JSON_source loads (disk (world s)) req = Some rq \<and> path_uri (member ''path'' (Some rq)) = uri @ [0x2f] \<longrightarrow>
      (repo s = handler Application uri ctx_type f R \<and>
         f ((cs ! k)\<lparr>parameter := stringify dumps (member ''parameter'' (Some rq)), request := req\<rparr>) (world s) = Inr (c', w') \<and> URI c' = uri \<longrightarrow>
         (\<exists>s'. handleRESTful loads dumps disk req s = Inr (response c', s') \<and> world s' = w' \<and> c' \<in> set (Contexts s') \<and>
            distinct (map URI (Contexts s')) \<and> (\<forall>x \<in> set (Contexts s). URI x \<noteq> uri \<longrightarrow> x \<in> set (Contexts s')))) \<and>
      (fst (trigger Application uri ctx_type (repo s)) = [] \<longrightarrow>
         (\<exists>s'. handleRESTful loads dumps disk req s = Inr (response (cs ! k), s') \<and> world s' = world s))) \<and>
    (path_uri (member ''path'' (JSON_source loads (disk (world s)) req)) = [] \<longrightarrow>
      handleRESTful loads dumps disk req s = Inl OobWrite)"
proof (intro conjI impI; (elim conjE)?)
  assume r: "JSON_source loads (disk (world s)) req = Some rq" "path_uri (member ''path'' (Some rq)) = uri @ [0x2f]"
  note h = handled [where loads = loads and disk = disk and dumps = dumps, OF r(1) r(2) assms(1)]
  note g = getContext_cases [OF assms(1)]
  then have "cs = Contexts s \<or> uri \<notin> URI ` set (Contexts s) \<and> cs = Contexts s @ [new_Context uri]" by blast
  with assms(2) have "set (Contexts s) \<subseteq> set cs \<and> distinct (map URI cs)" by (elim disjE) auto
  with g have k: "k < length cs" "URI (cs ! k) = uri" "set (Contexts s) \<subseteq> set cs" "distinct (map URI cs)" by blast+
  show "\<exists>s'. handleRESTful loads dumps disk req s = Inr (response (cs ! k), s') \<and> world s' = world s"
    if "fst (trigger Application uri ctx_type (repo s)) = []"
    using h [OF that] by simp
  assume f: "repo s = handler Application uri ctx_type f R"
    "f ((cs ! k)\<lparr>parameter := stringify dumps (member ''parameter'' (Some rq)), request := req\<rparr>) (world s) = Inr (c', w')" "URI c' = uri"
  have "fst (trigger Application uri ctx_type (repo s)) = [f]"
    unfolding f(1) trigger_handler by simp
  note h = h [OF this]
  have "x \<in> set (cs[k := c'])" if "x \<in> set (Contexts s)" "URI x \<noteq> uri" for x
  proof -
    from that(1) k(3) obtain i where i: "i < length cs" "cs ! i = x" by (auto simp: in_set_conv_nth subset_iff)
    with that(2) k(2) have "i \<noteq> k" by auto
    with i show ?thesis by (metis length_list_update nth_list_update_neq nth_mem)
  qed
  then show "\<exists>s'. handleRESTful loads dumps disk req s = Inr (response c', s') \<and> world s' = w' \<and> c' \<in> set (Contexts s') \<and>
            distinct (map URI (Contexts s')) \<and> (\<forall>x \<in> set (Contexts s). URI x \<noteq> uri \<longrightarrow> x \<in> set (Contexts s'))"
    using h f k distinct_URI_update [OF k(4,1), of c'] by (auto simp: set_update_memI)
next
  assume "path_uri (member ''path'' (JSON_source loads (disk (world s)) req)) = []"
  then show "handleRESTful loads dumps disk req s = Inl OobWrite"
    by (simp add: handleRESTful_def Let_def)
qed

text \<open>
  Requests to the widget registry, end to end.  A criterion is compared with an entry only on the members
  the entry has.  GET returns the list; POST adds its parameter exactly when no entry matches it;
  DELETE erases as a scan that skips the entry after each erased one: exactly the matching entries
  go when no two neighbours match, none that does not match ever goes, and of two neighbours that
  match the second stays.  The file holds the new list afterwards.
\<close>

theorem widget_requests:
  assumes "loads (stringify dumps (JObj ms)) = Some (JObj ms)"
    and "repo s = handler Application uri ctx_type (widgetRegistry loads dumps disk) R"
    and "loads req = Some (JObj rs)" and "path_uri (member ''path'' (Some (JObj rs))) = uri @ [0x2f]"
    and "member ''parameter'' (Some (JObj rs)) = JObj ms" and "ms \<noteq> []"
    and "world s = Some (JObj gs)" and "map_of gs ''list'' = Some (JArr xs)"
  defines "p \<equiv> pred_matches (Some (JObj ms))" and "method \<equiv> json_toString (member ''method'' (Some (JObj rs)))"
  shows "\<exists>rsp s' g. handleRESTful loads dumps disk req s = Inr (stringify dumps (JObj rsp), s') \<and> world s' = Some g \<and>
    (method = map of_char ''GET'' \<longrightarrow> map_of rsp ''result'' = Some (JArr xs) \<and> registry_list g = xs) \<and>
    (method = map of_char ''POST'' \<longrightarrow> registry_list g = (if \<exists>x \<in> set xs. p x then xs else xs @ [JObj ms])) \<and>
    (method = map of_char ''DELETE'' \<longrightarrow>
       registry_list g = delete_skipping p xs \<and> filter (\<lambda>x. \<not> p x) (registry_list g) = filter (\<lambda>x. \<not> p x) xs \<and>
       (no_two p xs \<longrightarrow> registry_list g = filter (\<lambda>x. \<not> p x) xs))"
proof -
  obtain k cs where k: "getContext uri (Contexts s) = (k, cs)" by fastforce
  have src: "JSON_source loads f req = Some (JObj rs)" for f by (simp add: JSON_source_def assms(3))
  have par: "JSON_source loads f (stringify dumps (JObj ms)) = Some (JObj ms)" for f
    using assms(1) by (simp add: JSON_source_def)
  have t: "fst (trigger Application uri ctx_type (repo s)) = [widgetRegistry loads dumps disk]"
    unfolding assms(2) trigger_handler by simp
  have l: "registry_list (JObj gs) = xs" using assms(8) by (simp add: registry_list_def member_def)
  have free: "\<not> registry_frees (Some (JObj ms)) (Some (JObj rs)) (JObj gs)"
    using assms(6,8) by (simp add: registry_frees_def member_def source_size_def json_size_def)
  obtain ys rsp where w: "widget_result (Some (JObj ms)) (Some (JObj rs)) xs = (ys, rsp)" by fastforce
  note h = handled [where loads = loads and disk = disk and dumps = dumps, OF src assms(4) k t]
  have "\<exists>s'. handleRESTful loads dumps disk req s = Inr (stringify dumps (JObj rsp), s') \<and>
      world s' = Some (registry_with (JObj gs) ys)"
    unfolding h by (simp add: assms(5,7) widgetRegistry_def par src l w free)
  moreover have "(method = map of_char ''GET'' \<longrightarrow> map_of rsp ''result'' = Some (JArr xs) \<and> ys = xs) \<and>
    (method = map of_char ''POST'' \<longrightarrow> ys = (if \<exists>x \<in> set xs. p x then xs else xs @ [JObj ms])) \<and>
    (method = map of_char ''DELETE'' \<longrightarrow> ys = delete_skipping p xs)"
    using w assms(6)
    by (auto simp: widget_result_def method_is_def method_def p_def delete_loop_eq source_size_def json_size_def list_ex_iff split: if_splits)
  ultimately show ?thesis
    using delete_skipping_filter [of p xs] delete_skipping_kept [of p xs]
    by (auto simp: registry_list_with split: if_splits)
qed

text \<open>
  When a request frees the list twice is what the references of the wrappers say; a request to erase without a criterion
  always does.
\<close>

theorem registry_clear_frees:
  assumes "distinct (map fst gs)"
  shows "registry_frees param req (JObj gs) \<longleftrightarrow> (\<exists>a. doc_run (registry_refs param req (JObj gs)) (JSON_reset gs) = Inl (NotHeld a))"
    and "method_is ''DELETE'' (Some (JObj rs)) \<Longrightarrow> loads (stringify dumps (JObj [])) = Some (JObj []) \<Longrightarrow>
      repo s = handler Application uri ctx_type (widgetRegistry loads dumps disk) R \<Longrightarrow> loads r = Some (JObj rs) \<Longrightarrow>
      path_uri (member ''path'' (Some (JObj rs))) = uri @ [0x2f] \<Longrightarrow> member ''parameter'' (Some (JObj rs)) = JObj [] \<Longrightarrow>
      world s = Some (JObj gs) \<Longrightarrow> handleRESTful loads dumps disk r s = Inl Dangling"
proof -
  have "registry_frees param req (JObj gs) \<longleftrightarrow> \<not> ops_safe (registry_refs param req (JObj gs)) (JObj gs)"
    by (auto simp: registry_frees_def registry_refs_def op_safe_def member_def json_set_def assign_def at_step_def static_value_def
        in_place_def split: option.splits json.splits)
  with run_value [OF reset_wf [OF assms], of "registry_refs param req (JObj gs)"]
  show "registry_frees param req (JObj gs) \<longleftrightarrow> (\<exists>a. doc_run (registry_refs param req (JObj gs)) (JSON_reset gs) = Inl (NotHeld a))"
    by (auto simp: value_reset)
  assume a: "method_is ''DELETE'' (Some (JObj rs))" "loads (stringify dumps (JObj [])) = Some (JObj [])"
    "repo s = handler Application uri ctx_type (widgetRegistry loads dumps disk) R" "loads r = Some (JObj rs)"
    "path_uri (member ''path'' (Some (JObj rs))) = uri @ [0x2f]" "member ''parameter'' (Some (JObj rs)) = JObj []" "world s = Some (JObj gs)"
  obtain k cs where k: "getContext uri (Contexts s) = (k, cs)" by fastforce
  have src: "JSON_source loads f r = Some (JObj rs)" "JSON_source loads f (stringify dumps (JObj [])) = Some (JObj [])" for f
    using a(2,4) by (simp_all add: JSON_source_def)
  have t: "fst (trigger Application uri ctx_type (repo s)) = [widgetRegistry loads dumps disk]" unfolding a(3) trigger_handler by simp
  show "handleRESTful loads dumps disk r s = Inl Dangling"
    unfolding handled [where loads = loads and disk = disk and dumps = dumps, OF src(1) a(5) k t]
    by (simp add: a(6,7) widgetRegistry_def src registry_frees_def a(1) source_size_def json_size_def)
qed

section \<open>Witnesses\<close>

text \<open>A printer and a parser that know the texts of one request.\<close>

definition criteria :: "(string \<times> json) list" where
  "criteria = [(''name'', JStr [0x61])]"

definition widget_req :: "json \<Rightarrow> json" where
  "widget_req m = JObj [(''path'', JArr [JStr [0x77]]), (''method'', m), (''parameter'', JObj criteria)]"

definition demo_loads :: "json \<Rightarrow> byte list \<Rightarrow> json option" where
  "demo_loads m t = (if t = [1] then Some (widget_req m) else if t = [2] then Some (JObj criteria) else None)"

definition demo_dumps :: "json \<Rightarrow> byte list" where
  "demo_dumps j = (if j = JObj criteria then [2] else [3])"

definition demo_interface :: "json list \<Rightarrow> json \<Rightarrow> json option interface" where
  "demo_interface xs m = \<lparr>Contexts = [new_Context [0x78]],
     repo = handler Application [0x77] ctx_type (widgetRegistry (demo_loads m) demo_dumps (with_registry (\<lambda>_. None))) [],
     world = Some (JObj [(''list'', JArr xs)])\<rparr>"

lemmas demo_defs = criteria_def widget_req_def demo_loads_def demo_dumps_def demo_interface_def

theorem restful_dispatch_witness:
  "\<exists>s'. handleRESTful (demo_loads JNull) demo_dumps (with_registry (\<lambda>_. None)) [1]
      \<lparr>Contexts = [new_Context [0x78]], repo = handler Application [0x77] ctx_type (\<lambda>C w. Inr (C\<lparr>response := [42]\<rparr>, w)) [], world = None\<rparr> =
      Inr ([42], s') \<and> new_Context [0x78] \<in> set (Contexts s')"
proof -
  let ?f = "\<lambda>C w. Inr (C\<lparr>response := [42]\<rparr>, w)"
  let ?s = "\<lparr>Contexts = [new_Context [0x78]], repo = handler Application [0x77] ctx_type ?f [], world = None\<rparr>"
  let ?c = "(new_Context [0x77])\<lparr>parameter := [2], request := [1], response := [42]\<rparr>"
  have g: "getContext [0x77] (Contexts ?s) = (1, [new_Context [0x78], new_Context [0x77]])"
    by (simp add: getContext_def)
  have d: "distinct (map URI (Contexts ?s))" by simp
  have r: "JSON_source (demo_loads JNull) (with_registry (\<lambda>_. None) (world ?s)) [1] = Some (widget_req JNull) \<and>
     path_uri (member ''path'' (Some (widget_req JNull))) = [0x77] @ [0x2f]"
    by (simp add: JSON_source_def demo_defs member_def path_uri_def json_toString_def)
  have f: "repo ?s = handler Application [0x77] ctx_type ?f [] \<and>
     ?f (([new_Context [0x78], new_Context [0x77]] ! 1)\<lparr>parameter := stringify demo_dumps (member ''parameter'' (Some (widget_req JNull))), request := [1]\<rparr>)
       (world ?s) = Inr (?c, None) \<and> URI ?c = [0x77]"
    by (simp add: member_def demo_defs stringify_def)
  from restful_dispatch [where loads = "demo_loads JNull" and disk = "with_registry (\<lambda>_. None)" and dumps = demo_dumps and req = "[1]" and f = ?f and R = "[]" and
      rq = "widget_req JNull" and c' = ?c and w' = None, OF g d, THEN conjunct1, THEN mp, OF r, THEN conjunct1, THEN mp, OF f] show ?thesis
    by (auto simp: new_Context_def)
qed

theorem widget_requests_witness:
  "\<exists>rsp s' g. handleRESTful (demo_loads (JStr (map of_char ''DELETE''))) demo_dumps (with_registry (\<lambda>_. None)) [1]
      (demo_interface [JObj criteria, JObj criteria, JObj [(''name'', JStr [0x62])]] (JStr (map of_char ''DELETE''))) =
      Inr (stringify demo_dumps (JObj rsp), s') \<and> world s' = Some g \<and>
    registry_list g = [JObj criteria, JObj [(''name'', JStr [0x62])]]"
proof -
  let ?m = "JStr (map of_char ''DELETE'')" and ?xs = "[JObj criteria, JObj criteria, JObj [(''name'', JStr [0x62])]]"
  have "\<exists>rsp s' g. handleRESTful (demo_loads ?m) demo_dumps (with_registry (\<lambda>_. None)) [1] (demo_interface ?xs ?m) =
      Inr (stringify demo_dumps (JObj rsp), s') \<and> world s' = Some g \<and>
    (map of_char ''DELETE'' = (map of_char ''DELETE'' :: byte list) \<longrightarrow> registry_list g = delete_skipping (pred_matches (Some (JObj criteria))) ?xs)"
    using widget_requests [of "demo_loads ?m" demo_dumps criteria "demo_interface ?xs ?m" "[0x77]" "with_registry (\<lambda>_. None)" "[]" "[1]"
      "[(''path'', JArr [JStr [0x77]]), (''method'', ?m), (''parameter'', JObj criteria)]" "[(''list'', JArr ?xs)]" ?xs]
    by (fastforce simp: demo_defs stringify_def path_uri_def member_def json_toString_def)
  moreover have "delete_skipping (pred_matches (Some (JObj criteria))) ?xs = [JObj criteria, JObj [(''name'', JStr [0x62])]]"
    by (simp add: pred_matches_def criteria_def exist_key_def member_def json_toString_def)
  ultimately show ?thesis by metis
qed

end
