(* ===== verification/KBus.thy ===== *)
theory KBus
  imports KJson AfMessage
begin

text \<open>
  The data bus kapi/source/kbus.cpp, on which the program publishes its logs in a file, and the
  device log kdev/source/kdev.cpp built on it.  A handle is the index of an object on the bus.  An
  object is shared by its handle and by the member of the bus that owns it: when the member is
  overwritten the object is freed and its handle dangles.  Every operation under the file's
  semaphore is one step, so a sequence of operations is an interleaving of the threads that
  add values with the thread that commits them.
\<close>

section \<open>Data\<close>

definition KBSTRUC :: byte where "KBSTRUC = 0x01"
definition KBARRAY :: byte where "KBARRAY = 0x02"

text \<open>\<open>refresher\<close> is a function of the environment; it is called when \<open>autoRefresh\<close> is set.\<close>

record kbData =
  kb_data :: json
  kb_type :: byte
  autoRefresh :: bool
  refresher :: "nat option"

datatype bus_member = BusObj nat | BusInt int

record kbFile =
  seqNum :: u32
  kb_path :: "byte list"
  refreshIntval :: "nat \<times> int"
  kbDataBus :: "(string \<times> bus_member) list"
  kbDatas :: "kbData list"

section \<open>Operations\<close>

text \<open>The path is used as the format of \<^verbatim>\<open>sprintf\<close>; one without \<^verbatim>\<open>%\<close> is copied as it is.\<close>

definition kbOpen :: "byte list \<Rightarrow> ub + kbFile" where
  "kbOpen path =
     (if 0x25 \<in> set path then Inl OobRead
      else Inr \<lparr>seqNum = 0, kb_path = path, refreshIntval = (2, 0), kbDataBus = [], kbDatas = []\<rparr>)"

definition alive :: "kbFile \<Rightarrow> nat \<Rightarrow> bool" where
  "alive f i \<longleftrightarrow> i < length (kbDatas f) \<and> BusObj i \<in> snd ` set (kbDataBus f)"

definition createKbData :: kbData where
  "createKbData = \<lparr>kb_data = JNull, kb_type = 0, autoRefresh = False, refresher = None\<rparr>"

text \<open>The last conjunct of the code's test is that the file is not NULL.\<close>

definition kbAddObj :: "string \<Rightarrow> byte \<Rightarrow> kbFile option \<Rightarrow> nat option \<times> kbFile option" where
  "kbAddObj name ty h =
     (case h of
        None \<Rightarrow> (None, None)
      | Some f \<Rightarrow>
          if ty \<noteq> KBSTRUC \<and> ty \<noteq> KBARRAY then (None, Some f)
          else (Some (length (kbDatas f)),
                Some (f\<lparr>kbDatas := kbDatas f @ [createKbData\<lparr>kb_type := ty, kb_data := (if ty = KBSTRUC then JObj [] else JArr [])\<rparr>],
                        kbDataBus := put_assoc name (BusObj (length (kbDatas f))) (kbDataBus f)\<rparr>)))"

definition set_kbData :: "nat \<Rightarrow> kbData \<Rightarrow> kbFile \<Rightarrow> kbFile" where
  "set_kbData i d f = f\<lparr>kbDatas := (kbDatas f)[i := d]\<rparr>"

text \<open>What the three operations share; jansson refuses a member without a name.\<close>

definition kb_value :: "string option \<Rightarrow> json \<Rightarrow> kbData \<Rightarrow> kbData" where
  "kb_value name v x =
     (if kb_type x = KBSTRUC
      then (case (name, kb_data x) of (Some k, JObj ms) \<Rightarrow> x\<lparr>kb_data := JObj (put_assoc k v ms)\<rparr> | _ \<Rightarrow> x)
      else if kb_type x = KBARRAY
      then (case kb_data x of JArr xs \<Rightarrow> x\<lparr>kb_data := JArr (xs @ [v])\<rparr> | _ \<Rightarrow> x)
      else x)"

definition kbAddJSON :: "nat \<Rightarrow> string option \<Rightarrow> json \<Rightarrow> kbFile \<Rightarrow> ub + kbFile" where
  "kbAddJSON i name v f = (if alive f i then Inr (set_kbData i (kb_value name v (kbDatas f ! i)) f) else Inl Dangling)"

definition kbAddInt :: "nat \<Rightarrow> string option \<Rightarrow> int \<Rightarrow> kbFile \<Rightarrow> ub + kbFile" where
  "kbAddInt i name n f = kbAddJSON i name (JInt (of_int n)) f"

text \<open>\<open>utf8\<close> tells whether jansson accepts a text; for another it makes no value and nothing is added.\<close>

definition kbAddStr :: "(byte list \<Rightarrow> bool) \<Rightarrow> nat \<Rightarrow> string option \<Rightarrow> byte list \<Rightarrow> kbFile \<Rightarrow> ub + kbFile" where
  "kbAddStr utf8 i name t f = (if utf8 t then kbAddJSON i name (JStr t) f else Inr f)"

definition kbRefreshRate :: "nat \<Rightarrow> int \<Rightarrow> kbFile option \<Rightarrow> int \<times> kbFile option" where
  "kbRefreshRate sec nsec h = (case h of None \<Rightarrow> (-1, None) | Some f \<Rightarrow> (0, Some (f\<lparr>refreshIntval := (sec, nsec)\<rparr>)))"

definition kbSetRefresher :: "nat \<Rightarrow> nat option \<Rightarrow> kbFile \<Rightarrow> ub + kbFile" where
  "kbSetRefresher i r f =
     (if i < length (kbDatas f) then Inr (set_kbData i ((kbDatas f ! i)\<lparr>autoRefresh := True, refresher := r\<rparr>) f) else Inl Dangling)"

definition resetKbData :: "nat \<Rightarrow> kbFile \<Rightarrow> ub + kbFile" where
  "resetKbData i f =
     (if \<not> alive f i then Inl Dangling
      else (let x = kbDatas f ! i in
            Inr (set_kbData i (if kb_type x = KBSTRUC then x\<lparr>kb_data := JObj []\<rparr>
                               else if kb_type x = KBARRAY then x\<lparr>kb_data := JArr []\<rparr> else x) f)))"

fun reset_loop :: "nat list \<Rightarrow> kbFile \<Rightarrow> ub + kbFile" where
  "reset_loop [] f = Inr f"
| "reset_loop (i # is) f = bindE (resetKbData i f) (reset_loop is)"

text \<open>\<open>refr\<close> is what a refresher does to the file; the list it runs over is the one it began with.\<close>

fun refresh_loop :: "(nat \<Rightarrow> nat \<Rightarrow> kbFile \<Rightarrow> ub + kbFile) \<Rightarrow> nat list \<Rightarrow> kbFile \<Rightarrow> ub + kbFile" where
  "refresh_loop refr [] f = Inr f"
| "refresh_loop refr (i # is) f =
     bindE (if autoRefresh (kbDatas f ! i)
            then (case refresher (kbDatas f ! i) of None \<Rightarrow> Inl NullDeref | Some r \<Rightarrow> refr r i f)
            else Inr f) (refresh_loop refr is)"

text \<open>What \<^verbatim>\<open>json_dump_file\<close> writes.\<close>

definition dump_bus :: "kbFile \<Rightarrow> json" where
  "dump_bus f = JObj (map (\<lambda>(k, m). (k, case m of BusObj i \<Rightarrow> kb_data (kbDatas f ! i) | BusInt n \<Rightarrow> JInt (of_int n))) (kbDataBus f))"

definition kbCommit :: "(nat \<Rightarrow> nat \<Rightarrow> kbFile \<Rightarrow> ub + kbFile) \<Rightarrow> int \<Rightarrow> kbFile \<Rightarrow> ub + (json \<times> kbFile)" where
  "kbCommit refr tm f =
     bindE (refresh_loop refr [0..<length (kbDatas f)] f) (\<lambda>f.
       let f = f\<lparr>kbDataBus := put_assoc ''seqnum'' (BusInt (uint (seqNum f))) (kbDataBus f), seqNum := seqNum f + 1\<rparr>;
           f = f\<lparr>kbDataBus := put_assoc ''unixtime'' (BusInt tm) (kbDataBus f)\<rparr>
       in bindE (reset_loop [0..<length (kbDatas f)] f) (\<lambda>g. Inr (dump_bus f, g)))"

text \<open>
  \<^verbatim>\<open>kbClose\<close> drops every object and then the bus, which owns them already: with an object on the
  bus, memory is used that has just been freed.
\<close>

definition kbClose :: "kbFile \<Rightarrow> ub + int" where
  "kbClose f = (if kbDatas f = [] then Inr 0 else Inl Dangling)"

text \<open>The threads' operations, and the files that \<^verbatim>\<open>kbSchdule\<close> has written in a run of them.\<close>

datatype kb_op = AddInt nat "string option" int | AddStr nat "string option" "byte list" | AddJSON nat "string option" json | Commit int

definition kb_step :: "(byte list \<Rightarrow> bool) \<Rightarrow> (nat \<Rightarrow> nat \<Rightarrow> kbFile \<Rightarrow> ub + kbFile) \<Rightarrow> kb_op \<Rightarrow> kbFile \<Rightarrow> ub + (json list \<times> kbFile)" where
  "kb_step utf8 refr c f =
     (case c of
        AddInt i k n \<Rightarrow> bindE (kbAddInt i k n f) (\<lambda>f. Inr ([], f))
      | AddStr i k t \<Rightarrow> bindE (kbAddStr utf8 i k t f) (\<lambda>f. Inr ([], f))
      | AddJSON i k v \<Rightarrow> bindE (kbAddJSON i k v f) (\<lambda>f. Inr ([], f))
      | Commit t \<Rightarrow> bindE (kbCommit refr t f) (\<lambda>(j, f). Inr ([j], f)))"

fun kb_run :: "(byte list \<Rightarrow> bool) \<Rightarrow> (nat \<Rightarrow> nat \<Rightarrow> kbFile \<Rightarrow> ub + kbFile) \<Rightarrow> kb_op list \<Rightarrow> kbFile \<Rightarrow> ub + (json list \<times> kbFile)" where
  "kb_run utf8 refr [] f = Inr ([], f)"
| "kb_run utf8 refr (c # cs) f =
     bindE (kb_step utf8 refr c f) (\<lambda>(w, f). bindE (kb_run utf8 refr cs f) (\<lambda>(ws, f). Inr (w @ ws, f)))"

section \<open>The device log (kdev.cpp)\<close>

record kdev =
  kdFile :: "kbFile option"
  messagerLogger :: "nat option"
  afmsgLogger :: "nat option"

definition kdInit :: "kdev \<Rightarrow> ub + kdev" where
  "kdInit s =
     bindE (kbOpen (map of_char ''/tmp/kdFile.json'')) (\<lambda>f.
       case kbAddObj ''system_message'' KBARRAY (Some f) of (m, h) \<Rightarrow>
       case kbAddObj ''af_message'' KBARRAY h of (a, h) \<Rightarrow>
       case kbRefreshRate 2 0 h of (_, h) \<Rightarrow> Inr \<lparr>kdFile = h, messagerLogger = m, afmsgLogger = a\<rparr>)"

definition on_file :: "nat option \<Rightarrow> (nat \<Rightarrow> kbFile \<Rightarrow> ub + kbFile) \<Rightarrow> kdev \<Rightarrow> ub + kdev" where
  "on_file h add s =
     (case (h, kdFile s) of (Some i, Some f) \<Rightarrow> bindE (add i f) (\<lambda>f. Inr (s\<lparr>kdFile := Some f\<rparr>)) | _ \<Rightarrow> Inl NullDeref)"

text \<open>\<open>txt\<close> is the formatted message; it goes through \<^verbatim>\<open>char temp[4096]\<close>.\<close>

definition kdTraceLog :: "(byte list \<Rightarrow> bool) \<Rightarrow> byte list \<Rightarrow> kdev \<Rightarrow> ub + (int \<times> kdev)" where
  "kdTraceLog utf8 msg s =
     (if 4096 \<le> length msg then Inl OobWrite
      else bindE (if messagerLogger s \<noteq> None then on_file (messagerLogger s) (\<lambda>i. kbAddStr utf8 i None msg) s else Inr s)
             (\<lambda>s. Inr (int (length msg), s)))"

text \<open>Without bytes the text is the indeterminate \<^verbatim>\<open>char temp[512]\<close> itself.\<close>

definition kdBinTraceLog :: "(byte list \<Rightarrow> bool) \<Rightarrow> byte list \<Rightarrow> byte list \<Rightarrow> nat \<Rightarrow> kdev \<Rightarrow> ub + (int \<times> kdev)" where
  "kdBinTraceLog utf8 junk mem sz s =
     (if sz = 0 then Inl UninitRead
      else bindE (kPrintMem (take 512 junk) mem sz) (\<lambda>(_, temp). kdTraceLog utf8 (c_str temp) s))"

definition hexdigit_upper :: "byte \<Rightarrow> byte" where
  "hexdigit_upper n = (if n < 10 then n + 0x30 else n + 55)"

definition hex2_upper :: "byte \<Rightarrow> byte list" where
  "hex2_upper b = [hexdigit_upper (drop_bit 4 b), hexdigit_upper (b AND 15)]"

text \<open>The loop of \<^verbatim>\<open>sprintf(temp + templen, "%02X", ...)\<close>.\<close>

fun data_loop :: "byte list \<Rightarrow> nat \<Rightarrow> byte list \<Rightarrow> nat list \<Rightarrow> ub + (byte list \<times> nat)" where
  "data_loop temp templen bs [] = Inr (temp, templen)"
| "data_loop temp templen bs (i # is) =
     bindE (rd bs i) (\<lambda>b. bindE (memcpy_to temp templen (hex2_upper b @ [0])) (\<lambda>temp. data_loop temp (templen + 2) bs is))"

definition kdAPSMessageLog :: "byte list \<Rightarrow> int \<Rightarrow> AFMessage \<Rightarrow> kdev \<Rightarrow> ub + kdev" where
  "kdAPSMessageLog junk tm m s =
     bindE (data_loop (take 512 junk) 0 (asdu m) [0..<unat (asduLen m)]) (\<lambda>(temp, templen).
     bindE (wr temp templen 0) (\<lambda>temp.
       on_file (afmsgLogger s) (\<lambda>i. kbAddJSON i None (JObj
         [(''UNIXTimeStamp'', JInt (of_int tm)), (''SrcAddr'', JStr (IntToHexStr (srcAddr m))),
          (''GroupId'', JStr (IntToHexStr (groupId m))), (''ClusterId'', JStr (IntToHexStr (clusterId m))),
          (''SrcEndpoint'', JStr (IntToHexStr (srcEndpoint m))), (''DstEndpoint'', JStr (IntToHexStr (dstEndpoint m))),
          (''TranSeqNumber'', JStr (IntToHexStr (tranSeqNum m))), (''WasBroadCast'', JStr (IntToHexStr (wasBroadCast m))),
          (''LinkQuality'', JStr (IntToHexStr (linkQuality m))), (''SecurityUse'', JStr (IntToHexStr (securityUse m))),
          (''Data'', JStr (c_str temp))])) s))"

definition kdClose :: "kdev \<Rightarrow> ub + int" where
  "kdClose s = (case kdFile s of None \<Rightarrow> Inl NullDeref | Some f \<Rightarrow> kbClose f)"

section \<open>A well-formed bus\<close>

definition kb_shape :: "kbData \<Rightarrow> bool" where
  "kb_shape x \<longleftrightarrow> kb_type x = KBSTRUC \<and> (\<exists>ms. kb_data x = JObj ms) \<or> kb_type x = KBARRAY \<and> (\<exists>xs. kb_data x = JArr xs)"

text \<open>Every object has a member of its own, under a name that a commit does not use.\<close>

definition kb_wf :: "kbFile \<Rightarrow> bool" where
  "kb_wf f \<longleftrightarrow> distinct (map fst (kbDataBus f)) \<and>
     (\<forall>i < length (kbDatas f). \<exists>k. map_of (kbDataBus f) k = Some (BusObj i) \<and> k \<noteq> ''seqnum'' \<and> k \<noteq> ''unixtime'') \<and>
     (\<forall>x \<in> set (kbDatas f). kb_shape x \<and> \<not> autoRefresh x)"

lemma kb_wf_alive: "kb_wf f \<Longrightarrow> i < length (kbDatas f) \<Longrightarrow> alive f i"
  unfolding kb_wf_def alive_def by (metis image_eqI map_of_SomeD snd_conv)

lemma kb_consts: "KBSTRUC \<noteq> KBARRAY"
  by (simp add: KBSTRUC_def KBARRAY_def)

lemma kb_value_shape: "kb_shape x \<Longrightarrow> kb_shape (kb_value name v x) \<and> autoRefresh (kb_value name v x) = autoRefresh x \<and> kb_type (kb_value name v x) = kb_type x"
  using kb_consts by (auto simp: kb_shape_def kb_value_def split: option.splits)

lemma kb_wf_set:
  "kb_wf f \<Longrightarrow> kb_shape x \<Longrightarrow> \<not> autoRefresh x \<Longrightarrow> kb_wf (set_kbData i x f)"
  using set_update_subset_insert [of "kbDatas f" i x] by (auto simp: kb_wf_def set_kbData_def)

lemma kb_wf_add:
  assumes "kb_wf f" and "i < length (kbDatas f)"
  shows "kbAddJSON i name v f = Inr (set_kbData i (kb_value name v (kbDatas f ! i)) f) \<and> kb_wf (set_kbData i (kb_value name v (kbDatas f ! i)) f)"
proof -
  have "kbDatas f ! i \<in> set (kbDatas f)" using assms(2) by simp
  then have "kb_shape (kbDatas f ! i)" "\<not> autoRefresh (kbDatas f ! i)" using assms(1) by (auto simp: kb_wf_def)
  then show ?thesis
    using kb_wf_alive [OF assms] kb_wf_set [OF assms(1)] kb_value_shape by (simp add: kbAddJSON_def)
qed

definition clear_kbData :: "kbData \<Rightarrow> kbData" where
  "clear_kbData x = x\<lparr>kb_data := (if kb_type x = KBSTRUC then JObj [] else JArr [])\<rparr>"

lemma clear_shape: "kb_shape x \<Longrightarrow> kb_shape (clear_kbData x)"
  using kb_consts by (auto simp: kb_shape_def clear_kbData_def)

lemma reset_one:
  "alive f i \<Longrightarrow> kb_shape (kbDatas f ! i) \<Longrightarrow> resetKbData i f = Inr (set_kbData i (clear_kbData (kbDatas f ! i)) f)"
  using kb_consts by (auto simp: resetKbData_def clear_kbData_def kb_shape_def Let_def)

lemma reset_loop_append: "reset_loop (is @ js) f = bindE (reset_loop is f) (reset_loop js)"
proof (induction "is" arbitrary: f)
  case (Cons i "is")
  then show ?case by (cases "resetKbData i f") simp_all
qed simp

lemma reset_all:
  assumes "kb_wf f"
  shows "n \<le> length (kbDatas f) \<Longrightarrow>
    reset_loop [0..<n] f = Inr (f\<lparr>kbDatas := map clear_kbData (take n (kbDatas f)) @ drop n (kbDatas f)\<rparr>)"
proof (induction n)
  case 0
  then show ?case by simp
next
  case (Suc n)
  let ?ds = "map clear_kbData (take n (kbDatas f)) @ drop n (kbDatas f)"
  let ?g = "f\<lparr>kbDatas := ?ds\<rparr>"
  have n: "n < length (kbDatas f)" using Suc.prems by simp
  have at: "?ds ! n = kbDatas f ! n" using n by (simp add: nth_append)
  have "kb_shape (kbDatas f ! n)" using assms n by (simp add: kb_wf_def)
  moreover have "alive ?g n" using kb_wf_alive [OF assms n] n by (simp add: alive_def)
  ultimately have "resetKbData n ?g = Inr (set_kbData n (clear_kbData (kbDatas f ! n)) ?g)"
    using reset_one [of ?g n] at by simp
  moreover have "?ds[n := clear_kbData (kbDatas f ! n)] = map clear_kbData (take (Suc n) (kbDatas f)) @ drop (Suc n) (kbDatas f)"
    using n by (simp add: list_update_append take_Suc_conv_app_nth Cons_nth_drop_Suc [symmetric])
  ultimately show ?case
    using Suc n by (simp add: reset_loop_append set_kbData_def)
qed

lemma refresh_none: "\<forall>x \<in> set (kbDatas f). \<not> autoRefresh x \<Longrightarrow> \<forall>i \<in> set is. i < length (kbDatas f) \<Longrightarrow> refresh_loop refr is f = Inr f"
  by (induction "is") auto

definition stamped :: "int \<Rightarrow> kbFile \<Rightarrow> kbFile" where
  "stamped tm f = f\<lparr>seqNum := seqNum f + 1,
     kbDataBus := put_assoc ''unixtime'' (BusInt tm) (put_assoc ''seqnum'' (BusInt (uint (seqNum f))) (kbDataBus f))\<rparr>"

lemma kb_wf_stamped: "kb_wf f \<Longrightarrow> kb_wf (stamped tm f)"
proof -
  assume wf: "kb_wf f"
  have "(map_of (kbDataBus (stamped tm f)) k = Some (BusObj i) \<and> k \<noteq> ''seqnum'' \<and> k \<noteq> ''unixtime'') \<longleftrightarrow>
      (map_of (kbDataBus f) k = Some (BusObj i) \<and> k \<noteq> ''seqnum'' \<and> k \<noteq> ''unixtime'')" for k i
    by (cases "k = ''seqnum''"; cases "k = ''unixtime''") (simp_all add: stamped_def)
  moreover have "distinct (map fst (kbDataBus (stamped tm f)))"
    using wf by (simp add: kb_wf_def stamped_def distinct_put_assoc)
  moreover have "kbDatas (stamped tm f) = kbDatas f" by (simp add: stamped_def)
  ultimately show "kb_wf (stamped tm f)"
    using wf unfolding kb_wf_def by (simp only:) blast
qed

lemma commit_wf:
  assumes "kb_wf f"
  shows "kbCommit refr tm f = Inr (dump_bus (stamped tm f), (stamped tm f)\<lparr>kbDatas := map clear_kbData (kbDatas f)\<rparr>)"
proof -
  have "refresh_loop refr [0..<length (kbDatas f)] f = Inr f"
    using assms by (intro refresh_none) (auto simp: kb_wf_def)
  moreover have "reset_loop [0..<length (kbDatas (stamped tm f))] (stamped tm f) =
      Inr ((stamped tm f)\<lparr>kbDatas := map clear_kbData (kbDatas (stamped tm f))\<rparr>)"
    using reset_all [OF kb_wf_stamped [OF assms, of tm], of "length (kbDatas (stamped tm f))"] by simp
  ultimately show ?thesis by (simp add: kbCommit_def stamped_def Let_def)
qed

lemma map_of_dump: "jget (dump_bus f) [Key k] =
    map_option (\<lambda>m. case m of BusObj i \<Rightarrow> kb_data (kbDatas f ! i) | BusInt n \<Rightarrow> JInt (of_int n)) (map_of (kbDataBus f) k)"
proof -
  have "map_of (map (\<lambda>(k, m). (k, g m)) xs) k = map_option g (map_of xs k)" for g :: "bus_member \<Rightarrow> json" and xs
    by (induction xs) auto
  note m = this
  show ?thesis by (cases "map_of (kbDataBus f) k") (simp_all add: dump_bus_def m)
qed

section \<open>Delivery\<close>

definition arr :: "json \<Rightarrow> json list" where
  "arr j = (case j of JArr xs \<Rightarrow> xs | _ \<Rightarrow> [])"

definition published :: "string \<Rightarrow> json \<Rightarrow> json list" where
  "published nm j = (case jget j [Key nm] of Some v \<Rightarrow> arr v | None \<Rightarrow> [])"

fun added :: "(byte list \<Rightarrow> bool) \<Rightarrow> nat \<Rightarrow> kb_op list \<Rightarrow> json list" where
  "added utf8 i [] = []"
| "added utf8 i (AddInt j k n # cs) = (if j = i then [JInt (of_int n)] else []) @ added utf8 i cs"
| "added utf8 i (AddStr j k t # cs) = (if j = i \<and> utf8 t then [JStr t] else []) @ added utf8 i cs"
| "added utf8 i (AddJSON j k v # cs) = (if j = i then [v] else []) @ added utf8 i cs"
| "added utf8 i (Commit t # cs) = added utf8 i cs"

fun op_ok :: "nat \<Rightarrow> kb_op \<Rightarrow> bool" where
  "op_ok n (AddInt i k v) = (i < n)"
| "op_ok n (AddStr i k v) = (i < n)"
| "op_ok n (AddJSON i k v) = (i < n)"
| "op_ok n (Commit t) = True"

lemma arr_add:
  assumes "kb_type (ds ! i) = KBARRAY" and "kb_shape (ds ! i)" and "i < length ds"
  shows "arr (kb_data (ds[j := kb_value name v (ds ! j)] ! i)) = arr (kb_data (ds ! i)) @ (if j = i then [v] else [])"
  using assms kb_consts by (auto simp: nth_list_update kb_value_def kb_shape_def arr_def)

text \<open>One step keeps the sum of what is published and what waits.\<close>

definition delivers :: "string \<Rightarrow> nat \<Rightarrow> kbFile \<Rightarrow> bool" where
  "delivers nm i f \<longleftrightarrow> kb_wf f \<and> i < length (kbDatas f) \<and> kb_type (kbDatas f ! i) = KBARRAY \<and>
     map_of (kbDataBus f) nm = Some (BusObj i) \<and> nm \<noteq> ''seqnum'' \<and> nm \<noteq> ''unixtime''"

lemma delivers_add:
  assumes "delivers nm i f" and "j < length (kbDatas f)"
  shows "\<exists>g. kbAddJSON j name v f = Inr g \<and> delivers nm i g \<and> length (kbDatas g) = length (kbDatas f) \<and> seqNum g = seqNum f \<and>
    arr (kb_data (kbDatas g ! i)) = arr (kb_data (kbDatas f ! i)) @ (if j = i then [v] else [])"
proof -
  let ?g = "set_kbData j (kb_value name v (kbDatas f ! j)) f"
  have wf: "kb_wf f" and i: "i < length (kbDatas f)" "kb_type (kbDatas f ! i) = KBARRAY"
    using assms(1) by (simp_all add: delivers_def)
  have sh: "kb_shape (kbDatas f ! i)" "kb_shape (kbDatas f ! j)" using wf i assms(2) by (simp_all add: kb_wf_def)
  have "delivers nm i ?g"
    using assms kb_wf_add [OF wf assms(2)] kb_value_shape [OF sh(2)]
    by (auto simp: delivers_def set_kbData_def nth_list_update)
  then show ?thesis
    using kb_wf_add [OF wf assms(2)] arr_add [OF i(2) sh(1) i(1)] by (auto simp: set_kbData_def)
qed

lemma delivers_commit:
  assumes "delivers nm i f"
  shows "\<exists>j g. kbCommit refr tm f = Inr (j, g) \<and> delivers nm i g \<and> length (kbDatas g) = length (kbDatas f) \<and> seqNum g = seqNum f + 1 \<and>
    published nm j = arr (kb_data (kbDatas f ! i)) \<and> arr (kb_data (kbDatas g ! i)) = [] \<and>
    jget j [Key ''seqnum''] = Some (JInt (of_int (uint (seqNum f)))) \<and> jget j [Key ''unixtime''] = Some (JInt (of_int tm))"
proof -
  let ?j = "dump_bus (stamped tm f)" and ?g = "(stamped tm f)\<lparr>kbDatas := map clear_kbData (kbDatas f)\<rparr>"
  have wf: "kb_wf f" and i: "i < length (kbDatas f)" "kb_type (kbDatas f ! i) = KBARRAY"
    using assms by (simp_all add: delivers_def)
  have "kb_wf ?g"
    using kb_wf_stamped [OF wf, of tm] clear_shape by (auto simp: kb_wf_def stamped_def clear_kbData_def)
  then have "delivers nm i ?g"
    using assms by (simp add: delivers_def stamped_def clear_kbData_def)
  moreover have "arr (kb_data (kbDatas ?g ! i)) = []"
    using i kb_consts by (simp add: clear_kbData_def arr_def)
  moreover have "published nm ?j = arr (kb_data (kbDatas f ! i))"
    using assms by (simp add: published_def map_of_dump stamped_def delivers_def)
  moreover have "jget ?j [Key ''seqnum''] = Some (JInt (of_int (uint (seqNum f))))" "jget ?j [Key ''unixtime''] = Some (JInt (of_int tm))"
    by (simp_all add: map_of_dump stamped_def)
  ultimately show ?thesis
    using commit_wf [OF wf, of refr tm] by (intro exI [of _ ?j] exI [of _ ?g]) (simp add: stamped_def)
qed

lemma kb_step_delivers:
  assumes "delivers nm i f" and "op_ok (length (kbDatas f)) c"
  shows "\<exists>w g. kb_step utf8 refr c f = Inr (w, g) \<and> delivers nm i g \<and> length (kbDatas g) = length (kbDatas f) \<and>
    concat (map (published nm) w) @ arr (kb_data (kbDatas g ! i)) = arr (kb_data (kbDatas f ! i)) @ added utf8 i [c] \<and>
    seqNum g = seqNum f + of_nat (length w) \<and> (w = [] \<or> (\<exists>j. w = [j] \<and> jget j [Key ''seqnum''] = Some (JInt (of_int (uint (seqNum f))))))"
proof (cases c)
  case (AddInt j k n)
  then show ?thesis using delivers_add [OF assms(1), of j k "JInt (of_int n)"] assms(2) by (auto simp: kb_step_def kbAddInt_def)
next
  case (AddStr j k t)
  then show ?thesis
    using delivers_add [OF assms(1), of j k "JStr t"] assms by (cases "utf8 t") (auto simp: kb_step_def kbAddStr_def)
next
  case (AddJSON j k v)
  then show ?thesis using delivers_add [OF assms(1), of j k v] assms(2) by (auto simp: kb_step_def)
next
  case (Commit tm)
  then show ?thesis using delivers_commit [OF assms(1), of refr tm] by (auto simp: kb_step_def)
qed

lemma added_Cons: "added utf8 i (c # cs) = added utf8 i [c] @ added utf8 i cs"
  by (cases c) simp_all

lemma kb_run_delivers:
  "delivers nm i f \<Longrightarrow> \<forall>c \<in> set cs. op_ok (length (kbDatas f)) c \<Longrightarrow>
   \<exists>ws g. kb_run utf8 refr cs f = Inr (ws, g) \<and> delivers nm i g \<and> seqNum g = seqNum f + of_nat (length ws) \<and>
     concat (map (published nm) ws) @ arr (kb_data (kbDatas g ! i)) = arr (kb_data (kbDatas f ! i)) @ added utf8 i cs \<and>
     (\<forall>n < length ws. jget (ws ! n) [Key ''seqnum''] = Some (JInt (of_int (uint (seqNum f + of_nat n)))))"
proof (induction cs arbitrary: f)
  case Nil
  then show ?case by simp
next
  case (Cons c cs)
  then obtain w g where w: "kb_step utf8 refr c f = Inr (w, g)" "delivers nm i g" "length (kbDatas g) = length (kbDatas f)"
    "concat (map (published nm) w) @ arr (kb_data (kbDatas g ! i)) = arr (kb_data (kbDatas f ! i)) @ added utf8 i [c]"
    "seqNum g = seqNum f + of_nat (length w)"
    "w = [] \<or> (\<exists>j. w = [j] \<and> jget j [Key ''seqnum''] = Some (JInt (of_int (uint (seqNum f)))))"
    using kb_step_delivers [of nm i f c utf8 refr] by auto
  from Cons.IH [OF w(2)] Cons.prems(2) w(3) obtain ws h where ws: "kb_run utf8 refr cs g = Inr (ws, h)" "delivers nm i h"
    "seqNum h = seqNum g + of_nat (length ws)"
    "concat (map (published nm) ws) @ arr (kb_data (kbDatas h ! i)) = arr (kb_data (kbDatas g ! i)) @ added utf8 i cs"
    "\<forall>n < length ws. jget (ws ! n) [Key ''seqnum''] = Some (JInt (of_int (uint (seqNum g + of_nat n))))"
    by auto
  have "jget ((w @ ws) ! n) [Key ''seqnum''] = Some (JInt (of_int (uint (seqNum f + of_nat n))))" if "n < length (w @ ws)" for n
    using w(5,6) ws(5) that by (cases n) (auto simp: algebra_simps)
  moreover have "concat (map (published nm) (w @ ws)) @ arr (kb_data (kbDatas h ! i)) = arr (kb_data (kbDatas f ! i)) @ added utf8 i (c # cs)"
    using w(4) ws(4) by (simp add: added_Cons [of utf8 i c cs])
  ultimately show ?case
    using w(1,5) ws(1-3) by (intro exI [of _ "w @ ws"] exI [of _ h]) (simp add: algebra_simps)
qed

lemma data_loop_ok:
  "pos + 2 * length is < length buf \<Longrightarrow> \<forall>i \<in> set is. i < length bs \<Longrightarrow>
   \<exists>temp. data_loop buf pos bs is = Inr (temp, pos + 2 * length is) \<and> length temp = length buf"
proof (induction "is" arbitrary: buf pos)
  case Nil
  then show ?case by simp
next
  case (Cons i "is")
  let ?b = "blit buf pos (hex2_upper (bs ! i) @ [0])"
  have l: "length (hex2_upper (bs ! i) @ [0]) = 3" by (simp add: hex2_upper_def)
  have len: "length ?b = length buf" using Cons.prems l by (intro length_blit) simp
  have step: "memcpy_to buf pos (hex2_upper (bs ! i) @ [0]) = Inr ?b" using Cons.prems l by (intro memcpy_to_ok) simp
  from Cons.IH [of "pos + 2" ?b] Cons.prems len step show ?case by (auto simp: ac_simps)
qed

lemma kdInit_file:
  "kdInit s = Inr \<lparr>kdFile = Some \<lparr>seqNum = 0, kb_path = map of_char ''/tmp/kdFile.json'', refreshIntval = (2, 0),
      kbDataBus = [(''system_message'', BusObj 0), (''af_message'', BusObj 1)],
      kbDatas = [createKbData\<lparr>kb_type := KBARRAY, kb_data := JArr []\<rparr>, createKbData\<lparr>kb_type := KBARRAY, kb_data := JArr []\<rparr>]\<rparr>,
    messagerLogger = Some 0, afmsgLogger = Some 1\<rparr>"
  by (simp add: kdInit_def kbOpen_def kbAddObj_def kbRefreshRate_def KBSTRUC_def KBARRAY_def)

lemma kdInit_delivers:
  "kdInit s = Inr \<lparr>kdFile = Some f, messagerLogger = Some 0, afmsgLogger = Some 1\<rparr> \<Longrightarrow>
   delivers ''system_message'' 0 f \<and> delivers ''af_message'' 1 f \<and> length (kbDatas f) = 2"
proof -
  let ?P = "\<lambda>k i. map_of [(''system_message'', BusObj 0), (''af_message'', BusObj 1)] k = Some (BusObj i) \<and> k \<noteq> ''seqnum'' \<and> k \<noteq> ''unixtime''"
  have ex: "\<exists>k. ?P k i" if "i < 2" for i
  proof (cases "i = 0")
    case True
    then show ?thesis by (intro exI [of _ "''system_message''"]) simp
  next
    case False
    with that have "i = 1" by linarith
    then show ?thesis by (intro exI [of _ "''af_message''"]) simp
  qed
  assume "kdInit s = Inr \<lparr>kdFile = Some f, messagerLogger = Some 0, afmsgLogger = Some 1\<rparr>"
  then have f: "kbDataBus f = [(''system_message'', BusObj 0), (''af_message'', BusObj 1)]"
    "kbDatas f = [createKbData\<lparr>kb_type := KBARRAY, kb_data := JArr []\<rparr>, createKbData\<lparr>kb_type := KBARRAY, kb_data := JArr []\<rparr>]"
    unfolding kdInit_file by auto
  have "kb_wf f"
    unfolding kb_wf_def f using ex by (simp add: kb_shape_def createKbData_def)
  then show "delivers ''system_message'' 0 f \<and> delivers ''af_message'' 1 f \<and> length (kbDatas f) = 2"
    by (simp add: delivers_def f createKbData_def)
qed

lemma put_assoc_mem: "distinct (map fst ms) \<Longrightarrow> (a, m) \<in> set (put_assoc k v ms) \<Longrightarrow> a = k \<and> m = v \<or> a \<noteq> k \<and> (a, m) \<in> set ms"
  by (induction k v ms rule: put_assoc.induct) (force split: if_splits)+

lemma reset_loop_dead:
  "j \<in> set is \<Longrightarrow> \<not> alive f j \<Longrightarrow> \<exists>e. reset_loop is f = Inl e"
proof (induction "is" arbitrary: f)
  case Nil
  then show ?case by simp
next
  case (Cons i "is")
  show ?case
  proof (cases "resetKbData i f")
    case (Inl e)
    then show ?thesis by simp
  next
    case (Inr g)
    then have "alive f i" "\<not> alive g j"
      using Cons.prems(2) by (auto simp: resetKbData_def set_kbData_def alive_def Let_def split: if_splits)
    with Cons Inr show ?thesis by (cases "j = i") auto
  qed
qed

lemma hex_loop_oob:
  "is \<noteq> [] \<Longrightarrow> length buf < pos + 2 * length is + 1 \<Longrightarrow> \<exists>e. hex_loop buf pos mem is = Inl e"
proof (induction "is" arbitrary: buf pos)
  case Nil
  then show ?case by simp
next
  case (Cons i "is")
  show ?case
  proof (cases "bindE (rd mem i) (sprintf_02x buf pos)")
    case (Inl e)
    then show ?thesis by (cases "rd mem i") auto
  next
    case (Inr b)
    then obtain x where x: "rd mem i = Inr x" "sprintf_02x buf pos x = Inr b" by (auto simp: bindE_Inr_iff)
    then have l: "pos + 3 \<le> length buf" "length b = length buf"
      by (auto simp: sprintf_02x_def memcpy_to_def split: if_splits)
    with Cons.prems have "is \<noteq> []" by auto
    from Cons.IH [OF this, of b "pos + 2"] Cons.prems l x show ?thesis by auto
  qed
qed

section \<open>Properties\<close>

text \<open>
  C39: However the threads that log and the thread that commits interleave: every value added to one of the
  two logs appears in exactly one of the files written, or still waits on the bus, all in the order
  of their addition; and the files carry consecutive sequence numbers modulo 2 to the 32.
\<close>

theorem bus_delivers_once:
  assumes "kdInit s = Inr \<lparr>kdFile = Some f, messagerLogger = Some 0, afmsgLogger = Some 1\<rparr>" and "\<forall>c \<in> set cs. op_ok 2 c"
  shows "\<exists>ws g. kb_run utf8 refr cs f = Inr (ws, g) \<and>
    concat (map (published ''system_message'') ws) @ arr (kb_data (kbDatas g ! 0)) = added utf8 0 cs \<and>
    concat (map (published ''af_message'') ws) @ arr (kb_data (kbDatas g ! 1)) = added utf8 1 cs \<and>
    (\<forall>n < length ws. jget (ws ! n) [Key ''seqnum''] = Some (JInt (of_int (uint (of_nat n :: u32)))))"
proof -
  have d: "delivers ''system_message'' 0 f" "delivers ''af_message'' 1 f" "length (kbDatas f) = 2"
    using kdInit_delivers [OF assms(1)] by simp_all
  have f: "arr (kb_data (kbDatas f ! 0)) = []" "arr (kb_data (kbDatas f ! 1)) = []" "seqNum f = 0"
    using assms(1) by (auto simp: kdInit_file arr_def)
  show ?thesis
    using kb_run_delivers [OF d(1), of cs utf8 refr] kb_run_delivers [OF d(2), of cs utf8 refr] assms(2) d(3) f
    by auto
qed

text \<open>
  A second object of the same name frees the first: adding to the first, or the next commit, then uses
  freed memory, and so does closing a bus with any object on it.
\<close>

theorem bus_name_clash:
  assumes "ty = KBSTRUC \<or> ty = KBARRAY" and "kb_wf f" and "map_of (kbDataBus f) name = Some (BusObj i)"
    and "\<forall>x \<in> set (kbDataBus f). snd x = BusObj i \<longrightarrow> fst x = name" and "i < length (kbDatas f)"
  shows "\<exists>g. kbAddObj name ty (Some f) = (Some (length (kbDatas f)), Some g) \<and>
    kbAddJSON i k v g = Inl Dangling \<and> (\<exists>e. kbCommit refr tm g = Inl e) \<and> kbClose g = Inl Dangling"
proof -
  let ?n = "length (kbDatas f)"
  let ?x = "createKbData\<lparr>kb_type := ty, kb_data := (if ty = KBSTRUC then JObj [] else JArr [])\<rparr>"
  let ?g = "f\<lparr>kbDatas := kbDatas f @ [?x], kbDataBus := put_assoc name (BusObj ?n) (kbDataBus f)\<rparr>"
  have dead: "\<not> alive ?g i"
  proof
    assume "alive ?g i"
    then obtain a where "(a, BusObj i) \<in> set (put_assoc name (BusObj ?n) (kbDataBus f))" by (auto simp: alive_def)
    moreover have "distinct (map fst (kbDataBus f))" using assms(2) by (simp add: kb_wf_def)
    ultimately have "BusObj i = BusObj ?n \<or> a \<noteq> name \<and> (a, BusObj i) \<in> set (kbDataBus f)" using put_assoc_mem by fastforce
    with assms(4,5) show False by auto
  qed
  let ?h = "?g\<lparr>kbDataBus := put_assoc ''seqnum'' (BusInt (uint (seqNum ?g))) (kbDataBus ?g), seqNum := seqNum ?g + 1\<rparr>"
  let ?h = "?h\<lparr>kbDataBus := put_assoc ''unixtime'' (BusInt tm) (kbDataBus ?h)\<rparr>"
  have d: "distinct (map fst (kbDataBus ?g))" using assms(2) by (simp add: kb_wf_def distinct_put_assoc)
  have "\<not> alive ?h i"
  proof
    assume "alive ?h i"
    then obtain a where "(a, BusObj i) \<in> set (put_assoc ''unixtime'' (BusInt tm) (put_assoc ''seqnum'' (BusInt (uint (seqNum ?g))) (kbDataBus ?g)))"
      by (auto simp: alive_def)
    from put_assoc_mem [OF distinct_put_assoc [OF d] this]
    have "(a, BusObj i) \<in> set (put_assoc ''seqnum'' (BusInt (uint (seqNum ?g))) (kbDataBus ?g))" by simp
    from put_assoc_mem [OF d this] have "(a, BusObj i) \<in> set (kbDataBus ?g)" by simp
    with dead assms(5) show False by (force simp: alive_def)
  qed
  then have "\<exists>e. reset_loop [0..<length (kbDatas ?h)] ?h = Inl e"
    using assms(5) by (intro reset_loop_dead [of i]) simp_all
  moreover have "refresh_loop refr [0..<length (kbDatas ?g)] ?g = Inr ?g"
    using assms(2) by (intro refresh_none) (auto simp: kb_wf_def createKbData_def)
  ultimately have "\<exists>e. kbCommit refr tm ?g = Inl e"
    by (auto simp: kbCommit_def Let_def)
  with dead assms(1) show ?thesis
    by (intro exI [of _ ?g]) (auto simp: kbAddObj_def kbAddJSON_def kbClose_def)
qed

text \<open>
  Every message can be logged: the longest payload of 255 bytes just fits the 512-byte text.  But a dump
  of more than 255 bytes of memory writes past the same text, and without \<^verbatim>\<open>kdInit\<close> a message is added
  through a null handle.
\<close>

theorem log_buffers:
  assumes "kdInit s0 = Inr s" and "512 \<le> length junk"
  shows "(unat (asduLen m) \<le> length (asdu m) \<longrightarrow> (\<exists>s'. kdAPSMessageLog junk tm m s = Inr s')) \<and>
    (255 < n \<longrightarrow> (\<exists>e. kdBinTraceLog utf8 junk mem n s = Inl e)) \<and>
    (unat (asduLen m) \<le> length (asdu m) \<longrightarrow>
      kdAPSMessageLog junk tm m \<lparr>kdFile = None, messagerLogger = None, afmsgLogger = None\<rparr> = Inl NullDeref)"
proof -
  have len: "length (take 512 junk) = 512" using assms(2) by simp
  have tx: "\<exists>temp. data_loop (take 512 junk) 0 (asdu m) [0..<unat (asduLen m)] = Inr (temp, 2 * unat (asduLen m)) \<and>
      length temp = 512 \<and> 2 * unat (asduLen m) < 512" if "unat (asduLen m) \<le> length (asdu m)"
    using data_loop_ok [of 0 "[0..<unat (asduLen m)]" "take 512 junk" "asdu m"] that unat_byte [of "asduLen m"] len by auto
  have "\<exists>s'. on_file (afmsgLogger s) (\<lambda>i. kbAddJSON i None v) s = Inr s'" for v
    using assms(1) by (auto simp: kdInit_file on_file_def kbAddJSON_def alive_def)
  with tx have "\<exists>s'. kdAPSMessageLog junk tm m s = Inr s'" if "unat (asduLen m) \<le> length (asdu m)"
    using that by (fastforce simp: kdAPSMessageLog_def)
  moreover have "kdAPSMessageLog junk tm m \<lparr>kdFile = None, messagerLogger = None, afmsgLogger = None\<rparr> = Inl NullDeref"
    if "unat (asduLen m) \<le> length (asdu m)"
    using tx [OF that] by (auto simp: kdAPSMessageLog_def on_file_def)
  moreover have "\<exists>e. kdBinTraceLog utf8 junk mem n s = Inl e" if "255 < n"
  proof -
    have "\<exists>e. hex_loop (take 512 junk) 0 mem [0..<n] = Inl e"
      using that len by (intro hex_loop_oob) auto
    then show ?thesis using that by (auto simp: kdBinTraceLog_def kPrintMem_def)
  qed
  ultimately show ?thesis by blast
qed

section \<open>Witnesses\<close>

definition kd_ready :: kdev where
  "kd_ready = \<lparr>kdFile = Some \<lparr>seqNum = 0, kb_path = map of_char ''/tmp/kdFile.json'', refreshIntval = (2, 0),
      kbDataBus = [(''system_message'', BusObj 0), (''af_message'', BusObj 1)],
      kbDatas = [createKbData\<lparr>kb_type := KBARRAY, kb_data := JArr []\<rparr>, createKbData\<lparr>kb_type := KBARRAY, kb_data := JArr []\<rparr>]\<rparr>,
    messagerLogger = Some 0, afmsgLogger = Some 1\<rparr>"

lemma kd_ready_init: "kdInit kd_ready = Inr kd_ready"
  by (simp add: kdInit_file kd_ready_def)

lemma kd_ready_file:
  "kdInit kd_ready = Inr \<lparr>kdFile = Some (the (kdFile kd_ready)), messagerLogger = Some 0, afmsgLogger = Some 1\<rparr>"
  unfolding kd_ready_init by (simp add: kd_ready_def)

theorem bus_delivers_once_witness:
  "\<exists>ws g. kb_run (\<lambda>_. True) (\<lambda>_ _. Inr) [AddStr 0 None [0x61], Commit 5, AddStr 0 None [0x62], Commit 7] (the (kdFile kd_ready)) = Inr (ws, g) \<and>
     concat (map (published ''system_message'') ws) @ arr (kb_data (kbDatas g ! 0)) = [JStr [0x61], JStr [0x62]]"
  using bus_delivers_once [OF kd_ready_file, of "[AddStr 0 None [0x61], Commit 5, AddStr 0 None [0x62], Commit 7]" "\<lambda>_. True" "\<lambda>_ _. Inr"]
  by auto

theorem bus_name_clash_witness:
  "\<exists>g. kbAddObj ''af_message'' KBSTRUC (kdFile kd_ready) = (Some 2, Some g) \<and> kbAddJSON 1 None (JInt 3) g = Inl Dangling \<and>
     kbClose g = Inl Dangling"
proof -
  let ?f = "the (kdFile kd_ready)"
  have "kb_wf ?f" using kdInit_delivers [OF kd_ready_file] by (simp add: delivers_def)
  then have "\<exists>g. kbAddObj ''af_message'' KBSTRUC (Some ?f) = (Some (length (kbDatas ?f)), Some g) \<and>
    kbAddJSON 1 None (JInt 3) g = Inl Dangling \<and> (\<exists>e. kbCommit (\<lambda>_ _. Inr) 0 g = Inl e) \<and> kbClose g = Inl Dangling"
    by (intro bus_name_clash) (simp_all add: kd_ready_def)
  then show ?thesis by (auto simp: kd_ready_def)
qed

theorem log_buffers_witness:
  "\<exists>s' e. kdAPSMessageLog (replicate 512 0) 0 \<lparr>dstAddr = 0, dstEndpoint = 0, groupId = 0, clusterId = 6, srcEndpoint = 1, srcAddr = 2,
       wasBroadCast = 0, linkQuality = 0, securityUse = 0, timeStamp = 0, tranSeqNum = 0, asduLen = 255, asdu = replicate 255 7,
       radius = 0, options = 0, dstAddrMode = 0\<rparr> kd_ready = Inr s' \<and>
     kdBinTraceLog (\<lambda>_. True) (replicate 512 0) (replicate 256 0) 256 kd_ready = Inl e"
  using log_buffers [OF kd_ready_init, of "replicate 512 0" "\<lparr>dstAddr = 0, dstEndpoint = 0, groupId = 0, clusterId = 6, srcEndpoint = 1, srcAddr = 2,
       wasBroadCast = 0, linkQuality = 0, securityUse = 0, timeStamp = 0, tranSeqNum = 0, asduLen = 255, asdu = replicate 255 7,
       radius = 0, options = 0, dstAddrMode = 0\<rparr>" 0 256 "\<lambda>_. True" "replicate 256 0"]
  by auto

end
