(* ===== verification/Connections.thy ===== *)
theory Connections
  imports KUtil
begin

text \<open>
  Sockets and TLS connections: kapi/source/connections.cpp and kapi/include/connections.h.  The system
  calls and OpenSSL are lists of the results they give, one for each call; a list that ends is a call
  that does not return.  What is proved is about the loops, buffers and descriptors around them.
\<close>

section \<open>Faults\<close>

text \<open>\<open>LengthError\<close> is the exception of \<^verbatim>\<open>std::string\<close>; \<open>Blocked\<close> a call that never returns.\<close>

datatype net_fault = LengthError | Blocked | Ub ub

definition ub_net :: "ub + 'a \<Rightarrow> net_fault + 'a" where
  "ub_net x = (case x of Inl u \<Rightarrow> Inl (Ub u) | Inr y \<Rightarrow> Inr y)"

lemma ub_net_simps [simp]: "ub_net (Inl u) = Inl (Ub u)" "ub_net (Inr y) = Inr y"
  by (simp_all add: ub_net_def)

lemma ub_net_bind: "bindE (ub_net x) (\<lambda>y. ub_net (f y)) = ub_net (bindE x f)"
  by (cases x) auto

section \<open>Receiving from a socket\<close>

definition maxlen :: nat where "maxlen = 4096"

text \<open>
  Each turn reads at most 4096 bytes, \<open>None\<close> being the error \<^verbatim>\<open>-1\<close>, which \<^verbatim>\<open>append\<close> takes for an enormous
  length; after a full block a look at the socket says whether more has arrived.
\<close>

fun recvStr :: "(byte list option \<times> bool) list \<Rightarrow> byte list \<Rightarrow> net_fault + byte list" where
  "recvStr [] out = Inl Blocked"
| "recvStr ((r, more) # rs) out =
     (case r of
        None \<Rightarrow> Inl LengthError
      | Some b \<Rightarrow> if length b < maxlen then Inr (out @ b) else if more then recvStr rs (out @ b) else Inr (out @ b))"

section \<open>Waiting for sockets\<close>

text \<open>
  The turns of \<^verbatim>\<open>select\<close>: its result, whether the error is \<^verbatim>\<open>EINTR\<close>, and the time left in seconds and
  microseconds.
\<close>

type_synonym select_turn = "int \<times> bool \<times> nat \<times> nat"

fun select_loop :: "select_turn list \<Rightarrow> net_fault + int" where
  "select_loop [] = Inl Blocked"
| "select_loop ((retVal, eintr, tv_sec, tv_usec) # rs) =
     (if retVal < 0 \<and> eintr \<and> tv_usec \<noteq> 0 \<and> tv_sec \<noteq> 0 then select_loop rs else Inr retVal)"

record 'c selects =
  rdset :: "int list"
  conns :: "(int \<times> 'c) list"
  fdMax :: int

definition new_selects :: "'c selects" where
  "new_selects = \<lparr>rdset = [], conns = [], fdMax = 0\<rparr>"

definition selects_reset :: "'c selects \<Rightarrow> 'c selects" where
  "selects_reset s = \<lparr>rdset = [], conns = [], fdMax = 0\<rparr>"

text \<open>An \<^verbatim>\<open>fd_set\<close> has 1024 bits.\<close>

definition rFD_SET :: "int \<Rightarrow> 'c \<Rightarrow> 'c selects \<Rightarrow> net_fault + 'c selects" where
  "rFD_SET fd cb s =
     (if fd < 0 \<or> 1024 \<le> fd then Inl (Ub OobWrite)
      else Inr \<lparr>rdset = fd # rdset s, conns = conns s @ [(fd, cb)], fdMax = (if fd > fdMax s then fd else fdMax s)\<rparr>)"

text \<open>
  The callbacks that are called: \<^verbatim>\<open>select\<close> has left the ready descriptors in a copy, but the loop looks
  in the original set.
\<close>

definition listenOnce :: "select_turn list \<Rightarrow> 'c selects \<Rightarrow> net_fault + 'c list" where
  "listenOnce turns s =
     bindE (select_loop turns) (\<lambda>retVal.
       Inr (if retVal > 0 then map snd (filter (\<lambda>x. fst x \<in> set (rdset s)) (conns s)) else []))"

section \<open>Opening a connection\<close>

text \<open>What the calls of one attempt give.\<close>

record tcp_env =
  getaddrinfo :: int
  socket :: int
  select_turns :: "select_turn list"
  so_error :: int

text \<open>The descriptor or -1, and whether \<^verbatim>\<open>*result\<close> has been set.\<close>

definition open_sock :: "tcp_env \<Rightarrow> int \<times> bool" where
  "open_sock v = (if getaddrinfo v < 0 then (-1, False) else if socket v < 0 then (-1, True) else (socket v, True))"

text \<open>
  A \<^verbatim>\<open>UDPConn\<close>: its descriptor and its address, with the addresses not yet freed and the descriptors not yet closed.
  Addresses are numbers, a new one for each \<^verbatim>\<open>getaddrinfo\<close> that succeeds.
\<close>

record udp_conn =
  ufd :: int
  uai :: "nat option"
  ulive :: "nat list"
  uopen :: "int list"
  unext :: nat

definition new_udp :: udp_conn where
  "new_udp = \<lparr>ufd = -1, uai = None, ulive = [], uopen = [], unext = 0\<rparr>"

definition openUDPSock :: "tcp_env \<Rightarrow> udp_conn \<Rightarrow> udp_conn" where
  "openUDPSock v c =
     (case open_sock v of (fd, result_set) \<Rightarrow>
        (let c = (if result_set then c\<lparr>uai := Some (unext c), ulive := unext c # ulive c, unext := unext c + 1\<rparr> else c)
         in if fd < 0 then c\<lparr>ufd := -1\<rparr> else c\<lparr>ufd := fd, uopen := fd # uopen c\<rparr>))"

text \<open>The attempts until a descriptor is had, one only for \<open>rt \<le> 0\<close>.\<close>

fun acqrResrc :: "int \<Rightarrow> tcp_env list \<Rightarrow> udp_conn \<Rightarrow> net_fault + udp_conn" where
  "acqrResrc rt [] c = Inl Blocked"
| "acqrResrc rt (v # vs) c = (let c = openUDPSock v c in if ufd c < 0 \<and> rt > 0 then acqrResrc rt vs c else Inr c)"

definition freeResrc :: "udp_conn \<Rightarrow> net_fault + udp_conn" where
  "freeResrc c =
     (let c = (if ufd c > 0 then c\<lparr>uopen := remove1 (ufd c) (uopen c)\<rparr> else c)
      in case uai c of
           None \<Rightarrow> Inr c
         | Some a \<Rightarrow> if a \<in> set (ulive c) then Inr (c\<lparr>ulive := remove1 a (ulive c)\<rparr>) else Inl (Ub Dangling))"

definition UDPConn_reset :: "int \<Rightarrow> tcp_env list \<Rightarrow> udp_conn \<Rightarrow> net_fault + udp_conn" where
  "UDPConn_reset rt vs c = bindE (freeResrc c) (acqrResrc rt vs)"

text \<open>Sending reads the address.\<close>

definition UDPConn_sendto :: "udp_conn \<Rightarrow> net_fault + unit" where
  "UDPConn_sendto c =
     (case uai c of None \<Rightarrow> Inl (Ub NullDeref) | Some a \<Rightarrow> if a \<in> set (ulive c) then Inr () else Inl (Ub Dangling))"

fun udp_resets :: "int \<Rightarrow> tcp_env list list \<Rightarrow> udp_conn \<Rightarrow> net_fault + udp_conn" where
  "udp_resets rt [] c = Inr c"
| "udp_resets rt (vs # vss) c = bindE (UDPConn_reset rt vs c) (udp_resets rt vss)"

text \<open>The result, and the descriptor still open when it returns.\<close>

definition openTCP :: "tcp_env \<Rightarrow> net_fault + (int \<times> int option)" where
  "openTCP v =
     (case open_sock v of (socketfd, result_set) \<Rightarrow>
        if socketfd < 0 then (if result_set then Inr (-1, None) else Inl (Ub UninitRead))
        else bindE (select_loop (select_turns v)) (\<lambda>retVal.
               if retVal \<le> 0 then Inr (-1, Some socketfd)
               else if so_error v = 0 then Inr (socketfd, Some socketfd)
               else Inr (-1, None)))"

text \<open>
  \<^verbatim>\<open>sslWaitOn\<close>: \<open>fn k\<close> is the status that the \<open>k\<close>-th call gives, \<open>want k\<close> whether its error is one of
  the two that ask for another try.  The result is the status and the number of calls.
\<close>

function sslWait_loop :: "int \<Rightarrow> (nat \<Rightarrow> int) \<Rightarrow> nat \<Rightarrow> int \<Rightarrow> int \<Rightarrow> int \<times> nat" where
  "sslWait_loop timeoutuSec fn k status timeuSecAcc =
     (if status < 0 \<and> timeuSecAcc < timeoutuSec
      then sslWait_loop timeoutuSec fn (Suc k) (fn k) (timeuSecAcc + 10000)
      else (status, k))"
  by pat_completeness auto
termination by (relation "measure (\<lambda>(t, fn, k, s, acc). nat (t - acc))") auto

declare sslWait_loop.simps [simp del]

definition sslWaitOn :: "int \<Rightarrow> (nat \<Rightarrow> int) \<Rightarrow> (nat \<Rightarrow> bool) \<Rightarrow> int \<times> nat" where
  "sslWaitOn timeoutSec fn want =
     (let status = fn 0
      in if status \<ge> 0 \<or> \<not> want 0 then (status, 1) else sslWait_loop (timeoutSec * 1000000) fn 1 status 0)"

record ssl_env = tcp_env +
  ssl_connect :: "nat \<Rightarrow> int"
  connect_want :: "nat \<Rightarrow> bool"
  verify_ok :: bool
  do_handshake :: "nat \<Rightarrow> int"
  handshake_want :: "nat \<Rightarrow> bool"

text \<open>
  The context of the connections: the pointer is null, valid or freed.  OpenSSL is asked for a connection only when the
  TCP connection is there.  The result is the connection's descriptor if there is one, and the descriptor still open.
\<close>

datatype ssl_ctx = NullCtx | ValidCtx | FreedCtx

definition SSL_new :: "ssl_ctx \<Rightarrow> net_fault + unit" where
  "SSL_new ctx = (case ctx of NullCtx \<Rightarrow> Inl (Ub NullDeref) | ValidCtx \<Rightarrow> Inr () | FreedCtx \<Rightarrow> Inl (Ub Dangling))"

definition openSSLConn :: "ssl_ctx \<Rightarrow> ssl_env \<Rightarrow> net_fault + (int option \<times> int option)" where
  "openSSLConn ctx v =
     bindE (openTCP (tcp_env.truncate v)) (\<lambda>(fd, left_open).
       if fd < 0 then Inr (None, left_open)
       else bindE (SSL_new ctx) (\<lambda>_.
            if fst (sslWaitOn 15 (ssl_connect v) (connect_want v)) \<ge> 0 \<and> verify_ok v \<and>
               fst (sslWaitOn 15 (do_handshake v) (handshake_want v)) \<ge> 0
            then Inr (Some fd, left_open) else Inr (None, None)))"

text \<open>The constructor tries until it has a connection, once only for \<open>rt \<le> 0\<close>.\<close>

fun sslCliConn :: "ssl_ctx \<Rightarrow> int \<Rightarrow> ssl_env list \<Rightarrow> net_fault + (int option \<times> int list)" where
  "sslCliConn ctx rt [] = Inl Blocked"
| "sslCliConn ctx rt (v # vs) =
     bindE (openSSLConn ctx v) (\<lambda>(c, left_open).
       let fds = (case left_open of None \<Rightarrow> [] | Some fd \<Rightarrow> [fd]) in
       if c = None \<and> rt > 0 then bindE (sslCliConn ctx rt vs) (\<lambda>(c, more). Inr (c, fds @ more)) else Inr (c, fds))"

section \<open>Sending and receiving over TLS\<close>

text \<open>The turns of \<^verbatim>\<open>SSL_write\<close>: the result, and whether the error is \<^verbatim>\<open>SSL_ERROR_WANT_WRITE\<close>.\<close>

fun ssl_send :: "(int \<times> bool) list \<Rightarrow> net_fault + int" where
  "ssl_send [] = Inl Blocked"
| "ssl_send ((len, want_write) # rs) = (if want_write \<and> len < 0 then ssl_send rs else Inr len)"

definition maxLen :: nat where "maxLen = 16384"

text \<open>
  The turns of \<^verbatim>\<open>SSL_read\<close>: a block, or the error with whether another try is asked for.  Every block goes to the
  start of \<^verbatim>\<open>b_[16384]\<close>, is closed with a 0 and appended as a C string.
\<close>

datatype ssl_read = Block "byte list" | ReadError bool

fun ssl_recvStr :: "ssl_read list \<Rightarrow> byte list \<Rightarrow> net_fault + byte list" where
  "ssl_recvStr [] buf = Inl Blocked"
| "ssl_recvStr (r # rs) buf =
     (case r of
        Block b \<Rightarrow> if maxLen \<le> length b then Inl (Ub OobWrite) else Inr (buf @ c_str (b @ [0]))
      | ReadError again \<Rightarrow> if again then ssl_recvStr rs buf else Inr buf)"

section \<open>Lemmas\<close>

text \<open>A text as the system hands it over when all of it has arrived.\<close>

function arrived :: "byte list \<Rightarrow> (byte list option \<times> bool) list" where
  "arrived t = (if length t \<le> maxlen then [(Some t, False)] else (Some (take maxlen t), True) # arrived (drop maxlen t))"
  by pat_completeness auto
termination by (relation "measure length") (auto simp: maxlen_def)

declare arrived.simps [simp del]

lemma recvStr_arrived: "recvStr (arrived t) out = Inr (out @ t)"
proof (induction t arbitrary: out rule: arrived.induct)
  case (1 t)
  show ?case
  proof (cases "length t \<le> maxlen")
    case True
    then show ?thesis by (simp add: arrived.simps)
  next
    case False
    then show ?thesis using 1 [of "out @ take maxlen t"] by (simp add: arrived.simps)
  qed
qed

lemma sslWait_loop_spec:
  assumes "sslWait_loop t fn k s acc = (r, n)" and "(t - acc) \<le> 10000 * int m"
  shows "k \<le> n \<and> n \<le> k + m \<and> (\<forall>j. k \<le> j \<and> j < n - 1 \<longrightarrow> fn j < 0) \<and> (n = k \<longrightarrow> r = s) \<and> (k < n \<longrightarrow> r = fn (n - 1)) \<and>
    (r < 0 \<longrightarrow> t \<le> acc + 10000 * int (n - k))"
  using assms
proof (induction t fn k s acc arbitrary: m rule: sslWait_loop.induct)
  case (1 t fn k s acc)
  show ?case
  proof (cases "s < 0 \<and> acc < t")
    case False
    then show ?thesis using "1.prems" by (subst (asm) sslWait_loop.simps) auto
  next
    case True
    with "1.prems"(1) have loop: "sslWait_loop t fn (Suc k) (fn k) (acc + 10000) = (r, n)"
      by (subst (asm) sslWait_loop.simps) simp
    from True "1.prems"(2) obtain m' where m: "m = Suc m'" by (cases m) auto
    with "1.prems"(2) have "t - (acc + 10000) \<le> 10000 * int m'" by simp
    note ih = "1.IH" [OF True loop this]
    have "fn j < 0" if j: "k \<le> j" "j < n - 1" for j
    proof (cases "j = k")
      case True
      have "fn k < 0"
      proof (rule ccontr)
        assume "\<not> fn k < 0"
        then have "sslWait_loop t fn (Suc k) (fn k) (acc + 10000) = (fn k, Suc k)" by (subst sslWait_loop.simps) simp
        with loop have "n = Suc k" by simp
        with j True show False by simp
      qed
      with True show ?thesis by simp
    next
      case False
      with ih j show ?thesis by auto
    qed
    moreover have "n - k = Suc (n - Suc k)" using ih [THEN conjunct1] by simp
    ultimately show ?thesis using ih m by (cases "n = Suc k") (auto simp: algebra_simps)
  qed
qed

section \<open>Properties\<close>

text \<open>
  A text whose bytes have all arrived is received whole, of whatever length; but a pause after a block of
  exactly 4096 bytes ends it there, and a failing \<^verbatim>\<open>recv\<close> throws.  Over TLS only the first block that can
  be read is received, up to its first 0, and a block of 16384 bytes overflows the buffer.
\<close>

theorem text_received:
  "recvStr (arrived t) [] = Inr t \<and>
   (length b = 4096 \<longrightarrow> recvStr ((Some b, False) # rs) [] = Inr b) \<and>
   recvStr ((None, m) # rs) out = Inl LengthError \<and>
   (length b < 16384 \<and> 0 \<notin> set b \<longrightarrow>
      ssl_recvStr (replicate n (ReadError True) @ Block b # qs) buf = Inr (buf @ b) \<and>
      ssl_recvStr (replicate n (ReadError True) @ Block (b @ 0 # c) # qs) buf =
        (if length (b @ 0 # c) < 16384 then Inr (buf @ b) else Inl (Ub OobWrite))) \<and>
   (length d = 16384 \<longrightarrow> ssl_recvStr (replicate n (ReadError True) @ Block d # qs) buf = Inl (Ub OobWrite))"
proof -
  have skip: "ssl_recvStr (replicate n (ReadError True) @ rs) buf = ssl_recvStr rs buf" for rs
    by (induction n) simp_all
  have c: "c_str (b @ 0 # x) = b" if "0 \<notin> set b" for x
    unfolding c_str_def using that by (subst takeWhile_append2) auto
  show ?thesis
    using recvStr_arrived [of t "[]"] by (auto simp: maxlen_def maxLen_def skip c)
qed

text \<open>
  Waiting on a TLS connection ends after at most one hundred tries a second and the first one, with the
  first status that is not negative or, if all are, after exactly that many tries.  An error that no
  other try can mend ends it only at the first call.
\<close>

theorem sslWaitOn_bounded:
  assumes "0 \<le> t"
  shows "(fn 0 < 0 \<and> want 0 \<longrightarrow>
      (\<exists>n. sslWaitOn t fn want = (fn (n - 1), n) \<and> 1 \<le> n \<and> n \<le> 1 + 100 * nat t \<and> (\<forall>j < n - 1. fn j < 0) \<and>
         (fn (n - 1) < 0 \<longrightarrow> n = 1 + 100 * nat t))) \<and>
    (0 \<le> fn 0 \<or> \<not> want 0 \<longrightarrow> sslWaitOn t fn want = (fn 0, 1))"
proof (intro conjI impI)
  assume f: "fn 0 < 0 \<and> want 0"
  obtain r n where l: "sslWait_loop (t * 1000000) fn 1 (fn 0) 0 = (r, n)" by fastforce
  have "t * 1000000 - 0 \<le> 10000 * int (100 * nat t)" using assms by simp
  note s = sslWait_loop_spec [OF l this]
  have r: "r = fn (n - 1)" using s by (cases "n = 1") auto
  have "fn j < 0" if "j < n - 1" for j using s f that by (cases j) auto
  moreover have "n = 1 + 100 * nat t" if "fn (n - 1) < 0"
  proof -
    from r that have "r < 0" by simp
    with s have "t * 1000000 \<le> 0 + 10000 * int (n - 1)" by blast
    with assms have "100 * nat t \<le> n - 1" by linarith
    with s show ?thesis by linarith
  qed
  ultimately show "\<exists>n. sslWaitOn t fn want = (fn (n - 1), n) \<and> 1 \<le> n \<and> n \<le> 1 + 100 * nat t \<and> (\<forall>j < n - 1. fn j < 0) \<and>
         (fn (n - 1) < 0 \<longrightarrow> n = 1 + 100 * nat t)"
    using s f l r by (intro exI [of _ n]) (simp add: sslWaitOn_def)
next
  assume "0 \<le> fn 0 \<or> \<not> want 0"
  then show "sslWaitOn t fn want = (fn 0, 1)" by (simp add: sslWaitOn_def)
qed

text \<open>
  An attempt to connect that times out leaves its descriptor open.  A client that retries until it succeeds
  keeps the descriptors of all attempts that timed out before, though none of those it gave up otherwise.
\<close>

theorem connection_leaks:
  assumes "\<forall>v \<in> set vs. 0 \<le> getaddrinfo v \<and> 0 \<le> socket v \<and>
      (\<exists>ret. select_loop (select_turns v) = Inr ret \<and> (ret \<le> 0 \<or> so_error v \<noteq> 0))"
    and "openSSLConn ctx v = Inr (Some fd, Some fd)" and "0 < rt"
  shows "sslCliConn ctx rt (vs @ v # ws) =
    Inr (Some fd, map socket (filter (\<lambda>v. \<exists>ret. select_loop (select_turns v) = Inr ret \<and> ret \<le> 0) vs) @ [fd])"
  using assms(1)
proof (induction vs)
  case Nil
  then show ?case using assms(2) by (simp add: Let_def)
next
  case (Cons u vs)
  then obtain ret where u: "0 \<le> getaddrinfo u" "0 \<le> socket u" "select_loop (select_turns u) = Inr ret" "ret \<le> 0 \<or> so_error u \<noteq> 0"
    by auto
  then have "openSSLConn ctx u = Inr (None, if ret \<le> 0 then Some (socket u) else None)"
    by (cases "ret \<le> 0") (simp_all add: openSSLConn_def openTCP_def open_sock_def tcp_env.truncate_def)
  with u Cons assms(3) show ?case by (simp add: Let_def)
qed

section \<open>The UDP connection\<close>

definition opens :: "tcp_env \<Rightarrow> bool" where
  "opens v \<longleftrightarrow> 0 \<le> getaddrinfo v \<and> 0 < socket v"

text \<open>The attempts that leave an address behind: those that fail after \<^verbatim>\<open>getaddrinfo\<close>.\<close>

definition leaks :: "tcp_env list \<Rightarrow> nat" where
  "leaks vs = length (filter (\<lambda>v. 0 \<le> getaddrinfo v) (takeWhile (\<lambda>v. \<not> opens v) vs))"

text \<open>A connection that is open, one that has just been freed, and one in between attempts.\<close>

definition udp_wf :: "nat \<Rightarrow> bool \<Rightarrow> udp_conn \<Rightarrow> bool" where
  "udp_wf n opened c \<longleftrightarrow> distinct (ulive c) \<and> (\<forall>a \<in> set (ulive c). a < unext c) \<and>
     (if opened then length (ulive c) = Suc n \<and> (\<exists>a \<in> set (ulive c). uai c = Some a) \<and> 0 < ufd c \<and> uopen c = [ufd c]
      else length (ulive c) = n \<and> uopen c = [])"

lemma open_attempt:
  assumes "udp_wf n False c" and "socket v \<noteq> 0"
  shows "opens v \<Longrightarrow> udp_wf n True (openUDPSock v c) \<and> 0 < ufd (openUDPSock v c)"
    and "\<not> opens v \<Longrightarrow> udp_wf (if 0 \<le> getaddrinfo v then Suc n else n) False (openUDPSock v c) \<and> ufd (openUDPSock v c) = -1"
  using assms by (auto simp: openUDPSock_def open_sock_def opens_def udp_wf_def)

lemma acqrResrc_opens:
  "0 < rt \<Longrightarrow> udp_wf n False c \<Longrightarrow> \<forall>v \<in> set vs. socket v \<noteq> 0 \<Longrightarrow> \<exists>v \<in> set vs. opens v \<Longrightarrow>
   \<exists>d. acqrResrc rt vs c = Inr d \<and> udp_wf (n + leaks vs) True d"
proof (induction vs arbitrary: n c)
  case (Cons v vs)
  show ?case
  proof (cases "opens v")
    case True
    have "socket v \<noteq> 0" using Cons.prems(3) by simp
    from open_attempt(1) [OF Cons.prems(2) this True] True show ?thesis by (simp add: leaks_def Let_def)
  next
    case False
    with open_attempt(2) [OF Cons.prems(2)] Cons.prems(3) have
      "udp_wf (if 0 \<le> getaddrinfo v then Suc n else n) False (openUDPSock v c)" "ufd (openUDPSock v c) = -1" by auto
    with Cons.IH [OF Cons.prems(1) this(1)] Cons.prems False show ?thesis by (auto simp: leaks_def Let_def)
  qed
qed simp

lemma acqrResrc_fd: "acqrResrc rt vs c = Inr d \<Longrightarrow> 0 < ufd d \<Longrightarrow> \<exists>v \<in> set vs. ufd d = socket v"
proof (induction vs arbitrary: c)
  case (Cons v vs)
  show ?case
  proof (cases "ufd (openUDPSock v c) < 0 \<and> rt > 0")
    case True
    with Cons show ?thesis by (auto simp: Let_def)
  next
    case False
    with Cons.prems have "d = openUDPSock v c" by (simp add: Let_def)
    with Cons.prems(2) show ?thesis by (auto simp: openUDPSock_def open_sock_def split: if_splits)
  qed
qed simp

lemma freeResrc_open: "udp_wf n True c \<Longrightarrow> \<exists>d. freeResrc c = Inr d \<and> udp_wf n False d"
  by (auto simp: udp_wf_def freeResrc_def length_remove1 set_remove1_eq)

text \<open>
  A connection that retries, like that of the remote interface, can be reset any number of times: no address is freed
  twice, and exactly one descriptor is open; but each attempt that fails after its \<^verbatim>\<open>getaddrinfo\<close> leaves an address
  behind.  One that does not retry keeps a freed address when \<^verbatim>\<open>getaddrinfo\<close> fails, and frees it again with the next reset.
\<close>

theorem udp_resets_safe:
  assumes "\<forall>vs \<in> set (us # vss). (\<exists>v \<in> set vs. opens v) \<and> (\<forall>v \<in> set vs. socket v \<noteq> 0)"
  shows "(0 < rt \<longrightarrow> (\<exists>c d. acqrResrc rt us new_udp = Inr c \<and> udp_resets rt vss c = Inr d \<and> uopen d = [ufd d] \<and>
      (\<exists>a \<in> set (ulive d). uai d = Some a) \<and> length (ulive d) = Suc (leaks us + (\<Sum>vs \<leftarrow> vss. leaks vs)))) \<and>
    (rt \<le> 0 \<and> opens u \<and> getaddrinfo v < 0 \<longrightarrow>
      (\<exists>c. acqrResrc rt [u] new_udp = Inr c \<and> udp_resets rt [[v], ws] c = Inl (Ub Dangling)))"
proof (intro conjI impI)
  assume rt: "0 < rt"
  have run: "\<exists>d. udp_resets rt vss c = Inr d \<and> udp_wf (n + (\<Sum>vs \<leftarrow> vss. leaks vs)) True d"
    if "udp_wf n True c" "\<forall>vs \<in> set vss. (\<exists>v \<in> set vs. opens v) \<and> (\<forall>v \<in> set vs. socket v \<noteq> 0)" for n c and vss
    using that
  proof (induction vss arbitrary: n c)
    case (Cons vs vss)
    obtain f where f: "freeResrc c = Inr f" "udp_wf n False f" using freeResrc_open [OF Cons.prems(1)] by blast
    obtain g where g: "acqrResrc rt vs f = Inr g" "udp_wf (n + leaks vs) True g"
      using acqrResrc_opens [OF rt f(2), of vs] Cons.prems(2) by auto
    with f(1) Cons.IH [OF g(2)] Cons.prems(2) show ?case by (simp add: UDPConn_reset_def add.assoc)
  qed simp
  have "udp_wf 0 False new_udp" by (simp add: udp_wf_def new_udp_def)
  from acqrResrc_opens [OF rt this, of us] assms obtain c where c: "acqrResrc rt us new_udp = Inr c" "udp_wf (leaks us) True c" by auto
  have "\<forall>vs \<in> set vss. (\<exists>v \<in> set vs. opens v) \<and> (\<forall>v \<in> set vs. socket v \<noteq> 0)" using assms by simp
  from run [OF c(2) this] obtain d where "udp_resets rt vss c = Inr d" "udp_wf (leaks us + (\<Sum>vs \<leftarrow> vss. leaks vs)) True d" by blast
  with c(1) show "\<exists>c d. acqrResrc rt us new_udp = Inr c \<and> udp_resets rt vss c = Inr d \<and> uopen d = [ufd d] \<and>
      (\<exists>a \<in> set (ulive d). uai d = Some a) \<and> length (ulive d) = Suc (leaks us + (\<Sum>vs \<leftarrow> vss. leaks vs))"
    by (auto simp: udp_wf_def)
next
  assume "rt \<le> 0 \<and> opens u \<and> getaddrinfo v < 0"
  then show "\<exists>c. acqrResrc rt [u] new_udp = Inr c \<and> udp_resets rt [[v], ws] c = Inl (Ub Dangling)"
    by (auto simp: openUDPSock_def open_sock_def opens_def new_udp_def UDPConn_reset_def freeResrc_def Let_def)
qed

section \<open>Witnesses\<close>

theorem text_received_witness:
  "recvStr (arrived (replicate 5000 7)) [] = Inr (replicate 5000 7) \<and> recvStr [(Some (replicate 4096 7), False)] [] = Inr (replicate 4096 7) \<and>
   ssl_recvStr [ReadError True, Block [1, 0, 2]] [] = Inr [1] \<and> ssl_recvStr [Block (replicate 16384 7)] [] = Inl (Ub OobWrite)"
  using text_received [of "replicate 5000 7" "replicate 4096 7" "[]" True "[]" 0 "[]" "[]" "[]" "replicate 16384 7"]
    text_received [of "[]" "[1]" "[]" True "[]" 1 "[]" "[]" "[2]" "[]"]
  by simp

theorem sslWaitOn_bounded_witness:
  "sslWaitOn 15 (\<lambda>k. if k < 3 then -1 else 1) (\<lambda>_. True) = (1, 4) \<and> snd (sslWaitOn 1 (\<lambda>_. -1) (\<lambda>_. True)) = 101 \<and>
   sslWaitOn 15 (\<lambda>_. -1) (\<lambda>_. False) = (-1, 1)"
proof (intro conjI)
  obtain n where n: "sslWaitOn 15 (\<lambda>k. if k < 3 then -1 else 1) (\<lambda>_. True) = (if n - 1 < 3 then -1 else 1, n)"
    "\<forall>j < n - 1. (if j < 3 then -1 else 1) < (0 :: int)" "(if n - 1 < 3 then -1 else 1) < (0 :: int) \<longrightarrow> n = 1501"
    using sslWaitOn_bounded [of 15 "\<lambda>k. if k < 3 then -1 else 1" "\<lambda>_. True"] by auto
  have "3 \<le> n - 1" using n(3) by (cases "n - 1 < 3") auto
  moreover have "\<not> 3 < n - 1" using n(2) by auto
  ultimately have "n = 4" by linarith
  with n(1) show "sslWaitOn 15 (\<lambda>k. if k < 3 then -1 else 1) (\<lambda>_. True) = (1, 4)" by simp
  show "snd (sslWaitOn 1 (\<lambda>_. -1) (\<lambda>_. True)) = 101"
    using sslWaitOn_bounded [of 1 "\<lambda>_. -1" "\<lambda>_. True"] by auto
  show "sslWaitOn 15 (\<lambda>_. -1) (\<lambda>_. False) = (-1, 1)"
    using sslWaitOn_bounded [of 15 "\<lambda>_. -1" "\<lambda>_. False"] by auto
qed

definition timed_out :: ssl_env where
  "timed_out = \<lparr>getaddrinfo = 0, socket = 5, select_turns = [(0, False, 0, 0)], so_error = 0, ssl_connect = \<lambda>_. 1,
     connect_want = \<lambda>_. False, verify_ok = True, do_handshake = \<lambda>_. 1, handshake_want = \<lambda>_. False\<rparr>"

theorem connection_leaks_witness:
  "sslCliConn ValidCtx 5 [timed_out, timed_out\<lparr>socket := 6\<rparr>, timed_out\<lparr>socket := 7, select_turns := [(1, False, 4, 0)]\<rparr>] = Inr (Some 7, [5, 6, 7])"
  using connection_leaks [of "[timed_out, timed_out\<lparr>socket := 6\<rparr>]" ValidCtx "timed_out\<lparr>socket := 7, select_turns := [(1, False, 4, 0)]\<rparr>" 7 5 "[]"]
  by (simp add: timed_out_def openSSLConn_def SSL_new_def openTCP_def open_sock_def tcp_env.truncate_def sslWaitOn_def)

end
