(* ===== verification/Remote.thy ===== *)
theory Remote
  imports Restful Connections ObjectModel
begin

text \<open>
  The remote and local interfaces: kintf/source/remoteif.cpp, the message headers of
  kintf/include/krpc_const.h and kintf/source/localintf.cpp.  The UDP thread pings the cloud server
  and takes its datagrams; a datagram may ask it to fetch a message over TLS, which may hold a request
  for the application interface; a local client sends such requests over a UNIX socket.
\<close>

section \<open>Messages (krpc\_const.h)\<close>

text \<open>Time is cut to an \<^verbatim>\<open>int\<close>.\<close>

definition req_struct :: "int \<Rightarrow> byte list \<Rightarrow> (string \<times> json) list" where
  "req_struct tm uri = [(''ver'', JInt 2), (''uri'', JStr uri), (''tod'', JInt (scast (of_int tm :: u32)))]"

definition req_struct_arg :: "int \<Rightarrow> byte list \<Rightarrow> byte list \<Rightarrow> json" where
  "req_struct_arg tm uri pl = JObj (req_struct tm uri @ [(''arg'', JStr pl)])"

section \<open>Credentials\<close>

text \<open>The file \<^verbatim>\<open>device_data\<close>, \<open>None\<close> when it cannot be loaded.\<close>

definition remoteAccessIsEnabled :: "json option \<Rightarrow> ub + bool" where
  "remoteAccessIsEnabled dev = bindE (toInteger (member ''connect'' dev)) (\<lambda>n. Inr (n = 1))"

definition deviceToken :: "json option \<Rightarrow> byte list" where
  "deviceToken dev = json_toString (member ''deviceToken'' dev)"

section \<open>The ping\<close>

text \<open>The times are \<^verbatim>\<open>int\<close>s; \<^verbatim>\<open>time(0)\<close> has 64 bits.\<close>

record onePing =
  lastReq :: u32
  lastRsp :: u32
  minReqIntv :: int
  minRspIntv :: int
  bii :: int

definition new_onePing :: "int \<Rightarrow> int \<Rightarrow> int \<Rightarrow> onePing" where
  "new_onePing q r b = \<lparr>lastReq = 0, lastRsp = 0, minReqIntv = q, minRspIntv = r, bii = b\<rparr>"

definition onePing_call :: "json option \<Rightarrow> int \<Rightarrow> onePing \<Rightarrow> json option \<times> onePing" where
  "onePing_call dev tm p =
     (if tm - sint (lastReq p) < minReqIntv p then (None, p)
      else (Some (JObj (req_struct tm (str ''ping/req'') @
                   [(''arg'', JObj [(''tkn'', JStr (deviceToken dev)), (''rsp'', JBool (tm - sint (lastRsp p) > minRspIntv p))])])),
            p\<lparr>lastReq := of_int tm\<rparr>))"

definition brokenLink :: "int \<Rightarrow> onePing \<Rightarrow> bool" where
  "brokenLink tm p \<longleftrightarrow> tm - sint (lastRsp p) - minRspIntv p > bii p"

section \<open>Handlers by type\<close>

text \<open>
  The handlers of messages are registered for one of two argument types, \<^verbatim>\<open>cbCtx&\<close> for datagrams and
  \<^verbatim>\<open>cbContext&\<close> for messages over TLS; those of the application interface have a third type and the
  event \<^verbatim>\<open>Application\<close>, and are kept apart here.
\<close>

definition cbCtx_type :: nat where "cbCtx_type = 2"
definition cbContext_type :: nat where "cbContext_type = 3"

datatype remote_handler = PingRsp | GetMsg | RestfulReq | WidgetReq

definition onePing_ctor :: "remote_handler repository \<Rightarrow> remote_handler repository" where
  "onePing_ctor R = simpleHandler (str ''ping/rsp'') cbCtx_type PingRsp R"

definition remote_init :: "remote_handler repository \<Rightarrow> remote_handler repository" where
  "remote_init R =
     simpleHandler (str ''widget/req'') cbContext_type WidgetReq
       (simpleHandler (str ''restful/req'') cbContext_type RestfulReq
         (simpleHandler (str ''msg/ind'') cbCtx_type GetMsg R))"

definition remote_handlers :: "remote_handler repository" where
  "remote_handlers = onePing_ctor (remote_init [])"

section \<open>The UDP thread\<close>

text \<open>
  The thread's variables: the pinging object, the UDP connection and the descriptors it waits for, with the one
  callback that may be registered.
\<close>

record udp_state =
  ping :: onePing
  udp_server :: udp_conn
  waiting :: "unit selects"

text \<open>
  A datagram of \<open>b\<close> bytes is not terminated: the text goes on with what else the buffer holds, \<open>junk\<close>.
\<close>

definition datagram_text :: "byte list \<Rightarrow> byte list \<Rightarrow> ub + byte list" where
  "datagram_text b junk = (if 0 \<in> set (b @ junk) then Inr (c_str (b @ junk)) else Inl OobRead)"

text \<open>What a datagram makes the thread do: fetch a message with this argument.\<close>

definition datagram ::
    "(byte list \<Rightarrow> json option) \<Rightarrow> (byte list \<Rightarrow> json option) \<Rightarrow> int \<Rightarrow> byte list \<Rightarrow> onePing \<Rightarrow> byte list list \<times> onePing" where
  "datagram loads disk tm src p =
     (let x = JSON_source loads disk src;
          arg = json_toString (member ''arg'' x)
      in case fst (simpleTrigger (json_toString (member ''uri'' x)) cbCtx_type remote_handlers) of
           [] \<Rightarrow> ([], p)
         | h # _ \<Rightarrow> (case h of PingRsp \<Rightarrow> ([], p\<lparr>lastRsp := of_int tm\<rparr>) | GetMsg \<Rightarrow> ([arg], p) | _ \<Rightarrow> ([], p)))"

text \<open>
  One turn of \<^verbatim>\<open>startUDPServer000\<close> at time \<open>turn_time\<close>: \<open>udp_tries\<close> are the attempts to open the socket anew when the link
  counts as broken, \<open>sel_turns\<close> the turns of \<^verbatim>\<open>select\<close>, and \<open>arrival\<close> is what \<^verbatim>\<open>recvfrom\<close> gives if it is called, with its
  time, the bytes and the rest of the buffer.  The result are the pings sent and the messages to fetch.
\<close>

record udp_turn =
  dev_file :: "json option"
  turn_time :: int
  udp_tries :: "tcp_env list"
  sel_turns :: "select_turn list"
  arrival :: "(int \<times> byte list \<times> byte list) option"

definition reconnect :: "tcp_env list \<Rightarrow> udp_state \<Rightarrow> net_fault + udp_state" where
  "reconnect vs s =
     bindE (UDPConn_reset 10 vs (udp_server s)) (\<lambda>c.
     bindE (rFD_SET (ufd c) () (selects_reset (waiting s))) (\<lambda>waiting'. Inr (s\<lparr>udp_server := c, waiting := waiting'\<rparr>)))"

definition send_ping :: "json option \<Rightarrow> udp_conn \<Rightarrow> net_fault + json list" where
  "send_ping pl c = (case pl of None \<Rightarrow> Inr [] | Some j \<Rightarrow> bindE (UDPConn_sendto c) (\<lambda>_. Inr [j]))"

text \<open>The callback.\<close>

definition receive ::
    "(byte list \<Rightarrow> json option) \<Rightarrow> (byte list \<Rightarrow> json option) \<Rightarrow> (int \<times> byte list \<times> byte list) option \<Rightarrow> onePing \<Rightarrow>
     net_fault + (byte list list \<times> onePing)" where
  "receive loads disk a p =
     (case a of
        None \<Rightarrow> Inr ([], p)
      | Some (tm, b, junk) \<Rightarrow>
          if b = [] then Inr ([], p) else bindE (ub_net (datagram_text b junk)) (\<lambda>src. Inr (datagram loads disk tm src p)))"

definition startUDPServer_turn ::
    "(byte list \<Rightarrow> json option) \<Rightarrow> (byte list \<Rightarrow> json option) \<Rightarrow> udp_turn \<Rightarrow> udp_state \<Rightarrow>
     net_fault + (json list \<times> byte list list \<times> udp_state)" where
  "startUDPServer_turn loads disk v s =
     bindE (ub_net (remoteAccessIsEnabled (dev_file v))) (\<lambda>enabled.
       if \<not> enabled then Inr ([], [], s)
       else bindE (if brokenLink (turn_time v) (ping s) then reconnect (udp_tries v) s else Inr s) (\<lambda>s.
         case onePing_call (dev_file v) (turn_time v) (ping s) of (pl, p) \<Rightarrow>
           bindE (send_ping pl (udp_server s)) (\<lambda>pings.
           bindE (listenOnce (sel_turns v) (waiting s)) (\<lambda>callbacks.
             if callbacks = [] then Inr (pings, [], s\<lparr>ping := p\<rparr>)
             else bindE (receive loads disk (arrival v) p) (\<lambda>(msgs, p). Inr (pings, msgs, s\<lparr>ping := p\<rparr>))))))"

definition startUDPServer_init :: "tcp_env list \<Rightarrow> net_fault + udp_state" where
  "startUDPServer_init vs =
     bindE (acqrResrc 10 vs new_udp) (\<lambda>c. Inr \<lparr>ping = new_onePing 45 3600 900, udp_server = c, waiting = new_selects\<rparr>)"

text \<open>A run of turns, with the times of the pings sent.\<close>

fun udp_run ::
    "(byte list \<Rightarrow> json option) \<Rightarrow> (byte list \<Rightarrow> json option) \<Rightarrow> udp_turn list \<Rightarrow> udp_state \<Rightarrow>
     net_fault + (int list \<times> byte list list \<times> udp_state)" where
  "udp_run loads disk [] s = Inr ([], [], s)"
| "udp_run loads disk (v # vs) s =
     bindE (startUDPServer_turn loads disk v s) (\<lambda>(pings, msgs, s).
     bindE (udp_run loads disk vs s) (\<lambda>(ts, ms, s). Inr (map (\<lambda>_. turn_time v) pings @ ts, msgs @ ms, s)))"

definition startUDPServer ::
    "(byte list \<Rightarrow> json option) \<Rightarrow> (byte list \<Rightarrow> json option) \<Rightarrow> tcp_env list \<Rightarrow> udp_turn list \<Rightarrow>
     net_fault + (int list \<times> byte list list \<times> udp_state)" where
  "startUDPServer loads disk vs turns = bindE (startUDPServer_init vs) (udp_run loads disk turns)"

section \<open>Messages over TLS\<close>

definition WIDGETZIPBUFFER :: "byte list" where
  "WIDGETZIPBUFFER = str ''/tmp/kappaio-temp-files/widgetbuf.tgz''"

text \<open>
  \<^verbatim>\<open>EncodeDir\<close> (kapi/source/kutil.cpp) builds a shell command in \<^verbatim>\<open>char command[256]\<close>; \<open>encode\<close> is the text that
  running it and encoding the file it makes give.
\<close>

definition EncodeDir :: "(byte list \<Rightarrow> byte list) \<Rightarrow> byte list \<Rightarrow> ub + byte list" where
  "EncodeDir encode fileName =
     (let command = str ''mkdir -p /tmp/kappaio-temp-files/ && tar -cz -f '' @ WIDGETZIPBUFFER @ str '' -C '' @ fileName @
            str '' . > /tmp/errorlog 2>&1''
      in if 256 \<le> length command then Inl OobWrite else Inr (encode command))"

text \<open>The second element of the path; the endpoint's data may get new members.\<close>

definition path_endpoint :: "json option \<Rightarrow> json" where
  "path_endpoint j = (case member ''path'' j of JArr xs \<Rightarrow> (if 1 < length xs then xs ! 1 else JNull) | _ \<Rightarrow> JNull)"

definition widgetHandle ::
    "(byte list \<Rightarrow> json option) \<Rightarrow> (byte list \<Rightarrow> json option) \<Rightarrow> (byte list \<Rightarrow> byte list) \<Rightarrow> byte list \<Rightarrow> Endpoint list \<Rightarrow>
     ub + (json \<times> Endpoint list)" where
  "widgetHandle loads disk encode args es =
     bindE (toInteger (path_endpoint (JSON_source loads disk args))) (\<lambda>n.
       if \<not> endpointExist (ucast n) es then Inr (JObj [(''status'', JInt (- 1))], es)
       else (case endpoints (ucast n) es of (k, es) \<Rightarrow>
         case get_data ''WidgetRoot'' (ep_data (es ! k)) of (root, d) \<Rightarrow>
         bindE (EncodeDir encode (c_str root)) (\<lambda>txt0.
           if txt0 = [] then Inr (JObj [], es[k := (es ! k)\<lparr>ep_data := d\<rparr>])
           else (case get_data ''WidgetIndexFile'' d of (index, d) \<Rightarrow>
                   Inr (JObj [(''data'', JStr txt0), (''WidgetRoot'', JStr (c_str root)), (''WidgetIndexFile'', JStr (c_str index)),
                              (''status'', JInt 0)], es[k := (es ! k)\<lparr>ep_data := d\<rparr>])))))"

text \<open>Defined but never registered; \<open>widgets\<close> is the registry file.\<close>

definition widget_loader_handle :: "json option \<Rightarrow> json" where
  "widget_loader_handle widgets = JObj [(''status'', JInt (if widgets = None then - 1 else 0))]"

text \<open>
  \<^verbatim>\<open>getMsg\<close>: the messages sent to the server, \<open>reply\<close> being what it answers within two seconds.
\<close>

definition getMsg ::
    "(byte list \<Rightarrow> json option) \<Rightarrow> (json \<Rightarrow> byte list) \<Rightarrow> ('w \<Rightarrow> byte list \<Rightarrow> json option) \<Rightarrow> (byte list \<Rightarrow> byte list) \<Rightarrow> int \<Rightarrow>
     byte list option \<Rightarrow> byte list \<Rightarrow> 'w interface \<times> Endpoint list \<Rightarrow> ub + (json list \<times> 'w interface \<times> Endpoint list)" where
  "getMsg loads dumps disk encode tm reply args s =
     (case s of (i, es) \<Rightarrow>
        (let pkt = req_struct_arg tm (str ''msg/req'') args in
         case reply of
           None \<Rightarrow> Inr ([pkt], i, es)
         | Some t \<Rightarrow>
             (let msg = JSON_source loads (disk (world i)) t;
                  arg = json_toString (member ''arg'' msg)
              in case fst (simpleTrigger (json_toString (member ''uri'' msg)) cbContext_type remote_handlers) of
                   [] \<Rightarrow> Inr ([pkt], i, es)
                 | h # _ \<Rightarrow>
                     (case h of
                        RestfulReq \<Rightarrow> bindE (handleRESTful loads dumps disk arg i) (\<lambda>(rsp, i).
                          Inr ([pkt, req_struct_arg tm (str ''msg/rsp'') rsp], i, es))
                      | WidgetReq \<Rightarrow> bindE (widgetHandle loads (disk (world i)) encode arg es) (\<lambda>(rsp, es).
                          Inr ([pkt, req_struct_arg tm (str ''msg/rsp'') (stringify dumps rsp)], i, es))
                      | _ \<Rightarrow> Inr ([pkt], i, es)))))"

section \<open>Starting and asking the server\<close>

text \<open>
  \<^verbatim>\<open>getMACAddr\<close>: the six bytes are those that \<^verbatim>\<open>ioctl\<close> gives or, when it fails, what the stack holds.
\<close>

definition getMACAddr :: "bool \<Rightarrow> byte list \<Rightarrow> byte list \<Rightarrow> byte list \<Rightarrow> ub + byte list" where
  "getMACAddr found mac junk hwAddr = memcpy_to hwAddr 0 (hexs (take 6 (if found then mac else junk)) @ [0])"

text \<open>\<^verbatim>\<open>CTXInit\<close>: whether OpenSSL gives a context and whether the trust store can be loaded; the context is freed but kept.\<close>

definition CTXInit :: "bool \<Rightarrow> bool \<Rightarrow> ub + (ssl_ctx \<times> int)" where
  "CTXInit made loaded =
     (let ctx = (if made then ValidCtx else NullCtx)
      in if ctx = NullCtx then Inl NullDeref
         else if \<not> loaded then Inr (FreedCtx, -1) else if ctx = NullCtx then Inr (ctx, -1) else Inr (ctx, 0))"

text \<open>
  The results are the context, the hardware address and the handlers of messages, those of the application interface being
  \<open>app_init\<close> below; the result of \<^verbatim>\<open>CTXInit\<close> is not looked at.
\<close>

definition remoteIntfInit ::
    "bool \<Rightarrow> bool \<Rightarrow> bool \<Rightarrow> byte list \<Rightarrow> byte list \<Rightarrow> remote_handler repository \<Rightarrow>
     ub + (ssl_ctx \<times> byte list \<times> remote_handler repository)" where
  "remoteIntfInit made loaded found mac junk R =
     bindE (CTXInit made loaded) (\<lambda>(ctx, _).
     bindE (getMACAddr found mac junk (replicate 13 0)) (\<lambda>hwAddr. Inr (ctx, hwAddr, remote_init R)))"

text \<open>
  What \<^verbatim>\<open>getMsg\<close> and \<^verbatim>\<open>sign_in_handle\<close> do to have the server's answer: connect, send, wait for two seconds, read.
\<close>

definition ask_server ::
    "ssl_ctx \<Rightarrow> ssl_env list \<Rightarrow> (int \<times> bool) list \<Rightarrow> select_turn list \<Rightarrow> ssl_read list \<Rightarrow> net_fault + byte list option" where
  "ask_server ctx vs writes turns reads =
     bindE (sslCliConn ctx 5 vs) (\<lambda>(c, _). case c of
         None \<Rightarrow> Inl (Ub NullDeref)
       | Some fd \<Rightarrow>
           bindE (ssl_send writes) (\<lambda>_.
           bindE (rFD_SET fd () new_selects) (\<lambda>S.
           bindE (listenOnce turns S) (\<lambda>callbacks.
             if callbacks = [] then Inr None else bindE (ssl_recvStr reads []) (\<lambda>t. Inr (Some t))))))"

section \<open>Signing in\<close>

record net_world =
  device_data :: "json option"
  widget_registry :: "json option"
  sent_to_server :: "json list"

text \<open>
  \<open>reply\<close> is the server's answer, \<open>None\<close> for none within two seconds.  To set \<^verbatim>\<open>mac\<close> in parameters that have it as a number,
  an array or an object frees that value twice.
\<close>

definition sign_in_handle ::
    "(byte list \<Rightarrow> json option) \<Rightarrow> (json \<Rightarrow> byte list) \<Rightarrow> (net_world \<Rightarrow> byte list \<Rightarrow> json option) \<Rightarrow> byte list \<Rightarrow> int \<Rightarrow>
     byte list option \<Rightarrow> net_world app_handler" where
  "sign_in_handle loads dumps disk hwAddr tm reply C w =
     (let pl = JSON_source loads (disk w) (parameter C);
          req = JSON_source loads (disk w) (request C);
          answer = (\<lambda>r w. Inr (C\<lparr>response := stringify dumps (JObj r)\<rparr>, w))
      in if method_is ''POST'' req
         then if pl \<noteq> None \<and> \<not> op_safe (Assign ''mac'' (SetText hwAddr)) (the pl) then Inl Dangling
              else (let pl' = (case pl of None \<Rightarrow> JNull | Some j \<Rightarrow> json_set [Key ''mac''] (JStr hwAddr) j);
                   w = w\<lparr>sent_to_server := sent_to_server w @ [req_struct_arg tm (str ''sign_in/req'') (stringify dumps pl')]\<rparr>
               in case reply of
                    None \<Rightarrow> answer [(''status'', JInt (- 1))] w
                  | Some t \<Rightarrow>
                      (let rsp = JSON_source loads (disk w) (json_toString (member ''arg'' (JSON_source loads (disk w) t)))
                       in bindE (toInteger (member ''status'' rsp)) (\<lambda>st.
                            if st \<noteq> 0 then answer [(''status'', JInt (- 1))] w
                            else (let task = JObj [(''email'', member ''email'' pl), (''authkey'', member ''authKey'' rsp)];
                                      devData = JObj [(''deviceToken'', member ''deviceToken'' rsp), (''authorizedUser'', task), (''connect'', JInt 1)]
                                  in answer [(''status'', JInt 0), (''authorized'', task)] (w\<lparr>device_data := Some devData\<rparr>)))))
         else if method_is ''DELETE'' req then answer [(''status'', JInt 0)] (w\<lparr>device_data := None\<rparr>)
         else if method_is ''GET'' req
         then answer [(''status'', JInt 0), (''authorized'', member ''authorizedUser'' (device_data w))] w
         else answer [(''status'', JInt (- 1))] w)"

text \<open>The handlers of the widgets work on the registry file only.\<close>

definition on_registry :: "json option app_handler \<Rightarrow> net_world app_handler" where
  "on_registry h C w = bindE (h C (widget_registry w)) (\<lambda>(C, r). Inr (C, w\<lparr>widget_registry := r\<rparr>))"

definition app_handlers ::
    "(byte list \<Rightarrow> json option) \<Rightarrow> (json \<Rightarrow> byte list) \<Rightarrow> (net_world \<Rightarrow> byte list \<Rightarrow> json option) \<Rightarrow>
     (json option \<Rightarrow> byte list \<Rightarrow> json option) \<Rightarrow> byte list \<Rightarrow> int \<Rightarrow> byte list option \<Rightarrow> (byte list \<times> net_world app_handler) list" where
  "app_handlers loads dumps disk wdisk hwAddr tm reply =
     [(str ''sign_in'', sign_in_handle loads dumps disk hwAddr tm reply),
      (str ''widget_registry'', on_registry (widgetRegistry loads dumps wdisk)),
      (str ''widget_load'', on_registry (widgetLoad loads dumps wdisk))]"

text \<open>\<open>lift\<close> makes them handlers of a larger world.\<close>

definition app_init :: "(net_world app_handler \<Rightarrow> 'w app_handler) \<Rightarrow> (byte list \<times> net_world app_handler) list \<Rightarrow>
     'w app_handler repository \<Rightarrow> 'w app_handler repository" where
  "app_init lift hs R = fold (\<lambda>(u, h). handler Application u ctx_type (lift h)) hs R"

section \<open>Local clients (localintf.cpp)\<close>

text \<open>The callback of the UNIX socket server for one client; the result is what is sent back, if anything.\<close>

definition local_server ::
    "(byte list \<Rightarrow> json option) \<Rightarrow> (json \<Rightarrow> byte list) \<Rightarrow> ('w \<Rightarrow> byte list \<Rightarrow> json option) \<Rightarrow> (byte list option \<times> bool) list \<Rightarrow>
     'w interface \<Rightarrow> net_fault + (byte list option \<times> 'w interface)" where
  "local_server loads dumps disk recvs s =
     bindE (recvStr recvs []) (\<lambda>t.
       case JSON_source loads (disk (world s)) t of
         None \<Rightarrow> Inr (None, s)
       | Some j \<Rightarrow>
           if exist_key ''ver'' j \<and> json_toString (member ''ver'' (Some j)) = str ''0001''
           then (case handleRESTful loads dumps disk (json_toString (member ''request'' (Some j))) s of
                   Inl u \<Rightarrow> Inl (Ub u) | Inr (rsp, s) \<Rightarrow> Inr (Some rsp, s))
           else Inr (None, s))"

section \<open>Lemmas\<close>

lemma simpleTrigger_simpleHandler:
  "fst (simpleTrigger u ty (simpleHandler u' ty' f R)) = (if u = u' \<and> ty = ty' then [f] else fst (simpleTrigger u ty R))"
  by (simp add: simpleTrigger_def simpleHandler_def trigger_handler)

lemma simpleTrigger_Nil [simp]: "fst (simpleTrigger u ty []) = []"
  by (simp add: simpleTrigger_def trigger_def container_def)

lemma remote_handlers_cbCtx:
  "fst (simpleTrigger u cbCtx_type remote_handlers) =
     (if u = str ''ping/rsp'' then [PingRsp] else if u = str ''msg/ind'' then [GetMsg] else [])"
  by (simp add: remote_handlers_def onePing_ctor_def remote_init_def simpleTrigger_simpleHandler cbCtx_type_def cbContext_type_def)

lemma remote_handlers_cbContext:
  "fst (simpleTrigger u cbContext_type remote_handlers) =
     (if u = str ''widget/req'' then [WidgetReq] else if u = str ''restful/req'' then [RestfulReq] else [])"
  by (simp add: remote_handlers_def onePing_ctor_def remote_init_def simpleTrigger_simpleHandler cbCtx_type_def cbContext_type_def)

lemma sint_time: "0 \<le> t \<Longrightarrow> t < 2 ^ 31 \<Longrightarrow> sint (of_int t :: u32) = t"
  by (simp add: signed_of_int signed_take_bit_int_eq_self)

lemma datagram_keeps:
  "lastReq (snd (datagram loads disk t src p)) = lastReq p \<and> minReqIntv (snd (datagram loads disk t src p)) = minReqIntv p"
  by (auto simp: datagram_def remote_handlers_cbCtx Let_def split: if_splits)

lemma onePing_call_45:
  "onePing_call dev t p = (pl, q) \<Longrightarrow> minReqIntv p = 45 \<Longrightarrow> 0 \<le> t \<Longrightarrow> t < 2 ^ 31 \<Longrightarrow>
   minReqIntv q = 45 \<and> (pl = None \<and> lastReq q = lastReq p \<and> t - sint (lastReq p) < 45 \<or>
     pl \<noteq> None \<and> sint (lastReq q) = t \<and> 45 \<le> t - sint (lastReq p))"
  using sint_time [of t] by (auto simp: onePing_call_def split: if_splits)

lemma receive_keeps:
  "receive loads disk a p = Inr (ms, q) \<Longrightarrow> lastReq q = lastReq p \<and> minReqIntv q = minReqIntv p"
  using datagram_keeps [of loads disk _ _ p]
  by (auto simp: receive_def returns_iff split: option.splits prod.splits if_splits) (metis snd_conv)+

lemma reconnect_keeps: "reconnect vs s = Inr s' \<Longrightarrow> ping s' = ping s"
  by (auto simp: reconnect_def returns_iff)

lemma turn_effect:
  assumes "startUDPServer_turn loads disk v s = Inr (pings, ms, s')" and "minReqIntv (ping s) = 45"
    and "0 \<le> turn_time v" and "turn_time v < 2 ^ 31"
  shows "minReqIntv (ping s') = 45 \<and>
    (pings = [] \<and> lastReq (ping s') = lastReq (ping s) \<and>
       (remoteAccessIsEnabled (dev_file v) = Inr True \<longrightarrow> turn_time v - sint (lastReq (ping s)) < 45) \<or>
     length pings = 1 \<and> sint (lastReq (ping s')) = turn_time v \<and> 45 \<le> turn_time v - sint (lastReq (ping s)))"
proof (cases "remoteAccessIsEnabled (dev_file v) = Inr True")
  case False
  with assms show ?thesis by (cases "remoteAccessIsEnabled (dev_file v)") (auto simp: startUDPServer_turn_def)
next
  case True
  with assms(1) obtain s1 where s1: "(if brokenLink (turn_time v) (ping s) then reconnect (udp_tries v) s else Inr s) = Inr s1"
    by (auto simp: startUDPServer_turn_def returns_iff)
  then have same: "ping s1 = ping s" by (auto dest: reconnect_keeps split: if_splits)
  obtain pl p where call: "onePing_call (dev_file v) (turn_time v) (ping s1) = (pl, p)" by fastforce
  from assms(1) have sent: "send_ping pl (udp_server s1) = Inr pings" and p: "lastReq (ping s') = lastReq p \<and> minReqIntv (ping s') = minReqIntv p"
    by (auto simp: startUDPServer_turn_def True s1 call returns_iff dest: receive_keeps split: if_splits)
  have "pings = (case pl of None \<Rightarrow> [] | Some j \<Rightarrow> [j])"
    using sent by (cases pl) (auto simp: send_ping_def returns_iff)
  with onePing_call_45 [OF call _ assms(3,4)] same p assms(2) show ?thesis by (cases pl) auto
qed

lemma udp_run_gaps:
  "udp_run loads disk vs s = Inr (ts, ms, s') \<Longrightarrow> minReqIntv (ping s) = 45 \<Longrightarrow> sint (lastReq (ping s)) = L \<Longrightarrow>
   sorted (map turn_time vs) \<Longrightarrow> \<forall>v \<in> set vs. 0 \<le> turn_time v \<and> L \<le> turn_time v \<and> turn_time v < 2 ^ 31 \<Longrightarrow>
   successively (\<lambda>a b. a + 45 \<le> b) (L # ts) \<and>
   (\<forall>v \<in> set vs. remoteAccessIsEnabled (dev_file v) = Inr True \<longrightarrow> (\<exists>t \<in> set (L # ts). turn_time v - 45 < t \<and> t \<le> turn_time v))"
proof (induction vs arbitrary: s ts ms L)
  case Nil
  then show ?case by simp
next
  case (Cons v vs)
  then obtain pings m1 s1 ts1 m2 where
    turn: "startUDPServer_turn loads disk v s = Inr (pings, m1, s1)" and run: "udp_run loads disk vs s1 = Inr (ts1, m2, s')"
    and ts: "ts = map (\<lambda>_. turn_time v) pings @ ts1"
    by (auto simp: returns_iff)
  have v: "0 \<le> turn_time v" "turn_time v < 2 ^ 31" "L \<le> turn_time v" using Cons.prems(5) by auto
  note e = turn_effect [OF turn Cons.prems(2) v(1,2)]
  show ?case
  proof (cases "pings = []")
    case True
    with e have "sint (lastReq (ping s1)) = L" "minReqIntv (ping s1) = 45" using Cons.prems(3) by auto
    from Cons.IH [OF run this(2,1)] Cons.prems(4,5)
    have ih: "successively (\<lambda>a b. a + 45 \<le> b) (L # ts1) \<and>
      (\<forall>v \<in> set vs. remoteAccessIsEnabled (dev_file v) = Inr True \<longrightarrow> (\<exists>t \<in> set (L # ts1). turn_time v - 45 < t \<and> t \<le> turn_time v))"
      by simp
    moreover have "turn_time v - 45 < L" if "remoteAccessIsEnabled (dev_file v) = Inr True"
      using e True that Cons.prems(3) by auto
    ultimately show ?thesis using True ts v(3) by auto
  next
    case False
    with e Cons.prems(3) have p: "length pings = 1" "sint (lastReq (ping s1)) = turn_time v" "L + 45 \<le> turn_time v" "minReqIntv (ping s1) = 45"
      by auto
    from Cons.IH [OF run p(4,2)] Cons.prems(4,5)
    have ih: "successively (\<lambda>a b. a + 45 \<le> b) (turn_time v # ts1) \<and>
      (\<forall>u \<in> set vs. remoteAccessIsEnabled (dev_file u) = Inr True \<longrightarrow> (\<exists>t \<in> set (turn_time v # ts1). turn_time u - 45 < t \<and> t \<le> turn_time u))"
      by simp
    from p(1) ts have "ts = turn_time v # ts1" by (cases pings) auto
    with ih p(3) show ?thesis by auto
  qed
qed

text \<open>
  What the system may give: an attempt to open the socket succeeds in the end, with a descriptor that fits a set;
  \<^verbatim>\<open>select\<close> returns; the file's flag can be read; and a datagram leaves a 0 in the buffer.
\<close>

definition attempts_ok :: "tcp_env list \<Rightarrow> bool" where
  "attempts_ok vs \<longleftrightarrow> (\<exists>v \<in> set vs. opens v) \<and> (\<forall>v \<in> set vs. socket v \<noteq> 0 \<and> socket v < 1024)"

definition turn_ok :: "udp_turn \<Rightarrow> bool" where
  "turn_ok v \<longleftrightarrow> attempts_ok (udp_tries v) \<and> sel_turns v \<noteq> [] \<and> (\<forall>r \<in> set (sel_turns v). 0 \<le> fst r) \<and>
     \<not> (remoteAccessIsEnabled (dev_file v) \<in> range Inl) \<and>
     (case arrival v of None \<Rightarrow> True | Some (tm, b, junk) \<Rightarrow> 0 \<in> set (b @ junk))"

lemma attempts_open:
  assumes "attempts_ok vs" and "udp_wf n False c"
  shows "\<exists>d m. acqrResrc 10 vs c = Inr d \<and> udp_wf m True d \<and> 0 < ufd d \<and> ufd d < 1024"
proof -
  from assms acqrResrc_opens [of 10 n c vs] obtain d where d: "acqrResrc 10 vs c = Inr d" "udp_wf (n + leaks vs) True d"
    by (auto simp: attempts_ok_def)
  then have "0 < ufd d" by (simp add: udp_wf_def)
  with acqrResrc_fd [OF d(1)] d assms(1) show ?thesis by (fastforce simp: attempts_ok_def)
qed

lemma reconnects:
  assumes "attempts_ok vs" and "udp_wf n True (udp_server s)"
  shows "\<exists>s' m. reconnect vs s = Inr s' \<and> udp_wf m True (udp_server s')"
proof -
  obtain c where c: "freeResrc (udp_server s) = Inr c" "udp_wf n False c" using freeResrc_open [OF assms(2)] by blast
  with attempts_open [OF assms(1) c(2)] show ?thesis
    by (auto simp: reconnect_def UDPConn_reset_def rFD_SET_def)
qed

lemma ping_sent: "udp_wf n True c \<Longrightarrow> \<exists>ps. send_ping pl c = Inr ps"
  by (cases pl) (auto simp: send_ping_def UDPConn_sendto_def udp_wf_def)

lemma receive_returns:
  "(case a of None \<Rightarrow> True | Some (tm, b, junk) \<Rightarrow> 0 \<in> set (b @ junk)) \<Longrightarrow> \<exists>r. receive loads disk a p = Inr r"
  by (auto simp: receive_def datagram_text_def split: option.splits)

lemma turn_runs:
  assumes "turn_ok v" and "udp_wf n True (udp_server s)"
  shows "\<exists>ps ms s' m. startUDPServer_turn loads disk v s = Inr (ps, ms, s') \<and> udp_wf m True (udp_server s')"
proof -
  obtain en where en: "remoteAccessIsEnabled (dev_file v) = Inr en"
    using assms(1) by (cases "remoteAccessIsEnabled (dev_file v)") (auto simp: turn_ok_def)
  obtain s1 m where s1: "(if brokenLink (turn_time v) (ping s) then reconnect (udp_tries v) s else Inr s) = Inr s1" "udp_wf m True (udp_server s1)"
    using reconnects [OF _ assms(2), of "udp_tries v"] assms by (cases "brokenLink (turn_time v) (ping s)") (auto simp: turn_ok_def)
  obtain pl p where call: "onePing_call (dev_file v) (turn_time v) (ping s1) = (pl, p)" by fastforce
  obtain ps where ps: "send_ping pl (udp_server s1) = Inr ps" using ping_sent [OF s1(2)] by blast
  obtain cbs where cbs: "listenOnce (sel_turns v) (waiting s1) = Inr cbs"
    using assms(1) by (cases "sel_turns v") (auto simp: turn_ok_def listenOnce_def)
  obtain ms q where r: "receive loads disk (arrival v) p = Inr (ms, q)"
    using receive_returns [of "arrival v" loads disk p] assms(1) by (auto simp: turn_ok_def)
  show ?thesis
    using assms(2) s1(2) by (cases en; cases "cbs = []") (auto simp: startUDPServer_turn_def en s1(1) call ps cbs r)
qed

lemma udp_runs:
  "\<forall>v \<in> set vs. turn_ok v \<Longrightarrow> udp_wf n True (udp_server s) \<Longrightarrow>
   \<exists>ts ms s' m. udp_run loads disk vs s = Inr (ts, ms, s') \<and> udp_wf m True (udp_server s')"
proof (induction vs arbitrary: s n)
  case (Cons v vs)
  then obtain ps ms s1 m where t: "startUDPServer_turn loads disk v s = Inr (ps, ms, s1)" "udp_wf m True (udp_server s1)"
    using turn_runs [of v n s loads disk] by auto
  with Cons.IH [OF _ t(2)] Cons.prems(1) show ?case by auto
qed auto

lemma app_registry:
  "fst (trigger Application (str ''widget_registry'') ctx_type (app_init id (app_handlers loads dumps disk wdisk hw t reply) R)) =
     [on_registry (widgetRegistry loads dumps wdisk)]"
  by (simp add: app_init_def app_handlers_def trigger_handler str_def)

section \<open>Properties\<close>

text \<open>
  With a trust store the server's answer arrives however many attempts fail before, and none within two seconds is none.
  Without one the interface starts all the same, and the first connection uses the freed context.
\<close>

theorem server_asked:
  assumes "\<forall>v \<in> set vs. 0 \<le> getaddrinfo v \<and> 0 \<le> socket v \<and>
      (\<exists>ret. select_loop (select_turns v) = Inr ret \<and> (ret \<le> 0 \<or> so_error v \<noteq> 0))"
    and "0 \<le> getaddrinfo v" and "0 \<le> socket v" and "socket v < 1024" and "so_error v = 0"
    and "select_loop (select_turns v) = Inr r" and "0 < r" and "length mac = 6"
  shows "openSSLConn ValidCtx v = Inr (Some (socket v), Some (socket v)) \<and> length b < 16384 \<and> 0 \<notin> set b \<longrightarrow>
      remoteIntfInit True True True mac junk R = Inr (ValidCtx, hexs mac @ [0], remote_init R) \<and>
      ask_server ValidCtx (vs @ v # ws) [(n, False)] [(1, False, s, u)] (Block b # bs) = Inr (Some b) \<and>
      ask_server ValidCtx (vs @ v # ws) [(n, False)] [(0, False, 0, 0)] bs = Inr None"
    and "remoteIntfInit True False True mac junk R = Inr (FreedCtx, hexs mac @ [0], remote_init R) \<and>
      ask_server FreedCtx (v # ws) writes turns bs = Inl (Ub Dangling)"
proof -
  have t: "openTCP (tcp_env.truncate v) = Inr (socket v, Some (socket v))"
    using assms(2-7) by (simp add: openTCP_def open_sock_def tcp_env.truncate_def)
  have hw: "memcpy_to (replicate 13 0) 0 (hexs (take 6 mac) @ [0]) = Inr (hexs mac @ [0])"
    using assms(8) by (simp add: memcpy_to_def blit_def)
  show "remoteIntfInit True False True mac junk R = Inr (FreedCtx, hexs mac @ [0], remote_init R) \<and>
      ask_server FreedCtx (v # ws) writes turns bs = Inl (Ub Dangling)"
    using assms(3) hw by (simp add: remoteIntfInit_def CTXInit_def getMACAddr_def ask_server_def openSSLConn_def t SSL_new_def)
  show "openSSLConn ValidCtx v = Inr (Some (socket v), Some (socket v)) \<and> length b < 16384 \<and> 0 \<notin> set b \<longrightarrow>
      remoteIntfInit True True True mac junk R = Inr (ValidCtx, hexs mac @ [0], remote_init R) \<and>
      ask_server ValidCtx (vs @ v # ws) [(n, False)] [(1, False, s, u)] (Block b # bs) = Inr (Some b) \<and>
      ask_server ValidCtx (vs @ v # ws) [(n, False)] [(0, False, 0, 0)] bs = Inr None"
  proof (intro impI)
    assume c: "openSSLConn ValidCtx v = Inr (Some (socket v), Some (socket v)) \<and> length b < 16384 \<and> 0 \<notin> set b"
    then have "c_str (b @ [0]) = b" unfolding c_str_def by (subst takeWhile_append2) auto
    with connection_leaks [OF assms(1), of ValidCtx v "socket v" 5 ws] c assms(3,4) hw
    show "remoteIntfInit True True True mac junk R = Inr (ValidCtx, hexs mac @ [0], remote_init R) \<and>
      ask_server ValidCtx (vs @ v # ws) [(n, False)] [(1, False, s, u)] (Block b # bs) = Inr (Some b) \<and>
      ask_server ValidCtx (vs @ v # ws) [(n, False)] [(0, False, 0, 0)] bs = Inr None"
      by (simp add: remoteIntfInit_def CTXInit_def getMACAddr_def ask_server_def rFD_SET_def new_selects_def listenOnce_def maxLen_def)
  qed
qed

text \<open>
  What reaches what.  A datagram can only record an answer to a ping or make the thread fetch a message; no
  datagram runs a request.  A message fetched over TLS can only be a request to the application
  interface or for a widget; with any other URI it changes nothing and is not answered.
\<close>

theorem remote_routing:
  "datagram loads disk t src p =
     (let x = JSON_source loads disk src; uri = json_toString (member ''uri'' x) in
      if uri = str ''ping/rsp'' then ([], p\<lparr>lastRsp := of_int t\<rparr>)
      else if uri = str ''msg/ind'' then ([json_toString (member ''arg'' x)], p) else ([], p)) \<and>
   (json_toString (member ''uri'' (JSON_source loads (disks (world i)) msg)) \<notin> {str ''restful/req'', str ''widget/req''} \<longrightarrow>
      getMsg loads dumps disks encode t (Some msg) args (i, es) = Inr ([req_struct_arg t (str ''msg/req'') args], i, es)) \<and>
   (json_toString (member ''uri'' (JSON_source loads (disks (world i)) msg)) = str ''restful/req'' \<and>
      handleRESTful loads dumps disks (json_toString (member ''arg'' (JSON_source loads (disks (world i)) msg))) i = Inr (rsp, i') \<longrightarrow>
      getMsg loads dumps disks encode t (Some msg) args (i, es) =
        Inr ([req_struct_arg t (str ''msg/req'') args, req_struct_arg t (str ''msg/rsp'') rsp], i', es))"
  by (auto simp: datagram_def getMsg_def remote_handlers_cbCtx remote_handlers_cbContext Let_def str_def)


text \<open>
  Signing in succeeds when the server's answer holds no readable result: the credentials are replaced by
  ones without a token, remote access is enabled and success is reported.  Only an answer with a
  status that is read as a number other than 0, or no answer at all, leaves the credentials as they were.
\<close>

theorem sign_in_unchecked:
  fixes w :: net_world and t :: int and hw a :: "byte list" and dumps :: "json \<Rightarrow> byte list" and C :: Context
  assumes "method_is ''POST'' (JSON_source loads (disk w) (request C))"
    and "\<forall>pl. JSON_source loads (disk w) (parameter C) = Some pl \<longrightarrow> op_safe (Assign ''mac'' (SetText hw)) pl"
  defines "w1 \<equiv> w\<lparr>sent_to_server := sent_to_server w @ [req_struct_arg t (str ''sign_in/req'') (stringify dumps
      (case JSON_source loads (disk w) (parameter C) of None \<Rightarrow> JNull | Some j \<Rightarrow> json_set [Key ''mac''] (JStr hw) j))]\<rparr>"
  defines "rsp \<equiv> JSON_source loads (disk w1) (json_toString (member ''arg'' (JSON_source loads (disk w1) a)))"
  shows "(rsp = None \<longrightarrow>
      (\<exists>C' w' task. sign_in_handle loads dumps disk hw t (Some a) C w = Inr (C', w') \<and>
         response C' = stringify dumps (JObj [(''status'', JInt 0), (''authorized'', task)]) \<and>
         remoteAccessIsEnabled (device_data w') = Inr True \<and> deviceToken (device_data w') = [])) \<and>
    (toInteger (member ''status'' rsp) = Inr st \<and> st \<noteq> 0 \<longrightarrow>
      sign_in_handle loads dumps disk hw t (Some a) C w = Inr (C\<lparr>response := stringify dumps (JObj [(''status'', JInt (- 1))])\<rparr>, w1)) \<and>
    sign_in_handle loads dumps disk hw t None C w = Inr (C\<lparr>response := stringify dumps (JObj [(''status'', JInt (- 1))])\<rparr>, w1)"
proof -
  let ?pl = "JSON_source loads (disk w) (parameter C)" and ?ans = "\<lambda>r. C\<lparr>response := stringify dumps (JObj r)\<rparr>"
  let ?task = "JObj [(''email'', member ''email'' ?pl), (''authkey'', member ''authKey'' rsp)]"
  let ?data = "JObj [(''deviceToken'', member ''deviceToken'' rsp), (''authorizedUser'', ?task), (''connect'', JInt 1)]"
  have safe: "\<not> (?pl \<noteq> None \<and> \<not> op_safe (Assign ''mac'' (SetText hw)) (the ?pl))"
    using assms(2) by (cases ?pl) auto
  have some: "sign_in_handle loads dumps disk hw t (Some a) C w = bindE (toInteger (member ''status'' rsp)) (\<lambda>st.
      if st \<noteq> 0 then Inr (?ans [(''status'', JInt (- 1))], w1)
      else Inr (?ans [(''status'', JInt 0), (''authorized'', ?task)], w1\<lparr>device_data := Some ?data\<rparr>))"
    unfolding w1_def rsp_def using safe by (simp only: sign_in_handle_def Let_def assms(1) if_True if_False option.case)
  have none: "sign_in_handle loads dumps disk hw t None C w = Inr (?ans [(''status'', JInt (- 1))], w1)"
    unfolding w1_def using assms(1) safe by (simp only: sign_in_handle_def Let_def if_True if_False option.case)
  have zero: "toInteger JNull = Inr 0" "toInteger (JInt 1) = Inr 1" by (simp_all add: toInteger_def)
  have "\<exists>C' w' task. sign_in_handle loads dumps disk hw t (Some a) C w = Inr (C', w') \<and>
         response C' = stringify dumps (JObj [(''status'', JInt 0), (''authorized'', task)]) \<and>
         remoteAccessIsEnabled (device_data w') = Inr True \<and> deviceToken (device_data w') = []" if "rsp = None"
    unfolding some
    by (intro exI [of _ "?ans [(''status'', JInt 0), (''authorized'', ?task)]"] exI [of _ "w1\<lparr>device_data := Some ?data\<rparr>"] exI [of _ ?task])
      (simp add: that member_def zero remoteAccessIsEnabled_def deviceToken_def json_toString_def)
  then show ?thesis
    using some none by simp
qed

text \<open>
  A local client whose request has arrived, in however many blocks, is answered by the widget registry with
  the list in the registry file, which is kept, as are the credentials.  A text that is not JSON, or
  without version 0001, is not answered.
\<close>

theorem local_request_widgets:
  assumes "loads txt1 = Some (JObj [(''ver'', JStr (str ''0001'')), (''request'', JStr req)])" and "loads req = Some (JObj rs)"
    and "path_uri (member ''path'' (Some (JObj rs))) = str ''widget_registry'' @ [0x2f]" and "method_is ''GET'' (Some (JObj rs))"
    and "repo s = app_init id (app_handlers loads dumps disk wdisk hw t reply) R"
    and "widget_registry (world s) = Some (JObj gs)" and "map_of gs ''list'' = Some (JArr xs)"
  shows "\<exists>s'. local_server loads dumps disk (arrived txt1) s =
      Inr (Some (stringify dumps (JObj [(''result'', JArr xs), (''status'', JInt 0)])), s') \<and>
    registry_list (the (widget_registry (world s'))) = xs \<and> device_data (world s') = device_data (world s)"
proof -
  obtain k cs where k: "getContext (str ''widget_registry'') (Contexts s) = (k, cs)" by fastforce
  have src: "JSON_source loads f req = Some (JObj rs)" "JSON_source loads f txt1 = Some (JObj [(''ver'', JStr (str ''0001'')), (''request'', JStr req)])" for f
    by (simp_all add: JSON_source_def assms(1,2))
  have "fst (trigger Application (str ''widget_registry'') ctx_type (repo s)) = [on_registry (widgetRegistry loads dumps wdisk)]"
    unfolding assms(5) by (rule app_registry)
  note h = handled [where loads = loads and disk = disk and dumps = dumps, OF src(1) assms(3) k this]
  have l: "registry_list (JObj gs) = xs" using assms(7) by (simp add: registry_list_def member_def)
  have m: "\<not> method_is ''DELETE'' (Some (JObj rs))" "\<not> method_is ''POST'' (Some (JObj rs))"
    using assms(4) by (auto simp: method_is_def)
  let ?C = "(cs ! k)\<lparr>parameter := stringify dumps (member ''parameter'' (Some (JObj rs))), request := req\<rparr>"
  have "widgetRegistry loads dumps wdisk ?C (Some (JObj gs)) =
      Inr (?C\<lparr>response := stringify dumps (JObj [(''result'', JArr xs), (''status'', JInt 0)])\<rparr>, Some (registry_with (JObj gs) xs))"
    using assms(7) by (simp add: widgetRegistry_def widget_result_def registry_frees_def member_def src(1) l m assms(4) Let_def)
  then have "\<exists>s'. handleRESTful loads dumps disk req s = Inr (stringify dumps (JObj [(''result'', JArr xs), (''status'', JInt 0)]), s') \<and>
      world s' = (world s)\<lparr>widget_registry := Some (registry_with (JObj gs) xs)\<rparr>"
    unfolding h by (simp add: on_registry_def assms(6))
  then show ?thesis
    using recvStr_arrived [of txt1 "[]"]
    by (auto simp: local_server_def src(2) exist_key_def member_def json_toString_def registry_list_with)
qed

section \<open>Witnesses\<close>

definition udp_loads :: "byte list \<Rightarrow> json option" where
  "udp_loads b = (if b = [1] then Some (JObj [(''uri'', JStr (str ''other''))]) else None)"

theorem remote_routing_witness:
  "getMsg udp_loads (\<lambda>_. [2]) (\<lambda>_ _. None) (\<lambda>_. []) 100 (Some [1]) [3] (\<lparr>Contexts = [], repo = [], world = ()\<rparr>, []) =
     Inr ([req_struct_arg 100 (str ''msg/req'') [3]], \<lparr>Contexts = [], repo = [], world = ()\<rparr>, [])"
  by (rule remote_routing [THEN conjunct2, THEN conjunct1, rule_format])
    (simp add: udp_loads_def JSON_source_def member_def json_toString_def str_def)

definition enabled_dev :: json where
  "enabled_dev = JObj [(''deviceToken'', JStr [0x61]), (''connect'', JInt 1)]"

definition udp_socket :: "int \<Rightarrow> tcp_env" where
  "udp_socket fd = \<lparr>getaddrinfo = 0, socket = fd, select_turns = [], so_error = 0\<rparr>"

definition turn_at :: "int \<Rightarrow> udp_turn" where
  "turn_at t = \<lparr>dev_file = Some enabled_dev, turn_time = t, udp_tries = [udp_socket (- 1), udp_socket 6],
     sel_turns = [(1, False, 4, 0)], arrival = Some (t, [1, 0], [])\<rparr>"


definition local_loads :: "byte list \<Rightarrow> json option" where
  "local_loads b =
     (if b = [1] then Some (JObj [(''ver'', JStr (str ''0001'')), (''request'', JStr [2])])
      else if b = [2] then Some (JObj [(''path'', JArr [JStr (str ''widget_registry'')]), (''method'', JStr (str ''GET''))])
      else if b = [3] then Some (JObj [(''method'', JStr (str ''POST''))]) else None)"

definition net_0 :: net_world where
  "net_0 = \<lparr>device_data = None, widget_registry = Some (JObj [(''list'', JArr [JInt 7])]), sent_to_server = []\<rparr>"

theorem sign_in_unchecked_witness:
  "\<exists>C' w'. sign_in_handle local_loads (\<lambda>_. [9]) (\<lambda>_ _. None) [] 100 (Some []) \<lparr>URI = [], parameter = [], response = [], request = [3]\<rparr> net_0 =
      Inr (C', w') \<and> remoteAccessIsEnabled (device_data w') = Inr True"
proof -
  have "method_is ''POST'' (JSON_source local_loads None2 (request \<lparr>URI = [], parameter = [], response = [], request = [3]\<rparr>))" for None2
    by (simp add: method_is_def JSON_source_def local_loads_def member_def json_toString_def str_def)
  from sign_in_unchecked [where loads = local_loads and disk = "\<lambda>_ _. None" and dumps = "\<lambda>_. [9]" and a = "[]" and hw = "[]" and t = 100 and w = net_0 and st = 1, OF this]
  show ?thesis
    by (auto simp: JSON_source_def local_loads_def member_def json_toString_def)
qed

theorem local_request_widgets_witness:
  "\<exists>s'. local_server local_loads (\<lambda>_. [9]) (\<lambda>_ _. None) (arrived [1])
      \<lparr>Contexts = [], repo = app_init id (app_handlers local_loads (\<lambda>_. [9]) (\<lambda>_ _. None) (\<lambda>_ _. None) [] 0 None) [], world = net_0\<rparr> = Inr (Some [9], s') \<and>
     registry_list (the (widget_registry (world s'))) = [JInt 7]"
  using local_request_widgets [of local_loads "[1]" "[2]"
      "[(''path'', JArr [JStr (str ''widget_registry'')]), (''method'', JStr (str ''GET''))]"
      "\<lparr>Contexts = [], repo = app_init id (app_handlers local_loads (\<lambda>_. [9]) (\<lambda>_ _. None) (\<lambda>_ _. None) [] 0 None) [], world = net_0\<rparr>"
      "\<lambda>_. [9]" "\<lambda>_ _. None" "\<lambda>_ _. None" "[]" 0 None "[]" "[(''list'', JArr [JInt 7])]" "[JInt 7]"]
  by (auto simp: local_loads_def path_uri_def member_def json_toString_def method_is_def str_def net_0_def stringify_def)

end
