(* ===== verification/Program.thy ===== *)
theory Program
  imports Network Remote
begin

text \<open>
  The program put together: the handlers that aps/source/apsdb.cpp, zdo/source/zdo.cpp and
  kintf/source/remoteif.cpp register for requests, over one world that holds the network, the archive and
  the files of the remote interface.  A handler of a joined device keeps a pointer to it: the nodes
  of the list of devices have addresses, and a pointer is good as long as its node is in the list.
\<close>

section \<open>The world of the handlers\<close>

text \<open>
  \<open>nodes\<close> are the addresses of the devices, in the order of the list; \<open>replies\<close> what the network answers at
  the moment.
\<close>

record app_world =
  zdo :: zdo_state
  nodes :: "nat list"
  net :: net_world
  replies :: zdp_reply

abbreviation devices :: "app_world \<Rightarrow> Device list" where
  "devices w \<equiv> dev_assocs (gateway (zdo w))"

definition set_gateway :: "Gateway \<Rightarrow> app_world \<Rightarrow> app_world" where
  "set_gateway g w = w\<lparr>zdo := (zdo w)\<lparr>gateway := g\<rparr>\<rparr>"

definition set_endpoints :: "Endpoint list \<Rightarrow> app_world interface \<Rightarrow> app_world interface" where
  "set_endpoints es i = i\<lparr>world := set_gateway ((gateway (zdo (world i)))\<lparr>dev_endpoints := es\<rparr>) (world i)\<rparr>"

definition on_net :: "net_world app_handler \<Rightarrow> app_world app_handler" where
  "on_net h C w = bindE (h C (net w)) (\<lambda>(C, n). Inr (C, w\<lparr>net := n\<rparr>))"

section \<open>URIs\<close>

definition Device_uri :: "'a Device_scheme \<Rightarrow> byte list" where
  "Device_uri d = str ''devices/'' @ IntToHexStr (dev_id d)"

definition Endpoint_uri :: "'a Device_scheme option \<Rightarrow> Endpoint \<Rightarrow> byte list" where
  "Endpoint_uri parent e =
     (case parent of None \<Rightarrow> [] | Some d \<Rightarrow> Device_uri d) @ str ''/endpoints/'' @ IntToHexStr (ep_id e)"

section \<open>Handlers of the gateway\<close>

definition endpoint_ids :: "Endpoint list \<Rightarrow> json" where
  "endpoint_ids es = JArr (map (\<lambda>e. JStr (IntToHexStr (ep_id e))) es)"

definition device_ids :: "Gateway \<Rightarrow> json" where
  "device_ids g = JArr (JStr (IntToHexStr (dev_id g)) # map (\<lambda>d. JStr (IntToHexStr (dev_id d))) (dev_assocs g))"

text \<open>\<open>junk\<close> is the memory of the text buffers of \<^verbatim>\<open>toString\<close>.\<close>

definition this_device_handler :: "(json \<Rightarrow> byte list) \<Rightarrow> byte list \<Rightarrow> app_world app_handler" where
  "this_device_handler dumps junk C w =
     bindE (nodeSnapshot_Gateway junk (gateway (zdo w))) (\<lambda>(j, g). Inr (C\<lparr>response := stringify dumps j\<rparr>, set_gateway g w))"

definition endpoints_handler :: "(json \<Rightarrow> byte list) \<Rightarrow> app_world app_handler" where
  "endpoints_handler dumps C w = Inr (C\<lparr>response := stringify dumps (endpoint_ids (dev_endpoints (gateway (zdo w))))\<rparr>, w)"

definition devices_handler :: "(json \<Rightarrow> byte list) \<Rightarrow> app_world app_handler" where
  "devices_handler dumps C w = Inr (C\<lparr>response := stringify dumps (device_ids (gateway (zdo w)))\<rparr>, w)"

definition SelfInit ::
    "(json \<Rightarrow> byte list) \<Rightarrow> byte list \<Rightarrow> Gateway \<Rightarrow> app_world app_handler repository \<Rightarrow> app_world app_handler repository" where
  "SelfInit dumps junk self R =
     handler Application (str ''thisdevice'') ctx_type (this_device_handler dumps junk)
       (handler Application (str ''devices'') ctx_type (devices_handler dumps)
         (handler Application (Device_uri self @ str ''/endpoints'') ctx_type (endpoints_handler dumps)
           (handler Application (Device_uri self) ctx_type (this_device_handler dumps junk) R)))"

section \<open>Handlers of joined devices\<close>

text \<open>The pointer \<open>a\<close> is dereferenced when a request comes.\<close>

definition peer_handler :: "(json \<Rightarrow> byte list) \<Rightarrow> byte list \<Rightarrow> nat \<Rightarrow> app_world app_handler" where
  "peer_handler dumps junk a C w =
     (case find_if_loop (nodes w) (\<lambda>x. x = a) of
        None \<Rightarrow> Inl Dangling
      | Some k \<Rightarrow> bindE (nodeSnapshot_Device junk (devices w ! k)) (\<lambda>(j, d).
          Inr (C\<lparr>response := stringify dumps j\<rparr>, set_gateway (set_assoc k d (gateway (zdo w))) w)))"

definition peer_endpoints_handler :: "(json \<Rightarrow> byte list) \<Rightarrow> nat \<Rightarrow> app_world app_handler" where
  "peer_endpoints_handler dumps a C w =
     (case find_if_loop (nodes w) (\<lambda>x. x = a) of
        None \<Rightarrow> Inl Dangling
      | Some k \<Rightarrow> Inr (C\<lparr>response := stringify dumps (endpoint_ids (dev_endpoints (devices w ! k)))\<rparr>, w))"

definition register_peer ::
    "(json \<Rightarrow> byte list) \<Rightarrow> byte list \<Rightarrow> byte list \<Rightarrow> nat \<Rightarrow> app_world app_handler repository \<Rightarrow> app_world app_handler repository" where
  "register_peer dumps junk uri a R =
     handler Application (uri @ str ''/endpoints'') ctx_type (peer_endpoints_handler dumps a)
       (handler Application uri ctx_type (peer_handler dumps junk a) R)"

text \<open>
  Whether \<^verbatim>\<open>simple_desc_req\<close> for an endpoint ends with \<^verbatim>\<open>aps_newpeer_handle\<close> returning 0.
\<close>

definition newpeer_paired :: "(byte \<Rightarrow> profile_lib) \<Rightarrow> Endpoint list \<Rightarrow> zdp_reply \<Rightarrow> Device \<Rightarrow> Endpoint \<Rightarrow> bool" where
  "newpeer_paired libs lcls reply d e \<longleftrightarrow>
     ep_id e \<noteq> 0 \<and>
     (case reply 0x0004 (dev_id d) (ep_id e) of
        None \<Rightarrow> False
      | Some x \<Rightarrow>
          (case simple_desc_req_apdu_process (drop (MSGBODY + 1) x) of
             Inl _ \<Rightarrow> False
           | Inr sd \<Rightarrow> fst (aps_newpeer_handle libs lcls (e\<lparr>simpleDescriptor := sd\<rparr>)) = 0))"

definition register_peers ::
    "(json \<Rightarrow> byte list) \<Rightarrow> byte list \<Rightarrow> (Endpoint \<Rightarrow> bool) \<Rightarrow> Device \<Rightarrow> nat \<Rightarrow> app_world app_handler repository \<Rightarrow>
     app_world app_handler repository" where
  "register_peers dumps junk paired d a R =
     fold (\<lambda>e. if paired e then register_peer dumps junk (Device_uri d) a else id) (dev_endpoints d) R"

section \<open>Handlers of the ZigBee device objects\<close>

text \<open>What a leave request does to the nodes; a device it creates is gone again at the end.\<close>

definition leave_nodes :: "u64 \<Rightarrow> app_world \<Rightarrow> nat list" where
  "leave_nodes ieee w =
     (case assocs64 ieee (gateway (zdo w)) of (k, g) \<Rightarrow>
        (let ns = (if length (devices w) < length (dev_assocs g) then 0 # nodes w else nodes w)
         in map fst (filter (\<lambda>(n, d). dev_id d \<noteq> dev_id (dev_assocs g ! k)) (zip ns (dev_assocs g)))))"

definition Mgmt_Leave_handler ::
    "(byte list \<Rightarrow> json option) \<Rightarrow> (json \<Rightarrow> byte list) \<Rightarrow> (app_world \<Rightarrow> byte list \<Rightarrow> json option) \<Rightarrow> app_world app_handler" where
  "Mgmt_Leave_handler loads dumps disk C w =
     bindE (toInteger (member ''ieeeAddr'' (JSON_source loads (disk w) (parameter C)))) (\<lambda>ieeeAddr.
     bindE (Mgmt_Leave_req (replies w) ieeeAddr (zdo w)) (\<lambda>(status, z).
       Inr (C\<lparr>response := stringify dumps (JObj [(''status'', JInt (of_int status)), (''ieeeAddr'', JStr (IntToHexStr ieeeAddr))])\<rparr>,
            w\<lparr>zdo := z, nodes := leave_nodes ieeeAddr w\<rparr>)))"

definition Mgmt_Permit_Joining_handler ::
    "(byte list \<Rightarrow> json option) \<Rightarrow> (json \<Rightarrow> byte list) \<Rightarrow> (app_world \<Rightarrow> byte list \<Rightarrow> json option) \<Rightarrow> app_world app_handler" where
  "Mgmt_Permit_Joining_handler loads dumps disk C w =
     (let arg = JSON_source loads (disk w) (c_str (parameter C))
      in bindE (toInteger (member ''PermitDuration'' arg)) (\<lambda>n.
         bindE (toInteger (member ''TC_Significance'' arg)) (\<lambda>m.
         bindE (Mgmt_Permit_Joining_req (replies w) 0xff) (\<lambda>status.
           Inr (C\<lparr>response := stringify dumps (JObj [(''status'', JInt (ucast status)), (''pd'', JInt (ucast (ucast n :: byte))),
                  (''tcs'', JInt (ucast (ucast m :: byte)))])\<rparr>, w)))))"

definition zdo_handlers ::
    "(byte list \<Rightarrow> json option) \<Rightarrow> (json \<Rightarrow> byte list) \<Rightarrow> (app_world \<Rightarrow> byte list \<Rightarrow> json option) \<Rightarrow> byte list \<Rightarrow>
     app_world app_handler repository \<Rightarrow> app_world app_handler repository" where
  "zdo_handlers loads dumps disk ep0 R =
     handler Application (ep0 @ str ''/Mgmt_Leave_req'') ctx_type (Mgmt_Leave_handler loads dumps disk)
       (handler Application (ep0 @ str ''/Mgmt_Permit_Joining_req'') ctx_type (Mgmt_Permit_Joining_handler loads dumps disk) R)"

text \<open>The gateway's endpoint 0, and its URI.\<close>

definition ep0_uri :: "Gateway \<Rightarrow> byte list" where
  "ep0_uri self = (case endpoints 0 (dev_endpoints self) of (k, es) \<Rightarrow> Endpoint_uri (Some self) (es ! k))"

section \<open>Messages of the network\<close>

text \<open>The IEEE address in an announcement that is taken.\<close>

definition annce_ieee :: "AFMessage \<Rightarrow> u64 option" where
  "annce_ieee msg =
     (if clusterId msg \<noteq> 0x0013 then None
      else (case message_preprocess msg 12 True of
              Inr (Some (p, nwk)) \<Rightarrow> (case ANSITohostInt (asdu msg) p of Inr (n, ieee) \<Rightarrow> Some ieee | Inl _ \<Rightarrow> None)
            | _ \<Rightarrow> None))"

text \<open>\<open>a\<close> is the address that a new device would get.\<close>

definition world_after :: "nat \<Rightarrow> zdo_state \<Rightarrow> app_world \<Rightarrow> app_world" where
  "world_after a z w =
     w\<lparr>zdo := z, nodes := (if length (devices w) < length (dev_assocs (gateway z)) then a # nodes w else nodes w)\<rparr>"

definition zdo_message ::
    "(json \<Rightarrow> byte list) \<Rightarrow> byte list \<Rightarrow> (byte \<Rightarrow> profile_lib) \<Rightarrow> byte list \<Rightarrow> nat \<Rightarrow> AFMessage \<Rightarrow> app_world interface \<Rightarrow>
     ub + app_world interface" where
  "zdo_message dumps junk libs apduStr a msg s =
     (let w = world s in
      bindE (zdo_callback libs junk apduStr (replies w) msg (zdo w)) (\<lambda>z.
        let w' = world_after a z w
        in Inr (case annce_ieee msg of
             None \<Rightarrow> s\<lparr>world := w'\<rparr>
           | Some ieee \<Rightarrow>
               (case find_if_loop (devices w') (\<lambda>d. ieee_id d = ieee) of
                  None \<Rightarrow> s\<lparr>world := w'\<rparr>
                | Some k \<Rightarrow>
                    s\<lparr>world := w',
                      repo := register_peers dumps junk
                        (newpeer_paired libs (dev_endpoints (gateway (zdo w))) (replies w) (devices w' ! k))
                        (devices w' ! k) (nodes w' ! k) (repo s)\<rparr>))))"

section \<open>The running program\<close>

text \<open>
  What does not change while the program runs; the time and the answer of the cloud server, which only
  the handler of \<^verbatim>\<open>sign_in\<close> uses, are fixed too.
\<close>

record app_env =
  en_loads :: "byte list \<Rightarrow> json option"
  en_dumps :: "json \<Rightarrow> byte list"
  en_disk :: "app_world \<Rightarrow> byte list \<Rightarrow> json option"
  en_junk :: "byte list"
  en_libs :: "byte \<Rightarrow> profile_lib"
  en_net_disk :: "net_world \<Rightarrow> byte list \<Rightarrow> json option"
  en_registry_disk :: "json option \<Rightarrow> byte list \<Rightarrow> json option"
  en_hwAddr :: "byte list"
  en_time :: int
  en_server :: "byte list option"

definition request_step :: "app_env \<Rightarrow> byte list \<Rightarrow> app_world interface \<Rightarrow> ub + (byte list \<times> app_world interface)" where
  "request_step v req s = handleRESTful (en_loads v) (en_dumps v) (en_disk v) req s"

definition message_step :: "app_env \<Rightarrow> byte list \<Rightarrow> nat \<Rightarrow> AFMessage \<Rightarrow> app_world interface \<Rightarrow> ub + app_world interface" where
  "message_step v apduStr a msg s = zdo_message (en_dumps v) (en_junk v) (en_libs v) apduStr a msg s"

text \<open>The order of \<^verbatim>\<open>main\<close> in kappaio.cpp; \<open>self\<close> is the gateway with the endpoints that plugins have made.\<close>

definition app_repository :: "app_env \<Rightarrow> Gateway \<Rightarrow> app_world app_handler repository" where
  "app_repository v self =
     app_init on_net (app_handlers (en_loads v) (en_dumps v) (en_net_disk v) (en_registry_disk v) (en_hwAddr v) (en_time v) (en_server v))
       (zdo_handlers (en_loads v) (en_dumps v) (en_disk v) (ep0_uri self) (SelfInit (en_dumps v) (en_junk v) self []))"

definition app_start :: "app_env \<Rightarrow> app_world interface \<Rightarrow> bool" where
  "app_start v s \<longleftrightarrow>
     devices (world s) = [] \<and> nodes (world s) = [] \<and> dev_id (gateway (zdo (world s))) = 0 \<and> Contexts s = [] \<and>
     distinct (map ep_id (dev_endpoints (gateway (zdo (world s))))) \<and>
     repo s = app_repository v (gateway (zdo (world s)))"

text \<open>
  Messages of the network, requests, and what the network is going to answer; a message for a local endpoint that does not
  exist creates it (\<^verbatim>\<open>endpointPtr\<close> in \<^verbatim>\<open>apsMessageIndicate\<close>).
\<close>

inductive app_step :: "app_env \<Rightarrow> app_world interface \<Rightarrow> app_world interface \<Rightarrow> bool" for v where
  app_message: "a \<notin> set (nodes (world s)) \<Longrightarrow> message_step v apduStr a msg s = Inr t \<Longrightarrow> app_step v s t"
| app_request: "request_step v req s = Inr (rsp, t) \<Longrightarrow> app_step v s t"
| app_replies: "app_step v s (s\<lparr>world := (world s)\<lparr>replies := r\<rparr>\<rparr>)"
| app_endpoint: "app_step v s (set_endpoints (snd (endpoints i (dev_endpoints (gateway (zdo (world s)))))) s)"

section \<open>Invariants\<close>

definition world_wf :: "app_world \<Rightarrow> bool" where
  "world_wf w \<longleftrightarrow> network_wf (zdo w) \<and> length (nodes w) = length (devices w) \<and> distinct (nodes w) \<and>
     distinct (map ep_id (dev_endpoints (gateway (zdo w))))"

definition local_ids :: "app_world \<Rightarrow> byte list" where
  "local_ids w = map ep_id (dev_endpoints (gateway (zdo w)))"

definition keeps_world :: "app_world app_handler \<Rightarrow> bool" where
  "keeps_world h \<longleftrightarrow> (\<forall>C w C' w'. world_wf w \<and> h C w = Inr (C', w') \<longrightarrow> world_wf w' \<and> local_ids w' = local_ids w)"

definition leave_uri :: "byte list" where
  "leave_uri = str ''devices/0000/endpoints/00/Mgmt_Leave_req''"

text \<open>The handlers that no device can replace.\<close>

definition core_handlers :: "app_env \<Rightarrow> app_world app_handler repository \<Rightarrow> bool" where
  "core_handlers v R \<longleftrightarrow>
     fst (trigger Application leave_uri ctx_type R) = [Mgmt_Leave_handler (en_loads v) (en_dumps v) (en_disk v)] \<and>
     fst (trigger Application (str ''devices'') ctx_type R) = [devices_handler (en_dumps v)]"

definition repo_wf :: "app_world app_handler repository \<Rightarrow> bool" where
  "repo_wf R \<longleftrightarrow> (\<forall>u. \<forall>h \<in> set (fst (trigger Application u ctx_type R)). keeps_world h)"

definition app_inv :: "app_env \<Rightarrow> app_world interface \<Rightarrow> bool" where
  "app_inv v s \<longleftrightarrow> world_wf (world s) \<and> repo_wf (repo s) \<and> core_handlers v (repo s)"

lemma find_if_loop_at:
  assumes "k < length xs" and "p (xs ! k)" and "\<And>i. i < length xs \<Longrightarrow> p (xs ! i) \<Longrightarrow> i = k"
  shows "find_if_loop xs p = Some k"
proof (cases "find_if_loop xs p")
  case None
  with assms(1,2) show ?thesis by (auto simp: find_if_loop_None)
next
  case (Some i)
  with find_if_loop_Some [OF Some] assms(3) show ?thesis by simp
qed

lemma find_if_loop_distinct: "distinct (map f xs) \<Longrightarrow> k < length xs \<Longrightarrow> find_if_loop xs (\<lambda>x. f x = f (xs ! k)) = Some k"
  by (rule find_if_loop_at) (auto simp: distinct_conv_nth)

section \<open>Snapshots keep the network\<close>

lemma mapE_all2: "mapE f xs = Inr ys \<Longrightarrow> list_all2 (\<lambda>x y. f x = Inr y) xs ys"
  by (induction xs arbitrary: ys) (auto simp: returns_iff)

lemma mapE_keeps:
  assumes "mapE f xs = Inr ys" and "\<And>x y. f x = Inr y \<Longrightarrow> g (snd y) = g x \<and> (P x \<longrightarrow> P (snd y))"
  shows "map g (map snd ys) = map g xs \<and> ((\<forall>x \<in> set xs. P x) \<longrightarrow> (\<forall>x \<in> set (map snd ys). P x))"
  using mapE_all2 [OF assms(1)] assms(2) by (induction rule: list_all2_induct) auto

lemma snapshot_endpoint_keeps:
  "nodeSnapshot_Endpoint junk e = Inr y \<Longrightarrow> ep_id (snd y) = ep_id e \<and> (endpoint_wf e \<longrightarrow> endpoint_wf (snd y))"
  by (auto simp: nodeSnapshot_Endpoint_def returns_iff endpoint_wf_def split: prod.splits)

lemma snapshot_endpoints_keep:
  assumes "mapE (nodeSnapshot_Endpoint junk) (dev_endpoints d) = Inr es"
  shows "device_wf d \<longrightarrow> device_wf (d\<lparr>dev_endpoints := map snd es\<rparr>)"
  using mapE_keeps [OF assms, of ep_id endpoint_wf] snapshot_endpoint_keeps by (simp add: device_wf_def)

lemma snapshot_device_keeps:
  "nodeSnapshot_Device junk d = Inr y \<Longrightarrow>
   dev_id (snd y) = dev_id d \<and> ieee_id (snd y) = ieee_id d \<and> (device_wf d \<longrightarrow> device_wf (snd y))"
  using snapshot_endpoints_keep [of junk d] by (auto simp: nodeSnapshot_Device_def returns_iff)

lemma snapshot_gateway_keeps:
  assumes "nodeSnapshot_Gateway junk g = Inr (j, g')" and "\<forall>d \<in> set (dev_assocs g). device_wf d"
  shows "map ieee_id (dev_assocs g') = map ieee_id (dev_assocs g) \<and> (\<forall>d \<in> set (dev_assocs g'). device_wf d) \<and>
    map ep_id (dev_endpoints g') = map ep_id (dev_endpoints g)"
proof -
  obtain as es where as: "mapE (nodeSnapshot_Device junk) (dev_assocs g) = Inr as" "dev_assocs g' = map snd as"
    and es: "mapE (nodeSnapshot_Endpoint junk) (dev_endpoints g) = Inr es" "dev_endpoints g' = map snd es"
    using assms(1) by (auto simp: nodeSnapshot_Gateway_def returns_iff)
  from mapE_keeps [OF as(1), of ieee_id device_wf] mapE_keeps [OF es(1), of ep_id endpoint_wf]
    snapshot_device_keeps snapshot_endpoint_keeps assms(2) as(2) es(2) show ?thesis by simp
qed

section \<open>Every handler keeps the world\<close>

lemma keeps_on_net: "keeps_world (on_net h)"
  by (auto simp: keeps_world_def on_net_def returns_iff world_wf_def local_ids_def)

lemma keeps_this_device: "keeps_world (this_device_handler dumps junk)"
proof -
  have "world_wf (set_gateway g' w) \<and> local_ids (set_gateway g' w) = local_ids w" if "world_wf w" "nodeSnapshot_Gateway junk (gateway (zdo w)) = Inr (j, g')" for w j g'
  proof -
    have "\<forall>d \<in> set (devices w). device_wf d" using that(1) by (simp add: world_wf_def network_wf_def)
    note k = snapshot_gateway_keeps [OF that(2) this]
    then have "length (dev_assocs g') = length (devices w)" by (metis length_map)
    with k that(1) show ?thesis by (simp add: world_wf_def network_wf_def set_gateway_def local_ids_def)
  qed
  then show ?thesis by (auto simp: keeps_world_def this_device_handler_def returns_iff)
qed

lemma keeps_unchanged:
  "keeps_world (endpoints_handler dumps)" "keeps_world (devices_handler dumps)" "keeps_world (peer_endpoints_handler dumps a)"
  "keeps_world (Mgmt_Permit_Joining_handler loads dumps disk)"
  by (auto simp: keeps_world_def endpoints_handler_def devices_handler_def peer_endpoints_handler_def
      Mgmt_Permit_Joining_handler_def Let_def returns_iff split: option.splits)

lemma world_wf_update:
  assumes "world_wf w" and "k < length (devices w)" and "ieee_id d = ieee_id (devices w ! k)" and "device_wf d"
  shows "world_wf (set_gateway (set_assoc k d (gateway (zdo w))) w) \<and> local_ids (set_gateway (set_assoc k d (gateway (zdo w))) w) = local_ids w"
  using assms distinct_map_update [of ieee_id "devices w" d k] set_update_subset_insert [of "devices w" k d]
  by (auto simp: world_wf_def network_wf_def set_gateway_def set_assoc_def local_ids_def)

lemma keeps_peer: "keeps_world (peer_handler dumps junk a)"
proof -
  have "world_wf (set_gateway (set_assoc k d (gateway (zdo w))) w) \<and> local_ids (set_gateway (set_assoc k d (gateway (zdo w))) w) = local_ids w"
    if "world_wf w" "find_if_loop (nodes w) (\<lambda>x. x = a) = Some k" "nodeSnapshot_Device junk (devices w ! k) = Inr (j, d)" for w k j d
  proof -
    have "k < length (devices w)" using find_if_loop_Some [OF that(2)] that(1) by (simp add: world_wf_def)
    then show ?thesis using snapshot_device_keeps [OF that(3)] that(1)
      by (intro world_wf_update) (simp_all add: world_wf_def network_wf_def)
  qed
  then show ?thesis by (auto simp: keeps_world_def peer_handler_def returns_iff split: option.splits)
qed

lemma filter_zip:
  "length xs = length ys \<Longrightarrow> length (map fst (filter (\<lambda>(x, y). P y) (zip xs ys))) = length (filter P ys) \<and>
     (distinct xs \<longrightarrow> distinct (map fst (filter (\<lambda>(x, y). P y) (zip xs ys)))) \<and>
     set (map fst (filter (\<lambda>(x, y). P y) (zip xs ys))) \<subseteq> set xs"
  by (induction xs ys rule: list_induct2) auto

lemma leave_nodes_wf:
  assumes "world_wf w" and "Mgmt_Leave_req r ieee (zdo w) = Inr (st, z)"
  shows "length (leave_nodes ieee w) = length (dev_assocs (gateway z)) \<and> distinct (leave_nodes ieee w)"
proof -
  obtain k g where g: "assocs64 ieee (gateway (zdo w)) = (k, g)" by fastforce
  have z: "dev_assocs (gateway z) = filter (\<lambda>x. dev_id x \<noteq> dev_id (dev_assocs g ! k)) (dev_assocs g)"
    using leave_effect [OF assms(2)] g by (simp add: removeAssoc_def)
  have w: "length (nodes w) = length (devices w)" "distinct (nodes w)" using assms(1) by (simp_all add: world_wf_def)
  from assocs64_cases [OF g] show ?thesis
  proof
    assume "g = gateway (zdo w) \<and> k < length (devices w) \<and> ieee_id (devices w ! k) = ieee"
    then show ?thesis using z w g filter_zip [OF w(1), of "\<lambda>d. dev_id d \<noteq> dev_id (devices w ! k)"]
      by (simp add: leave_nodes_def)
  next
    assume "ieee \<notin> ieee_id ` set (devices w) \<and> k = 0 \<and> g = gateway (zdo w)\<lparr>dev_assocs := new_Device (ucast ieee) # devices w\<rparr>"
    then show ?thesis using z w g filter_zip [OF w(1), of "\<lambda>d. dev_id d \<noteq> ucast ieee"]
      by (simp add: leave_nodes_def new_Device_def)
  qed
qed

lemma keeps_leave: "keeps_world (Mgmt_Leave_handler loads dumps disk)"
proof -
  have "world_wf (w\<lparr>zdo := z, nodes := leave_nodes ieee w\<rparr>) \<and> local_ids (w\<lparr>zdo := z, nodes := leave_nodes ieee w\<rparr>) = local_ids w" if "world_wf w" "Mgmt_Leave_req (replies w) ieee (zdo w) = Inr (st, z)" for w ieee st z
  proof -
    have "network_wf z"
      by (rule network_wf_step [OF _ step_leave [OF that(2)]]) (use that(1) in \<open>simp add: world_wf_def\<close>)
    with leave_nodes_wf [OF that] zdo_step_endpoints [OF step_leave [OF that(2)]] that(1) show ?thesis by (simp add: world_wf_def local_ids_def)
  qed
  then show ?thesis by (auto simp: keeps_world_def Mgmt_Leave_handler_def returns_iff)
qed

section \<open>Every step keeps the invariant\<close>

lemma zdo_callback_length:
  assumes "zdo_callback libs junk apduStr r msg z = Inr z'"
  shows "length (dev_assocs (gateway z')) = length (dev_assocs (gateway z)) \<or>
    length (dev_assocs (gateway z')) = Suc (length (dev_assocs (gateway z)))"
proof -
  have "z' = z \<or> device_annce_proc libs junk r msg z = Inr z'"
    using assms by (auto simp: zdo_callback_def returns_iff split: if_splits)
  then show ?thesis
  proof
    assume "device_annce_proc libs junk r msg z = Inr z'"
    from annce_effect [OF this] show ?thesis
    proof (elim disjE exE conjE)
      fix k g nwk ieee cap d y assume "assocs64 ieee (gateway z) = (k, g)" and "z' = \<lparr>gateway = set_assoc k d g, zar = y\<rparr>"
      then show ?thesis using assocs64_cases [of ieee "gateway z" k g] by (auto simp: set_assoc_def)
    qed simp
  qed simp
qed

lemma length_IntToHexStr_u16 [simp]: "length (IntToHexStr (i :: u16)) = 4"
  by (simp add: IntToHexStr_def sizeof_def)

lemma register_peers_trigger:
  "fst (trigger Application u ctx_type (register_peers dumps junk paired d a R)) =
     (if list_ex paired (dev_endpoints d) \<and> u = Device_uri d @ str ''/endpoints'' then [peer_endpoints_handler dumps a]
      else if list_ex paired (dev_endpoints d) \<and> u = Device_uri d then [peer_handler dumps junk a]
      else fst (trigger Application u ctx_type R))"
proof -
  have "fst (trigger Application u ctx_type (fold (\<lambda>e. if paired e then register_peer dumps junk (Device_uri d) a else id) es R)) =
     (if list_ex paired es \<and> u = Device_uri d @ str ''/endpoints'' then [peer_endpoints_handler dumps a]
      else if list_ex paired es \<and> u = Device_uri d then [peer_handler dumps junk a]
      else fst (trigger Application u ctx_type R))" for es
    by (induction es arbitrary: R) (simp_all add: register_peer_def trigger_handler)
  then show ?thesis by (simp add: register_peers_def)
qed

lemma peer_uris_apart:
  "Device_uri d \<noteq> leave_uri" "Device_uri d @ str ''/endpoints'' \<noteq> leave_uri"
  "Device_uri d \<noteq> str ''devices''" "Device_uri d @ str ''/endpoints'' \<noteq> str ''devices''"
  by (auto simp: Device_uri_def leave_uri_def str_def dest: arg_cong [where f = length])

lemma register_peers_wf:
  "repo_wf R \<Longrightarrow> repo_wf (register_peers dumps junk paired d a R)"
  "core_handlers v R \<Longrightarrow> core_handlers v (register_peers dumps junk paired d a R)"
  using peer_uris_apart [of d]
  by (auto simp: repo_wf_def core_handlers_def register_peers_trigger keeps_peer keeps_unchanged)

lemma message_effect:
  assumes "message_step v apduStr a msg s = Inr t"
  obtains z where "zdo_callback (en_libs v) (en_junk v) apduStr (replies (world s)) msg (zdo (world s)) = Inr z"
    and "world t = world_after a z (world s)"
    and "repo t = repo s \<and> (annce_ieee msg = None \<or> the (annce_ieee msg) \<notin> ieee_id ` set (devices (world t))) \<or>
      (\<exists>ieee k. annce_ieee msg = Some ieee \<and> find_if_loop (devices (world t)) (\<lambda>d. ieee_id d = ieee) = Some k \<and>
        repo t = register_peers (en_dumps v) (en_junk v)
          (newpeer_paired (en_libs v) (dev_endpoints (gateway (zdo (world s)))) (replies (world s)) (devices (world t) ! k))
          (devices (world t) ! k) (nodes (world t) ! k) (repo s))"
proof -
  obtain z where z: "zdo_callback (en_libs v) (en_junk v) apduStr (replies (world s)) msg (zdo (world s)) = Inr z"
    using assms by (auto simp: message_step_def zdo_message_def Let_def returns_iff)
  define w where "w = world_after a z (world s)"
  have t: "t = (case annce_ieee msg of
       None \<Rightarrow> s\<lparr>world := w\<rparr>
     | Some ieee \<Rightarrow> (case find_if_loop (devices w) (\<lambda>d. ieee_id d = ieee) of
         None \<Rightarrow> s\<lparr>world := w\<rparr>
       | Some k \<Rightarrow> s\<lparr>world := w, repo := register_peers (en_dumps v) (en_junk v)
           (newpeer_paired (en_libs v) (dev_endpoints (gateway (zdo (world s)))) (replies (world s)) (devices w ! k))
           (devices w ! k) (nodes w ! k) (repo s)\<rparr>))"
    using assms z unfolding w_def message_step_def zdo_message_def Let_def by simp
  then have w: "world t = w" by (simp split: option.split)
  show thesis
  proof (rule that [OF z])
    show "world t = world_after a z (world s)" using w w_def by simp
    show "repo t = repo s \<and> (annce_ieee msg = None \<or> the (annce_ieee msg) \<notin> ieee_id ` set (devices (world t))) \<or>
      (\<exists>ieee k. annce_ieee msg = Some ieee \<and> find_if_loop (devices (world t)) (\<lambda>d. ieee_id d = ieee) = Some k \<and>
        repo t = register_peers (en_dumps v) (en_junk v)
          (newpeer_paired (en_libs v) (dev_endpoints (gateway (zdo (world s)))) (replies (world s)) (devices (world t) ! k))
          (devices (world t) ! k) (nodes (world t) ! k) (repo s))"
      unfolding w t by (auto simp: find_if_loop_None split: option.split)
  qed
qed

lemma message_keeps:
  assumes "app_inv v s" and "a \<notin> set (nodes (world s))" and "message_step v apduStr a msg s = Inr t"
  shows "app_inv v t"
proof -
  let ?w = "world s"
  obtain z where z: "zdo_callback (en_libs v) (en_junk v) apduStr (replies ?w) msg (zdo ?w) = Inr z"
    "world t = world_after a z ?w" and R: "repo t = repo s \<or> (\<exists>paired d a. repo t = register_peers (en_dumps v) (en_junk v) paired d a (repo s))"
    by (rule message_effect [OF assms(3)]) blast
  have "network_wf z"
    by (rule network_wf_step [OF _ step_message [OF z(1)]]) (use assms(1) in \<open>simp add: app_inv_def world_wf_def\<close>)
  then have "world_wf (world t)"
    using zdo_step_endpoints [OF step_message [OF z(1)]] zdo_callback_length [OF z(1)] assms(1,2) z(2) by (auto simp: world_after_def app_inv_def world_wf_def)
  with R assms(1) register_peers_wf show ?thesis by (auto simp: app_inv_def)
qed

lemma message_local_ids:
  assumes "message_step v apduStr a msg s = Inr t"
  shows "local_ids (world t) = local_ids (world s)"
proof -
  obtain z where "zdo_callback (en_libs v) (en_junk v) apduStr (replies (world s)) msg (zdo (world s)) = Inr z"
    "world t = world_after a z (world s)" by (rule message_effect [OF assms])
  then show ?thesis using zdo_step_endpoints [OF step_message] by (simp add: world_after_def local_ids_def)
qed

lemma run_handlers_keep:
  "run_handlers hs C w = Inr (C', w') \<Longrightarrow> \<forall>h \<in> set hs. keeps_world h \<Longrightarrow> world_wf w \<Longrightarrow>
   world_wf w' \<and> local_ids w' = local_ids w"
proof (induction hs arbitrary: C w)
  case (Cons h hs)
  from Cons.prems(1) obtain C1 w1 where "h C w = Inr (C1, w1)" "run_handlers hs C1 w1 = Inr (C', w')"
    by (auto simp: returns_iff)
  moreover from this(1) Cons.prems(2,3) have "world_wf w1 \<and> local_ids w1 = local_ids w" by (auto simp: keeps_world_def)
  ultimately show ?case using Cons.IH [of C1 w1] Cons.prems(2) by simp
qed simp

lemma trigger_kept [simp]: "fst (trigger e u ty (snd (trigger e' u' ty' R))) = fst (trigger e u ty R)"
proof -
  have t: "fst (trigger e u ty S) = (case map_of (fst (container e u S)) ty of None \<Rightarrow> [] | Some f \<Rightarrow> [f])"
    "snd (trigger e' u' ty' S) = snd (container e' u' S)" for S :: "'a repository"
    by (simp_all add: trigger_def split: prod.splits option.splits)
  show ?thesis by (simp add: t)
qed

lemma request_effect:
  assumes "request_step v req s = Inr (rsp, t)"
  obtains u C C' where "run_handlers (fst (trigger Application u ctx_type (repo s))) C (world s) = Inr (C', world t)"
    and "repo t = snd (trigger Application u ctx_type (repo s))"
  using assms unfolding request_step_def handleRESTful_def Let_def
  by (auto simp: returns_iff case_prod_unfold split: if_splits)

lemma request_keeps:
  assumes "app_inv v s" and "request_step v req s = Inr (rsp, t)"
  shows "app_inv v t" and "local_ids (world t) = local_ids (world s)"
proof -
  obtain u C C' where r: "run_handlers (fst (trigger Application u ctx_type (repo s))) C (world s) = Inr (C', world t)"
    "repo t = snd (trigger Application u ctx_type (repo s))"
    by (rule request_effect [OF assms(2)])
  have "world_wf (world t) \<and> local_ids (world t) = local_ids (world s)"
    by (rule run_handlers_keep [OF r(1)]) (use assms(1) in \<open>auto simp: app_inv_def repo_wf_def\<close>)
  with r(2) assms(1) show "app_inv v t" "local_ids (world t) = local_ids (world s)"
    by (simp_all add: app_inv_def repo_wf_def core_handlers_def)
qed

lemma IntToHexStr_0: "IntToHexStr (0 :: u16) = str ''0000''" "IntToHexStr (0 :: byte) = str ''00''"
  by (simp_all add: IntToHexStr_def sizeof_def str_def le_bytes_def hexs_def hex2_def hexdigit_def upt_rec)

lemma trigger_Nil [simp]: "fst (trigger e u ty []) = []"
  by (simp add: trigger_def container_def)

lemma ep0_uri_0: "dev_id self = 0 \<Longrightarrow> ep0_uri self = str ''devices/0000/endpoints/00''"
proof -
  assume d: "dev_id self = 0"
  obtain k es where e: "find_if (dev_endpoints self) (\<lambda>x. ep_id x = 0) (new_Endpoint 0) = (k, es)" by fastforce
  have "ep_id (es ! k) = 0" using eps.found [OF e] by simp
  with d e show ?thesis
    by (simp add: ep0_uri_def endpoints_def Endpoint_uri_def Device_uri_def IntToHexStr_0) (simp add: str_def)
qed

lemma start_inv:
  assumes "app_start v s"
  shows "app_inv v s"
proof -
  let ?self = "gateway (zdo (world s))"
  have u: "ep0_uri ?self = str ''devices/0000/endpoints/00''" using assms ep0_uri_0 by (simp add: app_start_def)
  have R: "repo s = app_repository v ?self" using assms by (simp add: app_start_def)
  have "world_wf (world s)" using assms by (simp add: app_start_def world_wf_def network_wf_def)
  moreover have "repo_wf (repo s)"
    unfolding R app_repository_def u repo_wf_def
    by (auto simp: app_init_def app_handlers_def zdo_handlers_def SelfInit_def trigger_handler keeps_on_net keeps_this_device
        keeps_unchanged keeps_leave split: if_splits)
  moreover have "core_handlers v (repo s)"
    unfolding R app_repository_def u core_handlers_def
    using peer_uris_apart [of ?self]
    by (simp add: app_init_def app_handlers_def zdo_handlers_def SelfInit_def trigger_handler leave_uri_def str_def)
  ultimately show ?thesis by (simp add: app_inv_def)
qed

lemma endpoint_keeps:
  "app_inv v s \<Longrightarrow> app_inv v (set_endpoints (snd (endpoints i (dev_endpoints (gateway (zdo (world s)))))) s)"
  using eps.distinct_kept [of "dev_endpoints (gateway (zdo (world s)))" i]
  by (cases "endpoints i (dev_endpoints (gateway (zdo (world s))))")
    (auto simp: app_inv_def world_wf_def network_wf_def set_endpoints_def set_gateway_def endpoints_def)

lemma step_inv: "app_inv v s \<Longrightarrow> app_step v s t \<Longrightarrow> app_inv v t"
  by (auto elim!: app_step.cases intro: message_keeps request_keeps(1) endpoint_keeps) (simp add: app_inv_def world_wf_def)

interpretation app: invariant_system "app_start v" "app_step v" "app_inv v" for v
  by unfold_locales (rule start_inv, assumption, rule step_inv)

section \<open>Requests\<close>

lemma request_one:
  assumes "en_loads v req = Some rq" and "path_uri (member ''path'' (Some rq)) = uri @ [0x2f]"
    and "fst (trigger Application uri ctx_type (repo s)) = [h]"
  obtains C k cs where "parameter C = stringify (en_dumps v) (member ''parameter'' (Some rq))"
    and "request_step v req s = bindE (h C (world s)) (\<lambda>(c, w).
      Inr (response c, \<lparr>Contexts = cs[k := c], repo = snd (trigger Application uri ctx_type (repo s)), world = w\<rparr>))"
proof -
  obtain k cs where k: "getContext uri (Contexts s) = (k, cs)" by fastforce
  have src: "JSON_source (en_loads v) f req = Some rq" for f by (simp add: JSON_source_def assms(1))
  let ?C = "(cs ! k)\<lparr>parameter := stringify (en_dumps v) (member ''parameter'' (Some rq)), request := req\<rparr>"
  have one: "run_handlers [h] C w = h C w" for C w
    by (cases "h C w") auto
  show thesis
    by (rule that [of ?C cs k])
      (simp_all add: request_step_def handled [OF src assms(2) k assms(3)] one del: run_handlers.simps)
qed

section \<open>What a leave request does to the nodes\<close>

lemma leave_effects:
  assumes w: "world_wf w" and k: "k < length (devices w)" "ieee_id (devices w ! k) = ieee"
    and l: "Mgmt_Leave_req r ieee (zdo w) = Inr (st, z)"
  shows "nodes w ! k \<notin> set (leave_nodes ieee w)" and "ieee \<notin> ieee_id ` set (dev_assocs (gateway z))"
proof -
  let ?ds = "devices w" and ?g = "gateway (zdo w)"
  have wf: "distinct (map ieee_id ?ds)" "length (nodes w) = length ?ds" "distinct (nodes w)"
    using w by (simp_all add: world_wf_def network_wf_def)
  have same: "i = k" if "i < length ?ds" "ieee_id (?ds ! i) = ieee" for i
    using wf(1) that k by (simp add: distinct_conv_nth) metis
  obtain k' g' where g: "assocs64 ieee ?g = (k', g')" by fastforce
  have "ieee \<in> ieee_id ` set ?ds" using k by auto
  with assocs64_cases [OF g] same have g: "assocs64 ieee ?g = (k, ?g)" using g by auto
  show "nodes w ! k \<notin> set (leave_nodes ieee w)"
  proof
    assume "nodes w ! k \<in> set (leave_nodes ieee w)"
    then obtain i where i: "i < length ?ds" "nodes w ! i = nodes w ! k" "dev_id (?ds ! i) \<noteq> dev_id (?ds ! k)"
      using wf(2) by (auto simp: leave_nodes_def g set_zip)
    then have "i = k" using wf k(1) by (simp add: distinct_conv_nth) metis
    with i show False by simp
  qed
  have "dev_assocs (gateway z) = filter (\<lambda>x. dev_id x \<noteq> dev_id (?ds ! k)) ?ds"
    using leave_effect [OF l] g by (simp add: removeAssoc_def)
  then show "ieee \<notin> ieee_id ` set (dev_assocs (gateway z))"
    using same by (auto simp: in_set_conv_nth)
qed

lemma paired_registered:
  assumes "app_inv v s" and "a \<notin> set (nodes (world s))" and "message_step v apduStr a msg s = Inr t"
    and "annce_ieee msg = Some (ieee_id d)" and "d \<in> set (devices (world t))" and "e \<in> set (dev_endpoints d)"
    and "newpeer_paired (en_libs v) (dev_endpoints (gateway (zdo (world s)))) (replies (world s)) d e"
  obtains k where "k < length (devices (world t))" and "devices (world t) ! k = d"
    and "fst (trigger Application (Device_uri d) ctx_type (repo t)) = [peer_handler (en_dumps v) (en_junk v) (nodes (world t) ! k)]"
    and "find_if_loop (nodes (world t)) (\<lambda>x. x = nodes (world t) ! k) = Some k"
proof -
  have inv: "app_inv v t" by (rule message_keeps [OF assms(1-3)])
  then have wf: "distinct (map ieee_id (devices (world t)))" "length (nodes (world t)) = length (devices (world t))" "distinct (nodes (world t))"
    by (simp_all add: app_inv_def world_wf_def network_wf_def)
  obtain k where k: "k < length (devices (world t))" "devices (world t) ! k = d" using assms(5) by (auto simp: in_set_conv_nth)
  have f: "find_if_loop (devices (world t)) (\<lambda>x. ieee_id x = ieee_id d) = Some k"
    using find_if_loop_distinct [OF wf(1) k(1)] k(2) by simp
  have R: "repo t = register_peers (en_dumps v) (en_junk v)
       (newpeer_paired (en_libs v) (dev_endpoints (gateway (zdo (world s)))) (replies (world s)) d) d (nodes (world t) ! k) (repo s)"
    by (rule message_effect [OF assms(3)]) (use assms(4,5) f k in auto)
  have "list_ex (newpeer_paired (en_libs v) (dev_endpoints (gateway (zdo (world s)))) (replies (world s)) d) (dev_endpoints d)"
    using assms(6,7) by (auto simp: list_ex_iff)
  then have "fst (trigger Application (Device_uri d) ctx_type (repo t)) = [peer_handler (en_dumps v) (en_junk v) (nodes (world t) ! k)]"
    unfolding R by (simp add: register_peers_trigger str_def)
  moreover have "find_if_loop (nodes (world t)) (\<lambda>x. x = nodes (world t) ! k) = Some k"
    using find_if_loop_distinct [of "\<lambda>x. x" "nodes (world t)" k] wf k(1) by simp
  ultimately show thesis using that k by blast
qed

section \<open>Properties\<close>

text \<open>
  Whatever messages come and requests are made, in any order, the devices have different IEEE addresses and
  live at different addresses, one for each, and the handler of leave requests and that of the device list are in place.
\<close>

theorem application_invariant:
  "reach (app_start v) (app_step v) s \<Longrightarrow>
   distinct (map ieee_id (devices (world s))) \<and> length (nodes (world s)) = length (devices (world s)) \<and> distinct (nodes (world s)) \<and>
   fst (trigger Application leave_uri ctx_type (repo s)) = [Mgmt_Leave_handler (en_loads v) (en_dumps v) (en_disk v)] \<and>
   fst (trigger Application (str ''devices'') ctx_type (repo s)) = [devices_handler (en_dumps v)]"
  using app.inv_reach [of v s] by (simp add: app_inv_def world_wf_def network_wf_def core_handlers_def)

text \<open>
  At any time the device list is answered with the short addresses of the gateway and of all its devices, which
  the program itself reads back from the texts, and nothing changes.
\<close>

theorem device_list_request:
  assumes "reach (app_start v) (app_step v) s" and "en_loads v req = Some rq"
    and "path_uri (member ''path'' (Some rq)) = str ''devices'' @ [0x2f]"
  shows "\<exists>texts t. request_step v req s = Inr (en_dumps v (JArr texts), t) \<and> world t = world s \<and>
    map toInteger texts = map (\<lambda>i. Inr (ucast i)) (dev_id (gateway (zdo (world s))) # map dev_id (devices (world s)))"
proof -
  have "fst (trigger Application (str ''devices'') ctx_type (repo s)) = [devices_handler (en_dumps v)]"
    using app.inv_reach [OF assms(1)] by (simp add: app_inv_def core_handlers_def)
  then obtain C k cs where "request_step v req s = bindE (devices_handler (en_dumps v) C (world s)) (\<lambda>(c, w).
      Inr (response c, \<lparr>Contexts = cs[k := c], repo = snd (trigger Application (str ''devices'') ctx_type (repo s)), world = w\<rparr>))"
    by (rule request_one [OF assms(2,3)])
  moreover have "toInteger (JStr (IntToHexStr (i :: u16))) = Inr (ucast i)" for i
    by (rule toInteger_hex [of 2]) simp_all
  ultimately show ?thesis
    by (intro exI [of _ "JStr (IntToHexStr (dev_id (gateway (zdo (world s))))) # map (\<lambda>d. JStr (IntToHexStr (dev_id d))) (devices (world s))"])
      (simp add: devices_handler_def device_ids_def stringify_def)
qed

text \<open>
  When an announced device has an endpoint that is paired with a local one, a request for its URI is from then on
  answered with the snapshot of this device, whichever other devices there are.
\<close>

theorem joined_device_answers:
  assumes "reach (app_start v) (app_step v) s" and "a \<notin> set (nodes (world s))" and "message_step v apduStr a msg s = Inr t"
    and "annce_ieee msg = Some (ieee_id d)" and "d \<in> set (devices (world t))" and "e \<in> set (dev_endpoints d)"
    and "newpeer_paired (en_libs v) (dev_endpoints (gateway (zdo (world s)))) (replies (world s)) d e"
    and "en_loads v req = Some rq" and "path_uri (member ''path'' (Some rq)) = Device_uri d @ [0x2f]"
    and "nodeSnapshot_Device (en_junk v) d = Inr (j, d')"
  shows "\<exists>u. request_step v req t = Inr (stringify (en_dumps v) j, u) \<and> nodes (world u) = nodes (world t) \<and>
    d' \<in> set (devices (world u)) \<and> map ieee_id (devices (world u)) = map ieee_id (devices (world t))"
proof -
  obtain k where k: "k < length (devices (world t))" "devices (world t) ! k = d"
    "fst (trigger Application (Device_uri d) ctx_type (repo t)) = [peer_handler (en_dumps v) (en_junk v) (nodes (world t) ! k)]"
    "find_if_loop (nodes (world t)) (\<lambda>x. x = nodes (world t) ! k) = Some k"
    by (rule paired_registered [OF app.inv_reach [OF assms(1)] assms(2-7)])
  obtain C l cs where "request_step v req t = bindE (peer_handler (en_dumps v) (en_junk v) (nodes (world t) ! k) C (world t)) (\<lambda>(c, w).
      Inr (response c, \<lparr>Contexts = cs[l := c], repo = snd (trigger Application (Device_uri d) ctx_type (repo t)), world = w\<rparr>))"
    by (rule request_one [OF assms(8,9) k(3)])
  moreover have "d' \<in> set ((devices (world t))[k := d'])" using k(1) by (simp add: set_update_memI)
  moreover have "map ieee_id ((devices (world t))[k := d']) = map ieee_id (devices (world t))"
    using snapshot_device_keeps [OF assms(10)] k(1,2) by (intro map_update_same) simp_all
  ultimately show ?thesis
    using assms(10) k by (simp add: peer_handler_def set_gateway_def set_assoc_def)
qed

text \<open>
  C18: A leave request for such a device takes it out of the network; but its handler stays, and the next request for its
  URI reads the freed device.
\<close>

theorem left_device_dangles:
  assumes "reach (app_start v) (app_step v) s" and "a \<notin> set (nodes (world s))" and "message_step v apduStr a msg s = Inr t"
    and "annce_ieee msg = Some (ieee_id d)" and "d \<in> set (devices (world t))" and "e \<in> set (dev_endpoints d)"
    and "newpeer_paired (en_libs v) (dev_endpoints (gateway (zdo (world s)))) (replies (world s)) d e"
    and "en_loads v req = Some rq" and "path_uri (member ''path'' (Some rq)) = Device_uri d @ [0x2f]"
    and "en_loads v lv = Some lq" and "path_uri (member ''path'' (Some lq)) = leave_uri @ [0x2f]"
    and "en_loads v (stringify (en_dumps v) (member ''parameter'' (Some lq))) = Some arg"
    and "member ''ieeeAddr'' (Some arg) = JStr (IntToHexStr (ieee_id d))"
    and "case replies (world t) 0x0034 0 0 of None \<Rightarrow> True | Some x \<Rightarrow> 2 \<le> length x"
  shows "\<exists>rsp u. request_step v lv t = Inr (rsp, u) \<and> ieee_id d \<notin> ieee_id ` set (devices (world u)) \<and>
    request_step v req u = Inl Dangling"
proof -
  let ?w = "world t" and ?i = "ieee_id d"
  have inv: "app_inv v t" by (rule message_keeps [OF app.inv_reach [OF assms(1)] assms(2,3)])
  obtain k where k: "k < length (devices ?w)" "devices ?w ! k = d"
    "fst (trigger Application (Device_uri d) ctx_type (repo t)) = [peer_handler (en_dumps v) (en_junk v) (nodes ?w ! k)]"
    "find_if_loop (nodes ?w) (\<lambda>x. x = nodes ?w ! k) = Some k"
    by (rule paired_registered [OF app.inv_reach [OF assms(1)] assms(2-7)])
  obtain st z where l: "Mgmt_Leave_req (replies ?w) ?i (zdo ?w) = Inr (st, z)"
    using assms(14) by (cases "assocs64 ?i (gateway (zdo ?w))") (auto simp: Mgmt_Leave_req_def Let_def rd_def split: option.splits)
  have "world_wf ?w" using inv by (simp add: app_inv_def)
  note gone = leave_effects [OF this k(1) _ l]
  have "fst (trigger Application leave_uri ctx_type (repo t)) = [Mgmt_Leave_handler (en_loads v) (en_dumps v) (en_disk v)]"
    using inv by (simp add: app_inv_def core_handlers_def)
  then obtain C m cs where C: "parameter C = stringify (en_dumps v) (member ''parameter'' (Some lq))"
    and lr: "request_step v lv t = bindE (Mgmt_Leave_handler (en_loads v) (en_dumps v) (en_disk v) C ?w) (\<lambda>(c, w).
      Inr (response c, \<lparr>Contexts = cs[m := c], repo = snd (trigger Application leave_uri ctx_type (repo t)), world = w\<rparr>))"
    by (rule request_one [OF assms(10,11)])
  have "toInteger (JStr (IntToHexStr ?i)) = Inr ?i" using toInteger_hex [of 8 ?i] by simp
  then obtain rsp u where u: "request_step v lv t = Inr (rsp, u)" "world u = ?w\<lparr>zdo := z, nodes := leave_nodes ?i ?w\<rparr>"
    "repo u = snd (trigger Application leave_uri ctx_type (repo t))"
    unfolding lr using C l assms(12,13) by (auto simp: Mgmt_Leave_handler_def JSON_source_def)
  have "fst (trigger Application (Device_uri d) ctx_type (repo u)) = [peer_handler (en_dumps v) (en_junk v) (nodes ?w ! k)]"
    using k(3) u(3) by simp
  then obtain D q ds where "request_step v req u = bindE (peer_handler (en_dumps v) (en_junk v) (nodes ?w ! k) D (world u)) (\<lambda>(c, w).
      Inr (response c, \<lparr>Contexts = ds[q := c], repo = snd (trigger Application (Device_uri d) ctx_type (repo u)), world = w\<rparr>))"
    by (rule request_one [OF assms(8,9)])
  moreover have "find_if_loop (nodes (world u)) (\<lambda>x. x = nodes ?w ! k) = None"
    using gone(1) k(2) u(2) by (auto simp: find_if_loop_None)
  ultimately show ?thesis
    using u gone(2) k(2) by (intro exI [of _ rsp] exI [of _ u]) (simp add: peer_handler_def)
qed

section \<open>Witnesses\<close>

text \<open>A lamp joins a gateway that has a switch.\<close>

definition lamp_lib :: "byte \<Rightarrow> profile_lib" where
  "lamp_lib = (\<lambda>_. (\<lambda>n. replicate n 0, \<lambda>_. None, \<lambda>_. None))"

definition switch_ep :: Endpoint where
  "switch_ep = (new_Endpoint 8)\<lparr>simpleDescriptor := \<lparr>outclusterList = [6], inclusterList = [], endpointAddr = 8, profileId = 0x0104, sd_deviceId = 1, deviceVersion = 0\<rparr>\<rparr>"

definition lamp_desc :: SimpleDescriptor where
  "lamp_desc = \<lparr>outclusterList = [], inclusterList = [6], endpointAddr = 3, profileId = 0x0104, sd_deviceId = 0, deviceVersion = 0\<rparr>"

definition lamp_reply :: zdp_reply where
  "lamp_reply = (\<lambda>c a e. if c = 0x0005 then Some [1, 0, 0x67, 0x45, 1, 3]
     else if c = 0x0004 then Some ([1, 0, 0x67, 0x45, 10] @ simple_desc_bytes lamp_desc) else None)"

definition lamp_hub :: Gateway where
  "lamp_hub = hub\<lparr>dev_endpoints := [switch_ep, new_Endpoint 0]\<rparr>"

definition lamp_ep :: Endpoint where
  "lamp_ep = (new_Endpoint 3)\<lparr>simpleDescriptor := lamp_desc, localPeer := Some 8\<rparr>"

definition lamp :: Device where
  "lamp = bulb\<lparr>dev_endpoints := [lamp_ep]\<rparr>"

lemma lamp_bytes: "length (simple_desc_bytes lamp_desc) = 10" 
   "simple_desc_req_apdu_process (simple_desc_bytes lamp_desc) = Inr lamp_desc"
  using simple_desc_parse [of lamp_desc "[]"] by (simp_all add: simple_desc_bytes_def lamp_desc_def)

lemma lamp_newpeer: "aps_newpeer_handle lamp_lib [switch_ep, new_Endpoint 0] ((new_Endpoint 3)\<lparr>simpleDescriptor := lamp_desc\<rparr>) = (0, Some 8, lamp_ep)"
  by (simp add: switch_ep_def lamp_desc_def lamp_ep_def new_Endpoint_def clusters_match_def establish_profile_def lamp_lib_def add_cluster_def)

lemma lamp_query:
  "\<exists>z. query_device lamp_lib (dev_endpoints lamp_hub) (replicate 64 0) lamp_reply (bulb\<lparr>dev_active := 0\<rparr>, None) = Inr (lamp, z)"
proof -
  let ?d0 = "bulb\<lparr>dev_active := 0\<rparr>" and ?d1 = "bulb\<lparr>dev_endpoints := [new_Endpoint 3], dev_active := 0\<rparr>" and ?j = "replicate 64 (0 :: byte)"
  obtain z1 where z1: "saveDevApdu ?j ?d0 ''ActiveEndpointApduString'' [1, 3] (Suc (Suc 0)) None = Inr z1"
    using apduString_ok [of "Suc (Suc 0)" "[1, 3]" ?j] by (simp add: saveDevApdu_def)
  have a: "active_ep_req ?j lamp_reply (?d0, None) = Inr (?d1, z1)"
    using z1 by (simp add: active_ep_req_def lamp_reply_def MSGBODY_def rd_def active_ep_req_apdu_process_def endpoints_def find_if_def bulb_def new_Device_def)
  obtain z2 where z2: "saveEndpointApdu ?j ?d1 (new_Endpoint 3) ''SimpleDescApdu'' (simple_desc_bytes lamp_desc) 10 z1 = Inr z2"
    using apduString_ok [of 10 "simple_desc_bytes lamp_desc" ?j] lamp_bytes by (simp add: saveEndpointApdu_def)
  have "simple_desc_req lamp_lib [switch_ep, new_Endpoint 0] ?j lamp_reply ?d1 (new_Endpoint 3, z1) = Inr (lamp_ep, z2)"
    using z2 lamp_bytes lamp_newpeer by (simp add: simple_desc_req_def lamp_reply_def MSGBODY_def rd_def)
  then show ?thesis
    using a by (simp add: lamp_hub_def query_device_def node_desc_req_def lamp_reply_def getAllEndpointSimpleDesc_def new_Endpoint_def lamp_def bulb_def)
qed

lemma lamp_joins:
  "\<exists>z. zdo_callback lamp_lib (replicate 64 0) [] lamp_reply bulb_annce \<lparr>gateway = lamp_hub, zar = None\<rparr> =
     Inr \<lparr>gateway = lamp_hub\<lparr>dev_assocs := [lamp]\<rparr>, zar = z\<rparr>"
proof -
  let ?j = "replicate 64 (0 :: byte)" and ?s = "\<lparr>gateway = lamp_hub, zar = None\<rparr>"
  have g: "assocs64 0x00124B0001020304 (gateway ?s) = (0, lamp_hub\<lparr>dev_assocs := [new_Device 0x0304]\<rparr>)"
    by (simp add: assocs64_def find_if_def lamp_hub_def hub_def new_Device_def)
  have "zdo_callback lamp_lib ?j [] lamp_reply bulb_annce ?s =
    bindE (query_device lamp_lib (dev_endpoints (lamp_hub\<lparr>dev_assocs := [new_Device 0x0304]\<rparr>)) ?j lamp_reply
        ((dev_assocs (lamp_hub\<lparr>dev_assocs := [new_Device 0x0304]\<rparr>) ! 0)\<lparr>dev_id := 0x4567, ieee_id := 0x00124B0001020304, dev_capability := 0x8E\<rparr>, zar ?s))
      (\<lambda>(d, z). Inr \<lparr>gateway = set_assoc 0 d (lamp_hub\<lparr>dev_assocs := [new_Device 0x0304]\<rparr>), zar = z\<rparr>)"
    by (rule annce_frame [OF _ _ _ g, where t = 7 and rest = "[]"]) (simp_all add: bulb_annce_def)
  with lamp_query show ?thesis
    by (auto simp: set_assoc_def lamp_hub_def hub_def bulb_def new_Device_def)
qed

definition lamp_loads :: "byte list \<Rightarrow> json option" where
  "lamp_loads b =
     (if b = [1] then Some (JObj [(''path'', JArr [JStr (str ''devices'')])])
      else if b = [2] then Some (JObj [(''path'', JArr [JStr (str ''devices''), JStr (str ''4567'')])])
      else if b = [3] then Some (JObj [(''path'', JArr (map JStr [str ''devices'', str ''0000'', str ''endpoints'', str ''00'', str ''Mgmt_Leave_req''])),
        (''parameter'', JObj [])])
      else if b = [4] then Some (JObj [(''ieeeAddr'', JStr (IntToHexStr (0x00124B0001020304 :: u64)))])
      else if b = [5] then Some (JObj [(''ver'', JStr (str ''0001'')), (''request'', JStr [1])]) else None)"

definition lamp_env :: app_env where
  "lamp_env = \<lparr>en_loads = lamp_loads, en_dumps = \<lambda>_. [4], en_disk = \<lambda>_ _. None, en_junk = replicate 64 0, en_libs = lamp_lib,
     en_net_disk = \<lambda>_ _. None, en_registry_disk = \<lambda>_ _. None, en_hwAddr = [], en_time = 0, en_server = None\<rparr>"

definition lamp_start :: "app_world interface" where
  "lamp_start = \<lparr>Contexts = [], repo = app_repository lamp_env lamp_hub,
     world = \<lparr>zdo = \<lparr>gateway = lamp_hub, zar = None\<rparr>, nodes = [], net = net_0, replies = lamp_reply\<rparr>\<rparr>"

lemma lamp_start: "reach (app_start lamp_env) (app_step lamp_env) lamp_start"
  by (rule reach_start) (simp add: app_start_def lamp_start_def lamp_hub_def hub_def switch_ep_def new_Endpoint_def)

lemma lamp_message:
  obtains t where "message_step lamp_env [] 70 bulb_annce lamp_start = Inr t" and "devices (world t) = [lamp]"
    and "replies (world t) = lamp_reply"
proof -
  obtain z where z: "zdo_callback lamp_lib (replicate 64 0) [] lamp_reply bulb_annce \<lparr>gateway = lamp_hub, zar = None\<rparr> =
     Inr \<lparr>gateway = lamp_hub\<lparr>dev_assocs := [lamp]\<rparr>, zar = z\<rparr>"
    using lamp_joins by blast
  then obtain t where t: "message_step lamp_env [] 70 bulb_annce lamp_start = Inr t"
    by (simp add: message_step_def zdo_message_def lamp_env_def lamp_start_def Let_def)
  obtain y where "zdo_callback lamp_lib (replicate 64 0) [] lamp_reply bulb_annce \<lparr>gateway = lamp_hub, zar = None\<rparr> = Inr y"
    "world t = world_after 70 y (world lamp_start)"
    by (rule message_effect [OF t]) (simp add: lamp_env_def lamp_start_def)
  moreover from this(1) z have "y = \<lparr>gateway = lamp_hub\<lparr>dev_assocs := [lamp]\<rparr>, zar = z\<rparr>" by simp
  ultimately have "devices (world t) = [lamp]" "replies (world t) = lamp_reply"
    by (simp_all add: world_after_def lamp_start_def)
  with t that show thesis by blast
qed

lemma lamp_facts:
  "annce_ieee bulb_annce = Some (ieee_id lamp)"
  "newpeer_paired (en_libs lamp_env) (dev_endpoints (gateway (zdo (world lamp_start)))) (replies (world lamp_start)) lamp lamp_ep"
  "en_loads lamp_env [2] = Some (JObj [(''path'', JArr [JStr (str ''devices''), JStr (str ''4567'')])])"
  "path_uri (member ''path'' (Some (JObj [(''path'', JArr [JStr (str ''devices''), JStr (str ''4567'')])]))) = Device_uri lamp @ [0x2f]"
  "lamp_ep \<in> set (dev_endpoints lamp)" "70 \<notin> set (nodes (world lamp_start))"
proof -
  have "message_preprocess bulb_annce 12 True = Inr (Some (3, 0x4567))"
    by (rule preprocess_request [where t = 7 and rest = "le_bytes 8 (0x00124B0001020304 :: u64) @ [0x8E]"])
      (simp_all add: bulb_annce_def ZDO_RESPONSE_BIT_def)
  then show "annce_ieee bulb_annce = Some (ieee_id lamp)"
    by (simp add: annce_ieee_def bulb_annce_def lamp_def bulb_def slice_def)
  show "newpeer_paired (en_libs lamp_env) (dev_endpoints (gateway (zdo (world lamp_start)))) (replies (world lamp_start)) lamp lamp_ep"
    using lamp_bytes by (simp add: newpeer_paired_def lamp_env_def lamp_start_def lamp_hub_def lamp_reply_def MSGBODY_def lamp_ep_def new_Endpoint_def
      switch_ep_def lamp_desc_def clusters_match_def establish_profile_def lamp_lib_def)
  show "path_uri (member ''path'' (Some (JObj [(''path'', JArr [JStr (str ''devices''), JStr (str ''4567'')])]))) = Device_uri lamp @ [0x2f]"
    by (simp add: path_uri_def member_def json_toString_def Device_uri_def lamp_def bulb_def new_Device_def IntToHexStr_def
        sizeof_def str_def le_bytes_def hexs_def hex2_def hexdigit_def upt_rec)
qed (simp_all add: lamp_env_def lamp_loads_def lamp_def lamp_start_def)

theorem application_invariant_witness:
  "\<exists>t. message_step lamp_env [] 70 bulb_annce lamp_start = Inr t \<and> distinct (map ieee_id (devices (world t))) \<and> length (nodes (world t)) = 1"
proof -
  obtain t where t: "message_step lamp_env [] 70 bulb_annce lamp_start = Inr t" "devices (world t) = [lamp]"
    by (rule lamp_message)
  have "reach (app_start lamp_env) (app_step lamp_env) t"
    by (rule reach_step [OF lamp_start app_message [OF lamp_facts(6) t(1)]])
  from application_invariant [OF this] t show ?thesis by auto
qed

theorem device_list_request_witness:
  "\<exists>t. request_step lamp_env [1] lamp_start = Inr ([4], t)"
proof -
  have "en_loads lamp_env [1] = Some (JObj [(''path'', JArr [JStr (str ''devices'')])])"
    by (simp add: lamp_env_def lamp_loads_def)
  from device_list_request [OF lamp_start this] show ?thesis
    by (auto simp: path_uri_def member_def json_toString_def lamp_env_def)
qed

theorem joined_device_answers_witness:
  "\<exists>t u. message_step lamp_env [] 70 bulb_annce lamp_start = Inr t \<and> request_step lamp_env [2] t = Inr ([4], u)"
proof -
  obtain t where t: "message_step lamp_env [] 70 bulb_annce lamp_start = Inr t" "devices (world t) = [lamp]"
    by (rule lamp_message)
  obtain j d' where j: "nodeSnapshot_Device (en_junk lamp_env) lamp = Inr (j, d')" "stringify (en_dumps lamp_env) j = [4]"
    by (simp add: nodeSnapshot_Device_def nodeSnapshot_Endpoint_def lamp_def lamp_ep_def lamp_env_def new_Endpoint_def device_json_def
        stringify_def case_prod_unfold)
  have "lamp \<in> set (devices (world t))" using t by simp
  from joined_device_answers [OF lamp_start lamp_facts(6) t(1) lamp_facts(1) this lamp_facts(5,2-4) j(1)] j(2) t(1)
  show ?thesis by auto
qed

theorem left_device_dangles_witness:
  "\<exists>t rsp u. message_step lamp_env [] 70 bulb_annce lamp_start = Inr t \<and> request_step lamp_env [3] t = Inr (rsp, u) \<and>
     request_step lamp_env [2] u = Inl Dangling"
proof -
  obtain t where t: "message_step lamp_env [] 70 bulb_annce lamp_start = Inr t" "devices (world t) = [lamp]" "replies (world t) = lamp_reply"
    by (rule lamp_message)
  have d: "lamp \<in> set (devices (world t))" using t by simp
  let ?lq = "JObj [(''path'', JArr (map JStr [str ''devices'', str ''0000'', str ''endpoints'', str ''00'', str ''Mgmt_Leave_req''])),
        (''parameter'', JObj [])]"
  have 1: "en_loads lamp_env [3] = Some ?lq" by (simp add: lamp_env_def lamp_loads_def)
  have 2: "path_uri (member ''path'' (Some ?lq)) = leave_uri @ [0x2f]"
    by (simp add: path_uri_def member_def json_toString_def leave_uri_def str_def)
  have 3: "en_loads lamp_env (stringify (en_dumps lamp_env) (member ''parameter'' (Some ?lq))) =
      Some (JObj [(''ieeeAddr'', JStr (IntToHexStr (0x00124B0001020304 :: u64)))])"
    by (simp add: lamp_env_def lamp_loads_def member_def stringify_def)
  have 4: "member ''ieeeAddr'' (Some (JObj [(''ieeeAddr'', JStr (IntToHexStr (0x00124B0001020304 :: u64)))])) = JStr (IntToHexStr (ieee_id lamp))"
    by (simp add: member_def lamp_def bulb_def)
  have 5: "case replies (world t) 0x0034 0 0 of None \<Rightarrow> True | Some x \<Rightarrow> 2 \<le> length x"
    by (simp add: t(3) lamp_reply_def)
  from left_device_dangles [OF lamp_start lamp_facts(6) t(1) lamp_facts(1) d lamp_facts(5,2-4) 1 2 3 4 5] t(1) show ?thesis by blast
qed

end
