(* ===== verification/Inbound.thy ===== *)
theory Inbound
  imports Program DataService
begin

text \<open>
  The way in, put together: bytes arrive on the serial line, a signal moves them to the ring buffer
  and starts an assembler (SerialLink), which hands every frame to the routing table (MtProc); frames
  of the AF subsystem become messages (AfMessage), which serve a pending request or go to an endpoint
  (DataService); endpoint 0 is the ZigBee device objects of the running program (Program).
  What the other subsystems do with their frames is in MtHelper and MtCommands; it does not touch
  this state.  Nor do the handlers that plugins give to other endpoints, which are not under src/.
\<close>

section \<open>State\<close>

record line =
  serial :: serbuf
  routing :: "mt_handler option list"
  oob :: nat
  pending :: "AFMessage handlers"
  pending_EXT :: "AFMessage_EXT handlers"
  app :: "app_world interface"

text \<open>
  The uninitialised arrays on the stacks of \<^verbatim>\<open>MessageAssembler\<close>, \<^verbatim>\<open>MTAFIncomingMsgProc\<close> and
  \<^verbatim>\<open>zdo_callback\<close>, the endpoints with a handler, and the allocator of devices.
\<close>

record line_env =
  ln_app :: app_env
  ln_handled :: "byte \<Rightarrow> bool"
  ln_packet :: "byte list"
  ln_message :: "byte list"
  ln_apduString :: "byte list"
  ln_alloc :: "nat list \<Rightarrow> nat"

definition line_env_wf :: "line_env \<Rightarrow> bool" where
  "line_env_wf v \<longleftrightarrow> length (ln_packet v) = 256 \<and> length (ln_message v) = 255 \<and> (\<forall>ns. ln_alloc v ns \<notin> set ns)"

section \<open>One frame\<close>

definition local_endpoints :: "line \<Rightarrow> Endpoint list" where
  "local_endpoints s = dev_endpoints (gateway (zdo (world (app s))))"

definition aps_message :: "line_env \<Rightarrow> AFMessage \<Rightarrow> line \<Rightarrow> ub + (delivery list \<times> line)" where
  "aps_message v m s =
     (case apsMessageIndicate (ln_handled v) m (pending s) (local_endpoints s) of (d, p, es) \<Rightarrow>
        (let t = s\<lparr>pending := p, app := set_endpoints es (app s)\<rparr> in
         if d = ToEndpoint 0
         then bindE (message_step (ln_app v) (ln_apduString v) (ln_alloc v (nodes (world (app t)))) m (app t)) (\<lambda>a.
                Inr ([d], t\<lparr>app := a\<rparr>))
         else Inr ([d], t)))"

definition aps_message_EXT :: "AFMessage_EXT \<Rightarrow> line \<Rightarrow> delivery list \<times> line" where
  "aps_message_EXT m s =
     (case apsMessageIndicate_EXT m (pending_EXT s) (local_endpoints s) of (d, p, es) \<Rightarrow>
        ([d], s\<lparr>pending_EXT := p, app := set_endpoints es (app s)\<rparr>))"

text \<open>\<^verbatim>\<open>MT_ProcessIncoming\<close> with the functions it calls; both message callbacks are registered.\<close>

definition packet_step :: "line_env \<Rightarrow> byte list \<Rightarrow> line \<Rightarrow> ub + (delivery list \<times> line)" where
  "packet_step v pBuf s =
     bindE (mtOOBRecv pBuf (oob s)) (\<lambda>(r, sem).
     bindE (MT_ProcessIncoming (routing s) (\<lambda>_. r) pBuf) (\<lambda>route.
       case route of
         OutOfBand \<Rightarrow> Inr ([], s\<lparr>oob := sem\<rparr>)
       | Handled f \<Rightarrow>
           if f = mt_handler.MT_AfCommandProcessing
           then bindE (AfMessage.MT_AfCommandProcessing True True (ln_message v) pBuf) (\<lambda>(st, e).
                  case e of AFMsg_Ind m \<Rightarrow> aps_message v m s
                  | AFMsg_EXT_Ind m \<Rightarrow> Inr (aps_message_EXT m s)
                  | _ \<Rightarrow> Inr ([], s))
           else Inr ([], s)
       | _ \<Rightarrow> Inr ([], s)))"

fun packets :: "line_env \<Rightarrow> byte list list \<Rightarrow> line \<Rightarrow> ub + (delivery list \<times> line)" where
  "packets v [] s = Inr ([], s)"
| "packets v (p # ps) s =
     bindE (packet_step v p s) (\<lambda>(ds, t). bindE (packets v ps t) (\<lambda>(es, u). Inr (ds @ es, u)))"

section \<open>Signals\<close>

text \<open>One signal: the handler, and the assembler it starts, which processes each frame as it cuts it.\<close>

definition line_signal :: "line_env \<Rightarrow> byte list \<Rightarrow> line \<Rightarrow> ub + (delivery list \<times> line)" where
  "line_signal v bytes s =
     bindE (MessageAssembler (SerialRcv (serial s) bytes) 0 (ln_packet v)) (\<lambda>(ser, ps).
       packets v ps (s\<lparr>serial := ser\<rparr>))"

fun signals :: "line_env \<Rightarrow> byte list list \<Rightarrow> line \<Rightarrow> ub + (delivery list \<times> line)" where
  "signals v [] s = Inr ([], s)"
| "signals v (b # bs) s =
     bindE (line_signal v b s) (\<lambda>(ds, t). bindE (signals v bs t) (\<lambda>(es, u). Inr (ds @ es, u)))"

section \<open>Frames and what follows them in the array\<close>

lemma rd_append: "i < length f \<Longrightarrow> rd (f @ tail) i = rd f i"
  by (simp add: rd_def nth_append)

lemma slice_append: "off + n \<le> length f \<Longrightarrow> slice off n (f @ tail) = slice off n f"
  by (simp add: slice_def)

lemma packet_step_tail:
  assumes "framed f"
  shows "packet_step v (f @ tail) s = packet_step v f s"
proof -
  have len: "4 \<le> length f" "length f = unat (f ! 0) + 4" using assms by (auto simp: framed_def)
  then have n: "(f @ tail) ! 0 = f ! 0" "rd f 0 = Inr (f ! 0)" by (auto simp: nth_append rd_def)
  have rd: "rd (f @ tail) i = rd f i" if "i < 4" for i using that len by (intro rd_append) simp
  have load: "loadStr junk (f @ tail) 3 (unat (f ! 0)) = loadStr junk f 3 (unat (f ! 0))" for junk
    using len slice_append [of 3 "unat (f ! 0)" f tail] by (simp add: loadStr_def memcpy2_def)
  have route: "MT_ProcessIncoming tbl (\<lambda>_. r) (f @ tail) = MT_ProcessIncoming tbl (\<lambda>_. r) f" for tbl r
    by (simp add: MT_ProcessIncoming_def rd)
  have af: "AfMessage.MT_AfCommandProcessing x y junk (f @ tail) = AfMessage.MT_AfCommandProcessing x y junk f" for x y junk
  proof -
    have eq: "MTAFIncomingMsgProc x junk (f @ tail) = MTAFIncomingMsgProc x junk f"
      "MTAFIncomingMsgEXTProc y junk (f @ tail) = MTAFIncomingMsgEXTProc y junk f"
      by (simp_all add: MTAFIncomingMsgProc_def MTAFIncomingMsgEXTProc_def rd load n(2))
    show ?thesis unfolding AfMessage.MT_AfCommandProcessing_def eq by (simp add: rd)
  qed
  have "mtOOBRecv (f @ tail) k = mtOOBRecv f k" for k by (simp add: mtOOBRecv_def rd)
  then show ?thesis unfolding packet_step_def route af by simp
qed

section \<open>The rest of the state does not see the ring buffer\<close>

definition with_serial :: "serbuf \<Rightarrow> ub + ('a \<times> line) \<Rightarrow> ub + ('a \<times> line)" where
  "with_serial x r = bindE r (\<lambda>(d, t). Inr (d, t\<lparr>serial := x\<rparr>))"

lemma with_serial_simps [simp]:
  "with_serial x (Inr (d, t)) = Inr (d, t\<lparr>serial := x\<rparr>)" "with_serial x (Inl e) = Inl e"
  "with_serial x (with_serial y r) = with_serial x r"
  by (simp_all add: with_serial_def split: sum.split) (cases r, auto)

lemma aps_message_serial: "aps_message v m (s\<lparr>serial := x\<rparr>) = with_serial x (aps_message v m s)"
proof (cases "apsMessageIndicate (ln_handled v) m (pending s) (local_endpoints s)")
  case (fields d p es)
  show ?thesis
    by (cases "message_step (ln_app v) (ln_apduString v) (ln_alloc v (nodes (world (set_endpoints es (app s))))) m (set_endpoints es (app s))")
      (use fields in \<open>simp_all add: aps_message_def local_endpoints_def Let_def\<close>)
qed

lemma packet_step_serial: "packet_step v p (s\<lparr>serial := x\<rparr>) = with_serial x (packet_step v p s)"
proof -
  have ext: "Inr (aps_message_EXT m (s\<lparr>serial := x\<rparr>)) = with_serial x (Inr (aps_message_EXT m s))" for m
    by (simp add: aps_message_EXT_def local_endpoints_def split: prod.split)
  show ?thesis
  proof (cases "mtOOBRecv p (oob s)")
    case (Inr r)
    obtain z sem where "r = (z, sem)" by fastforce
    note Inr = Inr [unfolded this]
    show ?thesis
    proof (cases "MT_ProcessIncoming (routing s) (\<lambda>_. z) p")
      case route: (Inr route)
      show ?thesis
        using Inr route
        by (cases route; cases "AfMessage.MT_AfCommandProcessing True True (ln_message v) p")
          (auto simp: packet_step_def aps_message_serial ext split: af_event.split)
    qed (simp add: packet_step_def Inr)
  qed (simp add: packet_step_def)
qed

lemma packets_serial: "packets v ps (s\<lparr>serial := x\<rparr>) = with_serial x (packets v ps s)"
proof (induction ps arbitrary: s)
  case (Cons p ps)
  show ?case
  proof (cases "packet_step v p s")
    case (Inr r)
    obtain ds t where r: "r = (ds, t)" by fastforce
    show ?thesis using Cons [of t] Inr r by (cases "packets v ps t") (auto simp: packet_step_serial)
  qed (simp add: packet_step_serial)
qed simp

section \<open>Signals and frames\<close>

lemma packets_frames: "\<forall>f \<in> set (map packet ps). framed f \<Longrightarrow> packets v ps s = packets v (map packet ps) s"
proof (induction ps arbitrary: s)
  case (Cons p ps)
  have "p = packet p @ drop (unat (p ! 0) + 4) p" by (simp add: packet_def)
  then have "packet_step v p s = packet_step v (packet p) s" for s
    using packet_step_tail [of "packet p" v "drop (unat (p ! 0) + 4) p" s] Cons.prems by auto
  with Cons show ?case by (cases "packet_step v p s") auto
qed simp

lemma framed_body: "c \<in> set cs \<Longrightarrow> \<forall>(ctype, cid, d) \<in> set cs. length d \<le> 252 \<Longrightarrow> framed (body_of c) \<and> length (body_of c) \<le> 256"
  using framed_frame by (fastforce simp: body_of_def)

text \<open>One signal, whatever has been left over before it.\<close>

lemma signal_frames:
  assumes "ser_wf (serial s)" and "SerBufInLen (serial s) + length bytes \<le> 512" and "length (ln_packet v) = 256"
    and "contents (serial s) @ bytes = wire cs @ rest" and "incomplete rest" and "\<forall>(ctype, cid, d) \<in> set cs. length d \<le> 252"
  obtains ser where "ser_wf ser" and "contents ser = rest"
    and "line_signal v bytes s = with_serial ser (packets v (map body_of cs) s)"
proof -
  note rcv = SerialRcv_fits [OF assms(1,2)]
  have fs: "\<forall>f \<in> set (map body_of cs). framed f \<and> length f \<le> 256" using framed_body assms(6) by auto
  have xor: "filter (\<lambda>f. xor_bytes f = 0) (map body_of cs) = map body_of cs"
    by (rule filter_True) (auto simp: body_of_def xor_frame)
  have "asm_abs (contents (SerialRcv (serial s) bytes)) 0 = Inr (rest, map body_of cs)"
    using asm_abs_frames [OF fs assms(5)] xor rcv(2) assms(4) by (simp add: wire_def)
  from MessageAssembler_abs(2) [OF rcv(1) assms(3) this] obtain ser ps where
    a: "MessageAssembler (SerialRcv (serial s) bytes) 0 (ln_packet v) = Inr (ser, ps)" "ser_wf ser" "contents ser = rest"
      "map packet ps = map body_of cs" by blast
  then have "packets v ps t = packets v (map body_of cs) t" for t
    using fs packets_frames [of ps v t] by simp
  with a that show thesis by (simp add: line_signal_def packets_serial)
qed

text \<open>A stream of frames cut anywhere: complete frames, and the beginning of the next one.\<close>

lemma wire_simps [simp]: "wire [] = []" "wire (c # cs) = MT_SOF # body_of c @ wire cs" "wire (cs @ ds) = wire cs @ wire ds"
  by (simp_all add: wire_def)

lemma incomplete_start:
  assumes "framed f" and "b @ b' = MT_SOF # f" and "b' \<noteq> []"
  shows "incomplete b"
proof (cases "length b < 5")
  case False
  then obtain b0 b1 c where "b = b0 # b1 # c" by (cases b; cases "tl b") auto
  moreover obtain x xs where "b' = x # xs" using assms(3) by (cases b') auto
  ultimately show ?thesis using assms(1,2) by (auto simp: incomplete_def framed_def)
qed (simp add: incomplete_def)

lemma wire_cut:
  assumes "b @ b' = wire cs" and "\<forall>(ctype, cid, d) \<in> set cs. length d \<le> 252"
  shows "\<exists>cs1 cs2 r. cs = cs1 @ cs2 \<and> b = wire cs1 @ r \<and> incomplete r \<and> length r \<le> 256 \<and> r @ b' = wire cs2"
  using assms
proof (induction cs arbitrary: b)
  case Nil
  then show ?case by (simp add: incomplete_def)
next
  case (Cons c cs)
  have f: "framed (body_of c)" "length (body_of c) \<le> 256" using framed_body [of c "c # cs"] Cons.prems(2) by auto
  have whole: "b @ b' = (MT_SOF # body_of c) @ wire cs" using Cons.prems(1) by simp
  show ?case
  proof (cases "length b \<le> length (body_of c)")
    case True
    then have "b = take (length b) (MT_SOF # body_of c)" "b' = drop (length b) (MT_SOF # body_of c) @ wire cs"
      using whole [unfolded append_eq_append_conv_if] by (simp_all split: if_splits)
    moreover define u where "u = drop (length b) (MT_SOF # body_of c)"
    ultimately have u: "b @ u = MT_SOF # body_of c" "b' = u @ wire cs" by (metis append_take_drop_id)+
    have "u \<noteq> []" unfolding u_def using True by simp
    with u f True incomplete_start [OF f(1) u(1)] show ?thesis
      by (intro exI [of _ "[]"] exI [of _ "c # cs"] exI [of _ b]) simp
  next
    case False
    then have "take (Suc (length (body_of c))) b = MT_SOF # body_of c" and u2: "drop (Suc (length (body_of c))) b @ b' = wire cs"
      using whole [unfolded append_eq_append_conv_if] by (simp_all split: if_splits)
    then have u1: "b = MT_SOF # body_of c @ drop (Suc (length (body_of c))) b" by (metis append_Cons append_take_drop_id)
    from Cons.IH [OF u2] Cons.prems(2) obtain cs1 cs2 r where
      "cs = cs1 @ cs2" "drop (Suc (length (body_of c))) b = wire cs1 @ r" "incomplete r" "length r \<le> 256" "r @ b' = wire cs2" by auto
    with u1 show ?thesis by (intro exI [of _ "c # cs1"] exI [of _ cs2] exI [of _ r]) simp
  qed
qed

lemma incomplete_wire: "incomplete (wire cs) \<Longrightarrow> \<forall>(ctype, cid, d) \<in> set cs. length d \<le> 252 \<Longrightarrow> cs = []"
proof (cases cs)
  case (Cons c ds)
  assume *: "incomplete (wire cs)" "\<forall>(ctype, cid, d) \<in> set cs. length d \<le> 252"
  then have "framed (body_of c)" using framed_body [of c cs] Cons by auto
  moreover from this have "body_of c \<noteq> []" by (auto simp: framed_def)
  ultimately show ?thesis using * Cons by (auto simp: incomplete_def framed_def nth_append)
qed simp

lemma packets_append:
  "packets v (ps @ qs) s = bindE (packets v ps s) (\<lambda>(ds, t). bindE (packets v qs t) (\<lambda>(es, u). Inr (ds @ es, u)))"
proof (induction ps arbitrary: s)
  case Nil
  then show ?case by (cases "packets v qs s") auto
next
  case (Cons p ps)
  show ?case
  proof (cases "packet_step v p s")
    case (Inr r)
    obtain ds t where r: "r = (ds, t)" by fastforce
    show ?thesis
    proof (cases "packets v ps t")
      case (Inr q)
      then show ?thesis using \<open>packet_step v p s = Inr r\<close> r Cons [of t]
        by (cases q; cases "packets v qs (snd q)") auto
    qed (use Inr r Cons [of t] in simp)
  qed simp
qed

lemma signals_frames:
  assumes "ser_wf (serial s)" and "length (ln_packet v) = 256" and "\<forall>b \<in> set bs. length b \<le> 256"
    and "contents (serial s) @ concat bs = wire cs" and "incomplete (contents (serial s))" and "SerBufInLen (serial s) \<le> 256"
    and "\<forall>(ctype, cid, d) \<in> set cs. length d \<le> 252"
  shows "\<exists>ser. ser_wf ser \<and> contents ser = [] \<and> signals v bs s = with_serial ser (packets v (map body_of cs) s)"
  using assms
proof (induction bs arbitrary: s cs)
  case Nil
  then have "cs = []" using incomplete_wire by simp
  with Nil show ?case by (intro exI [of _ "serial s"]) simp
next
  case (Cons b bs)
  have "(contents (serial s) @ b) @ concat bs = wire cs" using Cons.prems(4) by simp
  from wire_cut [OF this Cons.prems(7)] obtain cs1 cs2 r where cut: "cs = cs1 @ cs2" "contents (serial s) @ b = wire cs1 @ r"
    "incomplete r" "length r \<le> 256" "r @ concat bs = wire cs2" by blast
  have fit: "SerBufInLen (serial s) + length b \<le> 512" using Cons.prems(3,6) by simp
  obtain ser where ser: "ser_wf ser" "contents ser = r" "line_signal v b s = with_serial ser (packets v (map body_of cs1) s)"
    by (rule signal_frames [OF Cons.prems(1) fit Cons.prems(2) cut(2,3)]) (use cut(1) Cons.prems(7) in auto)
  show ?case
  proof (cases "packets v (map body_of cs1) s")
    case (Inl e)
    then show ?thesis using Cons.prems(1) ser cut(1) by (intro exI [of _ MTIntfInit])
      (simp add: packets_append ser_wf_def contents_def MTIntfInit_def serial_consts)
  next
    case (Inr q)
    obtain ds t where q: "q = (ds, t)" by fastforce
    have "SerBufInLen ser \<le> 256" using ser(2) cut(4) length_contents [of ser] by simp
    then have "\<exists>x. ser_wf x \<and> contents x = [] \<and> signals v bs (t\<lparr>serial := ser\<rparr>) = with_serial x (packets v (map body_of cs2) (t\<lparr>serial := ser\<rparr>))"
      using Cons.prems ser(1,2) cut by (intro Cons.IH) auto
    then obtain x where x: "ser_wf x" "contents x = []"
      "signals v bs (t\<lparr>serial := ser\<rparr>) = with_serial x (packets v (map body_of cs2) t)" by (auto simp: packets_serial)
    have "signals v (b # bs) s = with_serial x (packets v (map body_of cs) s)"
      using Inr q ser(3) x(3) cut(1) by (cases "packets v (map body_of cs2) t") (auto simp: packets_append)
    with x show ?thesis by blast
  qed
qed

section \<open>Runs\<close>

text \<open>
  The state after \<^verbatim>\<open>main\<close>: \<^verbatim>\<open>startZDO\<close> has created endpoint 0.  Then bytes come, requests of clients are
  answered, the network changes its mind, requests of the data service begin and end in any order, the watchdog is
  kicked, and subsystems are registered.
\<close>

definition line_start :: "line_env \<Rightarrow> line \<Rightarrow> bool" where
  "line_start v s \<longleftrightarrow>
     line_env_wf v \<and> serial s = MTIntfInit \<and> routing s = StartMT_Af mtProcessIncoming \<and> oob s = 1 \<and> pending s = no_handlers \<and>
     pending_EXT s = no_handlers \<and> app_start (ln_app v) (app s) \<and> 0 \<in> set (local_ids (world (app s)))"

inductive line_step :: "line_env \<Rightarrow> line \<Rightarrow> line \<Rightarrow> bool" for v where
  line_bytes: "line_signal v bytes s = Inr (ds, t) \<Longrightarrow> line_step v s t"
| line_request: "request_step (ln_app v) req (app s) = Inr (rsp, a) \<Longrightarrow> line_step v s (s\<lparr>app := a\<rparr>)"
| line_replies: "line_step v s (s\<lparr>app := (app s)\<lparr>world := (world (app s))\<lparr>replies := r\<rparr>\<rparr>\<rparr>)"
| line_begin: "registerHandlers p cb (pending s) = (h, q) \<Longrightarrow> line_step v s (s\<lparr>pending := q\<rparr>)"
| line_arm: "arm h (pending s) = Inr q \<Longrightarrow> line_step v s (s\<lparr>pending := q\<rparr>)"
| line_end: "remove_handler h (pending s) = Inr q \<Longrightarrow> line_step v s (s\<lparr>pending := q\<rparr>)"
| line_kick: "mtOOBSend (oob s) = Some n \<Longrightarrow> line_step v s (s\<lparr>oob := n\<rparr>)"
| line_subsystem: "registerSubsystemCb (routing s) sub cb = Inr (r, tbl) \<Longrightarrow> line_step v s (s\<lparr>routing := tbl\<rparr>)"

definition app_reached :: "line_env \<Rightarrow> line \<Rightarrow> bool" where
  "app_reached v s \<longleftrightarrow> reach (app_start (ln_app v)) (app_step (ln_app v)) (app s)"

definition routed :: "line \<Rightarrow> bool" where
  "routed s \<longleftrightarrow> length (routing s) = 15 \<and> routing s ! 4 = Some mt_handler.MT_AfCommandProcessing"

definition line_inv :: "line_env \<Rightarrow> line \<Rightarrow> bool" where
  "line_inv v s \<longleftrightarrow> line_env_wf v \<and> app_reached v s \<and> routed s \<and> 0 \<in> set (local_ids (world (app s)))"

lemma local_endpoints_ids: "map ep_id (local_endpoints s) = local_ids (world (app s))"
  by (simp add: local_endpoints_def local_ids_def)

text \<open>A message that no request takes may create an endpoint; nothing else of it can.\<close>

lemma set_endpoints_same: "set_endpoints (dev_endpoints (gateway (zdo (world i)))) i = i"
  by (simp add: set_endpoints_def set_gateway_def)

lemma indicated_endpoints:
  assumes "apsMessageIndicate handled m p es = (d, q, es')"
  shows "es' = es \<or> es' = snd (endpoints (dstEndpoint m) es)"
  using assms by (auto simp: apsMessageIndicate_def Let_def split: prod.splits option.splits)

lemma indicated_endpoints_EXT:
  assumes "apsMessageIndicate_EXT m p es = (d, q, es')"
  shows "es' = es \<or> es' = snd (endpoints (x_dstEndpoint m) es)"
  using assms by (auto simp: apsMessageIndicate_EXT_def split: prod.splits option.splits)

lemma endpoint_inv:
  assumes "line_inv v s" and "es = local_endpoints s \<or> es = snd (endpoints i (local_endpoints s))"
    and "app t = set_endpoints es (app s)" and "routing t = routing s"
  shows "line_inv v t"
proof -
  have "app_reached v t"
    using assms(2)
  proof
    assume "es = local_endpoints s"
    then show ?thesis using assms(1,3) by (simp add: line_inv_def app_reached_def local_endpoints_def set_endpoints_same)
  next
    assume "es = snd (endpoints i (local_endpoints s))"
    moreover have "app_step (ln_app v) (app s) (set_endpoints (snd (endpoints i (local_endpoints s))) (app s))"
      unfolding local_endpoints_def by (rule app_endpoint)
    ultimately show ?thesis using assms(1,3) by (auto simp: line_inv_def app_reached_def intro: reach_step)
  qed
  moreover have "set (map ep_id (local_endpoints s)) \<subseteq> set (map ep_id es)"
    using assms(2) by (auto simp: snd_endpoints)
  then have "0 \<in> set (local_ids (world (app t)))"
    using assms(1,3) by (auto simp: line_inv_def local_ids_def set_endpoints_def set_gateway_def local_endpoints_def)
  ultimately show ?thesis using assms(1,4) by (simp add: line_inv_def routed_def)
qed

lemma packet_step_cases:
  assumes "packet_step v p s = Inr (ds, t)"
  obtains (kick) k where "t = s\<lparr>oob := k\<rparr>" and "ds = []"
  | (other) "t = s" and "ds = []"
  | (message) m where "aps_message v m s = Inr (ds, t)"
  | (message_EXT) m where "aps_message_EXT m s = (ds, t)"
proof -
  obtain r sem route where r: "mtOOBRecv p (oob s) = Inr (r, sem)" "MT_ProcessIncoming (routing s) (\<lambda>_. r) p = Inr route"
    using assms by (auto simp: packet_step_def returns_iff)
  show thesis
  proof (cases route)
    case (Handled f)
    show ?thesis
    proof (cases "f = mt_handler.MT_AfCommandProcessing")
      case True
      then obtain st e where "AfMessage.MT_AfCommandProcessing True True (ln_message v) p = Inr (st, e)"
        using assms r Handled by (auto simp: packet_step_def returns_iff)
      then show ?thesis using assms r Handled True other message message_EXT by (cases e) (simp_all add: packet_step_def)
    qed (use assms r Handled other in \<open>simp add: packet_step_def\<close>)
  qed (use assms r kick other in \<open>auto simp: packet_step_def\<close>)
qed

lemma packet_inv:
  assumes "line_inv v s" and "packet_step v p s = Inr (ds, t)"
  shows "line_inv v t"
proof -
  have msg: "line_inv v t" if "aps_message v m s = Inr (ds, t)" for m
  proof -
    obtain d q es where i: "apsMessageIndicate (ln_handled v) m (pending s) (local_endpoints s) = (d, q, es)"
      using prod_cases3 by blast
    let ?u = "s\<lparr>pending := q, app := set_endpoints es (app s)\<rparr>"
    have u: "line_inv v ?u" by (rule endpoint_inv [OF assms(1) indicated_endpoints [OF i]]) simp_all
    show ?thesis
    proof (cases "d = ToEndpoint 0")
      case False
      with that i u show ?thesis by (simp add: aps_message_def Let_def)
    next
      case True
      with that i obtain a where a: "message_step (ln_app v) (ln_apduString v) (ln_alloc v (nodes (world (app ?u)))) m (app ?u) = Inr a"
        "t = ?u\<lparr>app := a\<rparr>" by (auto simp: aps_message_def Let_def returns_iff)
      have "ln_alloc v (nodes (world (app ?u))) \<notin> set (nodes (world (app ?u)))" using assms(1) by (simp add: line_inv_def line_env_wf_def)
      from app_message [OF this a(1)] u have "app_reached v t"
        by (auto simp: line_inv_def app_reached_def a(2) intro: reach_step)
      with u a(2) message_local_ids [OF a(1)] show ?thesis by (simp add: line_inv_def routed_def)
    qed
  qed
  have ext: "line_inv v t" if "aps_message_EXT m s = (ds, t)" for m
  proof -
    obtain d q es where i: "apsMessageIndicate_EXT m (pending_EXT s) (local_endpoints s) = (d, q, es)"
      using prod_cases3 by blast
    with that have "t = s\<lparr>pending_EXT := q, app := set_endpoints es (app s)\<rparr>" by (simp add: aps_message_EXT_def)
    then show ?thesis by (intro endpoint_inv [OF assms(1) indicated_endpoints_EXT [OF i]]) simp_all
  qed
  from assms(2) show ?thesis
  proof (cases rule: packet_step_cases)
    case (kick k)
    then show ?thesis using assms(1) by (simp add: line_inv_def app_reached_def routed_def)
  qed (use assms(1) msg ext in simp_all)
qed

lemma packets_inv: "line_inv v s \<Longrightarrow> packets v ps s = Inr (ds, t) \<Longrightarrow> line_inv v t"
proof (induction ps arbitrary: s ds)
  case (Cons p ps)
  then obtain es u fs where "packet_step v p s = Inr (es, u)" "packets v ps u = Inr (fs, t)" by (auto simp: returns_iff)
  with Cons packet_inv show ?case by blast
qed simp

lemma line_inv_step:
  assumes inv: "line_inv v s" and "line_step v s t"
  shows "line_inv v t"
  using assms(2)
proof cases
  case (line_bytes bytes ds)
  then obtain ser ps where "packets v ps (s\<lparr>serial := ser\<rparr>) = Inr (ds, t)" by (auto simp: line_signal_def returns_iff)
  moreover have "line_inv v (s\<lparr>serial := ser\<rparr>)" using inv by (simp add: line_inv_def app_reached_def routed_def)
  ultimately show ?thesis using packets_inv by blast
next
  case (line_request req rsp a)
  then have "app_reached v t" using inv app_request [OF line_request(2)]
    by (auto simp: line_inv_def app_reached_def intro: reach_step)
  moreover have "app_inv (ln_app v) (app s)" using inv app.inv_reach by (simp add: line_inv_def app_reached_def)
  from request_keeps(2) [OF this line_request(2)] have "0 \<in> set (local_ids (world (app t)))" using inv line_request(1) by (simp add: line_inv_def)
  ultimately show ?thesis using inv line_request(1) by (simp add: line_inv_def routed_def)
next
  case (line_replies r)
  have "app_step (ln_app v) (app s) (app t)" unfolding line_replies by (simp add: app_replies)
  then have "app_reached v t" using inv by (auto simp: line_inv_def app_reached_def intro: reach_step)
  then show ?thesis using inv line_replies by (simp add: line_inv_def routed_def local_ids_def)
next
  case (line_subsystem sub cb r tbl)
  then have "length tbl = 15 \<and> tbl ! 4 = Some mt_handler.MT_AfCommandProcessing"
    using inv by (auto simp: line_inv_def routed_def registerSubsystemCb_def returns_iff rd_def nth_list_update split: if_splits)
  then show ?thesis using inv line_subsystem(1) by (simp add: line_inv_def app_reached_def routed_def)
qed (use inv in \<open>simp_all add: line_inv_def app_reached_def routed_def\<close>)

lemma line_inv_start: "line_start v s \<Longrightarrow> line_inv v s"
  by (simp add: line_start_def line_inv_def app_reached_def routed_def reach_start StartMT_Af_def mtProcessIncoming_def)

interpretation line: invariant_system "line_start v" "line_step v" "line_inv v" for v
  by unfold_locales (rule line_inv_start, assumption, rule line_inv_step)

section \<open>Messages on the wire\<close>

definition as_received :: "AFMessage \<Rightarrow> byte list \<Rightarrow> byte list \<Rightarrow> AFMessage" where
  "as_received m payload rest =
     m\<lparr>dstAddr := 0, groupId := groupId m AND 0xFF, wasBroadCast := 0, securityUse := 0, asdu := payload @ rest, radius := 0,
       options := 0, dstAddrMode := 2\<rparr>"

lemma length_indication: "length (indication m payload) = 17 + length payload"
  by (simp add: indication_def)

lemma packet_indication:
  assumes "length payload \<le> 233" and "length (ln_message v) = 255" and "routed s"
  shows "\<exists>rest. packet_step v (frame 0x44 0x81 (indication m payload)) s = aps_message v (as_received m payload rest) s"
proof -
  let ?n = "17 + length payload" and ?p = "frame 0x44 0x81 (indication m payload)"
  have p: "?p = of_nat ?n # 0x44 # 0x81 # indication m payload @ [xor_bytes (frame_body 0x44 0x81 (indication m payload))]"
    by (simp add: frame_def frame_body_def length_indication)
  have un: "unat (of_nat ?n :: byte) = ?n" using assms(1) unat_len [of "indication m payload"] by (simp add: length_indication)
  obtain rest where rest: "AfMessage.MT_AfCommandProcessing True True (ln_message v) ?p = Inr (0, AFMsg_Ind (as_received m payload rest))"
    using incoming_message [OF assms(1,2), where m = m and tail = "[xor_bytes (frame_body 0x44 0x81 (indication m payload))]"]
    unfolding p as_received_def Let_def by blast
  have oob: "mtOOBRecv ?p (oob s) = Inr (-1, oob s)" by (simp add: p mtOOBRecv_def rd_def)
  have "of_nat ?n \<le> MT_RPC_DATA_MAX" unfolding word_le_nat_alt un using assms(1) by (simp add: mt_consts)
  then have "MT_ProcessIncoming (routing s) (\<lambda>_. -1) ?p = Inr (Handled mt_handler.MT_AfCommandProcessing)"
    using assms(3) by (subst MT_ProcessIncoming_eq) (simp_all add: p routed_def subsystem_of_def mt_consts del: of_nat_add)
  with oob rest show ?thesis by (intro exI [of _ rest]) (simp add: packet_step_def)
qed

section \<open>Requests of the ZigBee device objects\<close>

text \<open>The array of an \<^verbatim>\<open>APDU\<close> whose frame is \<open>zcl\<close>.\<close>

lemma APDU_bytes:
  assumes "length junk = 255" and "length zcl \<le> 245"
  shows "APDU junk nwk cid zcl = le_bytes 2 nwk @ [0, 0] @ le_bytes 2 cid @ [0, 0, 3, of_nat (length zcl)] @ zcl @ drop (10 + length zcl) junk"
proof -
  have "Suc (Suc (Suc (Suc (Suc (Suc (Suc (Suc (Suc (Suc 0))))))))) \<le> length junk" using assms(1) by simp
  then obtain x0 x1 x2 x3 x4 x5 x6 x7 x8 x9 r where "junk = x0 # x1 # x2 # x3 # x4 # x5 # x6 # x7 # x8 # x9 # r"
    by (auto simp: Suc_le_length_iff)
  moreover have "drop (10 + n) xs = drop n (drop 10 xs)" for n and xs :: "byte list" by (simp add: add.commute)
  ultimately show ?thesis
    by (simp add: APDU_def Let_def proxyWr_def blit_def le_bytes_2 del: drop_drop)
qed

lemma APDU_fields:
  assumes "length junk = 255" and "length zcl \<le> 245"
  shows "asduLen (kr_afmessage (APDU junk nwk cid zcl)) = of_nat (length zcl)"
    and "clusterId (kr_afmessage (APDU junk nwk cid zcl)) = cid"
    and "asdu (kr_afmessage (APDU junk nwk cid zcl)) = zcl @ drop (10 + length zcl) junk"
    and "length (APDU junk nwk cid zcl) = 255"
  using assms by (simp_all add: APDU_bytes kr_afmessage_def proxyRd_def slice_def nth_append)

section \<open>Properties\<close>


text \<open>
  C11: Whatever bytes arrive and whatever else happens, in any order, as long as no step is undefined: the devices have
  different IEEE addresses and live at different addresses, one for each; the gateway's endpoints have different ids, so
  there are at most 256, and endpoint 0 is one of them; messages are routed to the AF handler; and the handlers of leave
  requests and of the device list are in place.
\<close>

theorem gateway_invariant:
  assumes "reach (line_start v) (line_step v) s"
  shows "distinct (map ieee_id (devices (world (app s)))) \<and> length (nodes (world (app s))) = length (devices (world (app s))) \<and>
    distinct (nodes (world (app s))) \<and>
    distinct (map ep_id (local_endpoints s)) \<and> length (local_endpoints s) \<le> 256 \<and> 0 \<in> ep_id ` set (local_endpoints s) \<and>
    routing s ! 4 = Some mt_handler.MT_AfCommandProcessing \<and>
    fst (trigger Application leave_uri ctx_type (repo (app s))) =
      [Mgmt_Leave_handler (en_loads (ln_app v)) (en_dumps (ln_app v)) (en_disk (ln_app v))] \<and>
    fst (trigger Application (str ''devices'') ctx_type (repo (app s))) = [devices_handler (en_dumps (ln_app v))]"
proof -
  have inv: "line_inv v s" by (rule line.inv_reach [OF assms])
  then have r: "reach (app_start (ln_app v)) (app_step (ln_app v)) (app s)" by (simp add: line_inv_def app_reached_def)
  have d: "distinct (map ep_id (local_endpoints s))"
    using app.inv_reach [OF r] by (simp add: app_inv_def world_wf_def local_endpoints_def)
  have "length (map ep_id (local_endpoints s)) \<le> card (UNIV :: byte set)"
    unfolding distinct_card [OF d, symmetric] by (rule card_mono) simp_all
  with inv d application_invariant [OF r] show ?thesis
    by (simp add: line_inv_def routed_def card_word flip: local_endpoints_ids)
qed

lemma indication_frames: "packets v (map body_of [(0x44, 0x81, indication m payload)]) s = packets v [frame 0x44 0x81 (indication m payload)] s"
  by (simp add: body_of_def)

text \<open>A single indication, received in any number of signals.\<close>

lemma indication_signals:
  assumes inv: "line_inv v s" and "ser_wf (serial s)" and "contents (serial s) = []" and "\<forall>b \<in> set bs. length b \<le> 256"
    and "concat bs = wire [(0x44, 0x81, indication m payload)]" and "length payload \<le> 233"
  obtains rest ser where "ser_wf ser" and "contents ser = []"
    and "signals v bs s = with_serial ser (aps_message v (as_received m payload rest) s)"
proof -
  have "\<forall>(ctype, cid, d) \<in> set [(0x44 :: byte, 0x81 :: byte, indication m payload)]. length d \<le> 252"
    using assms(6) by (simp add: length_indication)
  moreover have "length (contents (serial s)) = 0" using assms(3) by simp
  then have "SerBufInLen (serial s) \<le> 256" by (simp only: length_contents)
  moreover have v: "length (ln_packet v) = 256" "length (ln_message v) = 255" "routed s"
    using inv by (simp_all add: line_inv_def line_env_wf_def)
  ultimately obtain ser where ser: "ser_wf ser" "contents ser = []"
    "signals v bs s = with_serial ser (packets v (map body_of [(0x44, 0x81, indication m payload)]) s)"
    using signals_frames [OF assms(2) v(1) assms(4), of "[(0x44, 0x81, indication m payload)]"] assms(3,5)
    by (auto simp: incomplete_def simp del: packets.simps)
  obtain rest where "packet_step v (frame 0x44 0x81 (indication m payload)) s = aps_message v (as_received m payload rest) s"
    using packet_indication [OF assms(6) v(2,3)] by blast
  then have "packets v (map body_of [(0x44, 0x81, indication m payload)]) s = aps_message v (as_received m payload rest) s"
    unfolding indication_frames by (cases "aps_message v (as_received m payload rest) s") auto
  with ser that show thesis by simp
qed


text \<open>What such a request puts on the line.\<close>

lemma zdo_request_bytes:
  assumes "length junk = 255" and "length zcl \<le> 242" and "length buf = 256" and "length p = 15 + length zcl"
  shows "\<exists>msg. MT_AfDataRequest buf (kr_afmessage (APDU junk nwk cid zcl)) = Inr msg \<and>
    mtBuildAndSendCmd (Some p) msg = Inr (Some (wire [(0x24, 0x01, le_bytes 2 nwk @ [0, 0] @ le_bytes 2 cid @ [0, 0, 3, of_nat (length zcl)] @ zcl)]))"
proof -
  let ?d = "APDU junk nwk cid zcl" and ?n = "length zcl"
  let ?b = "le_bytes 2 nwk @ [0, 0] @ le_bytes 2 cid @ [0, 0, 3, of_nat ?n] @ zcl"
  have z: "length zcl \<le> 245" using assms(2) by simp
  have d: "?d = ?b @ drop (10 + ?n) junk" using APDU_bytes [OF assms(1) z] by simp
  have l: "length ?b = 10 + ?n" by simp
  have "take (length xs) (xs @ ys) = xs" for xs ys :: "byte list" by simp
  from this [of ?b "drop (10 + ?n) junk"] have b: "length ?b = 10 + ?n" "take (10 + ?n) ?d = ?b"
    unfolding l d by simp_all
  have bl: "blit buf 0 ?b = ?b @ drop (10 + ?n) buf" unfolding blit_def l by simp
  have "unat (asduLen (kr_afmessage ?d)) = ?n" using z assms(1) by (simp add: APDU_fields unat_of_nat)
  from data_request [OF APDU_fields(4) [OF assms(1) z] assms(3) this z]
  have msg: "MT_AfDataRequest buf (kr_afmessage ?d) = Inr (MtCommands.request 0x24 0x01 (of_nat (length ?b)) (?b @ drop (10 + ?n) buf))"
    unfolding b(2) bl l .
  have "(length ?b + 3) mod 256 = length ?b + 3" using b(1) assms(2) by simp
  moreover have "MTBuildAndSendCmd (Some p) 0x24 0x01 (of_nat (length ?b)) (Some (?b @ drop (10 + ?n) buf)) =
      Inr (Some (MT_SOF # frame_body 0x24 0x01 ?b @ [xor_bytes (take ((length ?b + 3) mod 256) (frame_body 0x24 0x01 ?b))]))"
    by (rule MTBuildAndSendCmd_eq) (use b(1) assms(2,4) in simp_all)
  ultimately have "mtBuildAndSendCmd (Some p) (MtCommands.request 0x24 0x01 (of_nat (length ?b)) (?b @ drop (10 + ?n) buf)) = Inr (Some (wire [(0x24, 0x01, ?b)]))"
    by (simp add: mtBuildAndSendCmd_def MtCommands.request_def frame_def frame_body_def body_of_def)
  with msg show ?thesis by blast
qed

text \<open>
  C32: A ZigBee request goes out as one data request frame that carries address, cluster and payload, and its predicate
  accepts exactly the messages for endpoint 0 with the cluster of the answer and the sequence number of the request.
\<close>

theorem zdo_request_on_wire:
  assumes "length junk = 255" and "length body \<le> 241" and "length buf = 256" and "length p = 16 + length body"
  shows "let req = kr_afmessage (APDU junk nwk cid (c # body)) in
    (\<exists>msg. MT_AfDataRequest buf req = Inr msg \<and> mtBuildAndSendCmd (Some p) msg =
       Inr (Some (wire [(0x24, 0x01, le_bytes 2 nwk @ [0, 0] @ le_bytes 2 cid @ [0, 0, 3, of_nat (length body + 1), c] @ body)]))) \<and>
    (\<forall>m c' body' rest. zdpPred req (as_received m (c' # body') rest) \<longleftrightarrow>
       c' = c \<and> clusterId m = 0x8000 OR cid \<and> dstEndpoint m = 0)"
proof -
  have len: "length (c # body) \<le> 242" "length p = 15 + length (c # body)" "length (c # body) \<le> 245" using assms(2,4) by simp_all
  show ?thesis
    using zdo_request_bytes [OF assms(1) len(1) assms(3) len(2)] APDU_fields [OF assms(1) len(3)]
    by (simp add: Let_def zdpPred_def as_received_def)
qed

lemma announced:
  assumes "reach (line_start v) (line_step v) s" and "ser_wf (serial s)" and "contents (serial s) = []" and "ln_handled v 0"
    and "\<forall>x \<in> set (buffer (pending s)). \<forall>i. clusterId i = 0x0013 \<longrightarrow> \<not> pred (snd x) i"
    and "\<forall>b \<in> set bs. length b \<le> 256"
    and "concat bs = wire [(0x44, 0x81, indication m (t # le_bytes 2 (nwk :: u16) @ le_bytes 8 (ieee :: u64) @ [cap]))]"
    and "clusterId m = 0x0013" and "asduLen m = 12" and "dstEndpoint m = 0"
    and "assocs64 ieee (gateway (zdo (world (app s)))) = (k, g)"
    and "query_device (en_libs (ln_app v)) (dev_endpoints g) (en_junk (ln_app v)) (replies (world (app s)))
           ((dev_assocs g ! k)\<lparr>dev_id := nwk, ieee_id := ieee, dev_capability := cap\<rparr>, zar (zdo (world (app s)))) = Inr (d, z)"
  shows "\<exists>u. signals v bs s = Inr ([ToEndpoint 0], u) \<and> contents (serial u) = [] \<and> pending u = pending s \<and>
    devices (world (app u)) = (dev_assocs g)[k := d] \<and> zar (zdo (world (app u))) = z \<and> dev_id d = nwk \<and> ieee_id d = ieee \<and> dev_capability d = cap \<and>
    (\<forall>e req rq j d'. e \<in> set (dev_endpoints d) \<and>
       newpeer_paired (en_libs (ln_app v)) (dev_endpoints (gateway (zdo (world (app s))))) (replies (world (app s))) d e \<and>
       en_loads (ln_app v) req = Some rq \<and> path_uri (member ''path'' (Some rq)) = Device_uri d @ [0x2f] \<and>
       nodeSnapshot_Device (en_junk (ln_app v)) d = Inr (j, d') \<longrightarrow>
       (\<exists>a. request_step (ln_app v) req (app u) = Inr (stringify (en_dumps (ln_app v)) j, a)))"
proof -
  let ?pl = "t # le_bytes 2 nwk @ le_bytes 8 ieee @ [cap]" and ?w = "world (app s)"
  have inv: "line_inv v s" by (rule line.inv_reach [OF assms(1)])
  have len: "length ?pl \<le> 233" by simp
  obtain rest ser where w: "ser_wf ser" "contents ser = []"
    "signals v bs s = with_serial ser (aps_message v (as_received m ?pl rest) s)"
    by (rule indication_signals [OF inv assms(2,3,6,7) len])
  let ?m = "as_received m ?pl rest"
  have m: "clusterId ?m = 0x0013" "asduLen ?m = 12" "dstEndpoint ?m = 0"
    "asdu ?m = t # le_bytes 2 nwk @ le_bytes 8 ieee @ cap # rest"
    using assms(8-10) by (simp_all add: as_received_def)
  have "0 \<in> ep_id ` set (local_endpoints s)" using inv by (simp add: line_inv_def flip: local_endpoints_ids)
  then have "apsMessageIndicate (ln_handled v) ?m (pending s) (local_endpoints s) = (ToEndpoint 0, pending s, local_endpoints s)"
    using assms(4,5) m(1,3) by (subst indicated_none) (auto simp: Let_def)
  then have aps: "aps_message v ?m s = bindE (message_step (ln_app v) (ln_apduString v) (ln_alloc v (nodes ?w)) ?m (app s)) (\<lambda>a.
      Inr ([ToEndpoint 0], s\<lparr>app := a\<rparr>))"
    by (simp add: aps_message_def Let_def local_endpoints_def set_endpoints_same)
  have zc: "zdo_callback (en_libs (ln_app v)) (en_junk (ln_app v)) (ln_apduString v) (replies ?w) ?m (zdo ?w) =
      Inr \<lparr>gateway = set_assoc k d g, zar = z\<rparr>"
    by (subst annce_frame [OF m(1,2,4) assms(11)]) (simp add: assms(12))
  then obtain a where a: "message_step (ln_app v) (ln_apduString v) (ln_alloc v (nodes ?w)) ?m (app s) = Inr a"
    by (simp add: message_step_def zdo_message_def Let_def)
  obtain y where "zdo_callback (en_libs (ln_app v)) (en_junk (ln_app v)) (ln_apduString v) (replies ?w) ?m (zdo ?w) = Inr y"
    "world a = world_after (ln_alloc v (nodes ?w)) y ?w" by (rule message_effect [OF a])
  with zc have dev: "devices (world a) = (dev_assocs g)[k := d]" and zar: "zar (zdo (world a)) = z"
    by (simp_all add: world_after_def set_assoc_def)
  have "message_preprocess ?m 12 True = Inr (Some (3, nwk))"
    using m by (intro preprocess_request) (simp_all add: ZDO_RESPONSE_BIT_def)
  then have ann: "annce_ieee ?m = Some ieee" using m(1,4) by (simp add: annce_ieee_def slice_def)
  note q = query_device_keeps [OF assms(12)]
  have "k < length (dev_assocs g)" using assocs64_cases [OF assms(11)] by auto
  then have mem: "d \<in> set (devices (world a))" unfolding dev by (rule set_update_memI)
  have fresh: "ln_alloc v (nodes ?w) \<notin> set (nodes ?w)" using inv by (simp add: line_inv_def line_env_wf_def)
  have "reach (app_start (ln_app v)) (app_step (ln_app v)) (app s)" using inv by (simp add: line_inv_def app_reached_def)
  note answer = joined_device_answers [OF this fresh a _ mem]
  have sig: "signals v bs s = Inr ([ToEndpoint 0], s\<lparr>app := a, serial := ser\<rparr>)" using w(3) aps a by simp
  show ?thesis
  proof (intro exI [of _ "s\<lparr>app := a, serial := ser\<rparr>"] conjI allI impI; (elim conjE)?)
    fix e req rq j d'
    assume "e \<in> set (dev_endpoints d)" "newpeer_paired (en_libs (ln_app v)) (dev_endpoints (gateway (zdo ?w))) (replies ?w) d e"
      "en_loads (ln_app v) req = Some rq" "path_uri (member ''path'' (Some rq)) = Device_uri d @ [0x2f]"
      "nodeSnapshot_Device (en_junk (ln_app v)) d = Inr (j, d')"
    from answer [OF _ this] ann q show "\<exists>x. request_step (ln_app v) req (app (s\<lparr>app := a, serial := ser\<rparr>)) = Inr (stringify (en_dumps (ln_app v)) j, x)"
      by auto
  qed (use sig w dev zar q in simp_all)
qed

text \<open>
  C8: A device that announces itself on the line is answered for.  If its announcement arrives, in any number of
  signals, while no pending request asks for announcements, it goes to endpoint 0; the device is in the network with the
  address, IEEE address and capability announced and what the interview told; and if one of its endpoints is paired with a
  local one, a request for its URI is answered with its snapshot.
\<close>

theorem announcement_on_wire:
  assumes "reach (line_start v) (line_step v) s" and "ser_wf (serial s)" and "contents (serial s) = []" and "ln_handled v 0"
    and "\<forall>x \<in> set (buffer (pending s)). \<forall>i. clusterId i = 0x0013 \<longrightarrow> \<not> pred (snd x) i"
    and "\<forall>b \<in> set bs. length b \<le> 256"
    and "concat bs = wire [(0x44, 0x81, indication m (t # le_bytes 2 (nwk :: u16) @ le_bytes 8 (ieee :: u64) @ [cap]))]"
    and "clusterId m = 0x0013" and "asduLen m = 12" and "dstEndpoint m = 0"
    and "assocs64 ieee (gateway (zdo (world (app s)))) = (k, g)"
    and "query_device (en_libs (ln_app v)) (dev_endpoints g) (en_junk (ln_app v)) (replies (world (app s)))
           ((dev_assocs g ! k)\<lparr>dev_id := nwk, ieee_id := ieee, dev_capability := cap\<rparr>, zar (zdo (world (app s)))) = Inr (d, z)"
  shows "\<exists>u. signals v bs s = Inr ([ToEndpoint 0], u) \<and> contents (serial u) = [] \<and> pending u = pending s \<and>
    devices (world (app u)) = (dev_assocs g)[k := d] \<and> dev_id d = nwk \<and> ieee_id d = ieee \<and> dev_capability d = cap \<and>
    (\<forall>e req rq j d'. e \<in> set (dev_endpoints d) \<and>
       newpeer_paired (en_libs (ln_app v)) (dev_endpoints (gateway (zdo (world (app s))))) (replies (world (app s))) d e \<and>
       en_loads (ln_app v) req = Some rq \<and> path_uri (member ''path'' (Some rq)) = Device_uri d @ [0x2f] \<and>
       nodeSnapshot_Device (en_junk (ln_app v)) d = Inr (j, d') \<longrightarrow>
       (\<exists>a. request_step (ln_app v) req (app u) = Inr (stringify (en_dumps (ln_app v)) j, a)))"
  using announced [OF assms] by blast

section \<open>Witnesses\<close>

text \<open>The gateway with the switch, before the lamp's announcement arrives in two signals.\<close>

definition lamp_line_env :: line_env where
  "lamp_line_env = \<lparr>ln_app = lamp_env, ln_handled = (\<lambda>e. e = 0), ln_packet = replicate 256 0, ln_message = replicate 255 0,
     ln_apduString = replicate 128 0, ln_alloc = \<lambda>ns. Suc (sum_list ns)\<rparr>"

definition lamp_line :: line where
  "lamp_line = \<lparr>serial = MTIntfInit, routing = StartMT_Af mtProcessIncoming, oob = 1, pending = no_handlers,
     pending_EXT = no_handlers, app = lamp_start\<rparr>"

definition lamp_bits :: "byte list" where
  "lamp_bits = wire [(0x44, 0x81, indication bulb_annce (7 # le_bytes 2 (0x4567 :: u16) @ le_bytes 8 (0x00124B0001020304 :: u64) @ [0x8E]))]"

lemma lamp_line_env_wf: "line_env_wf lamp_line_env"
  using member_le_sum_list by (fastforce simp: line_env_wf_def lamp_line_env_def)

lemma lamp_line_start: "line_start lamp_line_env lamp_line"
  using lamp_line_env_wf
  by (simp add: line_start_def lamp_line_def lamp_line_env_def app_start_def lamp_start_def lamp_hub_def hub_def switch_ep_def
      new_Endpoint_def local_ids_def)

lemma lamp_line_reach: "reach (line_start lamp_line_env) (line_step lamp_line_env) lamp_line"
  by (rule reach_start) (rule lamp_line_start)

lemma lamp_serial: "ser_wf (serial lamp_line)" "contents (serial lamp_line) = []" "SerBufInLen (serial lamp_line) = 0"
  by (simp_all add: lamp_line_def ser_wf_def MTIntfInit_def serial_consts contents_def)


theorem gateway_invariant_witness:
  "distinct (map ep_id (local_endpoints lamp_line)) \<and> length (local_endpoints lamp_line) \<le> 256"
  using gateway_invariant [OF lamp_line_reach] by blast

text \<open>A request for the endpoints of the lamp, its frame, and the answer.\<close>

definition lamp_request :: "byte list" where
  "lamp_request = APDU (replicate 255 0) 0x4567 0x0005 [1, 0x67, 0x45]"

definition lamp_answer :: AFMessage where
  "lamp_answer = bulb_annce\<lparr>clusterId := 0x8005, asduLen := 6\<rparr>"

theorem zdo_request_on_wire_witness:
  "\<exists>msg. MT_AfDataRequest (replicate 256 0) (kr_afmessage lamp_request) = Inr msg \<and>
     mtBuildAndSendCmd (Some (replicate 18 0)) msg =
       Inr (Some [0xFE, 13, 0x24, 0x01, 0x67, 0x45, 0, 0, 5, 0, 0, 0, 3, 3, 1, 0x67, 0x45, 0x2C])"
proof -
  have "frame 0x24 0x01 [0x67, 0x45, 0, 0, 5, 0, 0, 0, 3, 3, 1, 0x67, 0x45] = [13, 0x24, 0x01, 0x67, 0x45, 0, 0, 5, 0, 0, 0, 3, 3, 1, 0x67, 0x45, 0x2C]"
    by (simp add: frame_def frame_body_def)
  moreover have "le_bytes 2 (0x4567 :: u16) = [0x67, 0x45]" "le_bytes 2 (0x0005 :: u16) = [5, 0]" by (simp_all add: le_bytes_2)
  ultimately show ?thesis
    using zdo_request_on_wire [of "replicate 255 0" "[0x67, 0x45]" "replicate 256 0" "replicate 18 0" "0x4567" "0x0005" 1]
    by (simp add: lamp_request_def Let_def body_of_def MT_SOF_def)
qed


theorem announcement_on_wire_witness:
  "\<exists>u a. signals lamp_line_env [take 7 lamp_bits, drop 7 lamp_bits] lamp_line = Inr ([ToEndpoint 0], u) \<and>
     devices (world (app u)) = [lamp] \<and> request_step lamp_env [2] (app u) = Inr ([4], a)"
proof -
  obtain z where q: "query_device lamp_lib (dev_endpoints lamp_hub) (replicate 64 0) lamp_reply (bulb\<lparr>dev_active := 0\<rparr>, None) = Inr (lamp, z)"
    using lamp_query by blast
  have g: "assocs64 0x00124B0001020304 lamp_hub = (0, lamp_hub\<lparr>dev_assocs := [new_Device 0x0304]\<rparr>)"
    by (simp add: assocs64_def find_if_def lamp_hub_def hub_def new_Device_def)
  obtain j d' where j: "nodeSnapshot_Device (en_junk lamp_env) lamp = Inr (j, d')" "stringify (en_dumps lamp_env) j = [4]"
    by (simp add: nodeSnapshot_Device_def nodeSnapshot_Endpoint_def lamp_def lamp_ep_def lamp_env_def new_Endpoint_def device_json_def
        stringify_def case_prod_unfold)
  have b: "(new_Device 0x0304)\<lparr>dev_id := 0x4567, ieee_id := 0x00124B0001020304, dev_capability := 0x8E\<rparr> = bulb\<lparr>dev_active := 0\<rparr>"
    by (simp add: bulb_def new_Device_def)
  have "length lamp_bits = 34" by (simp add: lamp_bits_def body_of_def frame_def frame_body_def length_indication)
  then have "\<exists>u. signals lamp_line_env [take 7 lamp_bits, drop 7 lamp_bits] lamp_line = Inr ([ToEndpoint 0], u) \<and> contents (serial u) = [] \<and>
    pending u = pending lamp_line \<and> devices (world (app u)) = (dev_assocs (lamp_hub\<lparr>dev_assocs := [new_Device 0x0304]\<rparr>))[0 := lamp] \<and>
    dev_id lamp = 0x4567 \<and> ieee_id lamp = 0x00124B0001020304 \<and> dev_capability lamp = 0x8E \<and>
    (\<forall>e req rq j d'. e \<in> set (dev_endpoints lamp) \<and>
       newpeer_paired (en_libs (ln_app lamp_line_env)) (dev_endpoints (gateway (zdo (world (app lamp_line))))) (replies (world (app lamp_line))) lamp e \<and>
       en_loads (ln_app lamp_line_env) req = Some rq \<and> path_uri (member ''path'' (Some rq)) = Device_uri lamp @ [0x2f] \<and>
       nodeSnapshot_Device (en_junk (ln_app lamp_line_env)) lamp = Inr (j, d') \<longrightarrow>
       (\<exists>a. request_step (ln_app lamp_line_env) req (app u) = Inr (stringify (en_dumps (ln_app lamp_line_env)) j, a)))"
    by (intro announcement_on_wire [where m = bulb_annce and t = 7 and z = z, OF lamp_line_reach lamp_serial(1,2)])
      (use q g b in \<open>simp_all add: lamp_line_env_def lamp_line_def no_handlers_def lamp_bits_def bulb_annce_def lamp_start_def lamp_env_def lamp_hub_def\<close>)
  then obtain u where u: "signals lamp_line_env [take 7 lamp_bits, drop 7 lamp_bits] lamp_line = Inr ([ToEndpoint 0], u)"
    "devices (world (app u)) = [lamp]"
    "\<exists>a. request_step (ln_app lamp_line_env) [2] (app u) = Inr (stringify (en_dumps (ln_app lamp_line_env)) j, a)"
    using lamp_facts(2-5) j(1) by (auto simp: lamp_line_env_def lamp_line_def)
  then show ?thesis using j(2) by (auto simp: lamp_line_env_def)
qed

end
