(* ===== verification/Startup.thy ===== *)
theory Startup
  imports Inbound
begin

text \<open>
  The start of the program, from \<^verbatim>\<open>aps::init\<close> to the end of \<^verbatim>\<open>remoteIntfInit\<close> in \<^verbatim>\<open>main\<close> (kappaio.cpp):
  \<^verbatim>\<open>startZDO\<close> of zdo/source/zdo.cpp with the recovery of the archived devices, which registers the
  handlers of those that are paired again.  What the coprocessor needs before (\<^verbatim>\<open>hal_init\<close>,
  \<^verbatim>\<open>StartSystem\<close>, \<^verbatim>\<open>start_zdo\<close>) is in Hal; its outcome does not matter here.
\<close>

section \<open>Recovery\<close>

text \<open>
  An endpoint of an archived device that \<^verbatim>\<open>aps_newpeer_handle\<close> pairs.  The texts have been read by
  \<^verbatim>\<open>recover_device\<close> before.
\<close>

definition recovered_paired :: "(byte \<Rightarrow> profile_lib) \<Rightarrow> Endpoint list \<Rightarrow> json \<Rightarrow> Endpoint \<Rightarrow> bool" where
  "recovered_paired libs lcls dev e \<longleftrightarrow>
     (let sd = json_toString (json_at ''SimpleDescApdu'' (json_at (hexkey (ep_id e)) (json_at ''endpointList'' dev))) in
      ep_id e \<noteq> 0 \<and> 0 < length sd \<and>
      (case bindE (hexStrToByteVec sd) simple_desc_req_apdu_process of
         Inl _ \<Rightarrow> False
       | Inr d \<Rightarrow> fst (aps_newpeer_handle libs lcls (e\<lparr>simpleDescriptor := d\<rparr>)) = 0))"

text \<open>One member of the archive; \<open>a\<close> is the address a new device gets.\<close>

definition recover_one :: "app_env \<Rightarrow> nat \<Rightarrow> json \<Rightarrow> app_world interface \<Rightarrow> ub + app_world interface" where
  "recover_one v a dev s =
     (let w = world s; g = gateway (zdo w) in
      bindE (toInteger (json_at ''nwkAddr'' dev)) (\<lambda>nwk.
      bindE (recover_device (en_libs v) dev g) (\<lambda>g'.
        let w' = world_after a ((zdo w)\<lparr>gateway := g'\<rparr>) w;
            k = fst (assocs16 (ucast nwk) g)
        in Inr (s\<lparr>world := w',
             repo := register_peers (en_dumps v) (en_junk v) (recovered_paired (en_libs v) (dev_endpoints g) dev)
               (devices w' ! k) (nodes w' ! k) (repo s)\<rparr>))))"

fun recover_members :: "app_env \<Rightarrow> (nat list \<Rightarrow> nat) \<Rightarrow> (string \<times> json) list \<Rightarrow> app_world interface \<Rightarrow> ub + app_world interface" where
  "recover_members v alloc [] s = Inr s"
| "recover_members v alloc (m # ms) s =
     bindE (recover_one v (alloc (nodes (world s))) (snd m) s) (recover_members v alloc ms)"

text \<open>
  \<^verbatim>\<open>recoverEndpoint\<close> on the whole program.  Without a readable archive it clears the file, asks for the
  coprocessor's network state to be cleared and for a restart in a second, and returns.
\<close>

definition recover_all :: "app_env \<Rightarrow> (nat list \<Rightarrow> nat) \<Rightarrow> app_world interface \<Rightarrow> ub + (int \<times> app_world interface)" where
  "recover_all v alloc s =
     (case zar (zdo (world s)) of
        None \<Rightarrow> Inr (-1, s\<lparr>world := (world s)\<lparr>zdo := (zdo (world s))\<lparr>zar := Some (JObj [])\<rparr>\<rparr>\<rparr>)
      | Some (JObj ms) \<Rightarrow> bindE (recover_members v alloc ms s) (\<lambda>s. Inr (0, s))
      | Some _ \<Rightarrow> Inr (0, s))"

section \<open>startZDO and main\<close>

text \<open>The network is closed; what the answer says is not looked at.  \<^verbatim>\<open>0xff\<close> is the initial status.\<close>

definition startZDO :: "app_env \<Rightarrow> (nat list \<Rightarrow> nat) \<Rightarrow> app_world interface \<Rightarrow> ub + app_world interface" where
  "startZDO v alloc s =
     (let s = set_endpoints (snd (endpoints 0 (dev_endpoints (gateway (zdo (world s)))))) s in
      bindE (recover_all v alloc s) (\<lambda>(_, s).
      bindE (Mgmt_Permit_Joining_req (replies (world s)) 0xff) (\<lambda>_.
        Inr (s\<lparr>repo := zdo_handlers (en_loads v) (en_dumps v) (en_disk v) (ep0_uri (gateway (zdo (world s)))) (repo s)\<rparr>))))"

text \<open>\<open>ieee\<close> is what \<^verbatim>\<open>get_ieee_id\<close> returns.\<close>

definition new_Gateway :: "u64 \<Rightarrow> Gateway" where
  "new_Gateway ieee = \<lparr>dev_id = 0, ieee_id = ieee, dev_capability = 0, nodeDescriptor = node_descriptor_0, dev_endpoints = [],
     dev_active = 0, dev_assocs = []\<rparr>"

text \<open>\<open>es\<close> are the endpoints that the plugins make; \<open>z\<close> the archive, \<open>n\<close> the files of the remote interface.\<close>

definition boot ::
    "app_env \<Rightarrow> (nat list \<Rightarrow> nat) \<Rightarrow> u64 \<Rightarrow> Endpoint list \<Rightarrow> archive \<Rightarrow> net_world \<Rightarrow> zdp_reply \<Rightarrow> ub + app_world interface" where
  "boot v alloc ieee es z n r =
     (let self = new_Gateway ieee;
          s = \<lparr>Contexts = [], repo = SelfInit (en_dumps v) (en_junk v) self [],
               world = \<lparr>zdo = \<lparr>gateway = self, zar = z\<rparr>, nodes = [], net = n, replies = r\<rparr>\<rparr>
      in bindE (startZDO v alloc (set_endpoints es s)) (\<lambda>s.
           Inr (s\<lparr>repo := app_init on_net (app_handlers (en_loads v) (en_dumps v) (en_net_disk v) (en_registry_disk v)
             (en_hwAddr v) (en_time v) (en_server v)) (repo s)\<rparr>)))"

section \<open>What the recovery does\<close>

text \<open>The texts of the archive are never decoded: an odd one gives no bytes, any other one but the empty one is overrun.\<close>

lemma hexStrToByteVec_empty: "hexStrToByteVec t = Inr v \<Longrightarrow> v = []"
proof -
  assume v: "hexStrToByteVec t = Inr v"
  show "v = []"
  proof (cases "odd (length t) \<or> t = []")
    case True
    with v show ?thesis by (auto simp: hexStrToByteVec_def)
  next
    case False
    then have "2 \<le> length t" by (cases t rule: list.exhaust; cases "tl t") auto
    then have "hexStrToByteVec_loop (t @ [0]) (length t) 0 [] = Inl OobRead"
      by (intro hexStrToByteVec_loop_oob) simp_all
    with v False show ?thesis by (simp add: hexStrToByteVec_def)
  qed
qed

lemma recover_device_undefined: "\<exists>e. recover_device libs dev g = Inl e"
proof (rule ccontr)
  assume "\<not> ?thesis"
  then obtain g' where "recover_device libs dev g = Inr g'" by (cases "recover_device libs dev g") auto
  then obtain v nd where "hexStrToByteVec (json_toString (json_at ''NodeDescApduString'' dev)) = Inr v" "node_desc_req_apdu_process v = Inr nd"
  proof -
    obtain nwk where "toInteger (json_at ''nwkAddr'' dev) = Inr nwk"
      using \<open>recover_device libs dev g = Inr g'\<close> by (auto simp: recover_device_def returns_iff)
    moreover obtain k g1 where "assocs16 (ucast nwk) g = (k, g1)" by fastforce
    ultimately show thesis using that \<open>recover_device libs dev g = Inr g'\<close> by (auto simp: recover_device_def returns_iff Let_def)
  qed
  with hexStrToByteVec_empty show False by (auto simp: node_desc_req_apdu_process_def rd_def)
qed

lemma recover_one_undefined: "\<exists>e. recover_one v a dev s = Inl e"
  using recover_device_undefined [of "en_libs v" dev "gateway (zdo (world s))"]
  by (cases "toInteger (json_at ''nwkAddr'' dev)") (auto simp: recover_one_def Let_def)

lemma recover_all_cases:
  "recover_all v alloc s = Inr (i, t) \<longleftrightarrow>
     (zar (zdo (world s)) = None \<and> i = -1 \<and> t = s\<lparr>world := (world s)\<lparr>zdo := (zdo (world s))\<lparr>zar := Some (JObj [])\<rparr>\<rparr>\<rparr>) \<or>
     (zar (zdo (world s)) \<noteq> None \<and> (\<forall>m ms. zar (zdo (world s)) \<noteq> Some (JObj (m # ms))) \<and> i = 0 \<and> t = s)"
proof (cases "zar (zdo (world s))")
  case (Some j)
  show ?thesis
  proof (cases j)
    case (JObj ms)
    show ?thesis
    proof (cases ms)
      case (Cons m rest)
      obtain e where "recover_one v (alloc (nodes (world s))) (snd m) s = Inl e" using recover_one_undefined by blast
      with Some JObj Cons show ?thesis by (auto simp: recover_all_def)
    qed (use Some JObj in \<open>auto simp: recover_all_def\<close>)
  qed (use Some in \<open>auto simp: recover_all_def\<close>)
qed (auto simp: recover_all_def)

section \<open>The archive once a device has been stored\<close>

fun full :: "json \<Rightarrow> bool" where
  "full (JObj ms) = (ms \<noteq> [])"
| "full _ = False"

lemma put_assoc_nonempty: "put_assoc k v ms \<noteq> []"
  by (cases ms) (auto split: if_splits)

lemma jput_full: "full j \<Longrightarrow> p \<noteq> [] \<Longrightarrow> full (jput j p v)"
  by (cases j; cases p; cases "hd p") (auto simp: put_assoc_nonempty)

definition inner :: "jref \<Rightarrow> bool" where
  "inner r \<longleftrightarrow> (case r of Fault \<Rightarrow> True | Ref p \<Rightarrow> p \<noteq> [])"

lemma at_key_full:
  assumes "full j" and "inner r" and "at_key k r j = (r', j')"
  shows "full j' \<and> inner r'"
proof (cases r)
  case Fault
  with assms show ?thesis by auto
next
  case (Ref p)
  then have p: "p \<noteq> []" using assms(2) by (simp add: inner_def)
  show ?thesis
  proof (cases "jget j p")
    case (Some x)
    with assms Ref p show ?thesis by (cases x) (auto simp: inner_def jput_full split: if_splits)
  qed (use assms Ref in \<open>auto simp: inner_def\<close>)
qed

lemma at_keys_full: "full j \<Longrightarrow> inner r \<Longrightarrow> at_path (map Key ks) r j = (r', j') \<Longrightarrow> full j' \<and> inner r'"
proof (induction ks arbitrary: r j)
  case (Cons k ks)
  obtain q i where q: "at_key k r j = (q, i)" by fastforce
  from at_key_full [OF Cons.prems(1,2) q] Cons q show ?case by (auto simp: at_step_def)
qed simp

lemma json_set_full: "full (json_set (map Key (k # ks)) v (JObj ms))"
proof -
  let ?j = "if map_of ms k = None then JObj (put_assoc k JNull ms) else JObj ms"
  have at: "at_step (Key k) (Ref []) (JObj ms) = (Ref [Key k], ?j)" by (simp add: at_step_def)
  have j: "full ?j" "inner (Ref [Key k])" by (auto simp: put_assoc_nonempty inner_def)
  obtain r i where r: "at_path (map Key ks) (Ref [Key k]) ?j = (r, i)" by fastforce
  from at_keys_full [OF j r] have f: "full i" "inner r" by simp_all
  have "json_set (map Key (k # ks)) v (JObj ms) = assign r v i"
    unfolding json_set_def list.map at_path.simps at prod.case r ..
  with f show ?thesis by (cases r) (simp_all add: assign_def inner_def jput_full)
qed

definition archived :: "archive \<Rightarrow> bool" where
  "archived z \<longleftrightarrow> (\<exists>m ms. z = Some (JObj (m # ms)))"

definition archive_object :: "archive \<Rightarrow> bool" where
  "archive_object z \<longleftrightarrow> (\<exists>ms. load_archive z = JObj ms)"

lemma archived_object: "archived z \<Longrightarrow> archive_object z"
  by (auto simp: archived_def archive_object_def load_archive_def)

lemma full_archived: "full j \<Longrightarrow> archived (Some j)"
  by (cases j) (auto simp: archived_def neq_Nil_conv)

lemma set_archived:
  assumes "archive_object z"
  shows "archived (Some (json_set (map Key (k # ks)) v (load_archive z)))"
proof -
  from assms obtain ms where "load_archive z = JObj ms" by (auto simp: archive_object_def)
  then show ?thesis using full_archived [OF json_set_full] by simp
qed

lemma saved_archived:
  assumes "archive_object z"
  shows "archived (saveDevAddresses d z)" and "archived (saveIds d e z)"
    and "saveDevApdu junk d label apdu n z = Inr z' \<Longrightarrow> archived z'"
    and "saveEndpointApdu junk d e label apdu n z = Inr z'' \<Longrightarrow> archived z''"
proof -
  have "archived (Some (json_set (map Key [hexkey (ieee_id d), ''ieeeAddr'']) (JStr (IntToHexStr (ieee_id d))) (load_archive z)))"
    using set_archived [OF assms, of _ "[_]"] by simp
  from set_archived [OF archived_object [OF this], of _ "[_]"] show a: "archived (saveDevAddresses d z)"
    by (simp add: saveDevAddresses_def load_archive_def)
  from set_archived [OF archived_object [OF this], of _ "[_, _, _]"] show i: "archived (saveIds d e z)"
    by (simp add: saveIds_def)
  show "saveDevApdu junk d label apdu n z = Inr z' \<Longrightarrow> archived z'"
    using set_archived [OF archived_object [OF a], of _ "[_]"] by (auto simp: saveDevApdu_def returns_iff)
  show "saveEndpointApdu junk d e label apdu n z = Inr z'' \<Longrightarrow> archived z''"
    using set_archived [OF archived_object [OF i], of _ "[_, _, _]"] by (auto simp: saveEndpointApdu_def returns_iff)
qed

lemma descriptors_archived:
  "archived z \<Longrightarrow> getAllEndpointSimpleDesc_loop libs lcls junk reply d es z = Inr (es', z') \<Longrightarrow> archived z'"
proof (induction es arbitrary: z es')
  case (Cons e es)
  obtain e1 z1 where 1: "(if ep_id e \<noteq> 0 then simple_desc_req libs lcls junk reply d (e, z) else Inr (e, z)) = Inr (e1, z1)"
    using Cons.prems(2) by (auto simp: returns_iff split: if_splits)
  obtain fs where 2: "getAllEndpointSimpleDesc_loop libs lcls junk reply d es z1 = Inr (fs, z')"
    using Cons.prems(2) 1 by (auto simp: returns_iff split: if_splits)
  have "archived z1"
    using 1 Cons.prems(1) saved_archived(4) [OF archived_object [OF Cons.prems(1)]]
    by (auto simp: simple_desc_req_def returns_iff split: if_splits option.splits)
  from Cons.IH [OF this 2] show ?case .
qed simp

lemma query_archived:
  assumes "query_device libs lcls junk reply (d, z) = Inr (d', z')" and "archive_object z" and "reply 0x0002 (dev_id d) 0 \<noteq> None"
  shows "archived z'"
proof -
  obtain d1 z1 d2 z2 where 1: "node_desc_req junk reply (d, z) = Inr (d1, z1)" and 2: "active_ep_req junk reply (d1, z1) = Inr (d2, z2)"
    and 3: "\<exists>es. getAllEndpointSimpleDesc_loop libs lcls junk reply d2 (dev_endpoints d2) z2 = Inr (es, z')"
    using assms(1) by (auto simp: query_device_def getAllEndpointSimpleDesc_def returns_iff)
  have "archived z1" using 1 assms(3) saved_archived(3) [OF assms(2)] by (auto simp: node_desc_req_def returns_iff)
  then have "archived z2"
    using 2 saved_archived(3) [OF archived_object [OF \<open>archived z1\<close>]] by (auto simp: active_ep_req_def returns_iff split: option.splits)
  with 3 descriptors_archived show ?thesis by blast
qed

section \<open>When the start is defined\<close>

definition booted :: "app_env \<Rightarrow> u64 \<Rightarrow> Endpoint list \<Rightarrow> archive \<Rightarrow> net_world \<Rightarrow> zdp_reply \<Rightarrow> app_world interface" where
  "booted v ieee es z n r =
     (let self = (new_Gateway ieee)\<lparr>dev_endpoints := snd (endpoints 0 es)\<rparr>
      in \<lparr>Contexts = [], repo = app_repository v self,
          world = \<lparr>zdo = \<lparr>gateway = self, zar = Some (load_archive z)\<rparr>, nodes = [], net = n, replies = r\<rparr>\<rparr>)"

lemma permit_defined:
  "(\<exists>st. Mgmt_Permit_Joining_req r 0xff = Inr st) \<longleftrightarrow> (case r 0x0036 0 0 of None \<Rightarrow> True | Some x \<Rightarrow> 2 \<le> length x)"
  by (auto simp: Mgmt_Permit_Joining_req_def rd_def split: option.split)

lemma boot_iff:
  "boot v alloc ieee es z n r = Inr s \<longleftrightarrow>
     (\<not> archived z \<and> (case r 0x0036 0 0 of None \<Rightarrow> True | Some x \<Rightarrow> 2 \<le> length x)) \<and> s = booted v ieee es z n r"
proof -
  have "boot v alloc ieee es z n r = Inr s \<longleftrightarrow>
      (\<not> archived z \<and> (\<exists>st. Mgmt_Permit_Joining_req r 0xff = Inr st)) \<and> s = booted v ieee es z n r"
    unfolding boot_def startZDO_def booted_def Let_def archived_def
    by (cases z) (auto simp: returns_iff recover_all_cases set_endpoints_def set_gateway_def new_Gateway_def load_archive_def
        app_repository_def SelfInit_def Device_uri_def)
  then show ?thesis unfolding permit_defined .
qed

lemma booted_start:
  assumes "distinct (map ep_id es)"
  shows "app_start v (booted v ieee es z n r)" and "set (local_ids (world (booted v ieee es z n r))) = insert 0 (ep_id ` set es)"
    and "zar (zdo (world (booted v ieee es z n r))) = Some (load_archive z)"
    and "ieee_id (gateway (zdo (world (booted v ieee es z n r)))) = ieee"
proof -
  let ?es = "snd (endpoints 0 es)"
  have ids: "distinct (map ep_id ?es)" "set (map ep_id ?es) = insert 0 (ep_id ` set es)"
    using assms by (auto simp: snd_endpoints new_Endpoint_def)
  then show "app_start v (booted v ieee es z n r)" by (simp add: app_start_def booted_def Let_def new_Gateway_def)
  show "set (local_ids (world (booted v ieee es z n r))) = insert 0 (ep_id ` set es)"
    using ids(2) by (simp add: local_ids_def booted_def Let_def new_Gateway_def)
qed (simp_all add: booted_def Let_def new_Gateway_def)

section \<open>Properties\<close>

text \<open>
  The start of the program.  It stays in defined behaviour exactly when the archive has no device and the answer to
  closing the network, if there is one, has its status byte.  Then the program is in the state from which its runs begin,
  with the endpoints of the plugins and endpoint 0 and with a readable archive.
\<close>

theorem boot_defined:
  assumes "distinct (map ep_id es)"
  shows "((\<exists>s. boot v alloc ieee es z n r = Inr s) \<longleftrightarrow>
      (\<forall>m ms. z \<noteq> Some (JObj (m # ms))) \<and> (case r 0x0036 0 0 of None \<Rightarrow> True | Some x \<Rightarrow> 2 \<le> length x)) \<and>
    (\<forall>s. boot v alloc ieee es z n r = Inr s \<longrightarrow>
      app_start v s \<and> set (local_ids (world s)) = insert 0 (ep_id ` set es) \<and> zar (zdo (world s)) = Some (load_archive z))"
  unfolding boot_iff archived_def using booted_start [OF assms] by auto

text \<open>
  C9: A device that has been interviewed makes every later start undefined.  When it announces itself on the line and
  its node descriptor is obtained, the archive names it, and the recovery of an archived device reads past the end of a
  text or parses no bytes at all.
\<close>

theorem restart_after_join:
  assumes "reach (line_start v) (line_step v) s" and "ser_wf (serial s)" and "contents (serial s) = []" and "ln_handled v 0"
    and "\<forall>x \<in> set (buffer (pending s)). \<forall>i. clusterId i = 0x0013 \<longrightarrow> \<not> pred (snd x) i"
    and "\<forall>b \<in> set bs. length b \<le> 256"
    and "concat bs = wire [(0x44, 0x81, indication m (t # le_bytes 2 (nwk :: u16) @ le_bytes 8 (ieee :: u64) @ [cap]))]"
    and "clusterId m = 0x0013" and "asduLen m = 12" and "dstEndpoint m = 0"
    and "assocs64 ieee (gateway (zdo (world (app s)))) = (k, g)"
    and "query_device (en_libs (ln_app v)) (dev_endpoints g) (en_junk (ln_app v)) (replies (world (app s)))
           ((dev_assocs g ! k)\<lparr>dev_id := nwk, ieee_id := ieee, dev_capability := cap\<rparr>, zar (zdo (world (app s)))) = Inr (d, z)"
    and "load_archive (zar (zdo (world (app s)))) = JObj ms" and "replies (world (app s)) 0x0002 nwk 0 \<noteq> None"
  shows "\<exists>u. signals v bs s = Inr ([ToEndpoint 0], u) \<and> ieee_id d = ieee \<and> d \<in> set (devices (world (app u))) \<and>
    (\<forall>v' alloc ieee' es n r. \<exists>e. boot v' alloc ieee' es (zar (zdo (world (app u)))) n r = Inl e)"
proof -
  from announced [OF assms(1-12)] obtain u where u: "signals v bs s = Inr ([ToEndpoint 0], u)" "zar (zdo (world (app u))) = z"
    "devices (world (app u)) = (dev_assocs g)[k := d]" "ieee_id d = ieee" by blast
  have "k < length (dev_assocs g)" using assocs64_cases [OF assms(11)] by auto
  then have mem: "d \<in> set (devices (world (app u)))" unfolding u(3) by (rule set_update_memI)
  have "archived z" by (rule query_archived [OF assms(12)]) (use assms(13,14) in \<open>auto simp: archive_object_def\<close>)
  then have "boot v' alloc ieee' es z n r \<noteq> Inr x" for v' alloc ieee' es n r x unfolding boot_iff by blast
  then have "\<exists>e. boot v' alloc ieee' es z n r = Inl e" for v' alloc ieee' es n r
    by (cases "boot v' alloc ieee' es z n r") auto
  with u mem show ?thesis by blast
qed

section \<open>Witnesses\<close>

theorem boot_defined_witness:
  "(\<exists>s. boot lamp_env (\<lambda>ns. Suc (sum_list ns)) 1 [switch_ep] None net_0 lamp_reply = Inr s \<and> app_start lamp_env s \<and>
      set (local_ids (world s)) = {0, 8}) \<and>
   \<not> (\<exists>s. boot lamp_env (\<lambda>ns. Suc (sum_list ns)) 1 [switch_ep] (Some (JObj [(''00124B0001020304'', JObj [])])) net_0 lamp_reply = Inr s)"
proof -
  let ?a = "\<lambda>ns. Suc (sum_list ns)"
  have "distinct (map ep_id [switch_ep])" by simp
  note b = boot_defined [OF this, of lamp_env ?a 1 _ net_0 lamp_reply]
  have r: "lamp_reply 0x0036 0 0 = None" by (simp add: lamp_reply_def)
  obtain s where s: "boot lamp_env ?a 1 [switch_ep] None net_0 lamp_reply = Inr s" using b [of None] r by auto
  moreover have "ep_id switch_ep = 8" by (simp add: switch_ep_def new_Endpoint_def)
  ultimately have "app_start lamp_env s" "set (local_ids (world s)) = {0, 8}" using b [of None] by auto
  with s b [of "Some (JObj [(''00124B0001020304'', JObj [])])"] show ?thesis by auto
qed

definition plain_reply :: zdp_reply where
  "plain_reply = (\<lambda>c a e. if c = 0x0002 then Some (replicate 17 0) else None)"

definition plain_line :: line where
  "plain_line = lamp_line\<lparr>app := (app lamp_line)\<lparr>world := (world (app lamp_line))\<lparr>replies := plain_reply\<rparr>\<rparr>\<rparr>"

lemma plain_query:
  "\<exists>d z. query_device lamp_lib (dev_endpoints lamp_hub) (replicate 64 0) plain_reply (bulb\<lparr>dev_active := 0\<rparr>, None) = Inr (d, z)"
proof -
  let ?b = "replicate 13 (0 :: byte)"
  obtain nd where nd: "node_desc_req_apdu_process ?b = Inr nd"
    using node_desc_cover [of ?b] node_desc_parse by (metis length_replicate order_refl)
  have "\<exists>z. saveDevApdu (replicate 64 0) (bulb\<lparr>dev_active := 0\<rparr>) ''NodeDescApduString'' ?b 13 None = Inr z"
    using apduString_ok [of 13 ?b "replicate 64 0"] by (simp add: saveDevApdu_def)
  then show ?thesis using nd
    by (auto simp: query_device_def node_desc_req_def active_ep_req_def getAllEndpointSimpleDesc_def plain_reply_def MSGBODY_def
        bulb_def new_Device_def)
qed

theorem restart_after_join_witness:
  "\<exists>u. signals lamp_line_env [lamp_bits] plain_line = Inr ([ToEndpoint 0], u) \<and>
     (\<exists>e. boot lamp_env (\<lambda>ns. 0) 1 [] (zar (zdo (world (app u)))) net_0 plain_reply = Inl e)"
proof -
  obtain d z where q: "query_device lamp_lib (dev_endpoints lamp_hub) (replicate 64 0) plain_reply (bulb\<lparr>dev_active := 0\<rparr>, None) = Inr (d, z)"
    using plain_query by blast
  have reach: "reach (line_start lamp_line_env) (line_step lamp_line_env) plain_line"
    unfolding plain_line_def by (rule reach_step [OF lamp_line_reach line_replies])
  have ser: "ser_wf (serial plain_line)" "contents (serial plain_line) = []" using lamp_serial by (simp_all add: plain_line_def)
  have g: "assocs64 0x00124B0001020304 lamp_hub = (0, lamp_hub\<lparr>dev_assocs := [new_Device 0x0304]\<rparr>)"
    by (simp add: assocs64_def find_if_def lamp_hub_def hub_def new_Device_def)
  have b: "(new_Device 0x0304)\<lparr>dev_id := 0x4567, ieee_id := 0x00124B0001020304, dev_capability := 0x8E\<rparr> = bulb\<lparr>dev_active := 0\<rparr>"
    by (simp add: bulb_def new_Device_def)
  have len: "length lamp_bits = 34" by (simp add: lamp_bits_def body_of_def frame_def frame_body_def length_indication)
  have "\<exists>u. signals lamp_line_env [lamp_bits] plain_line = Inr ([ToEndpoint 0], u) \<and> ieee_id d = 0x00124B0001020304 \<and>
    d \<in> set (devices (world (app u))) \<and>
    (\<forall>v' alloc ieee' es n r. \<exists>e. boot v' alloc ieee' es (zar (zdo (world (app u)))) n r = Inl e)"
    by (intro restart_after_join [where m = bulb_annce and t = 7 and nwk = "0x4567" and cap = "0x8E" and z = z and k = 0
          and g = "lamp_hub\<lparr>dev_assocs := [new_Device 0x0304]\<rparr>" and ms = "[]", OF reach ser])
      (use q g b len in \<open>simp_all add: lamp_line_env_def lamp_line_def plain_line_def no_handlers_def lamp_bits_def bulb_annce_def
        lamp_start_def lamp_env_def lamp_hub_def load_archive_def plain_reply_def\<close>)
  then show ?thesis by blast
qed

end
