(* ===== verification/Bringup.thy ===== *)
theory Bringup
  imports Startup Hal
begin

text \<open>
  Bringing the gateway up, from \<^verbatim>\<open>hal_init\<close> on: opening and resetting the serial device (hal/source/mtintf.c), resetting
  the coprocessor (hal/source/hal.cpp), what a frame does that arrives before the message handlers are registered
  (hal/source/mtaf.cpp), and the whole way of \<^verbatim>\<open>main\<close> to the state from which the runs of Inbound begin.
\<close>

section \<open>The terminal\<close>

text \<open>The flags of termios.h that the code names.\<close>

definition IGNBRK :: u32 where "IGNBRK = 0x1"
definition BRKINT :: u32 where "BRKINT = 0x2"
definition PARMRK :: u32 where "PARMRK = 0x8"
definition INPCK :: u32 where "INPCK = 0x10"
definition ISTRIP :: u32 where "ISTRIP = 0x20"
definition INLCR :: u32 where "INLCR = 0x40"
definition ICRNL :: u32 where "ICRNL = 0x100"
definition IXON :: u32 where "IXON = 0x400"
definition OPOST :: u32 where "OPOST = 0x1"
definition ISIG :: u32 where "ISIG = 0x1"
definition ICANON :: u32 where "ICANON = 0x2"
definition ECHO :: u32 where "ECHO = 0x8"
definition ECHONL :: u32 where "ECHONL = 0x40"
definition IEXTEN :: u32 where "IEXTEN = 0x8000"
definition CSIZE :: u32 where "CSIZE = 0x30"
definition CS8 :: u32 where "CS8 = 0x30"
definition CREAD :: u32 where "CREAD = 0x80"
definition PARENB :: u32 where "PARENB = 0x100"
definition B115200 :: nat where "B115200 = 115200"

lemmas tty_flags = IGNBRK_def BRKINT_def PARMRK_def INPCK_def ISTRIP_def INLCR_def ICRNL_def IXON_def OPOST_def ISIG_def ICANON_def
  ECHO_def ECHONL_def IEXTEN_def CSIZE_def CS8_def CREAD_def PARENB_def

record termios =
  c_iflag :: u32
  c_oflag :: u32
  c_cflag :: u32
  c_lflag :: u32
  c_cc :: "byte list"
  speed :: nat

text \<open>The assignments to \<^verbatim>\<open>c_cc\<close> in their order, \<^verbatim>\<open>VINTR\<close> being 0 and \<^verbatim>\<open>VEOL2\<close> being 16.\<close>

definition cc_assignments :: "(nat \<times> byte) list" where
  "cc_assignments =
     [(6, 1), (5, 0), (0, 0), (1, 0), (2, 0), (3, 0), (4, 0), (5, 0), (6, 1), (7, 0), (8, 0), (9, 0), (10, 0), (11, 0),
      (12, 0), (13, 0), (14, 0), (15, 0), (16, 0)]"

definition raw_mode :: "termios \<Rightarrow> termios" where
  "raw_mode a =
     \<lparr>c_iflag = c_iflag a AND NOT (IGNBRK OR BRKINT OR ICRNL OR INLCR OR PARMRK OR INPCK OR ISTRIP OR IXON),
      c_oflag = c_oflag a AND NOT OPOST,
      c_cflag = (c_cflag a AND NOT (CSIZE OR PARENB)) OR (CS8 OR CREAD),
      c_lflag = c_lflag a AND NOT (ECHO OR ECHONL OR ICANON OR IEXTEN OR ISIG),
      c_cc = fold (\<lambda>(i, b) cc. cc[i := b]) cc_assignments (c_cc a),
      speed = B115200\<rparr>"

datatype sig_action = SigDefault | SigSerialRcv

definition MT_INTF_SIG :: nat where "MT_INTF_SIG = 48"
definition SIGIO :: nat where "SIGIO = 29"

text \<open>The file's variables, with the settings of the device behind the descriptor and the actions of signals.\<close>

record tty =
  serial_file_desc :: int
  old_attribs :: termios
  settings :: termios
  ring :: serbuf
  actions :: "nat \<Rightarrow> sig_action"
  oldact :: sig_action

text \<open>What \<^verbatim>\<open>open\<close>, \<^verbatim>\<open>isatty\<close>, \<^verbatim>\<open>tcgetattr\<close> and the calls after it give.\<close>

record open_env =
  op_fd :: int
  op_isatty :: bool
  op_attrs :: "termios option"
  op_speed :: bool
  op_flush :: bool
  op_set :: bool

definition SerialInit :: "open_env \<Rightarrow> tty \<Rightarrow> tty" where
  "SerialInit v t =
     (let t = t\<lparr>serial_file_desc := op_fd v\<rparr>
      in if op_fd v < 0 \<or> \<not> op_isatty v then t
         else (case op_attrs v of
                 None \<Rightarrow> t
               | Some a \<Rightarrow>
                   let t = t\<lparr>old_attribs := a, settings := a\<rparr>
                   in if op_speed v \<and> op_flush v \<and> op_set v then t\<lparr>settings := raw_mode a\<rparr> else t))"

definition SetSerialHandler :: "tty \<Rightarrow> tty" where
  "SetSerialHandler t = t\<lparr>actions := (actions t)(MT_INTF_SIG := SigSerialRcv), oldact := actions t MT_INTF_SIG\<rparr>"

text \<open>\<^verbatim>\<open>MTIntfInit\<close> empties the ring buffer (in SerialLink) and opens the line.\<close>

definition MTIntfOpen :: "open_env \<Rightarrow> tty \<Rightarrow> tty" where
  "MTIntfOpen v t = SetSerialHandler (SerialInit v (t\<lparr>ring := (ring t)\<lparr>SerBufInHead := 0, SerBufInLen := 0\<rparr>\<rparr>))"

definition resetInterface :: "open_env \<Rightarrow> tty \<Rightarrow> tty" where
  "resetInterface v t = SetSerialHandler (SerialInit v t)"

text \<open>\<open>restored\<close> tells whether \<^verbatim>\<open>tcsetattr\<close> succeeds.\<close>

definition MTIntfClose :: "bool \<Rightarrow> tty \<Rightarrow> tty" where
  "MTIntfClose restored t =
     t\<lparr>settings := (if restored then old_attribs t else settings t), actions := (actions t)(SIGIO := oldact t)\<rparr>"

text \<open>\<^verbatim>\<open>SerialSend\<close>: the bytes that go out when \<^verbatim>\<open>write\<close> takes \<open>n\<close> of them; nothing looks at the rest.\<close>

definition SerialSend :: "nat \<Rightarrow> byte list \<Rightarrow> byte list" where
  "SerialSend n pbuf = take n pbuf"

section \<open>The coprocessor\<close>

definition system_reset :: "xfer \<Rightarrow> byte list \<Rightarrow> int" where
  "system_reset x junk = (let _ = mt_sysreset_req x junk in 0xff)"

definition get_ieee_id :: "xfer \<Rightarrow> byte list \<Rightarrow> ub + u64" where
  "get_ieee_id x junk = bindE (mt_getextaddr_req x junk) (\<lambda>(_, ieee). Inr ieee)"

definition system_ping :: "xfer \<Rightarrow> byte list \<Rightarrow> byte list \<Rightarrow> ub + (int \<times> byte list)" where
  "system_ping x junk result = mt_sysping_req x junk result 4"

text \<open>The call that would ask for the address does nothing.\<close>

definition mt_util_get_device_info :: "byte list \<Rightarrow> int" where
  "mt_util_get_device_info res = 0"

definition get_nwk_id :: "byte list \<Rightarrow> u16" where
  "get_nwk_id res = (let _ = mt_util_get_device_info res in 0)"

text \<open>A reset command, four seconds, and the device is opened again.\<close>

definition ProcessorReset :: "xfer \<Rightarrow> byte list \<Rightarrow> open_env \<Rightarrow> tty \<Rightarrow> int \<times> tty" where
  "ProcessorReset x junk v t = (let _ = mt_sysreset_req x junk in (0, resetInterface v t))"

text \<open>
  \<^verbatim>\<open>get_utlmessage\<close> of mtutil.cpp looks for a message once in each turn, \<open>incoming k\<close> being what it finds in the \<open>k\<close>-th.  A
  negative limit is not a timeout.
\<close>

fun get_utlmessage_loop :: "(nat \<Rightarrow> byte list option) \<Rightarrow> byte list \<Rightarrow> nat \<Rightarrow> nat \<Rightarrow> ub + (bool \<times> byte list)" where
  "get_utlmessage_loop incoming pBuf 0 k = Inr (False, pBuf)"
| "get_utlmessage_loop incoming pBuf (Suc n) k =
     (case incoming k of
        None \<Rightarrow> get_utlmessage_loop incoming pBuf n (Suc k)
      | Some b \<Rightarrow> bindE (rd b 0) (\<lambda>len. bindE (memcpy2 pBuf 0 b 0 (unat len + 3)) (\<lambda>pBuf. Inr (True, pBuf))))"

definition get_utlmessage :: "(nat \<Rightarrow> byte list option) \<Rightarrow> byte list \<Rightarrow> int \<Rightarrow> ub + (int \<times> byte list)" where
  "get_utlmessage incoming pBuf timeout_ms =
     bindE (get_utlmessage_loop incoming pBuf (nat timeout_ms) 0) (\<lambda>(found, pBuf).
       Inr (if found \<or> timeout_ms < 0 then 0 else -1, pBuf))"

section \<open>Frames before the handlers are registered\<close>

text \<open>
  \<^verbatim>\<open>MT_ProcessIncoming\<close> with the routing table it begins with; the callbacks for application messages are still NULL.
\<close>

definition early_packet :: "byte list \<Rightarrow> byte list \<Rightarrow> nat \<Rightarrow> ub + nat" where
  "early_packet junk pBuf sem =
     bindE (mtOOBRecv pBuf sem) (\<lambda>(r, sem).
     bindE (MT_ProcessIncoming mtProcessIncoming (\<lambda>_. r) pBuf) (\<lambda>route.
       if route = Handled mt_handler.MT_AfCommandProcessing
       then bindE (AfMessage.MT_AfCommandProcessing False False junk pBuf) (\<lambda>_. Inr sem)
       else Inr sem))"

fun early_packets :: "byte list \<Rightarrow> byte list list \<Rightarrow> nat \<Rightarrow> ub + nat" where
  "early_packets junk [] sem = Inr sem"
| "early_packets junk (p # ps) sem = bindE (early_packet junk p sem) (early_packets junk ps)"

definition early_signal :: "byte list \<Rightarrow> byte list \<Rightarrow> byte list \<Rightarrow> tty \<times> nat \<Rightarrow> ub + (tty \<times> nat)" where
  "early_signal packet_junk junk bytes s =
     bindE (MessageAssembler (SerialRcv (ring (fst s)) bytes) 0 packet_junk) (\<lambda>(ser, ps).
     bindE (early_packets junk ps (snd s)) (\<lambda>sem. Inr ((fst s)\<lparr>ring := ser\<rparr>, sem)))"

section \<open>The whole start\<close>

text \<open>
  \<^verbatim>\<open>StartSystem\<close>, which may not return, the gateway's IEEE address, and what Startup has; no frame arrives meanwhile.
\<close>

definition program_start ::
    "app_env \<Rightarrow> (nat list \<Rightarrow> nat) \<Rightarrow> (nat \<Rightarrow> ping_env) \<Rightarrow> byte list \<Rightarrow> byte list \<Rightarrow> ping_state \<Rightarrow> xfer \<Rightarrow> tty \<Rightarrow>
     Endpoint list \<Rightarrow> archive \<Rightarrow> net_world \<Rightarrow> zdp_reply \<Rightarrow> (ub + line) option" where
  "program_start v alloc env junk result st x t es z n r =
     (case StartSystem env junk result 0 0 None st of
        None \<Rightarrow> None
      | Some (Inl e) \<Rightarrow> Some (Inl e)
      | Some (Inr boots) \<Rightarrow>
          Some (bindE (get_ieee_id x junk) (\<lambda>ieee.
                bindE (boot v alloc ieee es z n r) (\<lambda>a.
                  Inr \<lparr>serial = ring t, routing = mtProcessIncoming, oob = 1, pending = no_handlers, pending_EXT = no_handlers, app = a\<rparr>))))"

section \<open>Lemmas\<close>

lemma flags_cleared:
  fixes x k m :: u32
  assumes "k AND m = k"
  shows "(x AND NOT m) AND k = 0"
proof (rule bit_eqI)
  fix n show "bit ((x AND NOT m) AND k) n = bit 0 n"
    using arg_cong [OF assms, of "\<lambda>w. bit w n"] by (auto simp: bit_simps)
qed

lemma flags_set:
  fixes x k m y :: u32
  assumes "y AND k = y" and "k AND (m OR y) = k"
  shows "((x AND NOT m) OR y) AND k = y"
proof (rule bit_eqI)
  fix n show "bit (((x AND NOT m) OR y) AND k) n = bit y n"
    using arg_cong [OF assms(1), of "\<lambda>w. bit w n"] arg_cong [OF assms(2), of "\<lambda>w. bit w n"] by (auto simp: bit_simps)
qed

text \<open>
  When everything succeeds the line carries bytes as they are, whatever the settings were before: no echo, no lines, no
  signals, no translation, eight bits, and a read returns with the first byte.  Closing restores the settings that the
  last opening found, so after a reset of the same device they stay raw; the action for the signal of the line is
  never restored, but that of \<^verbatim>\<open>SIGIO\<close> is overwritten.  Unread bytes survive a reset.
\<close>

definition all_well :: "termios \<Rightarrow> open_env \<Rightarrow> bool" where
  "all_well a v \<longleftrightarrow> 0 \<le> op_fd v \<and> op_isatty v \<and> op_attrs v = Some a \<and> op_speed v \<and> op_flush v \<and> op_set v"

lemma SerialInit_well:
  "all_well a v \<Longrightarrow> SerialInit v t = t\<lparr>serial_file_desc := op_fd v, old_attribs := a, settings := raw_mode a\<rparr>"
  by (simp add: SerialInit_def all_well_def)

theorem line_settings:
  assumes "all_well a v" and "all_well (raw_mode a) u" and "17 \<le> length (c_cc a)"
  shows "c_lflag (settings (MTIntfOpen v t)) AND (ICANON OR ECHO OR ISIG) = 0 \<and>
    c_oflag (settings (MTIntfOpen v t)) AND OPOST = 0 \<and> c_iflag (settings (MTIntfOpen v t)) AND (ICRNL OR IXON OR ISTRIP) = 0 \<and>
    c_cflag (settings (MTIntfOpen v t)) AND (CSIZE OR PARENB OR CREAD) = CS8 OR CREAD \<and>
    c_cc (settings (MTIntfOpen v t)) ! 6 = 1 \<and> c_cc (settings (MTIntfOpen v t)) ! 5 = 0 \<and>
    settings (MTIntfClose True (MTIntfOpen v t)) = a \<and>
    settings (MTIntfClose True (resetInterface u (MTIntfOpen v t))) = raw_mode a \<and>
    actions (MTIntfClose True (MTIntfOpen v t)) MT_INTF_SIG = SigSerialRcv \<and>
    actions (MTIntfClose True (resetInterface u (MTIntfOpen v t))) SIGIO = SigSerialRcv \<and>
    contents (ring (resetInterface u t)) = contents (ring t)"
proof -
  note i = SerialInit_well [OF assms(1)] SerialInit_well [OF assms(2)]
  have s: "settings (MTIntfOpen v t) = raw_mode a" by (simp add: MTIntfOpen_def SetSerialHandler_def i)
  have f: "c_lflag (raw_mode a) AND (ICANON OR ECHO OR ISIG) = 0" "c_oflag (raw_mode a) AND OPOST = 0"
    "c_iflag (raw_mode a) AND (ICRNL OR IXON OR ISTRIP) = 0" "c_cflag (raw_mode a) AND (CSIZE OR PARENB OR CREAD) = CS8 OR CREAD"
    unfolding raw_mode_def termios.simps by (intro flags_cleared flags_set; simp add: tty_flags)+
  have c: "c_cc (raw_mode a) ! 6 = 1" "c_cc (raw_mode a) ! 5 = 0"
    using assms(3) by (simp_all add: raw_mode_def cc_assignments_def)
  show ?thesis
    unfolding s using f c by (simp add: MTIntfOpen_def MTIntfClose_def resetInterface_def SetSerialHandler_def i MT_INTF_SIG_def SIGIO_def)
qed

section \<open>Early frames\<close>

lemma packet_prefix: "packet p = f \<Longrightarrow> \<exists>r. p = f @ r"
  by (metis append_take_drop_id packet_def)

lemma early_packet_message:
  assumes "packet p = frame 0x44 0x81 d" and "length d \<le> 250" and "length junk = 255"
  shows "early_packet junk p sem = Inl NullDeref"
proof -
  have n: "unat (of_nat (length d) :: byte) = length d" using assms(2) by (intro unat_len) simp
  obtain r where r: "p = of_nat (length d) # 0x44 # 0x81 # d @ r"
    using packet_prefix [OF assms(1)] by (auto simp: frame_def frame_body_def)
  have "loadStr junk p 3 (length d) = Inr (blit junk 0 d)"
    using assms(2,3) unfolding r by (simp add: loadStr_def memcpy2_def slice_def)
  then have "AfMessage.MT_AfCommandProcessing False False junk p = Inl NullDeref"
    by (simp add: AfMessage.MT_AfCommandProcessing_def MTAFIncomingMsgProc_def rd_def r n)
  moreover have "MT_ProcessIncoming mtProcessIncoming (\<lambda>_. -1) p = Inr (Handled mt_handler.MT_AfCommandProcessing)"
  proof -
    have "\<not> (of_nat (length d) :: byte) > 250" using n assms(2) by (simp add: word_less_nat_alt)
    then show ?thesis by (simp add: r MT_ProcessIncoming_def rd_def mt_consts subsystem_of_def mtProcessIncoming_def)
  qed
  ultimately show ?thesis by (simp add: early_packet_def mtOOBRecv_def rd_def r)
qed

lemma af_index: "k < 15 \<Longrightarrow> mtProcessIncoming ! k = Some mt_handler.MT_AfCommandProcessing \<Longrightarrow> k = 4"
  by (auto simp: mtProcessIncoming_def nth_Cons' split: if_splits)

lemma early_packet_other:
  assumes "packet p = frame ct ci b" and "ct AND 0x1F \<noteq> 4"
  shows "\<exists>k. early_packet junk p sem = Inr k"
proof -
  obtain r where r: "p = of_nat (length b) # ct # ci # b @ r"
    using packet_prefix [OF assms(1)] by (auto simp: frame_def frame_body_def)
  have "subsystem_of ct \<noteq> 4"
  proof
    assume "subsystem_of ct = 4"
    then have "(of_nat (unat (ct AND 0x1F)) :: byte) = 4" by (simp add: subsystem_of_def MT_RPC_SUBSYSTEM_MASK_def)
    with assms(2) show False by simp
  qed
  then have "\<exists>route. MT_ProcessIncoming mtProcessIncoming (\<lambda>_. q) p = Inr route \<and> route \<noteq> Handled mt_handler.MT_AfCommandProcessing" for q
    using af_index [of "subsystem_of ct"]
    by (auto simp: r MT_ProcessIncoming_def rd_def mt_consts mtProcessIncoming_def split: option.split)
  then obtain route where "MT_ProcessIncoming mtProcessIncoming (\<lambda>_. if ct = 0x61 \<and> ci = 0x44 then 0 else -1) p = Inr route"
    "route \<noteq> Handled mt_handler.MT_AfCommandProcessing" by blast
  then show ?thesis by (auto simp: early_packet_def mtOOBRecv_def rd_def r split: if_splits)
qed

lemma early_packets_end:
  assumes "map packet ps = map body_of (cs @ [(0x44, 0x81, d)])" and "\<forall>(ctype, cid, b) \<in> set cs. ctype AND 0x1F \<noteq> 4"
    and "length d \<le> 250" and "length junk = 255"
  shows "early_packets junk ps sem = Inl NullDeref"
  using assms(1,2)
proof (induction cs arbitrary: ps sem)
  case Nil
  then obtain p where "ps = [p]" "packet p = frame 0x44 0x81 d" by (auto simp: body_of_def)
  with early_packet_message [OF _ assms(3,4)] show ?case by simp
next
  case (Cons c cs)
  obtain ct ci b where c: "c = (ct, ci, b)" by (cases c)
  obtain p qs where p: "ps = p # qs" "packet p = frame ct ci b" "map packet qs = map body_of (cs @ [(0x44, 0x81, d)])"
    using Cons.prems(1) by (auto simp: c body_of_def Cons_eq_map_conv)
  have "ct AND 0x1F \<noteq> 4" using Cons.prems(2) by (simp add: c)
  from early_packet_other [OF p(2) this] obtain k where "early_packet junk p sem = Inr k" by blast
  with Cons.IH [OF p(3)] Cons.prems(2) p(1) show ?case by simp
qed

text \<open>
  C12: The first seconds.  From the opening of the line until \<^verbatim>\<open>aps::init\<close> has registered the message handlers, which comes
  after the reset and all the waiting of \<^verbatim>\<open>StartSystem\<close>, a message that any device of the network sends is
  handed to a null pointer: as soon as its frame has arrived, whatever it holds, behind other frames or not.
\<close>

theorem early_message:
  assumes "length (SerBufIn (ring t)) = 512" and "length (wire (cs @ [(0x44, 0x81, d)])) \<le> 512"
    and "\<forall>(ctype, cid, b) \<in> set cs. length b \<le> 252 \<and> ctype AND 0x1F \<noteq> 4" and "length d \<le> 250"
    and "length packet_junk = 256" and "length junk = 255"
  shows "early_signal packet_junk junk (wire (cs @ [(0x44, 0x81, d)])) (resetInterface u (MTIntfOpen v t), sem) = Inl NullDeref"
proof -
  let ?cs = "cs @ [(0x44, 0x81, d)]" and ?s = "ring (resetInterface u (MTIntfOpen v t))"
  have r: "?s = (ring t)\<lparr>SerBufInHead := 0, SerBufInLen := 0\<rparr>"
    by (auto simp: resetInterface_def MTIntfOpen_def SetSerialHandler_def SerialInit_def Let_def split: option.split)
  have w: "ser_wf ?s" "contents ?s = []" "SerBufInLen ?s + length (wire ?cs) \<le> 512"
    using assms(1,2) unfolding r by (simp_all add: ser_wf_def contents_def)
  note rcv = SerialRcv_fits [OF w(1,3)]
  have len: "\<forall>(ctype, cid, b) \<in> set ?cs. length b \<le> 252" using assms(3,4) by auto
  have fs: "\<forall>f \<in> set (map body_of ?cs). framed f \<and> length f \<le> 256" using framed_body [OF _ len] by auto
  have "filter (\<lambda>f. xor_bytes f = 0) (map body_of ?cs) = map body_of ?cs"
    by (rule filter_True) (auto simp: body_of_def xor_frame)
  then have "asm_abs (contents (SerialRcv ?s (wire ?cs))) 0 = Inr ([], map body_of ?cs)"
    using asm_abs_frames [OF fs, of "[]"] rcv(2) w(2) by (simp add: wire_def incomplete_def)
  from MessageAssembler_abs(2) [OF rcv(1) assms(5) this] obtain ser ps where
    a: "MessageAssembler (SerialRcv ?s (wire ?cs)) 0 packet_junk = Inr (ser, ps)" "map packet ps = map body_of ?cs" by blast
  have "early_packets junk ps sem = Inl NullDeref"
    by (rule early_packets_end [OF a(2) _ assms(4,6)]) (use assms(3) in auto)
  then show ?thesis unfolding early_signal_def fst_conv snd_conv a(1) by simp
qed

section \<open>Starting the program\<close>

text \<open>What the start needs from the coprocessor: the address is answered in full.\<close>

lemma get_ieee_answer:
  "x (MtCommands.request 0x21 0x04 0 junk) = (n, rsp) \<Longrightarrow> 0 \<le> n \<Longrightarrow> 8 \<le> length rsp \<Longrightarrow> get_ieee_id x junk = Inr (le_word (slice 0 8 rsp))"
  by (simp add: get_ieee_id_def mt_getextaddr_req_def)

lemma StartSystem_result:
  assumes "ping_env_wf env" and "length result = 4"
  shows "StartSystem env junk result 0 0 None st =
      (if ping_answer (env 0) junk = None then Some (Inl UninitRead) else StartSystem env junk result 0 0 None st)"
    and "ping_answer (env 0) junk \<noteq> None \<Longrightarrow> StartSystem env junk result 0 0 None st \<noteq> None \<longleftrightarrow>
      (\<exists>m a. ping_answer (env m) junk = Some a \<and> running a)"
    and "ping_answer (env 0) junk \<noteq> None \<Longrightarrow> StartSystem env junk result 0 0 None st = Some r \<Longrightarrow> \<exists>b. r = Inr b"
proof -
  note w = StartSystem_waits [OF assms, of junk st]
  show "StartSystem env junk result 0 0 None st =
      (if ping_answer (env 0) junk = None then Some (Inl UninitRead) else StartSystem env junk result 0 0 None st)"
    using w by (auto split: if_splits)
  assume a: "ping_answer (env 0) junk \<noteq> None"
  then show one: "StartSystem env junk result 0 0 None st \<noteq> None \<longleftrightarrow> (\<exists>m a. ping_answer (env m) junk = Some a \<and> running a)"
    using w by (auto split: if_splits)
  assume r: "StartSystem env junk result 0 0 None st = Some r"
  with one obtain m s where "ping_answer (env (0 + m)) junk = Some s" "running s" by auto
  moreover have "(case ping_answer (env 0) junk of None \<Rightarrow> None | Some a \<Rightarrow> Some a) \<noteq> None" using a by (cases "ping_answer (env 0) junk") auto
  ultimately have "\<exists>b. StartSystem env junk result 0 0 None st = Some (Inr b)" by (rule StartSystem_reach [OF assms])
  with r show "\<exists>b. r = Inr b" by auto
qed


section \<open>Witnesses\<close>

definition cooked :: termios where
  "cooked = \<lparr>c_iflag = 0x500, c_oflag = 5, c_cflag = 0xCBD, c_lflag = 0x8A3B, c_cc = replicate 32 0, speed = 38400\<rparr>"

definition tty_0 :: tty where
  "tty_0 = \<lparr>serial_file_desc = 0, old_attribs = cooked, settings = cooked, ring = MTIntfInit, actions = \<lambda>_. SigDefault, oldact = SigDefault\<rparr>"

definition open_ok :: open_env where
  "open_ok = \<lparr>op_fd = 5, op_isatty = True, op_attrs = Some cooked, op_speed = True, op_flush = True, op_set = True\<rparr>"

theorem early_message_witness:
  "early_signal (replicate 256 0) (replicate 255 0) (wire ([(0x61, 0x01, [0x79, 0x07])] @ [(0x44, 0x81, replicate 20 1)]))
     (resetInterface open_ok (MTIntfOpen open_ok tty_0), 1) = Inl NullDeref"
  by (rule early_message) (simp_all add: tty_0_def MTIntfInit_def SERIAL_BUFFER_MAX_def body_of_def frame_def frame_body_def)


end
