(* ===== verification/Services.thy ===== *)
theory Services
  imports KUtil ObjectModel
begin

text \<open>
  The system services of kapi/source/kutil.cpp: sleeping for a given time whatever signals interrupt it, random
  names, and the transfer of archives as Base64 texts.  What the kernel answers is a list, one entry for each call;
  the Base64 filter of OpenSSL is a pair of functions.
\<close>

section \<open>Sleeping\<close>

record timespec =
  tv_sec :: int
  tv_nsec :: int

definition nanos :: "timespec \<Rightarrow> int" where
  "nanos t = tv_sec t * 1000000000 + tv_nsec t"

text \<open>
  What \<^verbatim>\<open>nanosleep\<close> does: it sleeps the whole interval, or is interrupted and stores what is left, or refuses the
  interval (\<^verbatim>\<open>EINVAL\<close>) and stores nothing.
\<close>

datatype sleep_turn = Slept | Interrupted timespec | Refused

definition sleep_limit :: nat where "sleep_limit = 0xffffffff"

text \<open>The result, and the intervals that \<^verbatim>\<open>nanosleep\<close> was called with; \<open>None\<close> is a call that does not return.\<close>

fun kNanosleep_loop :: "sleep_turn list \<Rightarrow> timespec \<Rightarrow> timespec \<Rightarrow> nat \<Rightarrow> (int \<times> timespec list) option" where
  "kNanosleep_loop [] interval remaining count = None"
| "kNanosleep_loop (t # ts) interval remaining count =
     (let remaining = (case t of Interrupted left \<Rightarrow> left | _ \<Rightarrow> remaining)
      in if t \<noteq> Slept \<and> count < sleep_limit
         then map_option (\<lambda>(r, asked). (r, interval # asked)) (kNanosleep_loop ts remaining remaining (Suc count))
         else Some (if count < sleep_limit then 0 else -1, [interval]))"

definition kNanosleep :: "sleep_turn list \<Rightarrow> timespec \<Rightarrow> (int \<times> timespec list) option" where
  "kNanosleep ts interval = kNanosleep_loop ts interval interval 0"

definition kSleep :: "sleep_turn list \<Rightarrow> int \<Rightarrow> (int \<times> timespec list) option" where
  "kSleep ts interval = kNanosleep ts \<lparr>tv_sec = interval, tv_nsec = 0\<rparr>"

section \<open>Random names\<close>

definition alphanum :: "byte list" where
  "alphanum = str ''0123456789ABCDEFGHIJKLMNOPQRSTUVWXYZabcdefghijklmnopqrstuvwxyz''"

text \<open>\<open>rand i\<close> is the \<open>i\<close>-th value of \<^verbatim>\<open>rand()\<close>.\<close>

fun gen_random_loop :: "(nat \<Rightarrow> nat) \<Rightarrow> nat \<Rightarrow> nat \<Rightarrow> byte list \<Rightarrow> ub + byte list" where
  "gen_random_loop rand 0 i s = Inr s"
| "gen_random_loop rand (Suc n) i s =
     bindE (wr s i (alphanum ! (rand i mod 62))) (gen_random_loop rand n (Suc i))"

definition gen_random :: "(nat \<Rightarrow> nat) \<Rightarrow> byte list \<Rightarrow> int \<Rightarrow> ub + byte list" where
  "gen_random rand s len =
     bindE (gen_random_loop rand (nat len) 0 s) (\<lambda>s. if len < 0 then Inl OobWrite else wr s (nat len) 0)"

section \<open>Archives as Base64 texts\<close>

text \<open>
  The text is written to a memory stream over the allocated buffer, which has a byte more than the text.  A stream
  opened for writing stops at its end, and puts a 0 behind the text as long as there is room.
\<close>

definition mem_stream :: "byte list \<Rightarrow> byte list \<Rightarrow> byte list" where
  "mem_stream junk t = (let t = take (length junk) t in blit junk 0 (if length t < length junk then t @ [0] else t))"

text \<open>\<open>enc\<close> is the filter's encoder; \<open>junk n\<close> are the \<open>n\<close> bytes that \<^verbatim>\<open>malloc\<close> returns.\<close>

definition Base64Encode :: "(byte list \<Rightarrow> byte list) \<Rightarrow> (nat \<Rightarrow> byte list) \<Rightarrow> byte list \<Rightarrow> nat \<times> byte list" where
  "Base64Encode enc junk message =
     (let size = encodedSize (length message) in (size, mem_stream (junk (size + 1)) (enc message)))"

text \<open>
  \<open>dec\<close> is the filter's decoder with \<open>None\<close> for its error \<^verbatim>\<open>-1\<close>, which then indexes the buffer.  The result is the
  length computed from the text, not the number of bytes decoded.
\<close>

definition Base64Decode ::
    "(byte list \<Rightarrow> byte list option) \<Rightarrow> (nat \<Rightarrow> byte list) \<Rightarrow> byte list \<Rightarrow> ub + (int \<times> byte list)" where
  "Base64Decode dec junk b64message =
     bindE (calcDecodeLength b64message) (\<lambda>decodeLen.
       let buffer = junk (nat (decodeLen + 1)) in
       case dec b64message of
         None \<Rightarrow> Inl OobWrite
       | Some out \<Rightarrow>
           bindE (memcpy_to buffer 0 out) (\<lambda>buffer.
           bindE (wr buffer (length out) 0) (\<lambda>buffer. Inr (decodeLen, buffer))))"

definition tempZip :: "byte list \<Rightarrow> byte list" where
  "tempZip dir = dir @ str ''/tempZfjf80as98f09u3r380fdsf9spoifdsjip.tgz''"

text \<open>The file that is written with its contents, and the shell commands in their order.\<close>

definition DecodeToDir ::
    "(byte list \<Rightarrow> byte list option) \<Rightarrow> (nat \<Rightarrow> byte list) \<Rightarrow> byte list \<Rightarrow> byte list \<Rightarrow>
     ub + ((byte list \<times> byte list) \<times> byte list list)" where
  "DecodeToDir dec junk dir buffer =
     bindE (Base64Decode dec junk (c_str buffer)) (\<lambda>(decodedSize, output).
       Inr ((tempZip dir, take (nat decodedSize) output),
            [str ''tar -xzf '' @ tempZip dir @ str '' -C '' @ dir, str ''rm '' @ tempZip dir]))"

section \<open>Lemmas on sleeping\<close>

text \<open>The time slept: what was asked for less what was left, and nothing when the call refused.\<close>

fun slept :: "sleep_turn \<Rightarrow> timespec \<Rightarrow> int" where
  "slept Slept interval = nanos interval"
| "slept (Interrupted left) interval = nanos interval - nanos left"
| "slept Refused interval = 0"

definition turns_before :: "sleep_turn list \<Rightarrow> nat" where
  "turns_before ts = length (takeWhile (\<lambda>t. t \<noteq> Slept) ts)"


lemma kNanosleep_loop_asks:
  "kNanosleep_loop ts interval interval count = Some (r, asked) \<Longrightarrow>
   count \<le> sleep_limit \<Longrightarrow>
   length asked = Suc (min (sleep_limit - count) (turns_before ts)) \<and> length asked \<le> length ts \<and>
   r = (if count + turns_before ts < sleep_limit then 0 else -1) \<and>
   (r = 0 \<longrightarrow> (\<Sum>(t, i) \<leftarrow> zip ts asked. slept t i) = nanos interval)"
proof (induction ts arbitrary: interval count r asked)
  case (Cons t ts)
  show ?case
  proof (cases "t \<noteq> Slept \<and> count < sleep_limit")
    case True
    define left where "left = (case t of Interrupted l \<Rightarrow> l | _ \<Rightarrow> interval)"
    from Cons.prems(1) True obtain rest where rest: "kNanosleep_loop ts left left (Suc count) = Some (r, rest)" "asked = interval # rest"
      by (auto simp: left_def Let_def)
    have "slept t interval = nanos interval - nanos left" using True by (cases t) (simp_all add: left_def)
    with Cons.IH [OF rest(1)] True rest(2) show ?thesis by (auto simp: turns_before_def)
  next
    case False
    with Cons.prems show ?thesis by (auto simp: turns_before_def)
  qed
qed simp

lemma kNanosleep_loop_returns:
  "count \<le> sleep_limit \<Longrightarrow>
   (kNanosleep_loop ts interval remaining count = None) = (length ts \<le> min (sleep_limit - count) (turns_before ts))"
proof (induction ts arbitrary: interval remaining count)
  case (Cons t ts)
  show ?case
  proof (cases "t \<noteq> Slept \<and> count < sleep_limit")
    case True
    then have "min (sleep_limit - count) (turns_before (t # ts)) = Suc (min (sleep_limit - Suc count) (turns_before ts))"
      by (auto simp: turns_before_def min_def)
    with Cons.IH [of "Suc count"] True show ?thesis by (simp add: Let_def)
  next
    case False
    then have "min (sleep_limit - count) (turns_before (t # ts)) = 0" using Cons.prems by (auto simp: turns_before_def)
    with False show ?thesis by auto
  qed
qed simp

lemma kNanosleep_loop_refused:
  "count \<le> sleep_limit \<Longrightarrow> sleep_limit - count < n \<Longrightarrow>
   kNanosleep_loop (replicate n Refused) interval interval count = Some (-1, replicate (Suc (sleep_limit - count)) interval)"
proof (induction n arbitrary: count)
  case (Suc n)
  show ?case
  proof (cases "count < sleep_limit")
    case True
    then have "sleep_limit - count = Suc (sleep_limit - Suc count)" by simp
    with True Suc show ?thesis by simp
  qed (use Suc in simp)
qed simp

text \<open>
  C27: Sleeping.  It returns as soon as one call has slept what it was asked for, and then the caller has slept
  exactly the requested time in all, however often and wherever signals interrupted it, unless they did so
  \<^verbatim>\<open>0xffffffff\<close> times.  An interval that the kernel refuses, like a negative one, is tried that often before the
  function gives up.
\<close>

theorem kNanosleep_sleeps:
  "(kNanosleep ts interval = None \<longleftrightarrow> length ts \<le> min sleep_limit (turns_before ts)) \<and>
   (\<forall>r asked. kNanosleep ts interval = Some (r, asked) \<longrightarrow>
      length asked = Suc (min sleep_limit (turns_before ts)) \<and> (r = 0 \<longleftrightarrow> turns_before ts < sleep_limit) \<and>
      (r = 0 \<longrightarrow> (\<Sum>(t, i) \<leftarrow> zip ts asked. slept t i) = nanos interval)) \<and>
   (sleep_limit < n \<longrightarrow> kNanosleep (replicate n Refused) interval = Some (-1, replicate (Suc sleep_limit) interval))"
  using kNanosleep_loop_returns [of 0 ts interval interval] kNanosleep_loop_asks [of ts interval 0]
    kNanosleep_loop_refused [of 0 n interval]
  by (auto simp: kNanosleep_def split: if_splits)

section \<open>Lemmas on archives\<close>

lemma length_mem_stream [simp]: "length (mem_stream junk t) = length junk"
  by (auto simp: mem_stream_def Let_def)

lemma mem_stream_fits: "length junk = Suc (length t) \<Longrightarrow> mem_stream junk t = t @ [0]"
  by (simp add: mem_stream_def Let_def blit_whole)

text \<open>The first byte of the rest of a buffer is overwritten.\<close>

lemma cut_tail:
  assumes "length xs = Suc n" and "k < n"
  shows "take (n - k) ((drop k xs)[0 := x]) = x # drop (Suc k) (take n xs)"
  using assms by (intro nth_equalityI) (auto simp: nth_Cons' nth_list_update)

lemma c_str_end: "0 \<notin> set t \<Longrightarrow> c_str (t @ [0]) = t"
  by (simp add: c_str_def takeWhile_append)

text \<open>
  The transfer of an archive as a text.  What \<^verbatim>\<open>Base64Encode\<close> makes of an archive is a C string of the length
  it reports, and \<^verbatim>\<open>DecodeToDir\<close> writes exactly the archive into a file of the directory and unpacks it there.  A
  text that is not Base64 is written before its buffer; one that decodes to fewer bytes than its length
  promises leaves bytes in the file that no one has written.
\<close>

theorem archive_transfer:
  assumes "dec (enc m) = Some m" and "length (enc m) = encodedSize (length m)" and "0 \<notin> set (enc m)"
    and "length (takeWhile (\<lambda>c. c = 0x3D) (rev (enc m))) = (3 - length m mod 3) mod 3" and "m \<noteq> []"
    and "\<And>n. length (junk n) = n"
  shows "(\<exists>t. Base64Encode enc junk m = (length (enc m), t) \<and> length t = Suc (length (enc m)) \<and>
      DecodeToDir dec junk dir t =
        Inr ((tempZip dir, m), [str ''tar -xzf '' @ tempZip dir @ str '' -C '' @ dir, str ''rm '' @ tempZip dir])) \<and>
    (dec b = None \<longrightarrow> (\<exists>e. Base64Decode dec junk b = Inl e)) \<and>
    (dec b = Some out \<and> calcDecodeLength b = Inr (int n) \<and> length out < n \<longrightarrow>
      (\<exists>buffer. Base64Decode dec junk b = Inr (int n, buffer) \<and>
        take n buffer = out @ 0 # drop (Suc (length out)) (take n (junk (Suc n)))))"
proof (intro conjI impI)
  have calc: "calcDecodeLength (enc m) = Inr (int (length m))"
    using base64_length_roundtrip [of "length m" "enc m"] assms(2,4,5) by simp
  have len: "length (junk (Suc (length (enc m)))) = Suc (length (enc m))" by (rule assms(6))
  have "length (drop (length m) (junk (Suc (length m)))) = 1" using assms(6) [of "Suc (length m)"] by simp
  then obtain j where j: "drop (length m) (junk (Suc (length m))) = [j]"
    by (cases "drop (length m) (junk (Suc (length m)))") auto
  have "Base64Decode dec junk (enc m) = Inr (int (length m), m @ [0])"
    using assms(6) [of "Suc (length m)"]
    by (simp add: Base64Decode_def calc assms(1) nat_add_distrib memcpy_to_def blit_def j)
  then have "DecodeToDir dec junk dir (enc m @ [0]) =
      Inr ((tempZip dir, m), [str ''tar -xzf '' @ tempZip dir @ str '' -C '' @ dir, str ''rm '' @ tempZip dir])"
    by (simp add: DecodeToDir_def c_str_end [OF assms(3)])
  then show "\<exists>t. Base64Encode enc junk m = (length (enc m), t) \<and> length t = Suc (length (enc m)) \<and>
      DecodeToDir dec junk dir t =
        Inr ((tempZip dir, m), [str ''tar -xzf '' @ tempZip dir @ str '' -C '' @ dir, str ''rm '' @ tempZip dir])"
    by (intro exI [of _ "enc m @ [0]"]) (simp add: Base64Encode_def Let_def assms(2) [symmetric] mem_stream_fits [OF len])
next
  assume "dec b = None"
  then show "\<exists>e. Base64Decode dec junk b = Inl e"
    by (cases "calcDecodeLength b") (simp_all add: Base64Decode_def)
next
  assume d: "dec b = Some out \<and> calcDecodeLength b = Inr (int n) \<and> length out < n"
  have "length (junk (Suc n)) = Suc n" by (rule assms(6))
  with d show "\<exists>buffer. Base64Decode dec junk b = Inr (int n, buffer) \<and>
      take n buffer = out @ 0 # drop (Suc (length out)) (take n (junk (Suc n)))"
    by (auto simp: Base64Decode_def nat_add_distrib memcpy_to_def blit_def list_update_append cut_tail)
qed

lemma gen_random_loop_eq:
  "gen_random_loop rand n i s =
     (if n = 0 \<or> n + i \<le> length s then Inr (take i s @ map (\<lambda>j. alphanum ! (rand j mod 62)) [i..<i + n] @ drop (i + n) s)
      else Inl OobWrite)"
proof (induction n arbitrary: i s)
  case (Suc n)
  show ?case
  proof (cases "i < length s")
    case True
    then show ?thesis using Suc [of "Suc i" "s[i := alphanum ! (rand i mod 62)]"]
      by (auto simp: take_Suc_conv_app_nth upt_rec [of i] Cons_nth_drop_Suc [symmetric] simp del: upt_Suc)
  qed simp
qed simp

lemma alphanum_text: "length alphanum = 62" "0 \<notin> set alphanum"
  by (simp_all add: alphanum_def str_def)

lemma c_str_before: "0 \<notin> set t \<Longrightarrow> c_str (t @ 0 # r) = t"
  by (simp add: c_str_def takeWhile_append)

text \<open>
  \<^verbatim>\<open>gen_random\<close> needs a byte more than the length it is given, and then leaves a C string of that many letters
  and digits.
\<close>

theorem gen_random_string:
  "((\<exists>s'. gen_random rand s len = Inr s') \<longleftrightarrow> 0 \<le> len \<and> len < int (length s)) \<and>
   (\<forall>s'. gen_random rand s len = Inr s' \<longrightarrow> length (c_str s') = nat len \<and> set (c_str s') \<subseteq> set alphanum)"
proof -
  define t where "t = map (\<lambda>j. alphanum ! (rand j mod 62)) [0..<nat len]"
  have t: "set t \<subseteq> set alphanum" "length t = nat len"
    using alphanum_text(1) by (auto simp: t_def intro!: nth_mem)
  have "gen_random rand s len = (if 0 \<le> len \<and> len < int (length s) then Inr (t @ 0 # drop (Suc (nat len)) s) else Inl OobWrite)"
    by (auto simp: gen_random_def gen_random_loop_eq t_def [symmetric] t(2) list_update_append upd_conv_take_nth_drop wr_def)
  moreover have "c_str (t @ 0 # r) = t" for r using t(1) alphanum_text(2) by (intro c_str_before) auto
  ultimately show ?thesis using t by auto
qed

section \<open>Witness\<close>

theorem kNanosleep_sleeps_witness:
  "kNanosleep [Interrupted \<lparr>tv_sec = 1, tv_nsec = 500\<rparr>, Interrupted \<lparr>tv_sec = 0, tv_nsec = 7\<rparr>, Slept] \<lparr>tv_sec = 2, tv_nsec = 0\<rparr> =
      Some (0, [\<lparr>tv_sec = 2, tv_nsec = 0\<rparr>, \<lparr>tv_sec = 1, tv_nsec = 500\<rparr>, \<lparr>tv_sec = 0, tv_nsec = 7\<rparr>]) \<and>
   (999999500 + 999999993 :: int) + (500 + 7) = 2000000000 \<and>
   kNanosleep (replicate 5000000000 Refused) \<lparr>tv_sec = -1, tv_nsec = 0\<rparr> =
      Some (-1, replicate (Suc sleep_limit) \<lparr>tv_sec = -1, tv_nsec = 0\<rparr>)"
proof -
  let ?ts = "[Interrupted \<lparr>tv_sec = 1, tv_nsec = 500\<rparr>, Interrupted \<lparr>tv_sec = 0, tv_nsec = 7\<rparr>, Slept]"
  let ?i = "\<lparr>tv_sec = 2, tv_nsec = 0\<rparr>"
  have k: "kNanosleep ?ts ?i = Some (0, [?i, \<lparr>tv_sec = 1, tv_nsec = 500\<rparr>, \<lparr>tv_sec = 0, tv_nsec = 7\<rparr>])"
    by (simp add: kNanosleep_def sleep_limit_def)
  note t = kNanosleep_sleeps [of ?ts ?i 5000000000, THEN conjunct2]
  from t k have "(\<Sum>(t, i) \<leftarrow> zip ?ts [?i, \<lparr>tv_sec = 1, tv_nsec = 500\<rparr>, \<lparr>tv_sec = 0, tv_nsec = 7\<rparr>]. slept t i) = nanos ?i" by blast
  then have "(999999500 + 999999993 :: int) + (500 + 7) = 2000000000" by (simp add: nanos_def)
  moreover have "sleep_limit < 5000000000" by (simp add: sleep_limit_def)
  ultimately show ?thesis
    using k kNanosleep_sleeps [of ?ts "\<lparr>tv_sec = -1, tv_nsec = 0\<rparr>" 5000000000] by blast
qed

end
