(* ===== verification/LocalRpc.thy ===== *)
theory LocalRpc
  imports Program
begin

text \<open>
  Local programs talk to the gateway over a UNIX socket: the sockets of kapi/source/kutil.cpp, and the server thread
  and the client's call of kintf/source/localintf.cpp.  The callback for one client is in Remote; here it runs for one
  client after the other, over the handlers of the whole program.
\<close>

section \<open>UNIX sockets\<close>

text \<open>What the calls give: the descriptor, \<^verbatim>\<open>bind\<close>, the turns of \<^verbatim>\<open>select\<close> and the error of the socket.\<close>

record unix_env =
  usocket :: int
  ubind :: int
  uselect :: "select_turn list"
  uerror :: int

text \<open>\<^verbatim>\<open>sun_path\<close> has 108 bytes, which are 0 before the name is copied.\<close>

definition sun_path :: "byte list \<Rightarrow> net_fault + byte list" where
  "sun_path service =
     (case memcpy_to (replicate 108 0) 0 (service @ [0]) of Inl u \<Rightarrow> Inl (Ub u) | Inr p \<Rightarrow> Inr p)"

text \<open>Both return a descriptor or -1, and give the descriptors that they have closed.\<close>

definition openUnixServerSock :: "byte list \<Rightarrow> unix_env \<Rightarrow> net_fault + (int \<times> int list)" where
  "openUnixServerSock service v =
     (if usocket v < 0 then Inr (-1, [usocket v])
      else bindE (sun_path service) (\<lambda>_. if ubind v < 0 then Inr (-1, [usocket v]) else Inr (usocket v, [])))"

text \<open>The result of \<^verbatim>\<open>connect\<close> is not looked at; what became of it is the error of the socket.\<close>

definition openUnixClientSock :: "byte list \<Rightarrow> unix_env \<Rightarrow> net_fault + (int \<times> int list)" where
  "openUnixClientSock service v =
     (if usocket v < 0 then Inr (-1, [usocket v])
      else bindE (sun_path service) (\<lambda>_.
           if 1024 \<le> usocket v then Inl (Ub OobWrite)
           else bindE (select_loop (uselect v)) (\<lambda>retVal.
                  if retVal = 1 \<and> uerror v = 0 then Inr (usocket v, []) else Inr (-1, [usocket v]))))"

definition usock :: "byte list" where
  "usock = str ''/tmp/kappaio-usock''"

section \<open>The server thread\<close>

text \<open>What one turn of the server meets: \<^verbatim>\<open>select\<close>, the accepted descriptor, and what the client sends.\<close>

record local_turn =
  lt_select :: "select_turn list"
  lt_accept :: int
  lt_recvs :: "(byte list option \<times> bool) list"

text \<open>What a turn has done: the client's descriptor, what was sent to it, and whether it has been closed.\<close>

type_synonym served = "(int \<times> byte list option \<times> bool) option"

definition local_turn_step ::
    "(byte list \<Rightarrow> json option) \<Rightarrow> (json \<Rightarrow> byte list) \<Rightarrow> ('w \<Rightarrow> byte list \<Rightarrow> json option) \<Rightarrow> unit selects \<Rightarrow> local_turn \<Rightarrow>
     'w interface \<Rightarrow> net_fault + (served \<times> 'w interface)" where
  "local_turn_step loads dumps disk sel t s =
     bindE (listenOnce (lt_select t) sel) (\<lambda>cbs.
       if cbs = [] \<or> lt_accept t < 0 then Inr (None, s)
       else bindE (local_server loads dumps disk (lt_recvs t) s) (\<lambda>(rsp, s). Inr (Some (lt_accept t, rsp, lt_accept t > 0), s)))"

fun local_serve ::
    "(byte list \<Rightarrow> json option) \<Rightarrow> (json \<Rightarrow> byte list) \<Rightarrow> ('w \<Rightarrow> byte list \<Rightarrow> json option) \<Rightarrow> unit selects \<Rightarrow> local_turn list \<Rightarrow>
     'w interface \<Rightarrow> net_fault + (served list \<times> 'w interface)" where
  "local_serve loads dumps disk sel [] s = Inr ([], s)"
| "local_serve loads dumps disk sel (t # ts) s =
     bindE (local_turn_step loads dumps disk sel t s) (\<lambda>(x, s).
     bindE (local_serve loads dumps disk sel ts s) (\<lambda>(xs, s). Inr (x # xs, s)))"

text \<open>\<open>None\<close> is a thread that ends at once because the socket cannot be had.\<close>

definition hostUNIXSocketServer ::
    "(byte list \<Rightarrow> json option) \<Rightarrow> (json \<Rightarrow> byte list) \<Rightarrow> ('w \<Rightarrow> byte list \<Rightarrow> json option) \<Rightarrow> unix_env \<Rightarrow> int \<Rightarrow> local_turn list \<Rightarrow>
     'w interface \<Rightarrow> net_fault + (served list option \<times> 'w interface)" where
  "hostUNIXSocketServer loads dumps disk v listen ts s =
     bindE (openUnixServerSock usock v) (\<lambda>(fd, _).
       if fd < 0 \<or> listen < 0 then Inr (None, s)
       else bindE (rFD_SET fd () new_selects) (\<lambda>sel.
            bindE (local_serve loads dumps disk sel ts s) (\<lambda>(xs, s). Inr (Some xs, s))))"

section \<open>The client's call\<close>

text \<open>
  \<open>wait\<close> are the turns of the second \<^verbatim>\<open>select\<close> and \<open>recvs\<close> what arrives then.  The result of \<^verbatim>\<open>send\<close> is not looked at.
\<close>

definition localRpcRequest :: "unix_env \<Rightarrow> select_turn list \<Rightarrow> (byte list option \<times> bool) list \<Rightarrow> net_fault + (byte list \<times> int list)" where
  "localRpcRequest v wait recvs =
     bindE (openUnixClientSock usock v) (\<lambda>(fd, closed).
       if fd < 0 then Inr (str ''failed to open kappaio-usock'', closed)
       else bindE (rFD_SET fd () new_selects) (\<lambda>sel.
            bindE (listenOnce wait sel) (\<lambda>cbs.
            bindE (if cbs = [] then Inr [] else recvStr recvs []) (\<lambda>out. Inr (out, closed @ [fd])))))"

section \<open>What the clients should see\<close>

text \<open>The texts of the clients are handled one after the other, each by the handlers of its URI.\<close>

definition local_answer :: "app_env \<Rightarrow> byte list \<Rightarrow> app_world interface \<Rightarrow> ub + (byte list option \<times> app_world interface)" where
  "local_answer v t s =
     (case JSON_source (en_loads v) (en_disk v (world s)) t of
        None \<Rightarrow> Inr (None, s)
      | Some j \<Rightarrow>
          if exist_key ''ver'' j \<and> json_toString (member ''ver'' (Some j)) = str ''0001''
          then bindE (request_step v (json_toString (member ''request'' (Some j))) s) (\<lambda>(rsp, s). Inr (Some rsp, s))
          else Inr (None, s))"

fun local_answers :: "app_env \<Rightarrow> byte list list \<Rightarrow> app_world interface \<Rightarrow> ub + (byte list option list \<times> app_world interface)" where
  "local_answers v [] s = Inr ([], s)"
| "local_answers v (t # ts) s =
     bindE (local_answer v t s) (\<lambda>(x, s). bindE (local_answers v ts s) (\<lambda>(xs, s). Inr (x # xs, s)))"

text \<open>A client whose text has arrived when it is served.\<close>

definition client :: "local_turn \<Rightarrow> byte list \<Rightarrow> bool" where
  "client t txt \<longleftrightarrow> (\<exists>n. select_loop (lt_select t) = Inr n \<and> 0 < n) \<and> 0 < lt_accept t \<and> lt_recvs t = arrived txt"

lemma select_server:
  "0 \<le> fd \<Longrightarrow> fd < 1024 \<Longrightarrow> rFD_SET fd () new_selects = Inr \<lparr>rdset = [fd], conns = [(fd, ())], fdMax = fd\<rparr>"
  by (auto simp: rFD_SET_def new_selects_def)

lemma listen_ready:
  "select_loop turns = Inr n \<Longrightarrow> listenOnce turns \<lparr>rdset = [fd], conns = [(fd, ())], fdMax = fd\<rparr> = Inr (if 0 < n then [()] else [])"
  by (simp add: listenOnce_def)

lemma server_answer: "local_server (en_loads v) (en_dumps v) (en_disk v) (arrived t) s = ub_net (local_answer v t s)"
  by (auto simp: local_server_def local_answer_def recvStr_arrived request_step_def split: option.split sum.split)

lemma turn_served:
  assumes "client t txt"
  shows "local_turn_step (en_loads v) (en_dumps v) (en_disk v) \<lparr>rdset = [fd], conns = [(fd, ())], fdMax = fd\<rparr> t s =
    bindE (ub_net (local_answer v txt s)) (\<lambda>(rsp, s). Inr (Some (lt_accept t, rsp, True), s))"
  using assms by (auto simp: client_def local_turn_step_def listen_ready server_answer)

lemma serve_all:
  assumes "list_all2 client ts txts"
  shows "local_serve (en_loads v) (en_dumps v) (en_disk v) \<lparr>rdset = [fd], conns = [(fd, ())], fdMax = fd\<rparr> ts s =
    bindE (ub_net (local_answers v txts s)) (\<lambda>(rsps, s). Inr (map (\<lambda>(t, rsp). Some (lt_accept t, rsp, True)) (zip ts rsps), s))"
  using assms
proof (induction ts txts arbitrary: s)
  case (Cons t ts q qs)
  show ?case
  proof (cases "local_answer v q s")
    case (Inr a)
    then show ?thesis by (cases a; cases "local_answers v qs (snd a)") (auto simp: turn_served [OF Cons.hyps(1)] Cons.IH)
  qed (simp add: turn_served [OF Cons.hyps(1)])
qed simp

lemma answer_reach:
  assumes "reach (app_start v) (app_step v) s" and "local_answer v t s = Inr (x, s')"
  shows "reach (app_start v) (app_step v) s'"
proof -
  have "s' = s \<or> (\<exists>req rsp. request_step v req s = Inr (rsp, s'))"
    using assms(2) by (auto simp: local_answer_def returns_iff split: option.splits if_splits)
  then show ?thesis using assms(1) reach_step [OF assms(1) app_request] by blast
qed

lemma answers_reach:
  "reach (app_start v) (app_step v) s \<Longrightarrow> local_answers v ts s = Inr (xs, s') \<Longrightarrow>
   reach (app_start v) (app_step v) s' \<and> length xs = length ts"
proof (induction ts arbitrary: s xs)
  case (Cons t ts)
  from Cons.prems(2) obtain x s1 ys where "local_answer v t s = Inr (x, s1)" "local_answers v ts s1 = Inr (ys, s')" "xs = x # ys"
    by (auto simp: returns_iff)
  with Cons.IH [OF answer_reach [OF Cons.prems(1)]] show ?case by auto
qed simp

lemma serve_append:
  "local_serve loads dumps disk sel (ts @ us) s =
     bindE (local_serve loads dumps disk sel ts s) (\<lambda>(xs, s). bindE (local_serve loads dumps disk sel us s) (\<lambda>(ys, s). Inr (xs @ ys, s)))"
proof (induction ts arbitrary: s)
  case Nil
  show ?case by (cases "local_serve loads dumps disk sel us s") auto
next
  case (Cons t ts)
  show ?case
  proof (cases "local_turn_step loads dumps disk sel t s")
    case (Inr a)
    obtain x s1 where a: "a = (x, s1)" by fastforce
    show ?thesis
    proof (cases "local_serve loads dumps disk sel ts s1")
      case (Inr b)
      with \<open>local_turn_step _ _ _ _ _ _ = _\<close> show ?thesis
        by (cases b; cases "local_serve loads dumps disk sel us (snd b)") (auto simp: a Cons.IH)
    qed (use Inr in \<open>simp add: a Cons.IH\<close>)
  qed simp
qed

lemma usock_fits: "\<exists>p. sun_path usock = Inr p"
  by (simp add: sun_path_def usock_def str_def memcpy_to_def)

lemma server_runs:
  assumes "0 \<le> usocket u" and "usocket u < 1024" and "0 \<le> ubind u" and "0 \<le> listen"
  shows "hostUNIXSocketServer loads dumps disk u listen ts s =
    bindE (local_serve loads dumps disk \<lparr>rdset = [usocket u], conns = [(usocket u, ())], fdMax = usocket u\<rparr> ts s)
      (\<lambda>(xs, s). Inr (Some xs, s))"
  using usock_fits assms by (auto simp: hostUNIXSocketServer_def openUnixServerSock_def select_server)


text \<open>
  A local call.  Whatever happens, the client gives back the descriptor it has opened.  If the server answers its
  text, the call returns exactly the answer of the handlers; if the server takes more than five seconds, or gives
  no answer, an empty text.
\<close>

theorem local_call:
  assumes "0 \<le> usocket c" and "usocket c < 1024" and "select_loop (uselect c) = Inr ready"
    and "client t txt" and "local_answer v txt s = Inr (rsp, s')" and "select_loop wait = Inr n"
  shows "local_turn_step (en_loads v) (en_dumps v) (en_disk v) \<lparr>rdset = [fd], conns = [(fd, ())], fdMax = fd\<rparr> t s =
      Inr (Some (lt_accept t, rsp, True), s') \<and>
    localRpcRequest c wait (arrived (case rsp of None \<Rightarrow> [] | Some r \<Rightarrow> r)) =
      Inr (if ready = 1 \<and> uerror c = 0 then (if n > 0 then (case rsp of None \<Rightarrow> [] | Some r \<Rightarrow> r) else [])
           else str ''failed to open kappaio-usock'', [usocket c])"
proof -
  obtain p where "sun_path usock = Inr p" using usock_fits by blast
  then have "localRpcRequest c wait (arrived a) =
      Inr (if ready = 1 \<and> uerror c = 0 then (if n > 0 then a else []) else str ''failed to open kappaio-usock'', [usocket c])" for a
    using assms(1-3) by (simp add: localRpcRequest_def openUnixClientSock_def select_server listen_ready [OF assms(6)] recvStr_arrived)
  then show ?thesis by (simp add: turn_served [OF assms(4)] assms(5))
qed

section \<open>Witnesses\<close>

text \<open>A request for the device list, and a text that is not JSON.\<close>

definition list_client :: local_turn where
  "list_client = \<lparr>lt_select = [(1, False, 59, 0)], lt_accept = 9, lt_recvs = arrived [5]\<rparr>"

definition odd_client :: local_turn where
  "odd_client = \<lparr>lt_select = [(1, False, 59, 0)], lt_accept = 9, lt_recvs = arrived [99]\<rparr>"

definition unix_ok :: unix_env where
  "unix_ok = \<lparr>usocket = 4, ubind = 0, uselect = [(1, False, 1, 0)], uerror = 0\<rparr>"

lemma clients: "client list_client [5]" "client odd_client [99]"
  by (simp_all add: client_def list_client_def odd_client_def)

lemma list_answer: "\<exists>t. local_answer lamp_env [5] lamp_start = Inr (Some [4], t)"
proof -
  have l: "en_loads lamp_env [1] = Some (JObj [(''path'', JArr [JStr (str ''devices'')])])"
    by (simp add: lamp_env_def lamp_loads_def)
  have p: "path_uri (member ''path'' (Some (JObj [(''path'', JArr [JStr (str ''devices'')])]))) = str ''devices'' @ [0x2f]"
    by (simp add: path_uri_def member_def json_toString_def)
  have "fst (trigger Application (str ''devices'') ctx_type (repo lamp_start)) = [devices_handler (en_dumps lamp_env)]"
    using application_invariant [OF lamp_start] by blast
  then obtain t where "request_step lamp_env [1] lamp_start = Inr ([4], t)"
    by (rule request_one [OF l p]) (simp add: devices_handler_def device_ids_def stringify_def lamp_env_def)
  then show ?thesis
    by (simp add: local_answer_def lamp_env_def lamp_loads_def JSON_source_def exist_key_def member_def json_toString_def str_def)
qed

lemma odd_answer: "local_answer lamp_env [99] t = Inr (None, t)"
  by (simp add: local_answer_def lamp_env_def lamp_loads_def JSON_source_def)


theorem local_call_witness:
  "\<exists>t. local_turn_step (en_loads lamp_env) (en_dumps lamp_env) (en_disk lamp_env) \<lparr>rdset = [4], conns = [(4, ())], fdMax = 4\<rparr> list_client lamp_start =
      Inr (Some (9, Some [4], True), t) \<and>
    localRpcRequest unix_ok [(1, False, 4, 0)] (arrived [4]) = Inr ([4], [4])"
proof -
  obtain t where t: "local_answer lamp_env [5] lamp_start = Inr (Some [4], t)" using list_answer by blast
  show ?thesis
    using local_call [of unix_ok 1 list_client "[5]" lamp_env lamp_start "Some [4]" t "[(1, False, 4, 0)]" 1 4] t clients(1)
    by (simp add: unix_ok_def list_client_def)
qed

end
