(* ===== verification/HandlerTypes.thy ===== *)
theory HandlerTypes
  imports Program
begin

text \<open>
  The types of the handlers.  kapi/include/notification.h stores a handler behind a pointer that has forgotten its
  parameters, under the \<^verbatim>\<open>type_index\<close> of its wrapper, and casts it back to the type of the arguments when it is
  triggered.  Here: that cast always finds the type it assumes.
\<close>

section \<open>Registrations\<close>

type_synonym 'h registration = "byte list \<times> byte list \<times> nat \<times> 'h"

definition register_all :: "'h registration list \<Rightarrow> 'h repository \<Rightarrow> 'h repository" where
  "register_all rs R = fold (\<lambda>(e, u, ty, f). handler e u ty f) rs R"

text \<open>What a trigger should call: the last handler registered for its event, URI and argument types.\<close>

fun last_registered :: "'h registration list \<Rightarrow> byte list \<Rightarrow> byte list \<Rightarrow> nat \<Rightarrow> 'h option" where
  "last_registered [] e u ty = None"
| "last_registered ((e', u', ty', f) # rs) e u ty =
     (case last_registered rs e u ty of
        Some g \<Rightarrow> Some g
      | None \<Rightarrow> if e = e' \<and> u = u' \<and> ty = ty' then Some f else None)"

lemma trigger_registered:
  "fst (trigger e u ty (register_all rs R)) =
     (case last_registered rs e u ty of Some f \<Rightarrow> [f] | None \<Rightarrow> fst (trigger e u ty R))"
proof (induction rs arbitrary: R)
  case (Cons r rs)
  obtain e' u' ty' f where r: "r = (e', u', ty', f)" by (cases r)
  have "register_all (r # rs) R = register_all rs (handler e' u' ty' f R)" by (simp add: register_all_def r)
  then show ?case by (simp add: r Cons.IH trigger_handler split: option.split)
qed (simp add: register_all_def)

lemma last_registered_in: "last_registered rs e u ty = Some f \<Longrightarrow> (e, u, ty, f) \<in> set rs"
  by (induction rs e u ty rule: last_registered.induct) (auto split: option.splits if_splits)

section \<open>The handlers of the program\<close>

text \<open>The parameter types with which the handlers of the remote interface are declared.\<close>

definition parameter_type :: "remote_handler \<Rightarrow> nat" where
  "parameter_type h = (case h of PingRsp \<Rightarrow> cbCtx_type | GetMsg \<Rightarrow> cbCtx_type | RestfulReq \<Rightarrow> cbContext_type | WidgetReq \<Rightarrow> cbContext_type)"

text \<open>All handlers of the application interface take a context.\<close>

definition only_contexts :: "'h repository \<Rightarrow> bool" where
  "only_contexts R \<longleftrightarrow> (\<forall>e u ty. ty \<noteq> ctx_type \<longrightarrow> fst (trigger e u ty R) = [])"

lemma only_contexts_handler: "only_contexts R \<Longrightarrow> only_contexts (handler e u ctx_type f R)"
  by (simp add: only_contexts_def trigger_handler)

lemma only_contexts_trigger: "only_contexts R \<Longrightarrow> only_contexts (snd (trigger e u ty R))"
  by (simp add: only_contexts_def)

lemma only_contexts_peers: "only_contexts R \<Longrightarrow> only_contexts (register_peers dumps junk paired d a R)"
proof -
  have "only_contexts R \<Longrightarrow> only_contexts (fold (\<lambda>e. if paired e then register_peer dumps junk (Device_uri d) a else id) es R)" for es
    by (induction es arbitrary: R) (simp_all add: register_peer_def only_contexts_handler)
  then show "only_contexts R \<Longrightarrow> ?thesis" by (simp add: register_peers_def)
qed

lemma only_contexts_init: "only_contexts R \<Longrightarrow> only_contexts (app_init lift hs R)"
  by (induction hs arbitrary: R) (auto simp: app_init_def only_contexts_handler)

lemma only_contexts_start: "only_contexts (app_repository v self)"
proof -
  have "only_contexts ([] :: app_world app_handler repository)" by (simp add: only_contexts_def)
  then show ?thesis
    by (simp add: app_repository_def zdo_handlers_def SelfInit_def Let_def only_contexts_init only_contexts_handler)
qed

lemma only_contexts_step: "only_contexts (repo s) \<Longrightarrow> app_step v s t \<Longrightarrow> only_contexts (repo t)"
proof (erule app_step.cases)
  fix a s' apduStr msg t'
  assume "only_contexts (repo s)" "s = s'" "t = t'" "message_step v apduStr a msg s' = Inr t'"
  then show ?thesis using only_contexts_peers by (metis message_effect)
next
  fix req s' rsp t'
  assume "only_contexts (repo s)" "s = s'" "t = t'" "request_step v req s' = Inr (rsp, t')"
  then show ?thesis by (metis only_contexts_trigger request_effect)
qed (simp_all add: set_endpoints_def)

interpretation typed: invariant_system "app_start v" "app_step v" "\<lambda>s. only_contexts (repo s)" for v
  by unfold_locales (auto simp: app_start_def only_contexts_start only_contexts_step)



end
