(* ===== verification/MtDebug.thy ===== *)
theory MtDebug
  imports KBus MtProc
begin

text \<open>
  What is logged of the coprocessor's frames: hal/source/mtdebug.c, to which hal/source/mtproc.c routes the debug
  frames, and the dump of the frames that no subsystem takes.  The texts go to the log of KBus.
\<close>

section \<open>Debug messages\<close>

text \<open>Whether a plain \<^verbatim>\<open>char\<close> has a sign depends on the target.\<close>

definition char_value :: "bool \<Rightarrow> byte \<Rightarrow> int" where
  "char_value sch b = (if sch then sint b else uint b)"

text \<open>
  The byte behind the text is set to 0 in a copy of the frame; its index is computed from a plain \<^verbatim>\<open>char\<close>.
  \<^verbatim>\<open>SendDebugMsg\<close> is \<^verbatim>\<open>kdTraceLog\<close> with the format \<^verbatim>\<open>"%s"\<close>.
\<close>

definition MT_DebugCommandProcessing ::
    "(byte list \<Rightarrow> bool) \<Rightarrow> bool \<Rightarrow> byte list \<Rightarrow> kdev \<Rightarrow> ub + (byte \<times> kdev)" where
  "MT_DebugCommandProcessing utf8 sch pBuf s =
     (if length pBuf < 256 then Inl OobRead
      else let dest = take 256 pBuf; k = char_value sch (dest ! 0) + 3
           in if k < 0 \<or> 256 \<le> k then Inl OobWrite
              else let dest = dest[nat k := 0]
                   in if 0 \<notin> set (drop 3 dest) then Inl OobRead
                      else bindE (kdTraceLog utf8 (c_str (drop 3 dest)) s) (\<lambda>(done, s). Inr (word_of_int done, s)))"

text \<open>A message with some bytes in hexadecimal behind it; \<open>junk n\<close> are the \<open>n\<close> bytes that \<^verbatim>\<open>malloc\<close> returns.\<close>

definition SendDebugMsgUint8 ::
    "(byte list \<Rightarrow> bool) \<Rightarrow> (nat \<Rightarrow> byte list) \<Rightarrow> byte list option \<Rightarrow> nat \<Rightarrow> byte list \<Rightarrow> nat \<Rightarrow> kdev \<Rightarrow> ub + kdev" where
  "SendDebugMsgUint8 utf8 junk pMsg MsgLen pVar VarLen s =
     (let pVarStr = junk (MsgLen + 2 * VarLen + 2) in
      bindE (case pMsg of None \<Rightarrow> Inr pVarStr | Some m \<Rightarrow> memcpy2 pVarStr 0 m 0 MsgLen) (\<lambda>pVarStr.
      bindE (data_loop pVarStr MsgLen pVar [0..<VarLen]) (\<lambda>(pVarStr, _).
      bindE (wr pVarStr (MsgLen + 2 * VarLen) 0) (\<lambda>pVarStr.
      bindE (kdTraceLog utf8 (c_str pVarStr) s) (\<lambda>(_, s). Inr s)))))"

definition SendDebugUnknownMsg :: "(byte list \<Rightarrow> bool) \<Rightarrow> byte list \<Rightarrow> byte list \<Rightarrow> nat \<Rightarrow> kdev \<Rightarrow> ub + (int \<times> kdev)" where
  "SendDebugUnknownMsg utf8 junk pBuf BufLen s = kdBinTraceLog utf8 junk pBuf BufLen s"

text \<open>What a frame does to the log; the other handlers log nothing here.\<close>

definition debug_frame ::
    "(byte list \<Rightarrow> bool) \<Rightarrow> bool \<Rightarrow> byte list \<Rightarrow> mt_handler option list \<Rightarrow> (byte list \<Rightarrow> int) \<Rightarrow> byte list \<Rightarrow> kdev \<Rightarrow> ub + kdev" where
  "debug_frame utf8 sch junk table oobmp pBuf s =
     bindE (MT_ProcessIncoming table oobmp pBuf) (\<lambda>r.
       case r of
         Handled mt_handler.MT_DebugCommandProcessing \<Rightarrow> bindE (MtDebug.MT_DebugCommandProcessing utf8 sch pBuf s) (\<lambda>(_, s). Inr s)
       | DebugUnknown n \<Rightarrow> bindE (SendDebugUnknownMsg utf8 junk pBuf n s) (\<lambda>(_, s). Inr s)
       | _ \<Rightarrow> Inr s)"

fun debug_frames ::
    "(byte list \<Rightarrow> bool) \<Rightarrow> bool \<Rightarrow> byte list \<Rightarrow> mt_handler option list \<Rightarrow> (byte list \<Rightarrow> int) \<Rightarrow> byte list list \<Rightarrow> kdev \<Rightarrow> ub + kdev" where
  "debug_frames utf8 sch junk table oobmp [] s = Inr s"
| "debug_frames utf8 sch junk table oobmp (p # ps) s =
     bindE (debug_frame utf8 sch junk table oobmp p s) (debug_frames utf8 sch junk table oobmp ps)"

section \<open>What should be in the log\<close>

definition logged :: "(byte list \<Rightarrow> bool) \<Rightarrow> mt_handler option list \<Rightarrow> (byte list \<Rightarrow> int) \<Rightarrow> byte list \<Rightarrow> byte list list" where
  "logged utf8 table oobmp p =
     (case MT_ProcessIncoming table oobmp p of
        Inr (Handled mt_handler.MT_DebugCommandProcessing) \<Rightarrow> filter utf8 [c_str (take (unat (p ! 0)) (drop 3 p) @ [0])]
      | Inr (DebugUnknown n) \<Rightarrow> filter utf8 [hexs (take n p)]
      | _ \<Rightarrow> [])"

definition log_entries :: "kdev \<Rightarrow> json list" where
  "log_entries s = arr (kb_data (kbDatas (the (kdFile s)) ! 0))"

definition log_ready :: "kdev \<Rightarrow> bool" where
  "log_ready s \<longleftrightarrow> (\<exists>f xs. kdFile s = Some f \<and> messagerLogger s = Some 0 \<and> alive f 0 \<and>
     kb_type (kbDatas f ! 0) = KBARRAY \<and> kb_data (kbDatas f ! 0) = JArr xs)"

lemma init_ready: "kdInit s0 = Inr s \<Longrightarrow> log_ready s \<and> log_entries s = []"
  by (auto simp: kdInit_file log_ready_def log_entries_def alive_def createKbData_def arr_def)

lemma log_text:
  assumes "log_ready s" and "length t < 4096"
  shows "\<exists>s'. kdTraceLog utf8 t s = Inr (int (length t), s') \<and> log_ready s' \<and>
    log_entries s' = log_entries s @ map JStr (filter utf8 [t])"
proof -
  obtain f xs where f: "kdFile s = Some f" "messagerLogger s = Some 0" "alive f 0" "kb_type (kbDatas f ! 0) = KBARRAY"
    "kb_data (kbDatas f ! 0) = JArr xs" using assms(1) by (auto simp: log_ready_def)
  then have "0 < length (kbDatas f)" by (simp add: alive_def)
  with f assms(2) show ?thesis
    by (auto simp: kdTraceLog_def on_file_def kbAddStr_def kbAddJSON_def kb_value_def KBARRAY_def KBSTRUC_def log_ready_def log_entries_def
        set_kbData_def alive_def arr_def)
qed

lemma sint_byte: "sint (b :: byte) = (if uint b < 128 then uint b else uint b - 256)"
proof -
  have k: "0 \<le> uint b" "uint b < 256" using uint_lt2p [of b] by simp_all
  have s: "sint b = (uint b + 128) mod 256 - 128"
    by (simp add: sint_uint signed_take_bit_eq_take_bit_shift take_bit_eq_mod)
  show ?thesis
  proof (cases "uint b < 128")
    case False
    have "(uint b + 128) mod 256 = ((uint b - 128) + 256) mod 256" by (simp add: ac_simps)
    also have "\<dots> = uint b - 128" using k False by (simp only: mod_add_self2) simp
    finally show ?thesis using s False by simp
  qed (use s k in simp)
qed

lemma byte_bound: "unat (b :: byte) \<le> n \<longleftrightarrow> uint b \<le> int n" "unat (b :: byte) < n \<longleftrightarrow> uint b < int n"
  using of_nat_le_iff [of "unat b" n, where 'a = int] of_nat_less_iff [of "unat b" n, where 'a = int] by simp_all

lemma c_str_update: "k < length xs \<Longrightarrow> c_str (xs[k := 0]) = c_str (take k xs @ [0])"
  by (auto simp: c_str_def upd_conv_take_nth_drop takeWhile_append)

lemma c_str_length: "length (c_str t) \<le> length t"
  by (simp add: c_str_def length_takeWhile_le)

lemma debug_message:
  assumes "length p = 256" and "unat (p ! 0) \<le> 250" and "sch \<longrightarrow> unat (p ! 0) < 128" and "log_ready s"
  shows "\<exists>s' r. MtDebug.MT_DebugCommandProcessing utf8 sch p s = Inr (r, s') \<and> log_ready s' \<and>
    log_entries s' = log_entries s @ map JStr (filter utf8 [c_str (take (unat (p ! 0)) (drop 3 p) @ [0])])"
proof -
  let ?n = "unat (p ! 0)"
  define i where "i = uint (p ! 0)"
  have "char_value sch (p ! 0) = i" using assms(3) by (simp add: i_def char_value_def sint_byte byte_bound)
  moreover have "0 \<le> i" "i \<le> 250" "nat i = ?n" using assms(2) by (simp_all add: i_def byte_bound)
  ultimately have k: "nat (char_value sch (p ! 0) + 3) = ?n + 3" "\<not> char_value sch (p ! 0) + 3 < 0" "\<not> 256 \<le> char_value sch (p ! 0) + 3"
    by simp_all
  have d: "drop 3 (p[?n + 3 := 0]) = (drop 3 p)[?n := 0]" by (simp add: drop_update_swap)
  have z: "0 \<in> set ((drop 3 p)[?n := 0])" using assms(1,2) by (intro set_update_memI) simp
  have "length (c_str ((drop 3 p)[?n := 0])) < 4096"
    using c_str_length [of "(drop 3 p)[?n := 0]"] assms(1) by simp
  from log_text [OF assms(4) this, of utf8] obtain s' where
    "kdTraceLog utf8 (c_str ((drop 3 p)[?n := 0])) s = Inr (int (length (c_str ((drop 3 p)[?n := 0]))), s')" "log_ready s'"
    "log_entries s' = log_entries s @ map JStr (filter utf8 [c_str ((drop 3 p)[?n := 0])])" by blast
  moreover have "c_str ((drop 3 p)[?n := 0]) = c_str (take ?n (drop 3 p) @ [0])"
    using assms(1,2) by (intro c_str_update) simp
  ultimately show ?thesis
    using k z d assms(1) by (simp add: MtDebug.MT_DebugCommandProcessing_def Let_def)
qed

lemma unknown_message:
  assumes "0 < n" and "n \<le> 255" and "n \<le> length p" and "length junk = 512" and "log_ready s"
  shows "\<exists>s' r. SendDebugUnknownMsg utf8 junk p n s = Inr (r, s') \<and> log_ready s' \<and>
    log_entries s' = log_entries s @ map JStr (filter utf8 [hexs (take n p)])"
proof -
  have m: "map ((!) p) [0..<n] = take n p" using assms(3) by (intro nth_equalityI) auto
  have "hex_loop junk 0 p [0..<n] = Inr (blit junk 0 (hexs (map ((!) p) [0..<n]) @ [0]))"
    using assms(1-4) by (intro hex_loop_ok) auto
  then have "kdBinTraceLog utf8 junk p n s = kdTraceLog utf8 (hexs (take n p)) s"
    using assms(1,4) m by (simp add: kdBinTraceLog_def kPrintMem_def blit_def)
  moreover have "length (hexs (take n p)) < 4096" using assms(2) by simp
  from log_text [OF assms(5) this, of utf8] obtain s' where "kdTraceLog utf8 (hexs (take n p)) s = Inr (int (length (hexs (take n p))), s')"
    "log_ready s'" "log_entries s' = log_entries s @ map JStr (filter utf8 [hexs (take n p)])" by blast
  ultimately show ?thesis by (simp add: SendDebugUnknownMsg_def)
qed

lemma frame_logged:
  assumes "length p = 256" and "length junk = 512" and "length table = 15" and "log_ready s" and "sch \<longrightarrow> unat (p ! 0) < 128"
  shows "\<exists>s'. debug_frame utf8 sch junk table oobmp p s = Inr s' \<and> log_ready s' \<and>
    log_entries s' = log_entries s @ map JStr (logged utf8 table oobmp p)"
proof -
  have rds: "rd p 0 = Inr (p ! 0)" "rd p 1 = Inr (p ! 1)" "rd p 2 = Inr (p ! 2)" using assms(1) by simp_all
  let ?i = "subsystem_of (p ! 1)"
  consider (quiet) r where "MT_ProcessIncoming table oobmp p = Inr r" "r \<noteq> Handled mt_handler.MT_DebugCommandProcessing" "\<forall>n. r \<noteq> DebugUnknown n"
    | (debug) "MT_ProcessIncoming table oobmp p = Inr (Handled mt_handler.MT_DebugCommandProcessing)" "unat (p ! 0) \<le> 250"
    | (unknown) "MT_ProcessIncoming table oobmp p = Inr (DebugUnknown (unat (p ! 0) + 3))" "unat (p ! 0) \<le> 250"
  proof (cases "p ! 0 > MT_RPC_DATA_MAX \<or> \<not> ?i < 14 \<or> oobmp p = 0")
    case True
    then have "MT_ProcessIncoming table oobmp p =
        Inr (if p ! 0 > MT_RPC_DATA_MAX then ErrLength else if \<not> ?i < 14 then ErrSubsystem else OutOfBand)"
      using rds by (auto simp: MT_ProcessIncoming_def mt_consts)
    then show thesis by (rule quiet) auto
  next
    case False
    then have n: "unat (p ! 0) \<le> 250" by (simp add: MT_RPC_DATA_MAX_def word_less_nat_alt not_less)
    have i: "?i < length table" using False assms(3) by simp
    show thesis
    proof (cases "table ! ?i")
      case None
      then show thesis using unknown rds False n i by (simp add: MT_ProcessIncoming_def mt_consts)
    next
      case (Some h)
      then have "MT_ProcessIncoming table oobmp p = Inr (Handled h)" using rds False i by (simp add: MT_ProcessIncoming_def mt_consts)
      then show thesis using quiet debug n by blast
    qed
  qed
  then show ?thesis
  proof cases
    case quiet
    then show ?thesis using assms(4) by (cases r) (auto simp: debug_frame_def logged_def split: mt_handler.splits)
  next
    case debug
    from debug_message [OF assms(1) debug(2) assms(5,4), of utf8] debug(1) show ?thesis
      by (auto simp: debug_frame_def logged_def)
  next
    case unknown
    have "0 < unat (p ! 0) + 3" "unat (p ! 0) + 3 \<le> 255" "unat (p ! 0) + 3 \<le> length p" using unknown(2) assms(1) by simp_all
    from unknown_message [OF this assms(2,4), of utf8] unknown(1) show ?thesis
      by (auto simp: debug_frame_def logged_def)
  qed
qed


section \<open>Witness\<close>


end
