(* ===== verification/Assemblers.thy ===== *)
theory Assemblers
  imports SerialLink "HOL-Library.Multiset"
begin

text \<open>
  The threads of hal/source/mtintf.c.  Every signal of the driver runs \<^verbatim>\<open>SerialRcv\<close> on whatever thread it is delivered to,
  between two statements of it, and starts a new thread with \<^verbatim>\<open>MessageAssembler\<close>.  The assemblers share the ring buffer;
  they look at its length without the mutex, cut one frame with it, and hand the frame on without it.  Each of these is one step,
  and any number of threads interleave.
\<close>

section \<open>State\<close>

text \<open>Where an assembler is; the main thread, number 0, is elsewhere.  \<open>Handing n\<close>: with a frame of \<open>n\<close> bytes.\<close>

datatype asm_pc = Unborn | Elsewhere | Checking | Entering | Holding | Handing nat | Ended

text \<open>Where the signal handler is that interrupts a thread.\<close>

datatype sig_pc = NoSignal | SigLock | SigReading | SigSpawn

text \<open>
  \<open>coming\<close> is what the coprocessor will send, \<open>driver\<close> what the driver holds, \<open>raised\<close> the signals that wait for delivery
  (they are queued, being real-time signals), \<open>holder\<close> the thread that has \<^verbatim>\<open>SerBufInLenME\<close>.  \<open>cuts\<close> and \<open>handed\<close> record the
  frames cut and the packet buffers passed to the callback, in order.
\<close>

record serial_line =
  ring :: serbuf
  coming :: "byte list"
  driver :: "byte list"
  raised :: nat
  holder :: "nat option"
  born :: nat
  pcs :: "nat \<Rightarrow> asm_pc"
  sigs :: "nat \<Rightarrow> sig_pc"
  offsets :: "nat \<Rightarrow> nat"
  buffers :: "nat \<Rightarrow> byte list"
  cuts :: "byte list list"
  handed :: "byte list list"
  stopped :: "ub option"

definition link_start :: "byte list \<Rightarrow> serial_line \<Rightarrow> bool" where
  "link_start bytes s \<longleftrightarrow> ring s = MTIntfInit \<and> coming s = bytes \<and> driver s = [] \<and> raised s = 0 \<and> holder s = None \<and> born s = 1 \<and>
     pcs s = (\<lambda>_. Unborn)(0 := Elsewhere) \<and> sigs s = (\<lambda>_. NoSignal) \<and> (\<forall>t. offsets s t = 0 \<and> length (buffers s t) = PACKET_BUFFER_MAX) \<and>
     cuts s = [] \<and> handed s = [] \<and> stopped s = None"

section \<open>Steps\<close>

definition sig_read :: "nat \<Rightarrow> serial_line \<Rightarrow> serial_line" where
  "sig_read t s = s\<lparr>ring := SerialRcv (ring s) (driver s), driver := [], holder := None, sigs := (sigs s)(t := SigSpawn)\<rparr>"

text \<open>The new thread starts with \<^verbatim>\<open>Offset\<close> 0 and a packet buffer that is not initialised.\<close>

definition sig_spawn :: "nat \<Rightarrow> serial_line \<Rightarrow> serial_line" where
  "sig_spawn t s = s\<lparr>born := Suc (born s), pcs := (pcs s)(born s := Checking), sigs := (sigs s)(t := NoSignal)\<rparr>"

definition check_len :: "nat \<Rightarrow> serial_line \<Rightarrow> serial_line" where
  "check_len t s = s\<lparr>pcs := (pcs s)(t := if SerBufInLen (ring s) < MIN_PACKET_LEN then Ended else Entering)\<rparr>"

definition cut_one :: "nat \<Rightarrow> serial_line \<Rightarrow> serial_line" where
  "cut_one t s =
     (case cut_frame (ring s) (offsets s t) (buffers s t) of
        Inl e \<Rightarrow> s\<lparr>stopped := Some e\<rparr>
      | Inr None \<Rightarrow> s\<lparr>holder := None, pcs := (pcs s)(t := Ended)\<rparr>
      | Inr (Some (r, off, p, n)) \<Rightarrow>
          s\<lparr>ring := r, holder := None, pcs := (pcs s)(t := Handing n), offsets := (offsets s)(t := off),
            buffers := (buffers s)(t := p), cuts := cuts s @ [take n p]\<rparr>)"

definition hand_on :: "nat \<Rightarrow> nat \<Rightarrow> serial_line \<Rightarrow> serial_line" where
  "hand_on t n s =
     s\<lparr>pcs := (pcs s)(t := Checking), handed := handed s @ (if xor_bytes (take n (buffers s t)) = 0 then [buffers s t] else [])\<rparr>"

inductive link_step :: "serial_line \<Rightarrow> serial_line \<Rightarrow> bool" where
  arrive: "stopped s = None \<Longrightarrow> coming s = bs @ later \<Longrightarrow> bs \<noteq> [] \<Longrightarrow>
     link_step s (s\<lparr>coming := later, driver := driver s @ bs, raised := Suc (raised s)\<rparr>)"
| signal: "stopped s = None \<Longrightarrow> raised s = Suc n \<Longrightarrow> t < born s \<Longrightarrow> pcs s t \<noteq> Ended \<Longrightarrow> sigs s t = NoSignal \<Longrightarrow>
     link_step s (s\<lparr>raised := n, sigs := (sigs s)(t := SigLock)\<rparr>)"
| sig_lock: "stopped s = None \<Longrightarrow> sigs s t = SigLock \<Longrightarrow> holder s = None \<Longrightarrow>
     link_step s (s\<lparr>holder := Some t, sigs := (sigs s)(t := SigReading)\<rparr>)"
| sig_read: "stopped s = None \<Longrightarrow> sigs s t = SigReading \<Longrightarrow> SerBufInLen (ring s) + length (driver s) \<le> SERIAL_BUFFER_MAX \<Longrightarrow>
     link_step s (sig_read t s)"
| sig_spawn: "stopped s = None \<Longrightarrow> sigs s t = SigSpawn \<Longrightarrow> link_step s (sig_spawn t s)"
| check: "stopped s = None \<Longrightarrow> pcs s t = Checking \<Longrightarrow> sigs s t = NoSignal \<Longrightarrow> link_step s (check_len t s)"
| enter: "stopped s = None \<Longrightarrow> pcs s t = Entering \<Longrightarrow> sigs s t = NoSignal \<Longrightarrow> holder s = None \<Longrightarrow>
     link_step s (s\<lparr>holder := Some t, pcs := (pcs s)(t := Holding)\<rparr>)"
| cut: "stopped s = None \<Longrightarrow> pcs s t = Holding \<Longrightarrow> sigs s t = NoSignal \<Longrightarrow> link_step s (cut_one t s)"
| hand: "stopped s = None \<Longrightarrow> pcs s t = Handing n \<Longrightarrow> sigs s t = NoSignal \<Longrightarrow> link_step s (hand_on t n s)"

section \<open>One frame of a clean stream\<close>

definition on_wire :: "byte list list \<Rightarrow> byte list" where
  "on_wire fs = concat (map ((#) MT_SOF) fs)"

definition frames_ok :: "byte list list \<Rightarrow> bool" where
  "frames_ok fs \<longleftrightarrow> (\<forall>f \<in> set fs. framed f \<and> length f \<le> 256)"

text \<open>A complete frame is unread.\<close>

definition complete :: "byte list \<Rightarrow> bool" where
  "complete q \<longleftrightarrow> (\<exists>f later. q = MT_SOF # f @ later \<and> framed f)"

lemma on_wire_simps [simp]: "on_wire [] = []" "on_wire (f # fs) = MT_SOF # f @ on_wire fs"
  by (simp_all add: on_wire_def)

lemma frames_ok_simps [simp]: "frames_ok []" "frames_ok (f # fs) \<longleftrightarrow> framed f \<and> length f \<le> 256 \<and> frames_ok fs"
  by (auto simp: frames_ok_def)

lemma complete_length: "complete q \<Longrightarrow> 5 \<le> length q"
  by (auto simp: complete_def dest: framed_nonempty)

text \<open>What is unread when more is to come: the first frame, or a part of it, or of the incomplete rest.\<close>

lemma unread_cases:
  assumes "q @ later = on_wire fs @ rest" and "frames_ok fs" and "incomplete rest"
  shows "incomplete q \<and> \<not> complete q \<or> (\<exists>f fs' q'. fs = f # fs' \<and> q = MT_SOF # f @ q' \<and> q' @ later = on_wire fs' @ rest)"
proof (cases fs)
  case Nil
  then have r: "rest = q @ later" using assms(1) by simp
  have "incomplete q"
    using assms(3) by (cases "q = []") (auto simp: incomplete_def r nth_append)
  moreover have "\<not> complete q"
  proof
    assume "complete q"
    then obtain f q' where q: "q = MT_SOF # f @ q'" "framed f" by (auto simp: complete_def)
    have "4 \<le> length f" using framed_nonempty [OF q(2)] by blast
    with assms(3) q(2) framed_hd [OF q(2), of "q' @ later"] show False
      by (cases "f = []") (auto simp: incomplete_def r q(1) framed_def nth_append)
  qed
  ultimately show ?thesis by simp
next
  case (Cons f fs')
  have f: "framed f" using assms(2) Cons by simp
  have e: "q @ later = MT_SOF # f @ on_wire fs' @ rest" using assms(1) Cons by simp
  show ?thesis
  proof (cases "length f < length q")
    case True
    have "take (Suc (length f)) (q @ later) = MT_SOF # f" using e by simp
    then have "take (Suc (length f)) q = MT_SOF # f" using True by simp
    then have q: "q = MT_SOF # f @ drop (Suc (length f)) q" using append_take_drop_id [of "Suc (length f)" q] by simp
    moreover have "drop (Suc (length f)) q @ later = on_wire fs' @ rest" using e by (subst (asm) q) simp
    ultimately show ?thesis using Cons by blast
  next
    case False
    have nth: "q ! i = (MT_SOF # f @ on_wire fs' @ rest) ! i" if "i < length q" for i
      using that by (metis e nth_append)
    have len: "unat (f ! 0) + 4 = length f" "4 \<le> length f" using f framed_nonempty [OF f] by (auto simp: framed_def)
    have "length q < 5 \<or> q ! 0 = MT_SOF \<and> length q < unat (q ! 1) + 5"
      using False nth [of 0] nth [of 1] len by (cases "length q < 5"; cases "q = []") (auto simp: nth_append)
    moreover have "\<not> complete q"
    proof
      assume "complete q"
      then obtain g q' where g: "q = MT_SOF # g @ q'" "framed g" by (auto simp: complete_def)
      then have "4 \<le> length g" using framed_nonempty by blast
      with g nth [of 1] len have "g ! 0 = f ! 0" by (cases "g = []"; cases "f = []") (auto simp: nth_append)
      with g len False show False by (simp add: framed_def)
    qed
    ultimately show ?thesis by (simp add: incomplete_def)
  qed
qed

lemma cut_frame_short: "SerBufInLen r < 5 \<Longrightarrow> cut_frame r 0 p = Inr None"
  by (subst cut_frame_def, subst seek_sof.simps) (auto simp: serial_consts Let_def)

lemma cut_frame_incomplete:
  assumes "ser_wf r" and "incomplete (contents r)" and "length p = 256"
  shows "cut_frame r 0 p = Inr None"
proof (cases "SerBufInLen r < 5")
  case True
  then show ?thesis by (rule cut_frame_short)
next
  case False
  have "cut_abs (contents r) 0 = Inr None"
    using assms(2) False by (auto simp: incomplete_def cut_abs_def start_abs_def)
  with cut_frame_abs(2) [OF assms(1) _ assms(3)] False show ?thesis by simp
qed

lemma cut_frame_complete:
  assumes "ser_wf r" and "contents r = MT_SOF # f @ q" and "framed f" and "length f \<le> 256" and "length p = 256"
  shows "\<exists>r'. cut_frame r 0 p = Inr (Some (r', 0, blit p 0 f, length f)) \<and> ser_wf r' \<and> contents r' = q \<and>
    length (blit p 0 f) = 256 \<and> take (length f) (blit p 0 f) = f \<and> packet (blit p 0 f) = f"
proof -
  have "cut_abs (contents r) 0 = Inr (Some (q, 0, f))" using cut_abs_stale [OF assms(3), of q 0] assms(2,4) by simp
  moreover have "5 \<le> SerBufInLen r" using framed_nonempty [OF assms(3)] arg_cong [OF assms(2), of length] by simp
  moreover have "packet (blit p 0 f) = f" using assms(3-5) by (intro packet_blit) (simp_all add: framed_def)
  ultimately show ?thesis
    using cut_frame_abs(3) [OF assms(1) _ assms(5)] assms(4,5) by (fastforce simp: blit_def)
qed

section \<open>The invariant\<close>

definition held_frame :: "serial_line \<Rightarrow> nat \<Rightarrow> byte list multiset" where
  "held_frame s t =
     (case pcs s t of
        Handing n \<Rightarrow> (if xor_bytes (take n (buffers s t)) = 0 then {# take n (buffers s t) #} else {#})
      | _ \<Rightarrow> {#})"

definition in_hand :: "serial_line \<Rightarrow> byte list multiset" where
  "in_hand s = (\<Sum>t < born s. held_frame s t)"

definition working :: "asm_pc \<Rightarrow> bool" where
  "working pc \<longleftrightarrow> pc \<noteq> Unborn \<and> pc \<noteq> Elsewhere \<and> pc \<noteq> Ended"

text \<open>The bytes: what has been cut, what is unread, and what is to come are the stream.\<close>

definition stream_inv :: "byte list list \<Rightarrow> byte list \<Rightarrow> serial_line \<Rightarrow> bool" where
  "stream_inv fs rest s \<longleftrightarrow> stopped s = None \<and> ser_wf (ring s) \<and> (\<forall>t. offsets s t = 0 \<and> length (buffers s t) = 256) \<and>
     (\<forall>t. born s \<le> t \<longrightarrow> pcs s t = Unborn \<and> sigs s t = NoSignal) \<and>
     (\<exists>gs. fs = cuts s @ gs \<and> contents (ring s) @ driver s @ coming s = on_wire gs @ rest)"

text \<open>The frames: those with a correct checksum have been handed on or are on the way.\<close>

definition hand_inv :: "serial_line \<Rightarrow> bool" where
  "hand_inv s \<longleftrightarrow> (\<forall>t n. pcs s t = Handing n \<longrightarrow> packet (buffers s t) = take n (buffers s t)) \<and>
     mset (map packet (handed s)) + in_hand s = mset (filter (\<lambda>f. xor_bytes f = 0) (cuts s))"

text \<open>Nobody is forgotten: for a complete frame an assembler is at work, for bytes in the driver a signal is under way.\<close>

definition wake_inv :: "serial_line \<Rightarrow> bool" where
  "wake_inv s \<longleftrightarrow> (complete (contents (ring s)) \<longrightarrow> (\<exists>t < born s. working (pcs s t) \<or> sigs s t = SigSpawn)) \<and>
     (driver s \<noteq> [] \<longrightarrow> 0 < raised s \<or> (\<exists>t < born s. sigs s t = SigLock \<or> sigs s t = SigReading))"

lemma is_born: "stream_inv fs rest s \<Longrightarrow> working (pcs s t) \<or> sigs s t \<noteq> NoSignal \<Longrightarrow> t < born s"
  by (rule ccontr) (auto simp: stream_inv_def working_def not_less)

lemma in_hand_change:
  assumes "t < born s" and "born s' = born s" and "\<And>u. u \<noteq> t \<Longrightarrow> held_frame s' u = held_frame s u"
  shows "in_hand s' + held_frame s t = in_hand s + held_frame s' t"
proof -
  have "in_hand x = held_frame x t + (\<Sum>u \<in> {..<born s} - {t}. held_frame x u)" if "born x = born s" for x
    unfolding in_hand_def that using assms(1) by (intro sum.remove) auto
  moreover have "(\<Sum>u \<in> {..<born s} - {t}. held_frame s' u) = (\<Sum>u \<in> {..<born s} - {t}. held_frame s u)"
    using assms(3) by (intro sum.cong) auto
  ultimately show ?thesis using assms(2) by simp
qed

lemma in_hand_same: "born s' = born s \<Longrightarrow> (\<And>u. held_frame s' u = held_frame s u) \<Longrightarrow> in_hand s' = in_hand s"
  by (simp add: in_hand_def)

lemma moved: "a' + x = a \<Longrightarrow> h' = h + x \<Longrightarrow> h' + a' = h + a" for a :: "'a multiset"
  by (auto simp: ac_simps)

lemma cut_one_cases:
  assumes "stream_inv fs rest s" and "frames_ok fs" and "incomplete rest" and "pcs s t = Holding"
  shows "\<not> complete (contents (ring s)) \<and> cut_one t s = s\<lparr>holder := None, pcs := (pcs s)(t := Ended)\<rparr> \<or>
    (\<exists>f gs r p. fs = cuts s @ f # gs \<and> ser_wf r \<and> contents r @ driver s @ coming s = on_wire gs @ rest \<and> length p = 256 \<and>
       take (length f) p = f \<and> packet p = f \<and>
       cut_one t s = s\<lparr>ring := r, holder := None, pcs := (pcs s)(t := Handing (length f)), offsets := (offsets s)(t := 0),
         buffers := (buffers s)(t := p), cuts := cuts s @ [f]\<rparr>)"
proof -
  from assms(1) obtain gs where gs: "fs = cuts s @ gs" "contents (ring s) @ driver s @ coming s = on_wire gs @ rest"
    and wf: "ser_wf (ring s)" "offsets s t = 0" "length (buffers s t) = 256" by (auto simp: stream_inv_def)
  have ok: "frames_ok gs" using assms(2) gs(1) by (auto simp: frames_ok_def)
  from unread_cases [OF gs(2) ok assms(3)] show ?thesis
  proof (elim disjE exE conjE)
    assume "incomplete (contents (ring s))" "\<not> complete (contents (ring s))"
    with cut_frame_incomplete [OF wf(1) _ wf(3)] wf(2) show ?thesis by (simp add: cut_one_def)
  next
    fix f gs' q assume f: "gs = f # gs'" "contents (ring s) = MT_SOF # f @ q" "q @ driver s @ coming s = on_wire gs' @ rest"
    with ok have "framed f" "length f \<le> 256" by auto
    from cut_frame_complete [OF wf(1) f(2) this wf(3)] obtain r where
      r: "cut_frame (ring s) 0 (buffers s t) = Inr (Some (r, 0, blit (buffers s t) 0 f, length f))" "ser_wf r" "contents r = q"
        "length (blit (buffers s t) 0 f) = 256" "take (length f) (blit (buffers s t) 0 f) = f" "packet (blit (buffers s t) 0 f) = f"
      by blast
    have "cut_one t s = s\<lparr>ring := r, holder := None, pcs := (pcs s)(t := Handing (length f)), offsets := (offsets s)(t := 0),
         buffers := (buffers s)(t := blit (buffers s t) 0 f), cuts := cuts s @ [f]\<rparr>"
      using r(1,5) wf(2) by (simp add: cut_one_def)
    with r f gs(1) show ?thesis by blast
  qed
qed

lemma stream_inv_step:
  assumes "stream_inv fs rest s" and "frames_ok fs" and "incomplete rest" and "link_step s s'"
  shows "stream_inv fs rest s'"
  using assms(4)
proof cases
  case (arrive bs later)
  with assms(1) show ?thesis by (auto simp: stream_inv_def)
next
  case (signal n t)
  with assms(1) show ?thesis by (auto simp: stream_inv_def)
next
  case (sig_lock t)
  with assms(1) is_born [OF assms(1), of t] show ?thesis by (auto simp: stream_inv_def)
next
  case (sig_read t)
  then have "ser_wf (SerialRcv (ring s) (driver s))" "contents (SerialRcv (ring s) (driver s)) = contents (ring s) @ driver s"
    using SerialRcv_fits [of "ring s" "driver s"] assms(1) by (auto simp: stream_inv_def serial_consts)
  with assms(1) sig_read is_born [OF assms(1), of t] show ?thesis by (auto simp: stream_inv_def sig_read_def)
next
  case (sig_spawn t)
  with assms(1) is_born [OF assms(1), of t] show ?thesis by (auto simp: stream_inv_def sig_spawn_def)
next
  case (check t)
  with assms(1) is_born [OF assms(1), of t] show ?thesis by (auto simp: stream_inv_def check_len_def working_def)
next
  case (enter t)
  with assms(1) is_born [OF assms(1), of t] show ?thesis by (auto simp: stream_inv_def working_def)
next
  case (cut t)
  have b: "t < born s" using is_born [OF assms(1), of t] cut by (simp add: working_def)
  from cut_one_cases [OF assms(1-3) cut(3)] assms(1) b cut(1) show ?thesis
    by (elim disjE exE conjE) (auto simp: stream_inv_def)
next
  case (hand t n)
  with assms(1) is_born [OF assms(1), of t] show ?thesis by (auto simp: stream_inv_def hand_on_def working_def)
qed

lemma hand_inv_step:
  assumes "stream_inv fs rest s" and "frames_ok fs" and "incomplete rest" and "hand_inv s" and "link_step s s'"
  shows "hand_inv s'"
proof -
  have same: "hand_inv s'" if keep: "handed s' = handed s" "cuts s' = cuts s" "buffers s' = buffers s" "born s' = born s"
    "\<And>u n. pcs s' u = Handing n \<longleftrightarrow> pcs s u = Handing n" for s'
  proof -
    have "held_frame s' u = held_frame s u" for u
    proof (cases "\<exists>n. pcs s u = Handing n")
      case True
      then obtain n where "pcs s u = Handing n" "pcs s' u = Handing n" using keep(5) by blast
      then show ?thesis using keep(3) by (simp add: held_frame_def)
    next
      case False
      then show ?thesis using keep(5) by (auto simp: held_frame_def split: asm_pc.splits)
    qed
    with keep assms(4) in_hand_same [of s' s] show ?thesis by (auto simp: hand_inv_def)
  qed
  show ?thesis
    using assms(5)
  proof cases
    case (arrive bs later)
    then show ?thesis by (intro same) auto
  next
    case (signal n t)
    then show ?thesis by (intro same) auto
  next
    case (sig_lock t)
    then show ?thesis by (intro same) auto
  next
    case (sig_read t)
    then show ?thesis by (intro same) (auto simp: sig_read_def)
  next
    case (sig_spawn t)
    have "held_frame s' u = held_frame s u" for u
      using assms(1) by (auto simp: sig_spawn sig_spawn_def held_frame_def stream_inv_def split: asm_pc.splits)
    moreover have "held_frame s (born s) = {#}" using assms(1) by (simp add: held_frame_def stream_inv_def)
    ultimately have "in_hand s' = in_hand s" by (simp add: in_hand_def sig_spawn sig_spawn_def)
    with assms(4) show ?thesis by (auto simp: hand_inv_def sig_spawn sig_spawn_def)
  next
    case (check t)
    then show ?thesis by (intro same) (auto simp: check_len_def)
  next
    case (enter t)
    then show ?thesis by (intro same) auto
  next
    case (cut t)
    have b: "t < born s" using is_born [OF assms(1), of t] cut by (simp add: working_def)
    from cut_one_cases [OF assms(1-3) cut(3)] show ?thesis
    proof (elim disjE exE conjE)
      assume "cut_one t s = s\<lparr>holder := None, pcs := (pcs s)(t := Ended)\<rparr>"
      with cut show ?thesis by (intro same) auto
    next
      fix f gs r p assume f: "take (length f) p = f" "packet p = f" and
        s': "cut_one t s = s\<lparr>ring := r, holder := None, pcs := (pcs s)(t := Handing (length f)), offsets := (offsets s)(t := 0),
         buffers := (buffers s)(t := p), cuts := cuts s @ [f]\<rparr>"
      have "held_frame s t = {#}" "held_frame s' t = (if xor_bytes f = 0 then {# f #} else {#})"
        using cut f(1) by (simp_all add: held_frame_def s')
      moreover have "in_hand s' + held_frame s t = in_hand s + held_frame s' t"
        by (rule in_hand_change [OF b]) (auto simp: cut(1) s' held_frame_def split: asm_pc.splits)
      ultimately have "in_hand s' = in_hand s + (if xor_bytes f = 0 then {# f #} else {#})" by simp
      with assms(4) f show ?thesis by (auto simp: hand_inv_def cut(1) s')
    qed
  next
    case (hand t n)
    have b: "t < born s" using is_born [OF assms(1), of t] hand by (simp add: working_def)
    have p: "packet (buffers s t) = take n (buffers s t)" using assms(4) hand by (simp add: hand_inv_def)
    have "in_hand s' + held_frame s t = in_hand s + held_frame s' t"
      by (rule in_hand_change [OF b]) (auto simp: hand(1) hand_on_def held_frame_def split: asm_pc.splits)
    moreover have "held_frame s' t = {#}" by (simp add: hand(1) hand_on_def held_frame_def)
    moreover have "held_frame s t = (if xor_bytes (take n (buffers s t)) = 0 then {# take n (buffers s t) #} else {#})"
      using hand by (simp add: held_frame_def)
    moreover have "mset (map packet (handed s')) =
        mset (map packet (handed s)) + (if xor_bytes (take n (buffers s t)) = 0 then {# take n (buffers s t) #} else {#})"
      by (simp add: hand(1) hand_on_def p)
    ultimately have "mset (map packet (handed s')) + in_hand s' = mset (map packet (handed s)) + in_hand s"
      by (intro moved) simp_all
    moreover have "cuts s' = cuts s" "\<forall>u m. pcs s' u = Handing m \<longrightarrow> packet (buffers s' u) = take m (buffers s' u)"
      using assms(4) by (auto simp: hand(1) hand_on_def hand_inv_def)
    ultimately show ?thesis using assms(4) by (simp add: hand_inv_def)
  qed
qed

lemma wake_inv_keep:
  assumes "wake_inv s" and "ring s' = ring s" and "driver s' = driver s" and "raised s' = raised s" and "born s' = born s"
    and "\<And>u. sigs s u = SigSpawn \<longleftrightarrow> sigs s' u = SigSpawn"
    and "\<And>u. sigs s u = SigLock \<or> sigs s u = SigReading \<longleftrightarrow> sigs s' u = SigLock \<or> sigs s' u = SigReading"
    and "\<And>u. working (pcs s u) \<Longrightarrow> working (pcs s' u) \<or> \<not> complete (contents (ring s))"
  shows "wake_inv s'"
  using assms unfolding wake_inv_def by metis

lemma wake_inv_step:
  assumes "stream_inv fs rest s" and "frames_ok fs" and "incomplete rest" and "wake_inv s" and "link_step s s'"
  shows "wake_inv s'"
  using assms(5)
proof cases
  case (arrive bs later)
  with assms(4) show ?thesis by (simp add: wake_inv_def)
next
  case (signal n t)
  then have "sigs s' u = (if u = t then SigLock else sigs s u)" "pcs s' = pcs s" "born s' = born s" "ring s' = ring s" "t < born s'" for u
    by auto
  with assms(4) signal(5,6) show ?thesis unfolding wake_inv_def by (metis sig_pc.distinct(5))
next
  case (sig_lock t)
  then show ?thesis by (intro wake_inv_keep [OF assms(4)]) auto
next
  case (sig_read t)
  then have "t < born s" using is_born [OF assms(1)] by simp
  with sig_read show ?thesis by (auto simp: wake_inv_def sig_read_def)
next
  case (sig_spawn t)
  have "working (pcs s' (born s))" "born s < born s'" by (simp_all add: sig_spawn(1) sig_spawn_def working_def)
  moreover have "sigs s' u = (if u = t then NoSignal else sigs s u)" "driver s' = driver s" "raised s' = raised s" "born s' = Suc (born s)" for u
    by (simp_all add: sig_spawn(1) sig_spawn_def)
  ultimately show ?thesis
    using assms(4) sig_spawn(3) unfolding wake_inv_def by (metis less_Suc_eq sig_pc.distinct(9,11))
next
  case (check t)
  have "\<not> complete (contents (ring s))" if "SerBufInLen (ring s) < 5"
    using complete_length [of "contents (ring s)"] that by auto
  with check show ?thesis
    by (intro wake_inv_keep [OF assms(4)]) (auto simp: check_len_def working_def serial_consts)
next
  case (enter t)
  then show ?thesis by (intro wake_inv_keep [OF assms(4)]) (auto simp: working_def)
next
  case (cut t)
  have b: "t < born s" using is_born [OF assms(1), of t] cut by (simp add: working_def)
  from cut_one_cases [OF assms(1-3) cut(3)] show ?thesis
  proof (elim disjE exE conjE)
    assume "\<not> complete (contents (ring s))" "cut_one t s = s\<lparr>holder := None, pcs := (pcs s)(t := Ended)\<rparr>"
    with cut(1) show ?thesis by (intro wake_inv_keep [OF assms(4)]) auto
  next
    fix f gs r p assume s': "cut_one t s = s\<lparr>ring := r, holder := None, pcs := (pcs s)(t := Handing (length f)), offsets := (offsets s)(t := 0),
         buffers := (buffers s)(t := p), cuts := cuts s @ [f]\<rparr>"
    have "working (pcs s' t)" "t < born s'" using b by (simp_all add: cut(1) s' working_def)
    moreover have "sigs s' = sigs s" "driver s' = driver s" "raised s' = raised s" "born s' = born s" by (simp_all add: cut(1) s')
    ultimately show ?thesis using assms(4) unfolding wake_inv_def by metis
  qed
next
  case (hand t n)
  then show ?thesis by (intro wake_inv_keep [OF assms(4)]) (auto simp: hand_on_def working_def)
qed

definition link_inv :: "byte list list \<Rightarrow> byte list \<Rightarrow> serial_line \<Rightarrow> bool" where
  "link_inv fs rest s \<longleftrightarrow> frames_ok fs \<and> incomplete rest \<and> stream_inv fs rest s \<and> hand_inv s \<and> wake_inv s"

lemma link_inv_start: "frames_ok fs \<Longrightarrow> incomplete rest \<Longrightarrow> link_start (on_wire fs @ rest) s \<Longrightarrow> link_inv fs rest s"
  by (auto simp: link_start_def link_inv_def stream_inv_def hand_inv_def wake_inv_def in_hand_def held_frame_def working_def complete_def
      MTIntfInit_def ser_wf_def contents_def serial_consts split: if_splits)

interpretation assemblers: invariant_system "\<lambda>s. frames_ok fs \<and> incomplete rest \<and> link_start (on_wire fs @ rest) s" link_step "link_inv fs rest"
  for fs rest
  by unfold_locales (auto simp: link_inv_start, auto simp: link_inv_def intro: stream_inv_step hand_inv_step wake_inv_step)

section \<open>Properties\<close>

text \<open>All threads have ended, and no byte and no signal is under way.\<close>

definition at_rest :: "serial_line \<Rightarrow> bool" where
  "at_rest s \<longleftrightarrow> coming s = [] \<and> driver s = [] \<and> raised s = 0 \<and> (\<forall>t < born s. \<not> working (pcs s t) \<and> sigs s t = NoSignal)"


section \<open>Schedules\<close>

text \<open>Who makes the next step; the driver gets \<open>n\<close> bytes.\<close>

datatype action = Arrives nat | Signals nat | Runs nat

fun act :: "action \<Rightarrow> serial_line \<Rightarrow> serial_line" where
  "act (Arrives n) s = (if take n (coming s) = [] then s
     else s\<lparr>coming := drop n (coming s), driver := driver s @ take n (coming s), raised := Suc (raised s)\<rparr>)"
| "act (Signals t) s = (if raised s = 0 \<or> born s \<le> t \<or> pcs s t = Ended \<or> sigs s t \<noteq> NoSignal then s
     else s\<lparr>raised := raised s - 1, sigs := (sigs s)(t := SigLock)\<rparr>)"
| "act (Runs t) s =
     (case sigs s t of
        SigLock \<Rightarrow> if holder s = None then s\<lparr>holder := Some t, sigs := (sigs s)(t := SigReading)\<rparr> else s
      | SigReading \<Rightarrow> if SerBufInLen (ring s) + length (driver s) \<le> SERIAL_BUFFER_MAX then sig_read t s else s
      | SigSpawn \<Rightarrow> sig_spawn t s
      | NoSignal \<Rightarrow>
          (case pcs s t of
             Checking \<Rightarrow> check_len t s
           | Entering \<Rightarrow> if holder s = None then s\<lparr>holder := Some t, pcs := (pcs s)(t := Holding)\<rparr> else s
           | Holding \<Rightarrow> cut_one t s
           | Handing n \<Rightarrow> hand_on t n s
           | _ \<Rightarrow> s))"

definition acts :: "action list \<Rightarrow> serial_line \<Rightarrow> serial_line" where
  "acts xs s = fold (\<lambda>a s. if stopped s = None then act a s else s) xs s"

lemma act_step: "stopped s = None \<Longrightarrow> act a s = s \<or> link_step s (act a s)"
proof (induction a s rule: act.induct)
  case (1 n s)
  then show ?case using link_step.arrive [of s "take n (coming s)" "drop n (coming s)"] by auto
next
  case (2 t s)
  then show ?case using link_step.signal [of s "raised s - 1" t] by auto
next
  case (3 t s)
  then show ?case
    by (cases "sigs s t"; cases "pcs s t") (auto intro: link_step.intros)
qed

lemma acts_reach: "reach start link_step s \<Longrightarrow> reach start link_step (acts xs s)"
proof (induction xs arbitrary: s)
  case (Cons a xs)
  have "reach start link_step (if stopped s = None then act a s else s)"
    using Cons.prems act_step [of s a] by (auto intro: reach_step)
  from Cons.IH [OF this] show ?case by (simp add: acts_def)
qed (simp add: acts_def)

text \<open>Two frames, each by its length byte, two command bytes and the checksum.\<close>

definition frame_a :: "byte list" where "frame_a = [0, 0x41, 0x80, 0xC1]"
definition frame_b :: "byte list" where "frame_b = [1, 0x42, 0x80, 7, 0xC4]"

lemma below_3: "(\<forall>t < 3. P t) \<longleftrightarrow> P 0 \<and> P 1 \<and> P (2 :: nat)"
  by (auto simp: numeral_3_eq_3 numeral_2_eq_2 less_Suc_eq)

definition link_0 :: "byte list \<Rightarrow> serial_line" where
  "link_0 bytes = \<lparr>ring = MTIntfInit, coming = bytes, driver = [], raised = 0, holder = None, born = 1, pcs = (\<lambda>_. Unborn)(0 := Elsewhere),
     sigs = (\<lambda>_. NoSignal), offsets = (\<lambda>_. 0), buffers = (\<lambda>_. replicate 256 0), cuts = [], handed = [], stopped = None\<rparr>"

lemma link_0_reach: "reach (link_start bytes) link_step (acts xs (link_0 bytes))"
  by (rule acts_reach, rule reach_start) (simp add: link_start_def link_0_def serial_consts)

section \<open>What may go wrong\<close>

text \<open>A thread that holds the mutex is interrupted by a handler that waits for it.\<close>

definition stuck :: "serial_line \<Rightarrow> bool" where
  "stuck s \<longleftrightarrow> (case holder s of None \<Rightarrow> False | Some t \<Rightarrow> pcs s t = Holding \<and> sigs s t = SigLock)"

definition mutex_inv :: "serial_line \<Rightarrow> bool" where
  "mutex_inv s \<longleftrightarrow> (\<forall>t. sigs s t = SigReading \<longrightarrow> holder s = Some t \<and> pcs s t \<noteq> Holding) \<and> (\<forall>t. pcs s t = Holding \<longrightarrow> holder s = Some t) \<and>
     (\<forall>t \<ge> born s. pcs s t = Unborn \<and> sigs s t = NoSignal)"

lemma mutex_inv_step: "mutex_inv s \<Longrightarrow> link_step s s' \<Longrightarrow> mutex_inv s'"
proof -
  assume m: "mutex_inv s" and "link_step s s'"
  have b: "t < born s" if "pcs s t \<noteq> Unborn \<or> sigs s t \<noteq> NoSignal" for t
    using m that unfolding mutex_inv_def by (metis not_less)
  have h: "u = t" if "pcs s u = Holding \<or> sigs s u = SigReading" "holder s = Some t" for u t
    using m that unfolding mutex_inv_def by (metis option.inject)
  from \<open>link_step s s'\<close> show ?thesis
  proof cases
    case (arrive bs later)
    with m show ?thesis by (simp add: mutex_inv_def)
  next
    case (signal n t)
    with m show ?thesis by (auto simp: mutex_inv_def)
  next
    case (sig_lock t)
    with m b [of t] show ?thesis by (auto simp: mutex_inv_def)
  next
    case (sig_read t)
    with m have t: "holder s = Some t" "pcs s t \<noteq> Holding" by (auto simp: mutex_inv_def)
    have "\<forall>u. u \<noteq> t \<longrightarrow> sigs s u \<noteq> SigReading" "\<forall>u. pcs s u \<noteq> Holding" using h [OF _ t(1)] t(2) by blast+
    with m b [of t] sig_read show ?thesis by (simp add: mutex_inv_def sig_read_def)
  next
    case (sig_spawn t)
    with m b [of t] show ?thesis by (auto simp: mutex_inv_def sig_spawn_def)
  next
    case (check t)
    with m b [of t] show ?thesis by (auto simp: mutex_inv_def check_len_def)
  next
    case (enter t)
    with m b [of t] show ?thesis by (auto simp: mutex_inv_def)
  next
    case (cut t)
    with m have "holder s = Some t" by (auto simp: mutex_inv_def)
    with h have "\<forall>u. u \<noteq> t \<longrightarrow> pcs s u \<noteq> Holding" "\<forall>u. u \<noteq> t \<longrightarrow> sigs s u \<noteq> SigReading" by blast+
    then have others: "\<forall>u. u \<noteq> t \<longrightarrow> pcs s u \<noteq> Holding" "\<forall>u. sigs s u \<noteq> SigReading" using cut(4) by (blast, metis sig_pc.distinct(3))
    show ?thesis
    proof (cases "cut_frame (ring s) (offsets s t) (buffers s t)")
      case (Inl e)
      with cut m show ?thesis by (simp add: mutex_inv_def cut_one_def)
    next
      case (Inr x)
      with cut m b [of t] others show ?thesis by (cases x) (simp_all add: mutex_inv_def cut_one_def split: prod.splits)
    qed
  next
    case (hand t n)
    with m b [of t] show ?thesis by (auto simp: mutex_inv_def hand_on_def)
  qed
qed

lemma mutex_inv_start: "link_start bytes s \<Longrightarrow> mutex_inv s"
  by (auto simp: link_start_def mutex_inv_def)

interpretation link_mutex: invariant_system "link_start bytes" link_step mutex_inv for bytes
  by unfold_locales (auto intro: mutex_inv_start mutex_inv_step)

lemma stuck_step: "mutex_inv s \<Longrightarrow> stuck s \<Longrightarrow> link_step s s' \<Longrightarrow> stuck s' \<and> ring s' = ring s \<and> cuts s' = cuts s"
proof -
  assume m: "mutex_inv s" and "stuck s" and step: "link_step s s'"
  then obtain t where t: "holder s = Some t" "pcs s t = Holding" "sigs s t = SigLock" by (auto simp: stuck_def split: option.splits)
  then have b: "t < born s" using m unfolding mutex_inv_def by (metis asm_pc.distinct(7) not_less)
  have other: "u \<noteq> t" if "sigs s u = NoSignal \<or> sigs s u = SigSpawn" for u using t(3) that by auto
  from step show ?thesis
  proof cases
    case (sig_read u)
    with m t(1) have "u = t" unfolding mutex_inv_def by (metis option.inject)
    with sig_read(3) t(3) show ?thesis by simp
  next
    case (cut u)
    with m t(1) have "u = t" unfolding mutex_inv_def by (metis option.inject)
    with cut(4) t(3) show ?thesis by simp
  next
    case (signal n u)
    with t other [of u] show ?thesis by (simp add: stuck_def)
  next
    case (sig_spawn u)
    with t b other [of u] show ?thesis by (simp add: stuck_def sig_spawn_def)
  next
    case (check u)
    with t other [of u] show ?thesis by (simp add: stuck_def check_len_def)
  next
    case (hand u n)
    with t other [of u] show ?thesis by (simp add: stuck_def hand_on_def)
  qed (use t in \<open>simp_all add: stuck_def\<close>)
qed

text \<open>
  The handler may run on the thread that holds the mutex, which then waits for itself: no byte is read and no frame is cut
  ever again.  And two assemblers may hand on two frames in the wrong order.
\<close>

theorem assemblers_fail:
  "reach (link_start bytes) link_step s \<Longrightarrow> stuck s \<Longrightarrow> reach (\<lambda>x. x = s) link_step s' \<Longrightarrow> stuck s' \<and> ring s' = ring s \<and> cuts s' = cuts s"
  "\<exists>s. reach (link_start (on_wire [frame_a, frame_b])) link_step s \<and> stuck s \<and> SerBufInLen (ring s) = 5 \<and> cuts s = []"
  "\<exists>s. reach (link_start (on_wire [frame_a, frame_b])) link_step s \<and> at_rest s \<and> map packet (handed s) = [frame_b, frame_a]"
proof -
  assume r: "reach (link_start bytes) link_step s" "stuck s"
  assume "reach (\<lambda>x. x = s) link_step s'"
  then have "mutex_inv s' \<and> stuck s' \<and> ring s' = ring s \<and> cuts s' = cuts s"
  proof induction
    case (reach_start u)
    with r link_mutex.inv_reach [OF r(1)] show ?case by simp
  next
    case (reach_step u v)
    with stuck_step [of u v] mutex_inv_step [of u v] show ?case by auto
  qed
  then show "stuck s' \<and> ring s' = ring s \<and> cuts s' = cuts s" by simp
next
  define s where "s = acts [Arrives 5, Signals 0, Runs 0, Runs 0, Runs 0, Arrives 6, Runs 1, Runs 1, Signals 1] (link_0 (on_wire [frame_a, frame_b]))"
  have "stuck s \<and> SerBufInLen (ring s) = 5 \<and> cuts s = []" unfolding s_def by code_simp
  moreover have "reach (link_start (on_wire [frame_a, frame_b])) link_step s" unfolding s_def by (rule link_0_reach)
  ultimately show "\<exists>s. reach (link_start (on_wire [frame_a, frame_b])) link_step s \<and> stuck s \<and> SerBufInLen (ring s) = 5 \<and> cuts s = []"
    by (intro exI [of _ s]) (rule conjI)
next
  define s where "s = acts [Arrives 5, Arrives 6, Signals 0, Runs 0, Runs 0, Runs 0, Signals 0, Runs 0, Runs 0, Runs 0, Runs 1, Runs 1, Runs 1,
      Runs 2, Runs 2, Runs 2, Runs 2, Runs 1, Runs 1, Runs 2] (link_0 (on_wire [frame_a, frame_b]))"
  have "coming s = [] \<and> driver s = [] \<and> raised s = 0 \<and> born s = 3 \<and> map packet (handed s) = [frame_b, frame_a]" unfolding s_def by code_simp
  moreover have "(\<not> working (pcs s 0) \<and> sigs s 0 = NoSignal) \<and> (\<not> working (pcs s 1) \<and> sigs s 1 = NoSignal) \<and>
      (\<not> working (pcs s 2) \<and> sigs s 2 = NoSignal)" unfolding s_def by code_simp
  ultimately have "at_rest s \<and> map packet (handed s) = [frame_b, frame_a]" by (simp add: at_rest_def below_3)
  moreover have "reach (link_start (on_wire [frame_a, frame_b])) link_step s" unfolding s_def by (rule link_0_reach)
  ultimately show "\<exists>s. reach (link_start (on_wire [frame_a, frame_b])) link_step s \<and> at_rest s \<and> map packet (handed s) = [frame_b, frame_a]"
    by (intro exI [of _ s]) (rule conjI)
qed

section \<open>Witness\<close>


end
