(* ===== verification/JsonArrays.thy ===== *)
theory JsonArrays
  imports Restful
begin

text \<open>
  Arrays of kapi/source/kjson.cpp.  The wrapper of an array keeps one wrapper for each index that has been accessed, and
  finds it by that index again.  \<^verbatim>\<open>erase(size_t)\<close> removes the wrapper of the index alone: those of later elements keep their old
  indices, and from then on stand for other elements than the index says.  The ledger of references is that of JsonRefs.
\<close>

section \<open>A wrapper of an array and the wrappers of its elements\<close>

record arr =
  elements :: "(json \<times> nat option) list"
  wrappers :: "(nat \<times> kid) list"
  arr_held :: "nat list"
  arr_next :: nat

datatype arr_fault = GivesBack nat | UsesFreed nat

fun number_elements :: "nat \<Rightarrow> json list \<Rightarrow> (json \<times> nat option) list" where
  "number_elements n [] = []"
| "number_elements n (v # vs) = (v, if static_value v then None else Some n) # number_elements (Suc n) vs"

definition arr_reset :: "json list \<Rightarrow> arr" where
  "arr_reset xs = \<lparr>elements = number_elements 1 xs, wrappers = [], arr_held = [0], arr_next = Suc (length xs)\<rparr>"

definition arr_values :: "arr \<Rightarrow> json list" where
  "arr_values a = map fst (elements a)"

definition arr_new :: "json \<Rightarrow> arr \<Rightarrow> nat option \<times> arr" where
  "arr_new v a =
     (if static_value v then (None, a)
      else (Some (arr_next a), a\<lparr>arr_held := arr_next a # arr_held a, arr_next := Suc (arr_next a)\<rparr>))"

definition arr_give :: "nat option \<Rightarrow> arr \<Rightarrow> arr_fault + arr" where
  "arr_give p a =
     (case p of
        None \<Rightarrow> Inr a
      | Some n \<Rightarrow> if n \<in> set (arr_held a) then Inr (a\<lparr>arr_held := remove1 n (arr_held a)\<rparr>) else Inl (GivesBack n))"

text \<open>An index out of range makes \<^verbatim>\<open>json_array_set_new\<close> give the value back.\<close>

definition json_array_set_new :: "nat \<Rightarrow> json \<Rightarrow> nat option \<Rightarrow> arr \<Rightarrow> arr_fault + arr" where
  "json_array_set_new i v p a =
     bindE (arr_give p a) (\<lambda>a. Inr (if i < length (elements a) then a\<lparr>elements := (elements a)[i := (v, p)]\<rparr> else a))"

text \<open>\<^verbatim>\<open>operator[](size_t)\<close> with \<^verbatim>\<open>wrapper\<close>: the array is filled up with nulls.\<close>

definition arr_at :: "nat \<Rightarrow> arr \<Rightarrow> arr" where
  "arr_at i a =
     (if map_of (wrappers a) i \<noteq> None then a
      else (let xs = elements a @ replicate (Suc i - length (elements a)) (JNull, None)
            in a\<lparr>elements := xs,
                 wrappers := wrappers a @ [(i, \<lparr>json_ptr = snd (xs ! i), ktype = json_typeof (fst (xs ! i)), borrowed = True\<rparr>)]\<rparr>))"

definition wrapper_of :: "nat \<Rightarrow> arr \<Rightarrow> kid" where
  "wrapper_of i a = the (map_of (wrappers a) i)"

text \<open>The value that a wrapper points to, as long as the array holds it.\<close>

definition pointee :: "kid \<Rightarrow> arr \<Rightarrow> arr_fault + json" where
  "pointee x a =
     (case json_ptr x of
        None \<Rightarrow> Inr (case ktype x of JSON_TRUE \<Rightarrow> JBool True | JSON_FALSE \<Rightarrow> JBool False | _ \<Rightarrow> JNull)
      | Some n \<Rightarrow> (case filter (\<lambda>e. snd e = Some n) (elements a) of [] \<Rightarrow> Inl (UsesFreed n) | e # _ \<Rightarrow> Inr (fst e)))"

definition arr_read :: "nat \<Rightarrow> arr \<Rightarrow> arr_fault + (json \<times> arr)" where
  "arr_read i a = bindE (pointee (wrapper_of i (arr_at i a)) (arr_at i a)) (\<lambda>v. Inr (v, arr_at i a))"

definition set_pointee :: "kid \<Rightarrow> json \<Rightarrow> arr \<Rightarrow> arr_fault + arr" where
  "set_pointee x v a =
     bindE (pointee x a) (\<lambda>_. Inr (a\<lparr>elements := map (\<lambda>e. if snd e = json_ptr x then (v, snd e) else e) (elements a)\<rparr>))"

text \<open>The assignment operators: in place, or \<^verbatim>\<open>reset\<close> and \<^verbatim>\<open>updateParent\<close>.\<close>

definition arr_assign :: "nat \<Rightarrow> assignment \<Rightarrow> arr \<Rightarrow> arr_fault + arr" where
  "arr_assign i s a =
     (let a = arr_at i a; x = wrapper_of i a
      in if in_place s (ktype x) then set_pointee x (assigned s) a
         else (case arr_new (assigned s) a of (p, a) \<Rightarrow>
           bindE (arr_give (json_ptr x) a) (\<lambda>a.
             json_array_set_new i (assigned s) p
               (a\<lparr>wrappers := put_assoc i (x\<lparr>json_ptr := p, ktype := json_typeof (assigned s)\<rparr>) (wrappers a)\<rparr>))))"

definition arr_erase :: "nat \<Rightarrow> arr \<Rightarrow> arr" where
  "arr_erase i a =
     (if length (elements a) \<le> i then a
      else (let a = arr_at i a;
                a = (if borrowed (wrapper_of i a) then a\<lparr>elements := take i (elements a) @ drop (Suc i) (elements a)\<rparr> else a)
            in a\<lparr>wrappers := filter (\<lambda>c. fst c \<noteq> i) (wrappers a)\<rparr>))"

text \<open>\<^verbatim>\<open>forEachInArr\<close> with a function that reads each element.\<close>

fun arr_each :: "nat list \<Rightarrow> arr \<Rightarrow> arr_fault + (json list \<times> arr)" where
  "arr_each [] a = Inr ([], a)"
| "arr_each (i # is) a = bindE (arr_read i a) (\<lambda>(v, a). bindE (arr_each is a) (\<lambda>(vs, a). Inr (v # vs, a)))"

definition forEachInArr :: "arr \<Rightarrow> arr_fault + (json list \<times> arr)" where
  "forEachInArr a = arr_each [0 ..< length (elements a)] a"

fun wrappers_destroy :: "kid list \<Rightarrow> arr \<Rightarrow> arr_fault + arr" where
  "wrappers_destroy [] a = Inr a"
| "wrappers_destroy (x # xs) a = bindE (if borrowed x then Inr a else arr_give (json_ptr x) a) (wrappers_destroy xs)"

definition arr_destroy :: "arr \<Rightarrow> arr_fault + nat list" where
  "arr_destroy a = bindE (arr_give (Some 0) a) (\<lambda>a. bindE (wrappers_destroy (map snd (wrappers a)) a) (\<lambda>a. Inr (arr_held a)))"

datatype arr_op = ReadAt nat | PutAt nat assignment | Append assignment | RemoveAt nat | ReadAll

fun arr_step :: "arr_op \<Rightarrow> arr \<Rightarrow> arr_fault + (json list \<times> arr)" where
  "arr_step (ReadAt i) a = bindE (arr_read i a) (\<lambda>(v, a). Inr ([v], a))"
| "arr_step (PutAt i s) a = bindE (arr_assign i s a) (\<lambda>a. Inr ([], a))"
| "arr_step (Append s) a = bindE (arr_assign (length (elements a)) s a) (\<lambda>a. Inr ([], a))"
| "arr_step (RemoveAt i) a = Inr ([], arr_erase i a)"
| "arr_step ReadAll a = forEachInArr a"

fun arr_run :: "arr_op list \<Rightarrow> arr \<Rightarrow> arr_fault + (json list \<times> arr)" where
  "arr_run [] a = Inr ([], a)"
| "arr_run (op # ops) a = bindE (arr_step op a) (\<lambda>(vs, a). bindE (arr_run ops a) (\<lambda>(ws, a). Inr (vs @ ws, a)))"

section \<open>What the values are meant to be\<close>

definition filled :: "nat \<Rightarrow> json list \<Rightarrow> json list" where
  "filled i xs = xs @ replicate (Suc i - length xs) JNull"

fun list_step :: "arr_op \<Rightarrow> json list \<Rightarrow> json list \<times> json list" where
  "list_step (ReadAt i) xs = ([filled i xs ! i], filled i xs)"
| "list_step (PutAt i s) xs = ([], (filled i xs)[i := assigned s])"
| "list_step (Append s) xs = ([], xs @ [assigned s])"
| "list_step (RemoveAt i) xs = ([], take i xs @ drop (Suc i) xs)"
| "list_step ReadAll xs = (xs, xs)"

fun list_run :: "arr_op list \<Rightarrow> json list \<Rightarrow> json list \<times> json list" where
  "list_run [] xs = ([], xs)"
| "list_run (op # ops) xs = (case list_step op xs of (vs, xs) \<Rightarrow> case list_run ops xs of (ws, xs) \<Rightarrow> (vs @ ws, xs))"

text \<open>
  The indices that have a wrapper; an element may be removed if none behind it has one.  The values may be assigned as
  in JsonRefs.
\<close>

fun seen_step :: "arr_op \<Rightarrow> json list \<Rightarrow> nat set \<Rightarrow> nat set" where
  "seen_step (ReadAt i) xs S = insert i S"
| "seen_step (PutAt i s) xs S = insert i S"
| "seen_step (Append s) xs S = insert (length xs) S"
| "seen_step (RemoveAt i) xs S = (if i < length xs then S - {i} else S)"
| "seen_step ReadAll xs S = S \<union> {0 ..< length xs}"

fun arr_safe :: "arr_op \<Rightarrow> json list \<Rightarrow> nat set \<Rightarrow> bool" where
  "arr_safe (PutAt i s) xs S \<longleftrightarrow> length xs \<le> i \<or> static_value (xs ! i) \<or> in_place s (json_typeof (xs ! i))"
| "arr_safe (RemoveAt i) xs S \<longleftrightarrow> length xs \<le> i \<or> (\<forall>j \<in> S. j \<le> i)"
| "arr_safe _ xs S \<longleftrightarrow> True"

fun arr_ops_safe :: "arr_op list \<Rightarrow> json list \<Rightarrow> nat set \<Rightarrow> bool" where
  "arr_ops_safe [] xs S = True"
| "arr_ops_safe (op # ops) xs S \<longleftrightarrow> arr_safe op xs S \<and> arr_ops_safe ops (snd (list_step op xs)) (seen_step op xs S)"

section \<open>Lemmas\<close>

text \<open>The values by list are those of the paths in KJson.\<close>

lemma list_step_tree:
  "at_index i (Ref []) (JArr xs) = (Ref [Idx i], JArr (snd (list_step (ReadAt i) xs)))"
  "json_set [Idx i] (assigned s) (JArr xs) = JArr (snd (list_step (PutAt i s) xs))"
  "snd (erase_index i (JArr xs)) = JArr (snd (list_step (RemoveAt i) xs))"
  by (auto simp: filled_def json_set_def at_step_def assign_def erase_index_def exist_index_def)

definition wrapper_ok :: "(json \<times> nat option) list \<Rightarrow> nat \<times> kid \<Rightarrow> bool" where
  "wrapper_ok es c \<longleftrightarrow> fst c < length es \<and> json_ptr (snd c) = snd (es ! fst c) \<and> ktype (snd c) = json_typeof (fst (es ! fst c)) \<and>
     borrowed (snd c)"

definition element_ok :: "nat \<Rightarrow> json \<times> nat option \<Rightarrow> bool" where
  "element_ok n e \<longleftrightarrow> (snd e = None \<longleftrightarrow> static_value (fst e)) \<and> (\<forall>p. snd e = Some p \<longrightarrow> 0 < p \<and> p < n)"

definition no_alias :: "(json \<times> nat option) list \<Rightarrow> bool" where
  "no_alias es \<longleftrightarrow> distinct (filter (\<lambda>p. p \<noteq> None) (map snd es))"

definition arr_wf :: "nat set \<Rightarrow> arr \<Rightarrow> bool" where
  "arr_wf S a \<longleftrightarrow> distinct (map fst (wrappers a)) \<and> fst ` set (wrappers a) = S \<and> arr_held a = [0] \<and> 0 < arr_next a \<and>
     no_alias (elements a) \<and> list_all (element_ok (arr_next a)) (elements a) \<and> list_all (wrapper_ok (elements a)) (wrappers a)"

lemma split_at: "i < length es \<Longrightarrow> es = take i es @ es ! i # drop (Suc i) es"
  by (rule id_take_nth_drop)

lemma no_alias_split:
  assumes "no_alias es" and "i < length es" and "snd (es ! i) = Some n"
  shows "Some n \<notin> snd ` set (take i es)" and "Some n \<notin> snd ` set (drop (Suc i) es)"
proof -
  have "no_alias (take i es @ es ! i # drop (Suc i) es)" using assms(1) split_at [OF assms(2)] by simp
  then show "Some n \<notin> snd ` set (take i es)" "Some n \<notin> snd ` set (drop (Suc i) es)"
    unfolding no_alias_def using assms(3) by (auto simp: filter_map image_iff)
qed

lemma alone:
  assumes "no_alias es" and "i < length es" and "snd (es ! i) = Some n"
  shows "filter (\<lambda>e. snd e = Some n) es = [es ! i]"
    and "map (\<lambda>e. if snd e = Some n then (v, snd e) else e) es = es[i := (v, Some n)]"
proof -
  note out = no_alias_split [OF assms]
  have f: "filter (\<lambda>e. snd e = Some n) xs = []" "map (\<lambda>e. if snd e = Some n then (v, snd e) else e) xs = xs" if "Some n \<notin> snd ` set xs" for xs
    using that by (auto simp: filter_empty_conv image_iff intro!: map_idI)
  show "filter (\<lambda>e. snd e = Some n) es = [es ! i]"
    by (subst split_at [OF assms(2)]) (simp add: f(1) out assms(3))
  show "map (\<lambda>e. if snd e = Some n then (v, snd e) else e) es = es[i := (v, Some n)]"
    by (subst split_at [OF assms(2)]) (simp add: f(2) out assms(3) upd_conv_take_nth_drop [OF assms(2)])
qed

lemma no_alias_update:
  assumes "no_alias es" and "i < length es" and "\<forall>n. p = Some n \<longrightarrow> snd (es ! i) = Some n \<or> Some n \<notin> snd ` set es"
  shows "no_alias (es[i := (v, p)])"
proof -
  have a: "no_alias (take i es @ es ! i # drop (Suc i) es)" using assms(1) split_at [OF assms(2)] by simp
  have "Some n \<notin> snd ` set (take i es) \<and> Some n \<notin> snd ` set (drop (Suc i) es)" if "p = Some n" for n
    using no_alias_split [OF assms(1,2)] assms(3) that by (auto dest: in_set_takeD in_set_dropD)
  then show ?thesis
    using a unfolding upd_conv_take_nth_drop [OF assms(2)] no_alias_def
    by (cases p; cases "snd (es ! i)") (auto simp: filter_map image_iff)
qed

lemma wrapper_found:
  assumes "arr_wf S a" and "i \<in> S"
  shows "map_of (wrappers a) i = Some (wrapper_of i a) \<and> i < length (elements a) \<and> wrapper_ok (elements a) (i, wrapper_of i a)"
proof -
  from assms obtain x where "map_of (wrappers a) i = Some x"
    by (metis arr_wf_def map_of_eq_None_iff not_None_eq)
  then show ?thesis
    using assms(1) by (auto simp: arr_wf_def list_all_iff wrapper_of_def wrapper_ok_def dest!: map_of_SomeD)
qed

lemma arr_at_wf:
  assumes "arr_wf S a"
  shows "arr_wf (insert i S) (arr_at i a) \<and> arr_values (arr_at i a) = filled i (arr_values a)"
proof (cases "i \<in> S")
  case True
  with wrapper_found [OF assms] have "map_of (wrappers a) i \<noteq> None" "i < length (elements a)" by auto
  with assms True show ?thesis by (simp add: arr_at_def filled_def arr_values_def insert_absorb)
next
  case False
  then have new: "map_of (wrappers a) i = None" "i \<notin> fst ` set (wrappers a)"
    using assms by (auto simp: arr_wf_def map_of_eq_None_iff)
  let ?xs = "elements a @ replicate (Suc i - length (elements a)) (JNull, None)"
  have "no_alias ?xs" using assms by (simp add: arr_wf_def no_alias_def)
  moreover have "list_all (element_ok (arr_next a)) ?xs"
    using assms by (auto simp: arr_wf_def list_all_iff element_ok_def static_value_def)
  moreover have "list_all (wrapper_ok ?xs) (wrappers a)"
    using assms by (auto simp: arr_wf_def list_all_iff wrapper_ok_def nth_append)
  ultimately show ?thesis
    using assms new by (auto simp: arr_at_def arr_wf_def filled_def arr_values_def wrapper_ok_def Let_def)
qed

lemma pointee_value: "arr_wf S a \<Longrightarrow> i \<in> S \<Longrightarrow> pointee (wrapper_of i a) a = Inr (arr_values a ! i)"
proof -
  assume a: "arr_wf S a" "i \<in> S"
  note w = wrapper_found [OF this]
  then have e: "element_ok (arr_next a) (elements a ! i)" using a(1) by (simp add: arr_wf_def list_all_length)
  have n: "no_alias (elements a)" using a(1) by (simp add: arr_wf_def)
  show ?thesis
  proof (cases "snd (elements a ! i)")
    case None
    with e have "static_value (fst (elements a ! i))" by (simp add: element_ok_def)
    with None w show ?thesis
      by (cases "fst (elements a ! i)") (auto simp: pointee_def wrapper_ok_def static_value_def arr_values_def)
  next
    case (Some m)
    with w alone(1) [OF n _ Some] show ?thesis by (simp add: pointee_def wrapper_ok_def arr_values_def)
  qed
qed

lemma arr_read_value:
  assumes "arr_wf S a"
  shows "\<exists>b. arr_read i a = Inr (filled i (arr_values a) ! i, b) \<and> arr_wf (insert i S) b \<and> arr_values b = filled i (arr_values a)"
  using arr_at_wf [OF assms, of i] pointee_value [of "insert i S" "arr_at i a" i] by (simp add: arr_read_def)

text \<open>An element gets another value, with the wrapper of its index.\<close>

lemma update_wf:
  assumes "arr_wf S a" and "i \<in> S" and "p = None \<longleftrightarrow> static_value v" and "arr_next a \<le> n"
    and "\<forall>q. p = Some q \<longrightarrow> 0 < q \<and> q < n \<and> (snd (elements a ! i) = Some q \<or> arr_next a \<le> q)"
  shows "arr_wf S (a\<lparr>elements := (elements a)[i := (v, p)], arr_next := n,
     wrappers := put_assoc i ((wrapper_of i a)\<lparr>json_ptr := p, ktype := json_typeof v\<rparr>) (wrappers a)\<rparr>)"
proof -
  note w = wrapper_found [OF assms(1,2)]
  let ?y = "(wrapper_of i a)\<lparr>json_ptr := p, ktype := json_typeof v\<rparr>"
  have "Some q \<notin> snd ` set (elements a)" if "arr_next a \<le> q" for q
    using assms(1) that by (fastforce simp: arr_wf_def list_all_iff element_ok_def)
  then have "no_alias ((elements a)[i := (v, p)])"
    using assms(1,5) w by (intro no_alias_update) (auto simp: arr_wf_def)
  moreover have "list_all (element_ok n) ((elements a)[i := (v, p)])"
  proof -
    have "element_ok n e" if "e \<in> set (elements a)" for e
      using assms(1,4) that by (fastforce simp: arr_wf_def list_all_iff element_ok_def)
    moreover have "element_ok n (v, p)" using assms(3,5) by (auto simp: element_ok_def)
    ultimately show ?thesis using set_update_subset_insert [of "elements a" i "(v, p)"] by (auto simp: list_all_iff)
  qed
  moreover have "wrapper_ok ((elements a)[i := (v, p)]) c" if c: "c \<in> set (put_assoc i ?y (wrappers a))" for c
  proof (cases "fst c = i")
    case True
    have "map_of (put_assoc i ?y (wrappers a)) (fst c) = Some (snd c)"
      using c assms(1) by (intro map_of_is_SomeI) (auto simp: arr_wf_def distinct_put_assoc)
    with True have "c = (i, ?y)" by (cases c) auto
    with w show ?thesis by (simp add: wrapper_ok_def)
  next
    case False
    with put_assoc_other [OF _ c] assms(1) show ?thesis by (auto simp: arr_wf_def list_all_iff wrapper_ok_def)
  qed
  moreover have "fst ` set (put_assoc i ?y (wrappers a)) = S"
    using put_assoc_keys [of i ?y "wrappers a"] assms(1,2) by (auto simp: arr_wf_def)
  ultimately show ?thesis
    using assms(1,4) by (auto simp: arr_wf_def distinct_put_assoc list_all_iff)
qed

lemma arr_assign_value:
  assumes "arr_wf S a" and "length (arr_values a) \<le> i \<or> static_value (arr_values a ! i) \<or> in_place s (json_typeof (arr_values a ! i))"
  shows "\<exists>b. arr_assign i s a = Inr b \<and> arr_wf (insert i S) b \<and> arr_values b = (filled i (arr_values a))[i := assigned s]"
proof -
  define b where "b = arr_at i a"
  have b: "arr_wf (insert i S) b" "arr_values b = filled i (arr_values a)" using arr_at_wf [OF assms(1)] by (simp_all add: b_def)
  note w = wrapper_found [OF b(1) insertI1]
  let ?v = "fst (elements b ! i)" and ?x = "wrapper_of i b"
  have v: "?v = filled i (arr_values a) ! i" using b(2) w by (simp add: arr_values_def flip: nth_map [of _ _ fst])
  then have old: "static_value ?v \<or> in_place s (json_typeof ?v)"
    using assms(2) by (auto simp: filled_def nth_append static_value_def)
  have e: "element_ok (arr_next b) (elements b ! i)" using b(1) w by (simp add: arr_wf_def list_all_length)
  have x: "json_ptr ?x = snd (elements b ! i)" "ktype ?x = json_typeof ?v" using w by (simp_all add: wrapper_ok_def)
  have held: "arr_held b = [0]" "0 < arr_next b" using b(1) by (simp_all add: arr_wf_def)
  show ?thesis
  proof (cases "in_place s (json_typeof ?v)")
    case True
    then have t: "static_value (assigned s) = static_value ?v" "json_typeof (assigned s) = json_typeof ?v"
      by (auto simp: in_place_def static_value_def split: assignment.splits)
    from True have "\<not> static_value ?v" by (auto simp: in_place_def static_value_def split: assignment.splits)
    with e obtain q where q: "snd (elements b ! i) = Some q" by (auto simp: element_ok_def)
    have "put_assoc i (?x\<lparr>json_ptr := Some q, ktype := json_typeof (assigned s)\<rparr>) (wrappers b) = wrappers b"
      using w x q t by (intro put_assoc_same) simp
    with update_wf [OF b(1) insertI1, of "Some q" "assigned s" "arr_next b"] e q t
    have "arr_wf (insert i S) (b\<lparr>elements := (elements b)[i := (assigned s, Some q)]\<rparr>)" by (simp add: element_ok_def)
    moreover have "map (\<lambda>e. if snd e = Some q then (assigned s, snd e) else e) (elements b) = (elements b)[i := (assigned s, Some q)]"
      using b(1) w q by (intro alone(2)) (auto simp: arr_wf_def)
    ultimately show ?thesis
      using True pointee_value [OF b(1) insertI1] b(2)
      by (simp add: arr_assign_def b_def [symmetric] x q set_pointee_def arr_values_def map_update Let_def)
  next
    case False
    with old e have p: "snd (elements b ! i) = None" by (simp add: element_ok_def)
    show ?thesis
    proof (cases "static_value (assigned s)")
      case True
      with update_wf [OF b(1) insertI1, of None "assigned s" "arr_next b"] False p w b(2) show ?thesis
        by (simp add: arr_assign_def b_def [symmetric] x arr_new_def arr_give_def json_array_set_new_def arr_values_def map_update Let_def arr_wf_def)
    next
      case n: False
      with update_wf [OF b(1) insertI1, of "Some (arr_next b)" "assigned s" "Suc (arr_next b)"] False p w b(2) held show ?thesis
        by (simp add: arr_assign_def b_def [symmetric] x arr_new_def arr_give_def json_array_set_new_def arr_values_def map_update Let_def arr_wf_def)
    qed
  qed
qed

lemma arr_erase_value:
  assumes "arr_wf S a" and "length (arr_values a) \<le> i \<or> (\<forall>j \<in> S. j \<le> i)"
  shows "arr_wf (if i < length (arr_values a) then S - {i} else S) (arr_erase i a) \<and>
    arr_values (arr_erase i a) = take i (arr_values a) @ drop (Suc i) (arr_values a)"
proof (cases "i < length (elements a)")
  case False
  with assms show ?thesis by (simp add: arr_erase_def arr_values_def)
next
  case True
  define b where "b = arr_at i a"
  have b: "arr_wf (insert i S) b" "arr_values b = arr_values a"
    using arr_at_wf [OF assms(1), of i] True by (simp_all add: b_def filled_def arr_values_def)
  then have len: "length (elements b) = length (elements a)" by (metis arr_values_def length_map)
  have low: "\<forall>j \<in> S. j \<le> i" using assms(2) True by (auto simp: arr_values_def)
  have "borrowed (wrapper_of i b)" using wrapper_found [OF b(1) insertI1] by (simp add: wrapper_ok_def)
  then have e: "arr_erase i a = b\<lparr>elements := take i (elements b) @ drop (Suc i) (elements b), wrappers := filter (\<lambda>c. fst c \<noteq> i) (wrappers b)\<rparr>"
    using True by (simp add: arr_erase_def b_def [symmetric] Let_def)
  have "no_alias (take i (elements b) @ elements b ! i # drop (Suc i) (elements b))"
    using b(1) True len by (simp add: arr_wf_def flip: split_at)
  then have "no_alias (take i (elements b) @ drop (Suc i) (elements b))" by (auto simp: no_alias_def split: if_splits)
  moreover have "list_all (element_ok (arr_next b)) (take i (elements b) @ drop (Suc i) (elements b))"
    using b(1) by (auto simp: arr_wf_def list_all_iff dest: in_set_takeD in_set_dropD)
  moreover have "wrapper_ok (take i (elements b) @ drop (Suc i) (elements b)) c" if "c \<in> set (wrappers b)" "fst c \<noteq> i" for c
  proof -
    from that(1) b(1) have "fst c \<in> insert i S" "wrapper_ok (elements b) c" by (auto simp: arr_wf_def list_all_iff)
    with that(2) low True len show ?thesis by (auto simp: wrapper_ok_def nth_append)
  qed
  moreover have "fst ` set (filter (\<lambda>c. fst c \<noteq> i) (wrappers b)) = S - {i}" using b(1) by (auto simp: arr_wf_def)
  ultimately have "arr_wf (S - {i}) (arr_erase i a)"
    using b(1) by (auto simp: e arr_wf_def list_all_iff distinct_map_filter)
  moreover have "arr_values (arr_erase i a) = take i (arr_values b) @ drop (Suc i) (arr_values b)"
    by (simp add: e arr_values_def take_map drop_map)
  ultimately show ?thesis using True b(2) by (simp add: arr_values_def)
qed

lemma each_value:
  "arr_wf S a \<Longrightarrow> \<forall>i \<in> set is. i < length (arr_values a) \<Longrightarrow>
   \<exists>b. arr_each is a = Inr (map (\<lambda>i. arr_values a ! i) is, b) \<and> arr_wf (S \<union> set is) b \<and> arr_values b = arr_values a"
proof (induction "is" arbitrary: S a)
  case (Cons i "is")
  from arr_read_value [OF Cons.prems(1), of i] Cons.prems(2) obtain c where
    c: "arr_read i a = Inr (arr_values a ! i, c)" "arr_wf (insert i S) c" "arr_values c = arr_values a"
    by (auto simp: filled_def)
  from Cons.IH [OF c(2)] c Cons.prems(2) show ?case by auto
qed auto

lemma arr_step_value:
  assumes "arr_wf S a" and "arr_safe op (arr_values a) S"
  shows "\<exists>b. arr_step op a = Inr (fst (list_step op (arr_values a)), b) \<and> arr_wf (seen_step op (arr_values a) S) b \<and>
    arr_values b = snd (list_step op (arr_values a))"
proof (cases op)
  case (ReadAt i)
  with arr_read_value [OF assms(1), of i] show ?thesis by auto
next
  case (PutAt i s)
  with arr_assign_value [OF assms(1), of i s] assms(2) show ?thesis by auto
next
  case (Append s)
  with arr_assign_value [OF assms(1), of "length (elements a)" s] show ?thesis
    by (auto simp: arr_values_def filled_def list_update_append)
next
  case (RemoveAt i)
  with arr_erase_value [OF assms(1), of i] assms(2) show ?thesis by auto
next
  case ReadAll
  have "map (\<lambda>i. arr_values a ! i) [0 ..< length (elements a)] = arr_values a"
    by (metis arr_values_def length_map map_nth)
  with each_value [OF assms(1), of "[0 ..< length (elements a)]"] ReadAll show ?thesis
    by (auto simp: forEachInArr_def arr_values_def)
qed

lemma arr_run_value:
  "arr_wf S a \<Longrightarrow> arr_ops_safe ops (arr_values a) S \<Longrightarrow>
   \<exists>b T. arr_run ops a = Inr (fst (list_run ops (arr_values a)), b) \<and> arr_wf T b \<and> arr_values b = snd (list_run ops (arr_values a))"
proof (induction ops arbitrary: S a)
  case (Cons op ops)
  from arr_step_value [OF Cons.prems(1), of op] Cons.prems(2) obtain c where
    c: "arr_step op a = Inr (fst (list_step op (arr_values a)), c)" "arr_wf (seen_step op (arr_values a) S) c"
      "arr_values c = snd (list_step op (arr_values a))" by auto
  from Cons.IH [OF c(2)] Cons.prems(2) c(1,3) show ?case by (auto split: prod.splits)
qed auto

lemma number_elements_values: "map fst (number_elements n xs) = xs"
  by (induction n xs rule: number_elements.induct) auto

lemma number_elements_addr:
  "e \<in> set (number_elements n xs) \<Longrightarrow> (snd e = None \<longleftrightarrow> static_value (fst e)) \<and> (\<forall>p. snd e = Some p \<longrightarrow> n \<le> p \<and> p < n + length xs)"
  by (induction n xs rule: number_elements.induct) (fastforce split: if_splits)+

lemma number_elements_alias: "no_alias (number_elements n xs)"
proof (induction n xs rule: number_elements.induct)
  case (2 n v vs)
  have "Some n \<notin> snd ` set (number_elements (Suc n) vs)" using number_elements_addr [of _ "Suc n" vs] by fastforce
  with 2 show ?case by (auto simp: no_alias_def)
qed (simp add: no_alias_def)

lemma arr_reset_wf: "arr_wf {} (arr_reset xs)" "arr_values (arr_reset xs) = xs"
  using number_elements_addr [of _ 1 xs]
  by (fastforce simp: arr_wf_def arr_reset_def number_elements_alias list_all_iff element_ok_def, simp add: arr_values_def arr_reset_def number_elements_values)

lemma wrappers_kept: "\<forall>x \<in> set xs. borrowed x \<Longrightarrow> wrappers_destroy xs a = Inr a"
  by (induction xs) auto

lemma arr_destroys: "arr_wf S a \<Longrightarrow> arr_destroy a = Inr []"
proof -
  assume a: "arr_wf S a"
  then have "\<forall>x \<in> set (map snd (wrappers a)). borrowed x" by (auto simp: arr_wf_def list_all_iff wrapper_ok_def)
  with a show ?thesis by (simp add: arr_destroy_def arr_give_def arr_wf_def wrappers_kept)
qed

section \<open>The loop that deletes widgets\<close>

text \<open>The loop of \<^verbatim>\<open>widgetRegistry\<close> over the wrappers; \<open>p\<close> is its predicate.\<close>

lemma arr_read_length: "arr_read i a = Inr (v, b) \<Longrightarrow> i < length (elements a) \<Longrightarrow> length (elements b) = length (elements a)"
  by (auto simp: arr_read_def arr_at_def returns_iff Let_def split: if_splits)

lemma arr_erase_length: "length (elements (arr_erase i a)) \<le> length (elements a)"
  by (auto simp: arr_erase_def arr_at_def Let_def)

function widget_delete :: "(json \<Rightarrow> bool) \<Rightarrow> nat \<Rightarrow> arr \<Rightarrow> arr_fault + arr" where
  "widget_delete p i a =
     (if i < length (elements a)
      then (case arr_read i a of
              Inl e \<Rightarrow> Inl e
            | Inr (v, b) \<Rightarrow> widget_delete p (Suc i) (if p v then arr_erase i b else b))
      else Inr a)"
  by pat_completeness auto
termination
proof (relation "measure (\<lambda>(p, i, a). length (elements a) - i)")
  fix p :: "json \<Rightarrow> bool" and i a r v b
  assume "i < length (elements a)" "arr_read i a = Inr r" "(v, b) = r"
  then have "length (elements b) = length (elements a)" using arr_read_length by blast
  with \<open>i < length (elements a)\<close> arr_erase_length [of i b]
  show "((p, Suc i, if p v then arr_erase i b else b), p, i, a) \<in> measure (\<lambda>(p, i, a). length (elements a) - i)"
    by (cases "p v") auto
qed simp

declare widget_delete.simps [simp del]

section \<open>Properties\<close>


text \<open>
  Otherwise not: of two elements that have been accessed the first is removed; then a read at the index of the second gives
  the second still, which is no longer there, and a text set there is set elsewhere.
\<close>

theorem stale_wrapper:
  assumes "i < j" and "j < length xs"
  shows "\<exists>a. arr_run [ReadAt j, RemoveAt i, ReadAt j] (arr_reset xs) = Inr ([xs ! j, xs ! j], a) \<and>
      arr_values a = take i xs @ drop (Suc i) xs \<and> arr_values a ! (j - 1) = xs ! j"
    and "xs ! j = JStr old \<Longrightarrow>
      \<exists>a. arr_run [ReadAt j, RemoveAt i, PutAt j (SetText new)] (arr_reset xs) = Inr ([xs ! j], a) \<and>
        arr_values a = (take i xs @ drop (Suc i) xs)[j - 1 := JStr new]"
proof -
  obtain b where b: "arr_read j (arr_reset xs) = Inr (xs ! j, b)" "arr_wf {j} b" "arr_values b = xs"
    using arr_read_value [OF arr_reset_wf(1), of j xs] assms(2) by (auto simp: arr_reset_wf(2) filled_def)
  define c where "c = arr_at i b"
  have c: "arr_wf {i, j} c" "arr_values c = xs"
    using arr_at_wf [OF b(2), of i] b(3) assms by (simp_all add: c_def filled_def)
  then have len: "length (elements c) = length xs" "length (elements b) = length xs" using b(3) by (metis arr_values_def length_map)+
  note w = wrapper_found [OF c(1), of j]
  note wi = wrapper_found [OF c(1), of i]
  define d where "d = arr_erase i b"
  have d: "d = c\<lparr>elements := take i (elements c) @ drop (Suc i) (elements c), wrappers := filter (\<lambda>x. fst x \<noteq> i) (wrappers c)\<rparr>"
    using wi assms len by (simp add: d_def arr_erase_def c_def [symmetric] wrapper_ok_def Let_def)
  have vals: "arr_values d = take i xs @ drop (Suc i) xs"
  proof -
    have "arr_values d = take i (arr_values c) @ drop (Suc i) (arr_values c)" by (simp add: d arr_values_def take_map drop_map)
    with c(2) show ?thesis by simp
  qed
  have found: "map_of (wrappers d) j = Some (wrapper_of j c)"
    using w assms(1) by (simp add: d map_of_others)
  then have at: "arr_at j d = d" "wrapper_of j d = wrapper_of j c" by (simp_all add: arr_at_def wrapper_of_def)
  have no: "no_alias (elements c)" using c(1) by (simp add: arr_wf_def)
  have e: "element_ok (arr_next c) (elements c ! j)" using c(1) len assms(2) by (simp add: arr_wf_def list_all_length)
  have v: "fst (elements c ! j) = xs ! j" using c(2) len assms(2) by (metis arr_values_def nth_map)
  have place: "(take i (elements c) @ drop (Suc i) (elements c)) ! (j - 1) = elements c ! j"
    using assms len by (auto simp: nth_append min_def)
  have no2: "no_alias (elements d)"
  proof -
    have "no_alias (take i (elements c) @ elements c ! i # drop (Suc i) (elements c))"
      using no assms len by (simp flip: split_at)
    then show ?thesis by (auto simp: d no_alias_def split: if_splits)
  qed
  have in_d: "j - 1 < length (elements d)" using assms len by (simp add: d)
  have p: "pointee (wrapper_of j c) d = Inr (xs ! j)"
  proof (cases "snd (elements c ! j)")
    case None
    with e v have "static_value (xs ! j)" by (simp add: element_ok_def)
    with None w v show ?thesis
      by (cases "xs ! j") (auto simp: pointee_def wrapper_ok_def static_value_def)
  next
    case (Some n)
    with place have "snd (elements d ! (j - 1)) = Some n" by (simp add: d)
    with alone(1) [OF no2 in_d] w Some place v show ?thesis by (simp add: pointee_def wrapper_ok_def d)
  qed
  have "arr_values d ! (j - 1) = xs ! j"
    using place v in_d by (simp add: arr_values_def) (simp add: d)
  with b(1) p vals show "\<exists>a. arr_run [ReadAt j, RemoveAt i, ReadAt j] (arr_reset xs) = Inr ([xs ! j, xs ! j], a) \<and>
      arr_values a = take i xs @ drop (Suc i) xs \<and> arr_values a ! (j - 1) = xs ! j"
    by (simp add: d_def [symmetric] arr_read_def at)
  assume s: "xs ! j = JStr old"
  with e v obtain n where n: "snd (elements c ! j) = Some n" by (auto simp: element_ok_def static_value_def)
  then have "snd (elements d ! (j - 1)) = Some n" using place by (simp add: d)
  from alone(2) [OF no2 in_d this, of "JStr new"]
  have "set_pointee (wrapper_of j c) (JStr new) d = Inr (d\<lparr>elements := (elements d)[j - 1 := (JStr new, Some n)]\<rparr>)"
    using p w n by (simp add: set_pointee_def wrapper_ok_def)
  moreover have "ktype (wrapper_of j c) = JSON_STRING" using w v s by (simp add: wrapper_ok_def)
  ultimately show "\<exists>a. arr_run [ReadAt j, RemoveAt i, PutAt j (SetText new)] (arr_reset xs) = Inr ([xs ! j], a) \<and>
        arr_values a = (take i xs @ drop (Suc i) xs)[j - 1 := JStr new]"
    using b(1) vals by (simp add: d_def [symmetric] arr_assign_def at in_place_def) (simp add: arr_values_def map_update)
qed

text \<open>The loop that deletes widgets goes upwards and never meets such a wrapper: it does what \<^verbatim>\<open>delete_loop\<close> says.\<close>

lemma widget_delete_value:
  "arr_wf S a \<Longrightarrow> \<forall>j \<in> S. j < i \<Longrightarrow>
   \<exists>b T. widget_delete (pred_matches q) i a = Inr b \<and> arr_wf T b \<and> arr_values b = delete_loop q i (arr_values a)"
proof (induction "length (arr_values a) - i" arbitrary: S a i rule: less_induct)
  case less
  show ?case
  proof (cases "i < length (elements a)")
    case False
    with less.prems show ?thesis
      by (subst widget_delete.simps, subst delete_loop.simps) (auto simp: arr_values_def)
  next
    case True
    then have len: "i < length (arr_values a)" by (simp add: arr_values_def)
    with arr_read_value [OF less.prems(1), of i] obtain b where
      b: "arr_read i a = Inr (arr_values a ! i, b)" "arr_wf (insert i S) b" "arr_values b = arr_values a" by (auto simp: filled_def)
    define c where "c = (if pred_matches q (arr_values a ! i) then arr_erase i b else b)"
    define ys where "ys = (if pred_matches q (arr_values a ! i) then take i (arr_values a) @ drop (Suc i) (arr_values a) else arr_values a)"
    have "\<forall>j \<in> insert i S. j \<le> i" using less.prems(2) by auto
    with arr_erase_value [OF b(2), of i] b len have "\<exists>T. arr_wf T c \<and> (\<forall>j \<in> T. j < Suc i)" "arr_values c = ys"
      using less.prems(2) by (auto simp: c_def ys_def less_Suc_eq split: if_splits)
    then obtain T where c: "arr_wf T c" "\<forall>j \<in> T. j < Suc i" "arr_values c = ys" by blast
    have "length ys - Suc i < length (arr_values a) - i" using len by (auto simp: ys_def)
    with less.hyps [of c "Suc i" T] c obtain d U where
      "widget_delete (pred_matches q) (Suc i) c = Inr d" "arr_wf U d" "arr_values d = delete_loop q (Suc i) ys" by auto
    with True len b(1) show ?thesis
      by (subst widget_delete.simps, subst delete_loop.simps) (auto simp: c_def [symmetric] ys_def [symmetric])
  qed
qed

theorem widgets_deleted_by_reference:
  "\<exists>a. widget_delete (pred_matches q) 0 (arr_reset xs) = Inr a \<and> arr_values a = delete_loop q 0 xs \<and> arr_destroy a = Inr []"
  using widget_delete_value [OF arr_reset_wf(1), of 0 q xs] arr_destroys by (auto simp: arr_reset_wf(2))

section \<open>Witness\<close>


end
