(* ===== verification/Instances.thy ===== *)
theory Instances
  imports Watchdog
begin

text \<open>
  How many gateways run.  Each start of kappaio.cpp opens the pid file, creating it if it is not there, and ends unless it
  gets the lock on it; the monitor does the same with a file of its own.  The lock belongs to the opened file, not to its
  name, and \<^verbatim>\<open>daemon_signal_handler\<close> removes the name.  The processes are interleaved: one step of a process is the
  opening of the file, the locking with the writing of the pid, the handling of \<^verbatim>\<open>SIGTERM\<close>, or its end.
\<close>

datatype phase = Outside | Opened nat | Owner nat | Ended

record host =
  pid_path :: "nat option"
  contents :: "nat \<Rightarrow> byte list"
  locks :: "nat \<Rightarrow> nat option"
  phase_of :: "nat \<Rightarrow> phase"
  inodes :: nat

definition host_start :: "host \<Rightarrow> bool" where
  "host_start s \<longleftrightarrow> pid_path s = None \<and> locks s = (\<lambda>_. None) \<and> phase_of s = (\<lambda>_. Outside)"

text \<open>\<^verbatim>\<open>open(PIDF, O_WRONLY|O_CREAT)\<close>.\<close>

definition open_pid :: "nat \<Rightarrow> host \<Rightarrow> host" where
  "open_pid p s =
     (case pid_path s of
        Some i \<Rightarrow> s\<lparr>phase_of := (phase_of s)(p := Opened i)\<rparr>
      | None \<Rightarrow> s\<lparr>pid_path := Some (inodes s), contents := (contents s)(inodes s := []),
                  phase_of := (phase_of s)(p := Opened (inodes s)), inodes := Suc (inodes s)\<rparr>)"

text \<open>\<^verbatim>\<open>flock\<close> and what \<^verbatim>\<open>write_pid\<close> does then; a process that does not get the lock ends.\<close>

definition lock_pid :: "nat \<Rightarrow> nat \<Rightarrow> host \<Rightarrow> host" where
  "lock_pid p i s =
     (case write_pid p True (locks s i \<noteq> None) (Some (contents s i)) of (r, body) \<Rightarrow>
        let s = s\<lparr>contents := (contents s)(i := the body)\<rparr> in
        if r < 0 then s\<lparr>phase_of := (phase_of s)(p := Ended)\<rparr>
        else s\<lparr>locks := (locks s)(i := Some p), phase_of := (phase_of s)(p := Owner i)\<rparr>)"

text \<open>The end of a process closes its files, which gives up its lock; \<^verbatim>\<open>SIGTERM\<close> removes the name first.\<close>

definition end_process :: "nat \<Rightarrow> host \<Rightarrow> host" where
  "end_process p s =
     s\<lparr>locks := (\<lambda>i. if locks s i = Some p then None else locks s i), phase_of := (phase_of s)(p := Ended)\<rparr>"

definition sigterm :: "nat \<Rightarrow> host \<Rightarrow> host" where
  "sigterm p s = end_process p (s\<lparr>pid_path := None\<rparr>)"

text \<open>With \<open>quiet\<close>, only a process that has the lock is stopped, and only while none is starting.\<close>

inductive host_step :: "bool \<Rightarrow> host \<Rightarrow> host \<Rightarrow> bool" for quiet where
  start: "phase_of s p = Outside \<Longrightarrow> host_step quiet s (open_pid p s)"
| lock: "phase_of s p = Opened i \<Longrightarrow> host_step quiet s (lock_pid p i s)"
| crash: "phase_of s p = Owner i \<Longrightarrow> host_step quiet s (end_process p s)"
| stop: "phase_of s p = Owner i \<or> phase_of s p = Opened i \<Longrightarrow>
     quiet \<longrightarrow> phase_of s p = Owner i \<and> (\<forall>q j. phase_of s q \<noteq> Opened j) \<Longrightarrow> host_step quiet s (sigterm p s)"

section \<open>Lemmas\<close>

definition host_inv :: "host \<Rightarrow> bool" where
  "host_inv s \<longleftrightarrow>
     (\<forall>p i. phase_of s p = Owner i \<longrightarrow> locks s i = Some p \<and> pid_path s = Some i \<and> scan_decimal (contents s i) = Some p) \<and>
     (\<forall>p i. locks s i = Some p \<longrightarrow> phase_of s p = Owner i) \<and>
     (\<forall>p i. phase_of s p = Opened i \<longrightarrow> pid_path s = Some i)"

lemma host_invI:
  assumes "\<And>p i. phase_of s p = Owner i \<Longrightarrow> locks s i = Some p \<and> pid_path s = Some i \<and> scan_decimal (contents s i) = Some p"
    and "\<And>p i. locks s i = Some p \<Longrightarrow> phase_of s p = Owner i" and "\<And>p i. phase_of s p = Opened i \<Longrightarrow> pid_path s = Some i"
  shows "host_inv s"
  unfolding host_inv_def using assms by blast

lemma host_invD:
  assumes "host_inv s"
  shows "phase_of s p = Owner i \<Longrightarrow> locks s i = Some p" and "phase_of s p = Owner i \<Longrightarrow> pid_path s = Some i"
    and "phase_of s p = Owner i \<Longrightarrow> scan_decimal (contents s i) = Some p"
    and "locks s i = Some p \<Longrightarrow> phase_of s p = Owner i" and "phase_of s p = Opened i \<Longrightarrow> pid_path s = Some i"
  using assms unfolding host_inv_def by blast+

lemma pid_written: "scan_decimal (overwrite (Some body) (decimal p @ [0x0A])) = Some p"
  using scan_decimal_line [of p "drop (length (decimal p @ [0x0A])) body"] by (simp add: overwrite_def)

lemma open_inv:
  assumes "host_inv s" and "phase_of s p = Outside"
  shows "host_inv (open_pid p s)"
proof -
  have path: "pid_path (open_pid p s) = Some (case pid_path s of Some i \<Rightarrow> i | None \<Rightarrow> inodes s)"
    and locks: "locks (open_pid p s) = locks s"
    and phase: "phase_of (open_pid p s) = (phase_of s)(p := Opened (case pid_path s of Some i \<Rightarrow> i | None \<Rightarrow> inodes s))"
    and data: "\<And>i. pid_path s = Some i \<Longrightarrow> contents (open_pid p s) = contents s"
    by (simp_all add: open_pid_def split: option.split)
  show ?thesis
  proof (rule host_invI)
    fix q j
    assume "phase_of (open_pid p s) q = Owner j"
    then have "phase_of s q = Owner j" by (simp add: phase split: if_splits)
    note h = host_invD(1-3) [OF assms(1) this]
    show "locks (open_pid p s) j = Some q \<and> pid_path (open_pid p s) = Some j \<and> scan_decimal (contents (open_pid p s) j) = Some q"
      by (simp add: path locks data [OF h(2)] h)
  next
    fix q j
    assume "locks (open_pid p s) j = Some q"
    then have "phase_of s q = Owner j" by (intro host_invD(4) [OF assms(1)]) (simp add: locks)
    then show "phase_of (open_pid p s) q = Owner j" using assms(2) by (cases "q = p") (simp_all add: phase)
  next
    fix q j
    assume q: "phase_of (open_pid p s) q = Opened j"
    show "pid_path (open_pid p s) = Some j"
    proof (cases "q = p")
      case True
      with q show ?thesis by (simp add: phase path)
    next
      case False
      with q have "pid_path s = Some j" by (intro host_invD(5) [OF assms(1)]) (simp add: phase)
      then show ?thesis by (simp add: path)
    qed
  qed
qed

lemma lock_inv:
  assumes "host_inv s" and "phase_of s p = Opened i"
  shows "host_inv (lock_pid p i s)"
proof -
  have path: "pid_path s = Some i" using host_invD(5) [OF assms] .
  show ?thesis
  proof (cases "locks s i")
    case (Some q)
    then have t: "lock_pid p i s = s\<lparr>phase_of := (phase_of s)(p := Ended)\<rparr>" by (simp add: lock_pid_def write_pid_def)
    show ?thesis
    proof (rule host_invI)
      fix q j
      assume "phase_of (lock_pid p i s) q = Owner j"
      then have "phase_of s q = Owner j" by (simp add: t split: if_splits)
      from host_invD(1-3) [OF assms(1) this]
      show "locks (lock_pid p i s) j = Some q \<and> pid_path (lock_pid p i s) = Some j \<and> scan_decimal (contents (lock_pid p i s) j) = Some q"
        by (simp add: t)
    next
      fix q j
      assume "locks (lock_pid p i s) j = Some q"
      then have "phase_of s q = Owner j" by (intro host_invD(4) [OF assms(1)]) (simp add: t)
      then show "phase_of (lock_pid p i s) q = Owner j" using assms(2) by (cases "q = p") (simp_all add: t)
    next
      fix q j
      assume "phase_of (lock_pid p i s) q = Opened j"
      then have "pid_path s = Some j" by (intro host_invD(5) [OF assms(1)]) (simp add: t split: if_splits)
      then show "pid_path (lock_pid p i s) = Some j" by (simp add: t)
    qed
  next
    case None
    have none: "phase_of s q \<noteq> Owner j" for q j
    proof
      assume "phase_of s q = Owner j"
      from host_invD(1,2) [OF assms(1) this] None path show False by simp
    qed
    have free: "locks s j = None" for j
    proof (cases "locks s j")
      case (Some q)
      from host_invD(4) [OF assms(1) this] none show ?thesis by simp
    qed
    have t: "lock_pid p i s = s\<lparr>contents := (contents s)(i := overwrite (Some (contents s i)) (decimal p @ [0x0A])),
        locks := (locks s)(i := Some p), phase_of := (phase_of s)(p := Owner i)\<rparr>"
      by (simp add: lock_pid_def write_pid_def None)
    have opened: "j = i" if "phase_of s q = Opened j" for q j
      using host_invD(5) [OF assms(1) that] path by simp
    show ?thesis
    proof (rule host_invI)
      show "locks (lock_pid p i s) j = Some q \<and> pid_path (lock_pid p i s) = Some j \<and> scan_decimal (contents (lock_pid p i s) j) = Some q"
        if "phase_of (lock_pid p i s) q = Owner j" for q j
      proof (cases "q = p")
        case True
        with that have "j = i" by (simp add: t)
        with True path show ?thesis by (simp only: t) (simp add: pid_written)
      next
        case False
        with that none [of q j] show ?thesis by (simp add: t)
      qed
      show "phase_of (lock_pid p i s) q = Owner j" if "locks (lock_pid p i s) j = Some q" for q j
      proof (cases "j = i")
        case True
        with that have "q = p" by (simp add: t)
        with True show ?thesis by (simp only: t) simp
      next
        case False
        with that free [of j] show ?thesis by (simp add: t)
      qed
      show "pid_path (lock_pid p i s) = Some j" if "phase_of (lock_pid p i s) q = Opened j" for q j
        using that opened [of q j] path by (cases "q = p") (simp_all add: t)
    qed
  qed
qed

lemma end_inv:
  assumes "host_inv s" and "phase_of s p = Owner i"
  shows "host_inv (end_process p s)"
proof (rule host_invI)
  fix q j
  assume "phase_of (end_process p s) q = Owner j"
  then have "q \<noteq> p" "phase_of s q = Owner j" by (simp_all add: end_process_def split: if_splits)
  with host_invD(1-3) [OF assms(1) this(2)]
  show "locks (end_process p s) j = Some q \<and> pid_path (end_process p s) = Some j \<and> scan_decimal (contents (end_process p s) j) = Some q"
    by (simp add: end_process_def)
next
  fix q j
  assume "locks (end_process p s) j = Some q"
  then have "q \<noteq> p" "locks s j = Some q" by (simp_all add: end_process_def split: if_splits)
  with host_invD(4) [OF assms(1) this(2)] show "phase_of (end_process p s) q = Owner j" by (simp add: end_process_def)
next
  fix q j
  assume "phase_of (end_process p s) q = Opened j"
  then have "phase_of s q = Opened j" by (simp add: end_process_def split: if_splits)
  from host_invD(5) [OF assms(1) this] show "pid_path (end_process p s) = Some j" by (simp add: end_process_def)
qed

lemma one_owner: "host_inv s \<Longrightarrow> phase_of s p = Owner i \<Longrightarrow> phase_of s q = Owner j \<Longrightarrow> q = p \<and> j = i"
  using host_invD(1,2) [of s p i] host_invD(1,2) [of s q j] by simp

lemma sigterm_inv:
  assumes "host_inv s" and "phase_of s p = Owner i" and "\<And>q j. phase_of s q \<noteq> Opened j"
  shows "host_inv (sigterm p s)"
proof -
  have "phase_of (sigterm p s) q \<noteq> Owner j" "phase_of (sigterm p s) q \<noteq> Opened j" for q j
    using one_owner [OF assms(1,2), of q j] assms(3) [of q j] by (auto simp: sigterm_def end_process_def)
  moreover have "locks (sigterm p s) j \<noteq> Some q" for q j
  proof
    assume "locks (sigterm p s) j = Some q"
    then have "q \<noteq> p" "locks s j = Some q" by (simp_all add: sigterm_def end_process_def split: if_splits)
    with host_invD(4) [OF assms(1) this(2)] one_owner [OF assms(1,2), of q j] show False by simp
  qed
  ultimately show ?thesis by (intro host_invI) simp_all
qed

lemma host_inv_step: "host_inv s \<Longrightarrow> host_step True s t \<Longrightarrow> host_inv t"
  by (erule host_step.cases) (blast intro: open_inv lock_inv end_inv, blast intro: open_inv lock_inv end_inv,
    blast intro: open_inv lock_inv end_inv, blast intro: sigterm_inv)

interpretation hosts: invariant_system host_start "host_step True" host_inv
  by unfold_locales (simp add: host_start_def host_inv_def, rule host_inv_step)

section \<open>Properties\<close>

text \<open>What the monitor sees of the pid file.\<close>

definition pid_file_of :: "host \<Rightarrow> byte list option" where
  "pid_file_of s = map_option (contents s) (pid_path s)"

definition host_0 :: host where
  "host_0 = \<lparr>pid_path = None, contents = (\<lambda>_. []), locks = (\<lambda>_. None), phase_of = (\<lambda>_. Outside), inodes = 0\<rparr>"

lemma host_0_start: "host_start host_0"
  by (simp add: host_0_def host_start_def)

text \<open>
  C22: One gateway at a time.  As long as no process is stopped while another one starts, at most one gateway runs,
  whatever starts and crashes interleave, and the pid file names it, so that the monitor finds it.  The restart of
  files/kappaio.init, which starts the new process without waiting for the end of the old one, breaks this: the new process
  may lock the file whose name the old one then removes; the monitor finds no pid file and starts another gateway beside it.
\<close>

theorem single_instance:
  assumes "reach host_start (host_step True) s"
  shows "(phase_of s p = Owner i \<longrightarrow> (\<forall>q j. phase_of s q = Owner j \<longrightarrow> q = p) \<and>
      (\<exists>body. pid_file_of s = Some body \<and> scan_decimal body = Some p) \<and>
      (stat_proc p \<noteq> NoEnt \<longrightarrow> checkByPIDFile (pid_file_of s) stat_proc = Inr 0)) \<and>
    (\<exists>t u. reach host_start (host_step False) t \<and> phase_of t 2 = Owner 0 \<and> checkByPIDFile (pid_file_of t) stat_all = Inr (-1) \<and>
      u = lock_pid 3 1 (open_pid 3 t) \<and> reach host_start (host_step False) u \<and> phase_of u 2 = Owner 0 \<and> phase_of u 3 = Owner 1)"
proof (intro conjI impI)
  have inv: "host_inv s" by (rule hosts.inv_reach [OF assms])
  assume p: "phase_of s p = Owner i"
  show "\<forall>q j. phase_of s q = Owner j \<longrightarrow> q = p" using one_owner [OF inv p] by blast
  show f: "\<exists>body. pid_file_of s = Some body \<and> scan_decimal body = Some p"
    using host_invD(2,3) [OF inv p] by (simp add: pid_file_of_def)
  show "checkByPIDFile (pid_file_of s) stat_proc = Inr 0" if "stat_proc p \<noteq> NoEnt"
    using f that by (auto simp: checkByPIDFile_def)
next
  define b where "b = lock_pid 1 0 (open_pid 1 host_0)"
  define c where "c = sigterm 1 (open_pid 2 b)"
  define t where "t = lock_pid 2 0 c"
  have step: "reach host_start (host_step False) y" if "reach host_start (host_step False) x" "host_step False x y" for x y
    using that by (rule reach_step)
  have a: "reach host_start (host_step False) host_0" by (rule reach_start) (rule host_0_start)
  have ab: "phase_of (open_pid 1 host_0) 1 = Opened 0" "phase_of host_0 1 = Outside" by (simp_all add: host_0_def open_pid_def)
  have b: "reach host_start (host_step False) b"
    unfolding b_def by (rule step [OF step [OF a host_step.start [OF ab(2)]] host_step.lock [OF ab(1)]])
  have bb: "pid_path b = Some 0" "locks b = (\<lambda>_. None)(0 := Some 1)" "phase_of b = (\<lambda>_. Outside)(1 := Owner 0)" "inodes b = 1"
    by (simp_all add: b_def host_0_def open_pid_def lock_pid_def write_pid_def)
  have bc: "phase_of b 2 = Outside" "phase_of (open_pid 2 b) 1 = Owner 0" by (simp_all add: bb open_pid_def)
  have c: "reach host_start (host_step False) c"
    unfolding c_def by (rule step [OF step [OF b host_step.start [OF bc(1)]]], rule host_step.stop [OF disjI1 [OF bc(2)]]) simp
  have cc: "pid_path c = None" "locks c 0 = None" "phase_of c = (\<lambda>_. Outside)(1 := Ended, 2 := Opened 0)" "inodes c = 1"
    by (auto simp: c_def sigterm_def end_process_def open_pid_def bb)
  have ct: "phase_of c 2 = Opened 0" by (simp add: cc)
  have t: "reach host_start (host_step False) t" unfolding t_def by (rule step [OF c host_step.lock [OF ct]])
  have tt: "pid_path t = None" "locks t 1 = locks c 1" "phase_of t = (\<lambda>_. Outside)(1 := Ended, 2 := Owner 0)" "inodes t = 1"
    by (auto simp: t_def lock_pid_def write_pid_def cc)
  have "locks c 1 = None" by (simp add: c_def sigterm_def end_process_def open_pid_def bb)
  with tt have free: "locks (open_pid 3 t) 1 = None" by (simp add: open_pid_def)
  have tu: "phase_of t 3 = Outside" "phase_of (open_pid 3 t) = (\<lambda>_. Outside)(1 := Ended, 2 := Owner 0, 3 := Opened 1)"
    by (auto simp: tt open_pid_def)
  have u: "reach host_start (host_step False) (lock_pid 3 1 (open_pid 3 t))"
    by (rule step [OF step [OF t host_step.start [OF tu(1)]] host_step.lock]) (simp add: tu)
  have "phase_of (lock_pid 3 1 (open_pid 3 t)) 2 = Owner 0 \<and> phase_of (lock_pid 3 1 (open_pid 3 t)) 3 = Owner 1"
    by (simp add: lock_pid_def write_pid_def free [unfolded One_nat_def] tu)
  with t tt u show "\<exists>t u. reach host_start (host_step False) t \<and> phase_of t 2 = Owner 0 \<and>
      checkByPIDFile (pid_file_of t) stat_all = Inr (-1) \<and> u = lock_pid 3 1 (open_pid 3 t) \<and>
      reach host_start (host_step False) u \<and> phase_of u 2 = Owner 0 \<and> phase_of u 3 = Owner 1"
    by (intro exI [of _ t] exI [of _ "lock_pid 3 1 (open_pid 3 t)"]) (simp add: pid_file_of_def checkByPIDFile_def)
qed

text \<open>The monitor, once it runs, stops that gateway and no other process with its own end.\<close>

theorem watch_stops_gateway:
  assumes "reach host_start (host_step True) s" and "phase_of s p = Owner i" and "watch_begin 0 0 0 w True False f = (st, own)"
  shows "st = Running \<and> scan_decimal (the own) = Some w \<and>
    watch_signal_handler True (pid_file_of s) (st, own) = ([p], Exited 0, None)"
proof -
  from host_invD(2,3) [OF hosts.inv_reach [OF assms(1)] assms(2)] have f: "\<exists>body. pid_file_of s = Some body \<and> scan_decimal body = Some p"
    by (simp add: pid_file_of_def)
  have "st = Running \<and> scan_decimal (the own) = Some w"
    using assms(3) by (auto simp: watch_begin_def daemonize_def write_pid_def Let_def pid_written)
  with f show ?thesis by (auto simp: watch_signal_handler_def)
qed

theorem single_instance_witness:
  "\<exists>body. pid_file_of (lock_pid 7 0 (open_pid 7 host_0)) = Some body \<and> scan_decimal body = Some 7"
proof -
  have p: "phase_of host_0 7 = Outside" "phase_of (open_pid 7 host_0) 7 = Opened 0"
    "phase_of (lock_pid 7 0 (open_pid 7 host_0)) 7 = Owner 0"
    by (simp_all add: host_0_def open_pid_def lock_pid_def write_pid_def)
  have "reach host_start (host_step True) (open_pid 7 host_0)"
    by (rule reach_step, rule reach_start, rule host_0_start, rule host_step.start, rule p(1))
  then have "reach host_start (host_step True) (lock_pid 7 0 (open_pid 7 host_0))"
    by (rule reach_step) (rule host_step.lock, rule p(2))
  from single_instance [OF this] p(3) show ?thesis by blast
qed

end
