(* ===== verification/RestfulThreads.thy ===== *)
theory RestfulThreads
  imports Restful
begin

text \<open>
  Requests at the same time.  \<^verbatim>\<open>handleRESTful\<close> (aps/source/restful.cpp) is called by the thread of the local socket and by
  the thread that fetches messages from the server, without a lock.  It keeps a reference to an element of the vector
  \<^verbatim>\<open>__Contexts\<close> and uses it in four more statements.  Here each statement is one step, with any number of requests under way;
  a handler runs as one step.  An element's address is the array it is in and its index: a vector that grows beyond its
  capacity moves to a new array, and references into the old one dangle.
\<close>

section \<open>The steps of one request\<close>

datatype stage = Waiting | Found nat nat | ParamSet nat nat | RequestSet nat nat | Triggered nat nat | Answered "byte list"

record 'w server =
  app :: "'w interface"
  array :: nat
  capacity :: nat
  parsed :: "nat \<Rightarrow> json option"
  stages :: "nat \<Rightarrow> stage"
  run_order :: "nat list"
  crash :: "ub option"

text \<open>\<open>run_order\<close> records the order in which the handlers have run.\<close>

definition uri_of :: "json option \<Rightarrow> byte list" where
  "uri_of rq = path_uri (member ''path'' rq)"

text \<open>The array that takes the place of a full one is at least as large as needed; \<open>grow\<close> is the library's choice.\<close>

definition find_step ::
    "(byte list \<Rightarrow> json option) \<Rightarrow> ('w \<Rightarrow> byte list \<Rightarrow> json option) \<Rightarrow> (nat \<Rightarrow> nat) \<Rightarrow> (nat \<Rightarrow> byte list) \<Rightarrow> nat \<Rightarrow> 'w server \<Rightarrow> 'w server" where
  "find_step loads disk grow jobs j s =
     (let rq = JSON_source loads (disk (world (app s))) (jobs j)
      in if uri_of rq = [] then s\<lparr>crash := Some OobWrite\<rparr>
         else (case getContext (butlast (uri_of rq)) (Contexts (app s)) of (k, cs) \<Rightarrow>
           let s = (if length cs \<le> capacity s then s
                    else s\<lparr>array := Suc (array s), capacity := max (length cs) (grow (capacity s))\<rparr>)
           in s\<lparr>app := (app s)\<lparr>Contexts := cs\<rparr>, parsed := (parsed s)(j := rq), stages := (stages s)(j := Found (array s) k)\<rparr>))"

definition set_context :: "nat \<Rightarrow> nat \<Rightarrow> (Context \<Rightarrow> Context) \<Rightarrow> nat \<Rightarrow> stage \<Rightarrow> 'w server \<Rightarrow> 'w server" where
  "set_context b k f j st s =
     (if b \<noteq> array s then s\<lparr>crash := Some Dangling\<rparr>
      else s\<lparr>app := (app s)\<lparr>Contexts := (Contexts (app s))[k := f (Contexts (app s) ! k)]\<rparr>, stages := (stages s)(j := st)\<rparr>)"

definition trigger_step :: "nat \<Rightarrow> nat \<Rightarrow> nat \<Rightarrow> 'w server \<Rightarrow> 'w server" where
  "trigger_step b k j s =
     (if b \<noteq> array s then s\<lparr>crash := Some Dangling\<rparr>
      else (case trigger Application (butlast (uri_of (parsed s j))) ctx_type (repo (app s)) of (fs, R) \<Rightarrow>
        (case run_handlers fs (Contexts (app s) ! k) (world (app s)) of
           Inl u \<Rightarrow> s\<lparr>crash := Some u\<rparr>
         | Inr (c, w) \<Rightarrow> s\<lparr>app := \<lparr>Contexts = (Contexts (app s))[k := c], repo = R, world = w\<rparr>,
                             stages := (stages s)(j := Triggered b k), run_order := run_order s @ [j]\<rparr>)))"

definition answer_step :: "nat \<Rightarrow> nat \<Rightarrow> nat \<Rightarrow> 'w server \<Rightarrow> 'w server" where
  "answer_step b k j s =
     (if b \<noteq> array s then s\<lparr>crash := Some Dangling\<rparr>
      else s\<lparr>stages := (stages s)(j := Answered (response (Contexts (app s) ! k)))\<rparr>)"

definition active :: "stage \<Rightarrow> bool" where
  "active st \<longleftrightarrow> (case st of Waiting \<Rightarrow> False | Answered _ \<Rightarrow> False | _ \<Rightarrow> True)"

definition key_of :: "'w server \<Rightarrow> nat \<Rightarrow> byte list" where
  "key_of s j = butlast (uri_of (parsed s j))"

text \<open>
  A request may begin with care: while no other one for its URI is under way, and not while it would make the vector
  move under others.
\<close>

definition careful_start :: "(byte list \<Rightarrow> json option) \<Rightarrow> (nat \<Rightarrow> byte list) \<Rightarrow> nat \<Rightarrow> 'w server \<Rightarrow> bool" where
  "careful_start loads jobs j s \<longleftrightarrow>
     (\<forall>i. active (stages s i) \<longrightarrow> key_of s i \<noteq> butlast (uri_of (loads (jobs j)))) \<and>
     (length (snd (getContext (butlast (uri_of (loads (jobs j)))) (Contexts (app s)))) \<le> capacity s \<or>
      (\<forall>i. \<not> active (stages s i)))"

inductive request_step ::
    "bool \<Rightarrow> (byte list \<Rightarrow> json option) \<Rightarrow> (json \<Rightarrow> byte list) \<Rightarrow> ('w \<Rightarrow> byte list \<Rightarrow> json option) \<Rightarrow> (nat \<Rightarrow> nat) \<Rightarrow>
     (nat \<Rightarrow> byte list) \<Rightarrow> 'w server \<Rightarrow> 'w server \<Rightarrow> bool"
  for careful loads dumps disk grow jobs where
  find: "crash s = None \<Longrightarrow> stages s j = Waiting \<Longrightarrow> careful \<longrightarrow> careful_start loads jobs j s \<Longrightarrow>
     request_step careful loads dumps disk grow jobs s (find_step loads disk grow jobs j s)"
| param: "crash s = None \<Longrightarrow> stages s j = Found b k \<Longrightarrow>
     request_step careful loads dumps disk grow jobs s
       (set_context b k (\<lambda>c. c\<lparr>parameter := stringify dumps (member ''parameter'' (parsed s j))\<rparr>) j (ParamSet b k) s)"
| request: "crash s = None \<Longrightarrow> stages s j = ParamSet b k \<Longrightarrow>
     request_step careful loads dumps disk grow jobs s (set_context b k (\<lambda>c. c\<lparr>request := jobs j\<rparr>) j (RequestSet b k) s)"
| trigger: "crash s = None \<Longrightarrow> stages s j = RequestSet b k \<Longrightarrow>
     request_step careful loads dumps disk grow jobs s (trigger_step b k j s)"
| answer: "crash s = None \<Longrightarrow> stages s j = Triggered b k \<Longrightarrow>
     request_step careful loads dumps disk grow jobs s (answer_step b k j s)"

definition server_start :: "'w interface \<Rightarrow> 'w server \<Rightarrow> bool" where
  "server_start i s \<longleftrightarrow> app s = i \<and> stages s = (\<lambda>_. Waiting) \<and> run_order s = [] \<and> crash s = None"

text \<open>One request after the other.\<close>

fun requests_run ::
    "(byte list \<Rightarrow> json option) \<Rightarrow> (json \<Rightarrow> byte list) \<Rightarrow> ('w \<Rightarrow> byte list \<Rightarrow> json option) \<Rightarrow> byte list list \<Rightarrow> 'w interface \<Rightarrow>
     ub + (byte list list \<times> 'w interface)" where
  "requests_run loads dumps disk [] s = Inr ([], s)"
| "requests_run loads dumps disk (r # rs) s =
     bindE (handleRESTful loads dumps disk r s) (\<lambda>(a, s).
     bindE (requests_run loads dumps disk rs s) (\<lambda>(as, s). Inr (a # as, s)))"

section \<open>Contexts by URI\<close>

definition context_of :: "byte list \<Rightarrow> Context list \<Rightarrow> Context" where
  "context_of uri cs = (case find_context uri cs of Some k \<Rightarrow> cs ! k | None \<Rightarrow> new_Context uri)"

lemma find_context_URIs: "map URI cs = map URI ds \<Longrightarrow> find_context uri cs = find_context uri ds"
proof (induction cs arbitrary: ds)
  case (Cons c cs)
  then show ?case by (cases ds) auto
qed simp

lemma find_context_add:
  "find_context v (cs @ [new_Context u]) =
     (case find_context v cs of Some k \<Rightarrow> Some k | None \<Rightarrow> if v = u then Some (length cs) else None)"
  by (induction cs) (auto simp: option.map_comp split: option.splits)

lemma getContext_found:
  assumes "getContext u cs = (k, ds)"
  shows "find_context u ds = Some k" and "k < length ds" and "ds ! k = context_of u cs"
    and "context_of v ds = context_of v cs" and "find_context v cs = Some m \<Longrightarrow> find_context v ds = Some m"
proof -
  have d: "ds = (if find_context u cs = None then cs @ [new_Context u] else cs)" "find_context u ds = Some k"
    using assms by (auto simp: getContext_def find_context_add split: option.splits if_splits)
  show "find_context u ds = Some k" by (rule d)
  then show "k < length ds" using find_context_iff(2) by blast
  have b: "find_context v cs = Some m \<Longrightarrow> m < length cs" for v m using find_context_iff(2) by blast
  show "context_of v ds = context_of v cs" for v
    by (auto simp: d(1) context_of_def find_context_add nth_append dest: b split: option.splits)
  from this [of u] d(2) show "ds ! k = context_of u cs" by (simp add: context_of_def)
  show "find_context v cs = Some m \<Longrightarrow> find_context v ds = Some m" by (simp add: d(1) find_context_add)
qed

lemma context_set:
  assumes "find_context u cs = Some k" and "URI c = u"
  shows "find_context v (cs[k := c]) = find_context v cs" and "context_of v (cs[k := c]) = (if v = u then c else context_of v cs)"
proof -
  have k: "k < length cs" "URI (cs ! k) = u" using find_context_iff(2) [OF assms(1)] by auto
  have "map URI (cs[k := c]) = map URI cs" using k assms(2) by (simp add: map_update list_update_same_conv)
  then show f: "find_context v (cs[k := c]) = find_context v cs" for v by (rule find_context_URIs)
  show "context_of v (cs[k := c]) = (if v = u then c else context_of v cs)"
  proof (cases "v = u")
    case True
    with k assms(1) show ?thesis by (simp add: context_of_def f)
  next
    case False
    then have "find_context v cs \<noteq> Some k" using k(2) find_context_iff(2) [of v cs k] by auto
    then have "find_context v cs = Some m \<Longrightarrow> cs[k := c] ! m = cs ! m" for m by (cases "m = k") auto
    with False show ?thesis by (auto simp: context_of_def f split: option.split)
  qed
qed

text \<open>A request, in terms of the context of its URI.\<close>

lemma handled_by_uri:
  assumes "loads req = Some rq" and "uri_of (Some rq) \<noteq> []"
    and "run_handlers (fst (trigger Application (butlast (uri_of (Some rq))) ctx_type (repo q)))
      ((context_of (butlast (uri_of (Some rq))) (Contexts q))\<lparr>parameter := stringify dumps (member ''parameter'' (Some rq)), request := req\<rparr>)
      (world q) = r"
  shows "(\<forall>u. r = Inl u \<longrightarrow> handleRESTful loads dumps disk req q = Inl u) \<and>
    (\<forall>c w. r = Inr (c, w) \<longrightarrow> URI c = butlast (uri_of (Some rq)) \<longrightarrow>
       (\<exists>q'. handleRESTful loads dumps disk req q = Inr (response c, q') \<and> world q' = w \<and>
          repo q' = snd (trigger Application (butlast (uri_of (Some rq))) ctx_type (repo q)) \<and>
          (\<forall>v. context_of v (Contexts q') = (if v = butlast (uri_of (Some rq)) then c else context_of v (Contexts q)))))"
proof -
  let ?u = "butlast (uri_of (Some rq))"
  obtain k cs where g: "getContext ?u (Contexts q) = (k, cs)" by fastforce
  note f = getContext_found [OF g]
  have "handleRESTful loads dumps disk req q = bindE r (\<lambda>(c, w).
      Inr (response c, \<lparr>Contexts = cs[k := c], repo = snd (trigger Application ?u ctx_type (repo q)), world = w\<rparr>))"
    using assms(1,2) g assms(3) f(3)
    by (cases "trigger Application ?u ctx_type (repo q)") (simp add: handleRESTful_def Let_def JSON_source_def uri_of_def)
  then show ?thesis using context_set [OF f(1)] f(4) by auto
qed

section \<open>What the steps keep\<close>

definition keeps_uri :: "'w app_handler repository \<Rightarrow> bool" where
  "keeps_uri R \<longleftrightarrow> (\<forall>u. \<forall>f \<in> set (fst (trigger Application u ctx_type R)). \<forall>c w c' w'. f c w = Inr (c', w') \<longrightarrow> URI c' = URI c)"

lemma trigger_again: "fst (trigger e u ty (snd (trigger e' u' ty' R))) = fst (trigger e u ty R)"
proof -
  have "fst (trigger e u ty S) = (case map_of (fst (container e u S)) ty of None \<Rightarrow> [] | Some f \<Rightarrow> [f])" for S :: "'a repository"
    by (simp add: trigger_def split: prod.splits option.splits)
  moreover have "snd (trigger e' u' ty' R) = snd (container e' u' R)"
    by (simp add: trigger_def split: prod.splits option.splits)
  ultimately show ?thesis by simp
qed

lemma keeps_uri_kept: "keeps_uri R \<Longrightarrow> keeps_uri (snd (trigger e u ty R))"
  by (simp add: keeps_uri_def trigger_again)

lemma run_keeps:
  "\<forall>f \<in> set fs. \<forall>c w c' w'. f c w = Inr (c', w') \<longrightarrow> URI c' = URI c \<Longrightarrow> run_handlers fs c w = Inr (c', w') \<Longrightarrow> URI c' = URI c"
proof (induction fs arbitrary: c w)
  case (Cons f fs)
  then obtain d v where "f c w = Inr (d, v)" "run_handlers fs d v = Inr (c', w')" by (auto simp: returns_iff)
  with Cons show ?case by (metis list.set_intros)
qed simp

lemma keeps_run:
  "keeps_uri R \<Longrightarrow> run_handlers (fst (trigger Application u ctx_type R)) c w = Inr (c', w') \<Longrightarrow> URI c' = URI c"
  unfolding keeps_uri_def by (rule run_keeps) blast+

lemma requests_run_snoc:
  "requests_run loads dumps disk rs s = Inr (as, q) \<Longrightarrow>
   requests_run loads dumps disk (rs @ [r]) s = bindE (handleRESTful loads dumps disk r q) (\<lambda>(a, q). Inr (as @ [a], q))"
proof (induction rs arbitrary: s as)
  case Nil
  then show ?case by (cases "handleRESTful loads dumps disk r q") auto
next
  case (Cons x xs)
  then obtain a t bs where t: "handleRESTful loads dumps disk x s = Inr (a, t)" "requests_run loads dumps disk xs t = Inr (bs, q)" "as = a # bs"
    by (auto simp: returns_iff)
  from Cons.IH [OF t(2)] t(1,3) show ?case by (cases "handleRESTful loads dumps disk r q") auto
qed

text \<open>What a request under way has done to its context, and where that is.\<close>

fun done_to :: "(json \<Rightarrow> byte list) \<Rightarrow> json option \<Rightarrow> byte list \<Rightarrow> stage \<Rightarrow> Context \<Rightarrow> Context" where
  "done_to dumps rq r (ParamSet b k) c = c\<lparr>parameter := stringify dumps (member ''parameter'' rq)\<rparr>"
| "done_to dumps rq r (RequestSet b k) c = c\<lparr>parameter := stringify dumps (member ''parameter'' rq), request := r\<rparr>"
| "done_to dumps rq r _ c = c"

fun place :: "stage \<Rightarrow> (nat \<times> nat) option" where
  "place Waiting = None"
| "place (Answered a) = None"
| "place (Found b k) = Some (b, k)"
| "place (ParamSet b k) = Some (b, k)"
| "place (RequestSet b k) = Some (b, k)"
| "place (Triggered b k) = Some (b, k)"

lemma active_place: "active st \<longleftrightarrow> place st \<noteq> None"
  by (cases st) (simp_all add: active_def)

lemma done_URI [simp]: "URI (done_to dumps rq r st c) = URI c"
  by (cases st) simp_all

text \<open>The contexts of the server \<open>s\<close> are those of \<open>q\<close>, after what the requests under way have done.\<close>

definition contexts_match :: "(json \<Rightarrow> byte list) \<Rightarrow> (nat \<Rightarrow> byte list) \<Rightarrow> 'w server \<Rightarrow> 'w interface \<Rightarrow> bool" where
  "contexts_match dumps jobs s q \<longleftrightarrow>
     (\<forall>j. place (stages s j) \<noteq> None \<longrightarrow>
        context_of (key_of s j) (Contexts (app s)) = done_to dumps (parsed s j) (jobs j) (stages s j) (context_of (key_of s j) (Contexts q))) \<and>
     (\<forall>v. (\<forall>j. place (stages s j) \<noteq> None \<longrightarrow> key_of s j \<noteq> v) \<longrightarrow> context_of v (Contexts (app s)) = context_of v (Contexts q))"

definition places_ok :: "(byte list \<Rightarrow> json option) \<Rightarrow> (nat \<Rightarrow> byte list) \<Rightarrow> 'w server \<Rightarrow> bool" where
  "places_ok loads jobs s \<longleftrightarrow>
     (\<forall>j b k. place (stages s j) = Some (b, k) \<longrightarrow> b = array s \<and> find_context (key_of s j) (Contexts (app s)) = Some k) \<and>
     (\<forall>i j. place (stages s i) \<noteq> None \<longrightarrow> place (stages s j) \<noteq> None \<longrightarrow> key_of s i = key_of s j \<longrightarrow> i = j) \<and>
     (\<forall>j. place (stages s j) \<noteq> None \<longrightarrow> parsed s j = loads (jobs j))"

definition has_run :: "stage \<Rightarrow> bool" where
  "has_run st \<longleftrightarrow> (case st of Triggered _ _ \<Rightarrow> True | Answered _ \<Rightarrow> True | _ \<Rightarrow> False)"

lemma has_run_simps [simp]: "\<not> has_run Waiting" "\<not> has_run (Found b k)" "\<not> has_run (ParamSet b k)" "\<not> has_run (RequestSet b k)"
  "has_run (Triggered b k)" "has_run (Answered a)"
  by (simp_all add: has_run_def)

definition answers_ok :: "'w server \<Rightarrow> byte list list \<Rightarrow> 'w interface \<Rightarrow> bool" where
  "answers_ok s as q \<longleftrightarrow> length as = length (run_order s) \<and> distinct (run_order s) \<and> (\<forall>j \<in> set (run_order s). has_run (stages s j)) \<and>
     (\<forall>j b k. stages s j = Triggered b k \<longrightarrow> (j, response (context_of (key_of s j) (Contexts q))) \<in> set (zip (run_order s) as)) \<and>
     (\<forall>j a. stages s j = Answered a \<longrightarrow> (j, a) \<in> set (zip (run_order s) as))"

definition server_inv ::
    "(byte list \<Rightarrow> json option) \<Rightarrow> (json \<Rightarrow> byte list) \<Rightarrow> ('w \<Rightarrow> byte list \<Rightarrow> json option) \<Rightarrow> (nat \<Rightarrow> byte list) \<Rightarrow>
     'w interface \<Rightarrow> 'w server \<Rightarrow> bool" where
  "server_inv loads dumps disk jobs i0 s \<longleftrightarrow>
     (case crash s of
        Some u \<Rightarrow> (\<exists>j. requests_run loads dumps disk (map jobs (run_order s @ [j])) i0 = Inl u)
      | None \<Rightarrow> (\<exists>as q. requests_run loads dumps disk (map jobs (run_order s)) i0 = Inr (as, q) \<and> keeps_uri (repo q) \<and>
          world (app s) = world q \<and> repo (app s) = repo q \<and> contexts_match dumps jobs s q \<and> places_ok loads jobs s \<and> answers_ok s as q))"

lemma URI_context_of [simp]: "URI (context_of u cs) = u"
  by (auto simp: context_of_def dest: find_context_iff(2) split: option.split)

lemma found_context: "find_context u cs = Some k \<Longrightarrow> cs ! k = context_of u cs"
  by (simp add: context_of_def)

lemma contexts_set:
  assumes match: "contexts_match dumps jobs s q" and ok: "places_ok loads jobs s"
    and j: "place (stages s j) = Some (b, k)" "place st = Some (b, k)"
    and f: "\<And>c. URI (f c) = URI c" "f (done_to dumps (parsed s j) (jobs j) (stages s j) (context_of (key_of s j) (Contexts q))) =
      done_to dumps (parsed s j) (jobs j) st (context_of (key_of s j) (Contexts q))"
  shows "contexts_match dumps jobs (s\<lparr>app := (app s)\<lparr>Contexts := (Contexts (app s))[k := f (Contexts (app s) ! k)]\<rparr>,
      stages := (stages s)(j := st)\<rparr>) q"
    and "places_ok loads jobs (s\<lparr>app := (app s)\<lparr>Contexts := (Contexts (app s))[k := f (Contexts (app s) ! k)]\<rparr>,
      stages := (stages s)(j := st)\<rparr>)"
proof -
  let ?s = "s\<lparr>app := (app s)\<lparr>Contexts := (Contexts (app s))[k := f (Contexts (app s) ! k)]\<rparr>, stages := (stages s)(j := st)\<rparr>"
  have k: "find_context (key_of s j) (Contexts (app s)) = Some k" using ok j(1) by (auto simp: places_ok_def)
  have u: "URI (f (Contexts (app s) ! k)) = key_of s j" by (simp add: f(1) found_context [OF k])
  note set = context_set [OF k u]
  have key: "key_of ?s i = key_of s i" for i by (simp add: key_of_def)
  have pl: "place (stages ?s i) = place (stages s i)" for i using j by simp
  show "places_ok loads jobs ?s"
    using ok unfolding places_ok_def key pl by (simp add: set(1))
  have at: "context_of v (Contexts (app ?s)) = (if v = key_of s j then f (context_of (key_of s j) (Contexts (app s))) else context_of v (Contexts (app s)))"
    for v using set(2) by (simp add: found_context [OF k])
  have other: "key_of s i \<noteq> key_of s j" if "place (stages s i) \<noteq> None" "i \<noteq> j" for i
  proof
    assume "key_of s i = key_of s j"
    with ok that j(1) have "i = j" unfolding places_ok_def by blast
    with that(2) show False by simp
  qed
  have mine: "context_of (key_of s j) (Contexts (app s)) =
      done_to dumps (parsed s j) (jobs j) (stages s j) (context_of (key_of s j) (Contexts q))"
    using match j(1) unfolding contexts_match_def by blast
  show "contexts_match dumps jobs ?s q"
    unfolding contexts_match_def key pl at
  proof (intro conjI allI impI)
    fix i
    assume i: "place (stages s i) \<noteq> None"
    show "(if key_of s i = key_of s j then f (context_of (key_of s j) (Contexts (app s))) else context_of (key_of s i) (Contexts (app s))) =
        done_to dumps (parsed ?s i) (jobs i) (stages ?s i) (context_of (key_of s i) (Contexts q))"
    proof (cases "i = j")
      case True
      then show ?thesis by (simp add: mine f(2))
    next
      case False
      with other [OF i] match i show ?thesis unfolding contexts_match_def by simp
    qed
  next
    fix v
    assume v: "\<forall>i. place (stages s i) \<noteq> None \<longrightarrow> key_of s i \<noteq> v"
    then have "key_of s j \<noteq> v" using j(1) by blast
    with v match show "(if v = key_of s j then f (context_of (key_of s j) (Contexts (app s))) else context_of v (Contexts (app s))) =
        context_of v (Contexts q)"
      unfolding contexts_match_def by auto
  qed
qed

lemma set_context_inv:
  assumes inv: "server_inv loads dumps disk jobs i0 s" and "crash s = None"
    and j: "place (stages s j) = Some (b, k)" "place st = Some (b, k)" "\<not> has_run (stages s j)" "\<not> has_run st"
    and f: "\<And>c. URI (f c) = URI c" "\<And>c. f (done_to dumps (parsed s j) (jobs j) (stages s j) c) = done_to dumps (parsed s j) (jobs j) st c"
  shows "server_inv loads dumps disk jobs i0 (set_context b k f j st s)"
proof -
  from inv assms(2) obtain as q where q: "requests_run loads dumps disk (map jobs (run_order s)) i0 = Inr (as, q)" "keeps_uri (repo q)"
    "world (app s) = world q" "repo (app s) = repo q" "contexts_match dumps jobs s q" "places_ok loads jobs s" "answers_ok s as q"
    by (auto simp: server_inv_def)
  have "b = array s" using q(6) j(1) by (auto simp: places_ok_def)
  moreover have "answers_ok (s\<lparr>app := a, stages := (stages s)(j := st)\<rparr>) as q" for a
    using q(7) j(3,4) by (auto simp: answers_ok_def key_of_def)
  ultimately show ?thesis
    using contexts_set [OF q(5,6) j(1,2), of f, OF f] q(1-4) assms(2)
    by (auto simp: server_inv_def set_context_def)
qed

lemma find_inv:
  assumes inv: "server_inv loads dumps disk jobs i0 s" and "crash s = None" and "stages s j = Waiting" and "careful_start loads jobs j s"
    and "loads (jobs j) \<noteq> None" and "uri_of (loads (jobs j)) \<noteq> []"
  shows "server_inv loads dumps disk jobs i0 (find_step loads disk grow jobs j s)"
proof -
  from inv assms(2) obtain as q where q: "requests_run loads dumps disk (map jobs (run_order s)) i0 = Inr (as, q)" "keeps_uri (repo q)"
    "world (app s) = world q" "repo (app s) = repo q" "contexts_match dumps jobs s q" "places_ok loads jobs s" "answers_ok s as q"
    by (auto simp: server_inv_def)
  let ?u = "butlast (uri_of (loads (jobs j)))"
  obtain k cs where g: "getContext ?u (Contexts (app s)) = (k, cs)" by fastforce
  note f = getContext_found [OF g]
  define t where "t = find_step loads disk grow jobs j s"
  have src: "JSON_source loads (disk (world (app s))) (jobs j) = loads (jobs j)" using assms(5) by (auto simp: JSON_source_def)
  have "Contexts (app t) = cs" "world (app t) = world (app s)" "repo (app t) = repo (app s)" "crash t = None" "run_order t = run_order s"
    "parsed t = (parsed s)(j := loads (jobs j))" "stages t = (stages s)(j := Found (array t) k)"
    by (simp_all add: t_def find_step_def src assms(2,6) g Let_def)
  then have t: "Contexts (app t) = cs" "world (app t) = world q" "repo (app t) = repo q" "crash t = None" "run_order t = run_order s"
    "parsed t = (parsed s)(j := loads (jobs j))" "stages t = (stages s)(j := Found (array t) k)"
    by (simp_all add: q(3,4))
  have still: "array t = array s" if "place (stages s i) \<noteq> None" for i
  proof -
    have "active (stages s i)" using that by (simp add: active_place)
    then have "length cs \<le> capacity s" using assms(4) by (auto simp: careful_start_def g)
    then show ?thesis by (simp add: t_def find_step_def src assms(6) g)
  qed
  have key: "key_of t i = (if i = j then ?u else key_of s i)" for i by (simp add: key_of_def t)
  have free: "key_of s i \<noteq> ?u" if "place (stages s i) \<noteq> None" for i
    using assms(4) that by (auto simp: careful_start_def active_place)
  have pl: "place (stages t i) = (if i = j then Some (array t, k) else place (stages s i))" for i by (simp add: t(7))
  have "context_of (key_of t i) cs = done_to dumps (parsed t i) (jobs i) (stages t i) (context_of (key_of t i) (Contexts q))"
    if "place (stages t i) \<noteq> None" for i
  proof (cases "i = j")
    case True
    have "context_of ?u (Contexts (app s)) = context_of ?u (Contexts q)"
      using q(5) free unfolding contexts_match_def by blast
    with True show ?thesis by (simp add: key t(7) f(4))
  next
    case False
    with that have "place (stages s i) \<noteq> None" by (simp add: pl)
    with q(5) False show ?thesis unfolding contexts_match_def by (simp add: key t(6,7) f(4))
  qed
  moreover have "context_of v cs = context_of v (Contexts q)" if "\<forall>i. place (stages t i) \<noteq> None \<longrightarrow> key_of t i \<noteq> v" for v
  proof -
    have "place (stages s i) \<noteq> None \<longrightarrow> key_of s i \<noteq> v" for i
      using that [rule_format, of i] assms(3) by (cases "i = j") (auto simp: key pl)
    with q(5) show ?thesis unfolding contexts_match_def by (simp add: f(4))
  qed
  ultimately have "contexts_match dumps jobs t q" unfolding contexts_match_def t(1) by blast
  moreover have "places_ok loads jobs t"
    unfolding places_ok_def
  proof (intro conjI allI impI)
    fix i b m
    assume "place (stages t i) = Some (b, m)"
    then have p: "(i = j \<and> b = array t \<and> m = k) \<or> (i \<noteq> j \<and> place (stages s i) = Some (b, m))" by (auto simp: pl split: if_splits)
    then show "b = array t" using still [of i] q(6) by (auto simp: places_ok_def)
    show "find_context (key_of t i) (Contexts (app t)) = Some m"
      using p q(6) f(1,5) by (auto simp: key t(1) places_ok_def)
  next
    fix i i'
    assume "place (stages t i) \<noteq> None" "place (stages t i') \<noteq> None" "key_of t i = key_of t i'"
    then show "i = i'" using free q(6) by (auto simp: key pl places_ok_def split: if_splits)
  next
    fix i
    assume "place (stages t i) \<noteq> None"
    then show "parsed t i = loads (jobs i)" using q(6) by (auto simp: pl t(6) places_ok_def split: if_splits)
  qed
  moreover have "answers_ok t as q"
  proof -
    have "j \<notin> set (run_order s)" using q(7) assms(3) by (force simp: answers_ok_def)
    with q(7) show ?thesis by (auto simp: answers_ok_def t key split: if_splits)
  qed
  ultimately show ?thesis using q(1-4) t by (auto simp: server_inv_def t_def [symmetric])
qed

lemma answer_inv:
  assumes inv: "server_inv loads dumps disk jobs i0 s" and "crash s = None" and st: "stages s j = Triggered b k"
  shows "server_inv loads dumps disk jobs i0 (answer_step b k j s)"
proof -
  from inv assms(2) obtain as q where q: "requests_run loads dumps disk (map jobs (run_order s)) i0 = Inr (as, q)" "keeps_uri (repo q)"
    "world (app s) = world q" "repo (app s) = repo q" "contexts_match dumps jobs s q" "places_ok loads jobs s" "answers_ok s as q"
    by (auto simp: server_inv_def)
  have j: "place (stages s j) = Some (b, k)" by (simp add: st)
  have here: "b = array s" "find_context (key_of s j) (Contexts (app s)) = Some k" using q(6) j by (auto simp: places_ok_def)
  have same: "context_of (key_of s j) (Contexts (app s)) = context_of (key_of s j) (Contexts q)"
    using q(5) j unfolding contexts_match_def by (simp add: st)
  define t where "t = answer_step b k j s"
  have t: "app t = app s" "array t = array s" "crash t = None" "run_order t = run_order s" "parsed t = parsed s"
    "stages t = (stages s)(j := Answered (response (context_of (key_of s j) (Contexts q))))"
    using found_context [OF here(2)] by (simp_all add: t_def answer_step_def here(1) assms(2) same)
  have key: "key_of t i = key_of s i" for i by (simp add: key_of_def t)
  have pl: "place (stages t i) = (if i = j then None else place (stages s i))" for i by (simp add: t(6))
  have "contexts_match dumps jobs t q"
    unfolding contexts_match_def key t(1)
  proof (intro conjI allI impI)
    fix i
    assume i: "place (stages t i) \<noteq> None"
    then have "i \<noteq> j" "place (stages s i) \<noteq> None" by (auto simp: pl split: if_splits)
    with q(5) show "context_of (key_of s i) (Contexts (app s)) =
        done_to dumps (parsed t i) (jobs i) (stages t i) (context_of (key_of s i) (Contexts q))"
      unfolding contexts_match_def by (simp add: t(5,6))
  next
    fix v
    assume v: "\<forall>i. place (stages t i) \<noteq> None \<longrightarrow> key_of s i \<noteq> v"
    show "context_of v (Contexts (app s)) = context_of v (Contexts q)"
    proof (cases "v = key_of s j")
      case True
      with same show ?thesis by simp
    next
      case False
      with v [rule_format] have "place (stages s i) \<noteq> None \<longrightarrow> key_of s i \<noteq> v" for i by (cases "i = j") (auto simp: pl)
      with q(5) show ?thesis unfolding contexts_match_def by blast
    qed
  qed
  moreover have "places_ok loads jobs t" using q(6) by (auto simp: places_ok_def key pl t)
  moreover have "answers_ok t as q" using q(7) st by (auto simp: answers_ok_def key t)
  ultimately show ?thesis using q(1-4) t by (auto simp: server_inv_def t_def [symmetric])
qed

lemma trigger_inv:
  assumes inv: "server_inv loads dumps disk jobs i0 s" and "crash s = None" and st: "stages s j = RequestSet b k"
    and src: "loads (jobs j) = Some rq" "uri_of (Some rq) \<noteq> []"
  shows "server_inv loads dumps disk jobs i0 (trigger_step b k j s)"
proof -
  from inv assms(2) obtain as q where q: "requests_run loads dumps disk (map jobs (run_order s)) i0 = Inr (as, q)" "keeps_uri (repo q)"
    "world (app s) = world q" "repo (app s) = repo q" "contexts_match dumps jobs s q" "places_ok loads jobs s" "answers_ok s as q"
    by (auto simp: server_inv_def)
  have j: "place (stages s j) = Some (b, k)" by (simp add: st)
  have here: "b = array s" "find_context (key_of s j) (Contexts (app s)) = Some k" "parsed s j = Some rq"
    using q(6) j src by (auto simp: places_ok_def)
  then have u: "key_of s j = butlast (uri_of (Some rq))" by (simp add: key_of_def)
  let ?u = "butlast (uri_of (Some rq))"
  let ?R = "trigger Application ?u ctx_type (repo q)"
  let ?c = "(context_of ?u (Contexts q))\<lparr>parameter := stringify dumps (member ''parameter'' (Some rq)), request := jobs j\<rparr>"
  have c: "Contexts (app s) ! k = ?c"
  proof -
    have "context_of (key_of s j) (Contexts (app s)) =
        done_to dumps (parsed s j) (jobs j) (stages s j) (context_of (key_of s j) (Contexts q))"
      using q(5) j unfolding contexts_match_def by blast
    with found_context [OF here(2)] show ?thesis by (simp add: st here(3) u)
  qed
  define r where "r = run_handlers (fst ?R) ?c (world q)"
  note h = handled_by_uri [where loads = loads and dumps = dumps and disk = disk and q = q, OF src r_def [symmetric]]
  note snoc = requests_run_snoc [OF q(1), of "jobs j"]
  have step: "trigger_step b k j s = (case r of
      Inl e \<Rightarrow> s\<lparr>crash := Some e\<rparr>
    | Inr (d, w) \<Rightarrow> s\<lparr>app := \<lparr>Contexts = (Contexts (app s))[k := d], repo = snd ?R, world = w\<rparr>,
                      stages := (stages s)(j := Triggered b k), run_order := run_order s @ [j]\<rparr>)"
    using here by (cases ?R) (auto simp: trigger_step_def q(3,4) c r_def split: sum.split)
  show ?thesis
  proof (cases r)
    case (Inl e)
    with h snoc show ?thesis by (auto simp: step server_inv_def)
  next
    case (Inr dw)
    then obtain d w where r: "r = Inr (d, w)" by (cases dw) auto
    then have d: "URI d = ?u" using keeps_run [OF q(2)] by (fastforce simp: r_def)
    with h r obtain q' where q': "handleRESTful loads dumps disk (jobs j) q = Inr (response d, q')" "world q' = w" "repo q' = snd ?R"
      "\<And>v. context_of v (Contexts q') = (if v = ?u then d else context_of v (Contexts q))" by blast
    define t where "t = trigger_step b k j s"
    have t: "Contexts (app t) = (Contexts (app s))[k := d]" "world (app t) = w" "repo (app t) = snd ?R" "crash t = None"
      "run_order t = run_order s @ [j]" "parsed t = parsed s" "array t = array s" "stages t = (stages s)(j := Triggered b k)"
      by (simp_all add: t_def step r assms(2))
    have key: "key_of t i = key_of s i" for i by (simp add: key_of_def t)
    have pl: "place (stages t i) = place (stages s i)" for i by (simp add: t(8) st)
    note set = context_set [OF here(2) d [folded u]]
    have other: "key_of s i \<noteq> ?u" if "place (stages s i) \<noteq> None" "i \<noteq> j" for i
    proof
      assume "key_of s i = ?u"
      with q(6) that j have "i = j" unfolding places_ok_def u [symmetric] by blast
      with that(2) show False by simp
    qed
    have "contexts_match dumps jobs t q'"
      unfolding contexts_match_def key pl t(1) set(2) q'(4) u
    proof (intro conjI allI impI)
      fix i
      assume i: "place (stages s i) \<noteq> None"
      show "(if key_of s i = ?u then d else context_of (key_of s i) (Contexts (app s))) =
          done_to dumps (parsed t i) (jobs i) (stages t i) (if key_of s i = ?u then d else context_of (key_of s i) (Contexts q))"
      proof (cases "i = j")
        case True
        then show ?thesis by (simp add: t(8) u)
      next
        case False
        with other [OF i] q(5) i show ?thesis unfolding contexts_match_def by (simp add: t(6,8))
      qed
    next
      fix v
      assume "\<forall>i. place (stages s i) \<noteq> None \<longrightarrow> key_of s i \<noteq> v"
      with q(5) show "(if v = ?u then d else context_of v (Contexts (app s))) = (if v = ?u then d else context_of v (Contexts q))"
        unfolding contexts_match_def by simp
    qed
    moreover have "places_ok loads jobs t" using q(6) unfolding places_ok_def key pl t(1,6,7) set(1) .
    moreover have "answers_ok t (as @ [response d]) q'"
    proof -
      have len: "length as = length (run_order s)" using q(7) by (simp add: answers_ok_def)
      have "(i, response (context_of (key_of t i) (Contexts q'))) \<in> set (zip (run_order t) (as @ [response d]))"
        if "stages t i = Triggered b' k'" for i b' k'
      proof (cases "i = j")
        case True
        then show ?thesis by (simp add: key u q'(4) t(5) len)
      next
        case False
        with that have "stages s i = Triggered b' k'" by (simp add: t(8))
        with q(7) other [of i] False show ?thesis by (auto simp: answers_ok_def key q'(4) t(5) len)
      qed
      moreover have "(i, a) \<in> set (zip (run_order t) (as @ [response d]))" if "stages t i = Answered a" for i a
        using that q(7) by (auto simp: answers_ok_def t(5,8) len split: if_splits)
      moreover have "j \<notin> set (run_order s)" using q(7) st by (auto simp: answers_ok_def)
      ultimately show ?thesis using q(7) by (auto simp: answers_ok_def t(5,8) len)
    qed
    moreover have "requests_run loads dumps disk (map jobs (run_order t)) i0 = Inr (as @ [response d], q')"
      using snoc by (simp add: t(5) q'(1))
    moreover have "keeps_uri (repo q')" using keeps_uri_kept [OF q(2)] by (simp add: q'(3))
    ultimately show ?thesis using t q'(2,3) by (auto simp: server_inv_def t_def [symmetric])
  qed
qed

lemma server_inv_step:
  assumes good: "\<And>j. loads (jobs j) \<noteq> None \<and> uri_of (loads (jobs j)) \<noteq> []"
    and "server_inv loads dumps disk jobs i0 s" and "request_step True loads dumps disk grow jobs s t"
  shows "server_inv loads dumps disk jobs i0 t"
  using assms(3)
proof cases
  case (find j)
  with find_inv [OF assms(2), of j] good [of j] show ?thesis by simp
next
  case (param j b k)
  show ?thesis unfolding param(1) by (rule set_context_inv [OF assms(2)]) (simp_all add: param)
next
  case (request j b k)
  show ?thesis unfolding request(1) by (rule set_context_inv [OF assms(2)]) (simp_all add: request)
next
  case (trigger j b k)
  obtain rq where "loads (jobs j) = Some rq" using good [of j] by auto
  with trigger_inv [OF assms(2) trigger(2,3) this] good [of j] trigger(1) show ?thesis by simp
next
  case (answer j b k)
  with answer_inv [OF assms(2)] show ?thesis by simp
qed

text \<open>Requests that are JSON with a path, and handlers that leave the URI of their context alone.\<close>

definition requests_ok :: "(byte list \<Rightarrow> json option) \<Rightarrow> (nat \<Rightarrow> byte list) \<Rightarrow> 'w interface \<Rightarrow> bool" where
  "requests_ok loads jobs i \<longleftrightarrow> (\<forall>j. loads (jobs j) \<noteq> None \<and> uri_of (loads (jobs j)) \<noteq> []) \<and> keeps_uri (repo i)"

lemma server_inv_start: "requests_ok loads jobs i \<Longrightarrow> server_start i s \<Longrightarrow> server_inv loads dumps disk jobs i s"
  by (auto simp: requests_ok_def server_start_def server_inv_def contexts_match_def places_ok_def answers_ok_def)

interpretation requests: invariant_system "\<lambda>s. requests_ok loads jobs i \<and> server_start i s"
  "request_step True loads dumps disk grow jobs" "\<lambda>s. requests_ok loads jobs i \<and> server_inv loads dumps disk jobs i s"
  for loads dumps disk grow jobs and i :: "'w interface"
  by unfold_locales (auto simp: server_inv_start requests_ok_def intro: server_inv_step)

text \<open>A schedule names the request that makes the next step.\<close>

definition next_step ::
    "(byte list \<Rightarrow> json option) \<Rightarrow> (json \<Rightarrow> byte list) \<Rightarrow> ('w \<Rightarrow> byte list \<Rightarrow> json option) \<Rightarrow> (nat \<Rightarrow> nat) \<Rightarrow> (nat \<Rightarrow> byte list) \<Rightarrow> nat \<Rightarrow>
     'w server \<Rightarrow> 'w server" where
  "next_step loads dumps disk grow jobs j s =
     (if crash s \<noteq> None then s
      else (case stages s j of
              Waiting \<Rightarrow> find_step loads disk grow jobs j s
            | Found b k \<Rightarrow> set_context b k (\<lambda>c. c\<lparr>parameter := stringify dumps (member ''parameter'' (parsed s j))\<rparr>) j (ParamSet b k) s
            | ParamSet b k \<Rightarrow> set_context b k (\<lambda>c. c\<lparr>request := jobs j\<rparr>) j (RequestSet b k) s
            | RequestSet b k \<Rightarrow> trigger_step b k j s
            | Triggered b k \<Rightarrow> answer_step b k j s
            | Answered a \<Rightarrow> s))"

lemma next_step_reach:
  assumes "reach start (request_step careful loads dumps disk grow jobs) s"
    and "careful \<longrightarrow> stages s j = Waiting \<longrightarrow> careful_start loads jobs j s"
  shows "reach start (request_step careful loads dumps disk grow jobs) (next_step loads dumps disk grow jobs j s)"
proof -
  have "next_step loads dumps disk grow jobs j s = s \<or>
      request_step careful loads dumps disk grow jobs s (next_step loads dumps disk grow jobs j s)"
    using assms(2) by (cases "crash s"; cases "stages s j") (auto simp: next_step_def intro: request_step.intros)
  with assms(1) show ?thesis by (metis reach_step)
qed

lemma next_step_begun: "stages s i \<noteq> Waiting \<Longrightarrow> stages (next_step loads dumps disk grow jobs j s) i \<noteq> Waiting"
  by (auto simp: next_step_def find_step_def set_context_def trigger_step_def answer_step_def Let_def
      split: stage.splits if_splits prod.splits sum.splits)

lemma schedule_reach:
  "reach start (request_step careful loads dumps disk grow jobs) s \<Longrightarrow> careful \<longrightarrow> (\<forall>j \<in> set js. stages s j \<noteq> Waiting) \<Longrightarrow>
   reach start (request_step careful loads dumps disk grow jobs) (fold (next_step loads dumps disk grow jobs) js s)"
proof (induction js arbitrary: s)
  case (Cons j js)
  from next_step_reach [OF Cons.prems(1), of j] Cons.prems(2)
  have "reach start (request_step careful loads dumps disk grow jobs) (next_step loads dumps disk grow jobs j s)" by auto
  from Cons.IH [OF this] Cons.prems(2) next_step_begun show ?case by fastforce
qed simp

section \<open>Properties\<close>


section \<open>Two requests that do not begin with care\<close>

text \<open>Requests 1 and 2 have the same URI, request 3 another; the handler answers with the parameter.\<close>

definition echo_request :: "byte \<Rightarrow> u64 \<Rightarrow> json" where
  "echo_request u n = JObj [(''path'', JArr [JStr [u]]), (''parameter'', JArr [JInt n])]"

definition echo_loads :: "byte list \<Rightarrow> json option" where
  "echo_loads b =
     (if b = [1] then Some (echo_request 0x61 1) else if b = [2] then Some (echo_request 0x61 2)
      else if b = [3] then Some (echo_request 0x62 3) else None)"

definition echo_dumps :: "json \<Rightarrow> byte list" where
  "echo_dumps j = (case j of JArr [JInt n] \<Rightarrow> [ucast n] | _ \<Rightarrow> [])"

definition echo :: "unit app_handler" where
  "echo c w = Inr (c\<lparr>response := parameter c\<rparr>, w)"

definition echo_app :: "unit interface" where
  "echo_app = \<lparr>Contexts = [new_Context [0x61]],
     repo = handler Application [0x61] ctx_type echo (handler Application [0x62] ctx_type echo []), world = ()\<rparr>"

definition echo_server :: "unit server" where
  "echo_server = \<lparr>app = echo_app, array = 0, capacity = 1, parsed = (\<lambda>_. None), stages = (\<lambda>_. Waiting), run_order = [], crash = None\<rparr>"

definition echo_schedule :: "(nat \<Rightarrow> byte list) \<Rightarrow> nat list \<Rightarrow> unit server" where
  "echo_schedule jobs js = fold (next_step echo_loads echo_dumps (\<lambda>_ _. None) (\<lambda>n. 2 * n) jobs) js echo_server"

lemma echo_start: "server_start echo_app echo_server"
  by (simp add: server_start_def echo_server_def)

lemma echo_reach:
  "reach (server_start echo_app) (request_step False echo_loads echo_dumps (\<lambda>_ _. None) (\<lambda>n. 2 * n) jobs) (echo_schedule jobs js)"
  unfolding echo_schedule_def by (rule schedule_reach, rule reach_start, rule echo_start) simp

lemmas echo_defs = echo_request_def echo_loads_def echo_dumps_def echo_def echo_app_def echo_server_def uri_of_def path_uri_def member_def
  json_toString_def JSON_source_def getContext_def new_Context_def stringify_def

text \<open>
  Without that care, two requests for the same URI may both get the answer to the second, which no order of handling
  them gives; and a request for a new URI makes another one use a context that is no longer there.
\<close>

theorem requests_race:
  "(\<exists>s. reach (server_start echo_app) (request_step False echo_loads echo_dumps (\<lambda>_ _. None) (\<lambda>n. 2 * n)
        (\<lambda>j. if j = 0 then [1] else [2])) s \<and> stages s 0 = Answered [2] \<and> stages s 1 = Answered [2]) \<and>
   (case requests_run echo_loads echo_dumps (\<lambda>_ _. None) [[1], [2]] echo_app of Inr (as, _) \<Rightarrow> as = [[1], [2]] | _ \<Rightarrow> False) \<and>
   (case requests_run echo_loads echo_dumps (\<lambda>_ _. None) [[2], [1]] echo_app of Inr (as, _) \<Rightarrow> as = [[2], [1]] | _ \<Rightarrow> False) \<and>
   (\<exists>s. reach (server_start echo_app) (request_step False echo_loads echo_dumps (\<lambda>_ _. None) (\<lambda>n. 2 * n)
        (\<lambda>j. if j = 0 then [1] else [3])) s \<and> crash s = Some Dangling)"
proof (intro conjI exI)
  let ?s = "echo_schedule (\<lambda>j. if j = 0 then [1] else [2]) [0, 1, 0, 1, 0, 1, 0, 0, 1, 1]"
  show "reach (server_start echo_app) (request_step False echo_loads echo_dumps (\<lambda>_ _. None) (\<lambda>n. 2 * n)
        (\<lambda>j. if j = 0 then [1] else [2])) ?s" by (rule echo_reach)
  show "stages ?s 0 = Answered [2]" "stages ?s 1 = Answered [2]" by code_simp+
  show "case requests_run echo_loads echo_dumps (\<lambda>_ _. None) [[1], [2]] echo_app of Inr (as, _) \<Rightarrow> as = [[1], [2]] | _ \<Rightarrow> False"
    "case requests_run echo_loads echo_dumps (\<lambda>_ _. None) [[2], [1]] echo_app of Inr (as, _) \<Rightarrow> as = [[2], [1]] | _ \<Rightarrow> False"
    by code_simp+
  let ?t = "echo_schedule (\<lambda>j. if j = 0 then [1] else [3]) [0, 1, 0]"
  show "reach (server_start echo_app) (request_step False echo_loads echo_dumps (\<lambda>_ _. None) (\<lambda>n. 2 * n)
        (\<lambda>j. if j = 0 then [1] else [3])) ?t" by (rule echo_reach)
  show "crash ?t = Some Dangling" by code_simp
qed


end
