(* ===== verification/RemoteSession.thy ===== *)
theory RemoteSession
  imports RestfulThreads Remote
begin

text \<open>
  The remote interface as a whole (kintf/source/remoteif.cpp): the UDP thread takes a datagram, which makes it fetch a
  message from the server over TLS, which holds a request, whose answer goes back over the same connection.
  Everything from the socket to the handlers is composed here.
\<close>

text \<open>
  What one exchange with the server meets: the attempts to connect, the writes, \<^verbatim>\<open>select\<close>, the reads and the writes of
  the answer.
\<close>

record fetch_env =
  fe_time :: int
  fe_tries :: "ssl_env list"
  fe_writes :: "(int \<times> bool) list"
  fe_turns :: "select_turn list"
  fe_reads :: "ssl_read list"
  fe_answers :: "(int \<times> bool) list"

definition fetch ::
    "(byte list \<Rightarrow> json option) \<Rightarrow> (json \<Rightarrow> byte list) \<Rightarrow> ('w \<Rightarrow> byte list \<Rightarrow> json option) \<Rightarrow> (byte list \<Rightarrow> byte list) \<Rightarrow> ssl_ctx \<Rightarrow>
     fetch_env \<Rightarrow> byte list \<Rightarrow> 'w interface \<times> Endpoint list \<Rightarrow> net_fault + (json list \<times> 'w interface \<times> Endpoint list)" where
  "fetch loads dumps disk encode ctx f arg s =
     bindE (ask_server ctx (fe_tries f) (fe_writes f) (fe_turns f) (fe_reads f)) (\<lambda>reply.
     bindE (ub_net (getMsg loads dumps disk encode (fe_time f) reply arg s)) (\<lambda>(ms, s).
       if 1 < length ms then bindE (ssl_send (fe_answers f)) (\<lambda>_. Inr (ms, s)) else Inr (ms, s)))"

text \<open>The messages a turn is told to fetch, with what the exchanges meet; the result are the messages sent.\<close>

fun fetch_all ::
    "(byte list \<Rightarrow> json option) \<Rightarrow> (json \<Rightarrow> byte list) \<Rightarrow> ('w \<Rightarrow> byte list \<Rightarrow> json option) \<Rightarrow> (byte list \<Rightarrow> byte list) \<Rightarrow> ssl_ctx \<Rightarrow>
     byte list list \<Rightarrow> fetch_env list \<Rightarrow> 'w interface \<times> Endpoint list \<Rightarrow> net_fault + (json list \<times> 'w interface \<times> Endpoint list)" where
  "fetch_all loads dumps disk encode ctx [] fs s = Inr ([], s)"
| "fetch_all loads dumps disk encode ctx (a # as) [] s = Inl Blocked"
| "fetch_all loads dumps disk encode ctx (a # as) (f # fs) s =
     bindE (fetch loads dumps disk encode ctx f a s) (\<lambda>(ms, s).
     bindE (fetch_all loads dumps disk encode ctx as fs s) (\<lambda>(ns, s). Inr (ms @ ns, s)))"

fun session_run ::
    "(byte list \<Rightarrow> json option) \<Rightarrow> (json \<Rightarrow> byte list) \<Rightarrow> ('w \<Rightarrow> byte list \<Rightarrow> json option) \<Rightarrow> (byte list \<Rightarrow> byte list) \<Rightarrow> ssl_ctx \<Rightarrow>
     (udp_turn \<times> fetch_env list) list \<Rightarrow> udp_state \<Rightarrow> 'w interface \<times> Endpoint list \<Rightarrow>
     net_fault + (json list \<times> udp_state \<times> 'w interface \<times> Endpoint list)" where
  "session_run loads dumps disk encode ctx [] u s = Inr ([], u, s)"
| "session_run loads dumps disk encode ctx ((v, fs) # vs) u s =
     bindE (startUDPServer_turn loads (disk (world (fst s))) v u) (\<lambda>(_, told, u).
     bindE (fetch_all loads dumps disk encode ctx told fs s) (\<lambda>(ms, s).
     bindE (session_run loads dumps disk encode ctx vs u s) (\<lambda>(ns, u, s). Inr (ms @ ns, u, s))))"

definition remote_session ::
    "(byte list \<Rightarrow> json option) \<Rightarrow> (json \<Rightarrow> byte list) \<Rightarrow> ('w \<Rightarrow> byte list \<Rightarrow> json option) \<Rightarrow> (byte list \<Rightarrow> byte list) \<Rightarrow> ssl_ctx \<Rightarrow>
     tcp_env list \<Rightarrow> (udp_turn \<times> fetch_env list) list \<Rightarrow> 'w interface \<times> Endpoint list \<Rightarrow>
     net_fault + (json list \<times> udp_state \<times> 'w interface \<times> Endpoint list)" where
  "remote_session loads dumps disk encode ctx us vs s =
     bindE (startUDPServer_init us) (\<lambda>u. session_run loads dumps disk encode ctx vs u s)"

section \<open>The thread listens\<close>

definition listens :: "udp_state \<Rightarrow> bool" where
  "listens u \<longleftrightarrow> (\<exists>fd. rdset (waiting u) = [fd] \<and> conns (waiting u) = [(fd, ())])"

lemma reconnect_listens: "reconnect vs u = Inr t \<Longrightarrow> listens t"
  by (auto simp: reconnect_def returns_iff rFD_SET_def selects_reset_def listens_def split: if_splits)

lemma listens_once: "listens u \<Longrightarrow> listenOnce ts (waiting u) = bindE (select_loop ts) (\<lambda>n. Inr (if 0 < n then [()] else []))"
  by (cases "select_loop ts") (auto simp: listens_def listenOnce_def)

lemma datagram_reply_times:
  "minRspIntv (snd (datagram loads disk t src p)) = minRspIntv p \<and> bii (snd (datagram loads disk t src p)) = bii p"
  by (auto simp: datagram_def remote_handlers_cbCtx Let_def split: if_splits)

lemma receive_reply_times:
  "receive loads disk a p = Inr (ms, q) \<Longrightarrow> minRspIntv q = minRspIntv p \<and> bii q = bii p"
  using datagram_reply_times [of loads disk _ _ p]
  by (auto simp: receive_def returns_iff split: option.splits prod.splits if_splits) (metis snd_conv)+

text \<open>The messages that a turn is told to fetch, if \<^verbatim>\<open>select\<close> reports its datagram.\<close>

definition told :: "(byte list \<Rightarrow> json option) \<Rightarrow> (byte list \<Rightarrow> json option) \<Rightarrow> (int \<times> byte list \<times> byte list) option \<Rightarrow> byte list list" where
  "told loads disk a =
     (case a of None \<Rightarrow> []
      | Some (tm, b, junk) \<Rightarrow>
          (let x = JSON_source loads disk (c_str (b @ junk))
           in if b \<noteq> [] \<and> json_toString (member ''uri'' x) = str ''msg/ind'' then [json_toString (member ''arg'' x)] else []))"

lemma receive_told:
  "receive loads disk a p = Inr (ms, q) \<Longrightarrow> ms = told loads disk a"
  by (auto simp: receive_def told_def datagram_def datagram_text_def remote_handlers_cbCtx returns_iff Let_def str_def
      split: option.splits if_splits)

lemma turn_told:
  assumes "turn_ok v" and "udp_wf n True (udp_server u)" and "listens u \<or> lastRsp (ping u) = 0" and "4500 < turn_time v"
    and "remoteAccessIsEnabled (dev_file v) = Inr True" and "minRspIntv (ping u) = 3600" and "bii (ping u) = 900"
    and "\<exists>r. select_loop (sel_turns v) = Inr r \<and> (arrival v \<noteq> None \<longrightarrow> 0 < r)"
  shows "\<exists>ps u' m. startUDPServer_turn loads disk v u = Inr (ps, told loads disk (arrival v), u') \<and> udp_wf m True (udp_server u') \<and>
    listens u' \<and> minRspIntv (ping u') = 3600 \<and> bii (ping u') = 900"
proof -
  obtain u1 m where u1: "(if brokenLink (turn_time v) (ping u) then reconnect (udp_tries v) u else Inr u) = Inr u1" "udp_wf m True (udp_server u1)"
    using reconnects [OF _ assms(2), of "udp_tries v"] assms by (cases "brokenLink (turn_time v) (ping u)") (auto simp: turn_ok_def)
  have l: "listens u1"
  proof (cases "brokenLink (turn_time v) (ping u)")
    case True
    with u1(1) show ?thesis by (auto intro: reconnect_listens)
  next
    case False
    then have "lastRsp (ping u) \<noteq> 0" using assms(4,6,7) by (auto simp: brokenLink_def)
    with False u1(1) assms(3) show ?thesis by simp
  qed
  have same: "ping u1 = ping u" using u1(1) by (auto dest: reconnect_keeps split: if_splits)
  obtain pl p where call: "onePing_call (dev_file v) (turn_time v) (ping u1) = (pl, p)" by fastforce
  then have p: "minRspIntv p = 3600 \<and> bii p = 900" using assms(6,7) same by (auto simp: onePing_call_def split: if_splits)
  obtain ps where ps: "send_ping pl (udp_server u1) = Inr ps" using ping_sent [OF u1(2)] by blast
  obtain r where r: "select_loop (sel_turns v) = Inr r" "arrival v \<noteq> None \<longrightarrow> 0 < r" using assms(8) by blast
  obtain ms q where rc: "receive loads disk (arrival v) p = Inr (ms, q)"
    using receive_returns [of "arrival v" loads disk p] assms(1) by (auto simp: turn_ok_def)
  have q: "minRspIntv q = 3600 \<and> bii q = 900"
    using receive_reply_times [OF rc] p by simp
  have ms: "ms = told loads disk (arrival v)" by (rule receive_told [OF rc])
  show ?thesis
  proof (cases "0 < r")
    case True
    with u1(2) l q show ?thesis
      by (auto simp: startUDPServer_turn_def assms(5) u1(1) call ps listens_once [OF l] r(1) rc ms listens_def)
  next
    case False
    then have "told loads disk (arrival v) = []" using r(2) by (cases "arrival v") (auto simp: told_def)
    with False u1(2) l p show ?thesis
      by (auto simp: startUDPServer_turn_def assms(5) u1(1) call ps listens_once [OF l] r(1) listens_def)
  qed
qed

section \<open>What the server asks for\<close>

text \<open>
  A turn may bring nothing, or the notice of a message with the argument \<open>a\<close>, for which the server sends a request at
  time \<open>tm\<close>, or nothing within two seconds.
\<close>

type_synonym brought = "(int \<times> byte list \<times> byte list option) option"

definition exchange_ok :: "(byte list \<Rightarrow> json option) \<Rightarrow> ssl_ctx \<Rightarrow> fetch_env \<Rightarrow> byte list option \<Rightarrow> bool" where
  "exchange_ok loads ctx f r \<longleftrightarrow>
     (case ask_server ctx (fe_tries f) (fe_writes f) (fe_turns f) (fe_reads f) of
        Inl e \<Rightarrow> False
      | Inr None \<Rightarrow> r = None
      | Inr (Some t) \<Rightarrow> (case loads t of
          None \<Rightarrow> False
        | Some j \<Rightarrow> json_toString (member ''uri'' (Some j)) = str ''restful/req'' \<and> r = Some (json_toString (member ''arg'' (Some j))))) \<and>
     (r \<noteq> None \<longrightarrow> (case ssl_send (fe_answers f) of Inl e \<Rightarrow> False | Inr n \<Rightarrow> True))"

definition readable :: "(byte list \<Rightarrow> json option) \<Rightarrow> (int \<times> byte list \<times> byte list) option \<Rightarrow> bool" where
  "readable loads a \<longleftrightarrow> (case a of None \<Rightarrow> True | Some (tm, b, junk) \<Rightarrow> b = [] \<or> loads (c_str (b @ junk)) \<noteq> None)"

definition brings :: "(byte list \<Rightarrow> json option) \<Rightarrow> ssl_ctx \<Rightarrow> udp_turn \<times> fetch_env list \<Rightarrow> brought \<Rightarrow> bool" where
  "brings loads ctx vf x \<longleftrightarrow>
     (case vf of (v, fs) \<Rightarrow> turn_ok v \<and> 4500 < turn_time v \<and>
       (if remoteAccessIsEnabled (dev_file v) = Inr True
        then (case select_loop (sel_turns v) of Inl e \<Rightarrow> False | Inr r \<Rightarrow> arrival v = None \<or> 0 < r) \<and> readable loads (arrival v) \<and>
          (case x of
             None \<Rightarrow> told loads (\<lambda>_. None) (arrival v) = []
           | Some (tm, a, r) \<Rightarrow> told loads (\<lambda>_. None) (arrival v) = [a] \<and>
               (case fs of [] \<Rightarrow> False | f # _ \<Rightarrow> fe_time f = tm \<and> exchange_ok loads ctx f r))
        else x = None))"

text \<open>The requests that come, and what is sent to the server given their answers.\<close>

fun asked :: "brought list \<Rightarrow> byte list list" where
  "asked [] = []"
| "asked (x # xs) = (case x of Some (tm, a, Some r) \<Rightarrow> r # asked xs | _ \<Rightarrow> asked xs)"

fun conversation :: "brought list \<Rightarrow> byte list list \<Rightarrow> json list" where
  "conversation [] as = []"
| "conversation (None # xs) as = conversation xs as"
| "conversation (Some (tm, a, None) # xs) as = req_struct_arg tm (str ''msg/req'') a # conversation xs as"
| "conversation (Some (tm, a, Some r) # xs) as =
     req_struct_arg tm (str ''msg/req'') a # req_struct_arg tm (str ''msg/rsp'') (hd as) # conversation xs (tl as)"

lemma told_readable: "readable loads a \<Longrightarrow> told loads disk a = told loads (\<lambda>_. None) a"
  by (auto simp: readable_def told_def JSON_source_def Let_def split: option.splits)

lemma fetch_request:
  assumes "exchange_ok loads ctx f (Some r)"
  shows "fetch loads dumps disk encode ctx f a (i, es) =
    bindE (ub_net (handleRESTful loads dumps disk r i)) (\<lambda>(ans, i).
      Inr ([req_struct_arg (fe_time f) (str ''msg/req'') a, req_struct_arg (fe_time f) (str ''msg/rsp'') ans], i, es))"
proof -
  obtain t j n where t: "ask_server ctx (fe_tries f) (fe_writes f) (fe_turns f) (fe_reads f) = Inr (Some t)" "loads t = Some j"
    "json_toString (member ''uri'' (Some j)) = str ''restful/req''" "json_toString (member ''arg'' (Some j)) = r" "ssl_send (fe_answers f) = Inr n"
    using assms by (auto simp: exchange_ok_def split: sum.splits option.splits)
  have "JSON_source loads d t = Some j" for d using t(2) by (simp add: JSON_source_def)
  then show ?thesis
    using t(1,3-5) by (cases "handleRESTful loads dumps disk r i") (auto simp: fetch_def getMsg_def remote_handlers_cbContext Let_def str_def)
qed

lemma fetch_unanswered:
  "exchange_ok loads ctx f None \<Longrightarrow>
   fetch loads dumps disk encode ctx f a s = Inr ([req_struct_arg (fe_time f) (str ''msg/req'') a], s)"
  by (cases s) (auto simp: exchange_ok_def fetch_def getMsg_def Let_def split: sum.splits option.splits)

text \<open>The thread's variables between turns.\<close>

definition thread_ok :: "udp_state \<Rightarrow> bool" where
  "thread_ok u \<longleftrightarrow> (\<exists>n. udp_wf n True (udp_server u)) \<and> (listens u \<or> lastRsp (ping u) = 0) \<and> minRspIntv (ping u) = 3600 \<and> bii (ping u) = 900"

lemma turn_brings:
  assumes "brings loads ctx (v, fs) x" and "thread_ok u"
  shows "\<exists>ps u'. startUDPServer_turn loads disk v u = Inr (ps, (case x of None \<Rightarrow> [] | Some (tm, a, r) \<Rightarrow> [a]), u') \<and> thread_ok u'"
proof (cases "remoteAccessIsEnabled (dev_file v) = Inr True")
  case True
  obtain n where n: "udp_wf n True (udp_server u)" using assms(2) by (auto simp: thread_ok_def)
  have sel: "\<exists>r. select_loop (sel_turns v) = Inr r \<and> (arrival v \<noteq> None \<longrightarrow> 0 < r)" and "readable loads (arrival v)" and v: "turn_ok v" "4500 < turn_time v"
    and x: "told loads (\<lambda>_. None) (arrival v) = (case x of None \<Rightarrow> [] | Some (tm, a, r) \<Rightarrow> [a])"
    using assms(1) True by (auto simp: brings_def split: option.splits sum.splits)
  then have told: "told loads disk (arrival v) = (case x of None \<Rightarrow> [] | Some (tm, a, r) \<Rightarrow> [a])" using told_readable by metis
  have "listens u \<or> lastRsp (ping u) = 0" "minRspIntv (ping u) = 3600" "bii (ping u) = 900" using assms(2) by (auto simp: thread_ok_def)
  from turn_told [OF v(1) n this(1) v(2) True this(2,3) sel, of loads disk]
  show ?thesis unfolding told by (auto simp: thread_ok_def)
next
  case False
  then have "remoteAccessIsEnabled (dev_file v) = Inr False" "x = None"
    using assms(1) by (cases "remoteAccessIsEnabled (dev_file v)"; auto simp: brings_def turn_ok_def)+
  with assms(2) show ?thesis by (simp add: startUDPServer_turn_def)
qed

lemma session_serves:
  "list_all2 (brings loads ctx) vs xs \<Longrightarrow> thread_ok u \<Longrightarrow>
   \<exists>u'. thread_ok u' \<and> session_run loads dumps disk encode ctx vs u (i, es) =
     bindE (ub_net (requests_run loads dumps disk (asked xs) i)) (\<lambda>(as, i). Inr (conversation xs as, u', i, es))"
proof (induction vs xs arbitrary: u i rule: list_all2_induct)
  case Nil
  then show ?case by auto
next
  case (Cons vf vs x xs)
  obtain v fs where vf: "vf = (v, fs)" by fastforce
  obtain ps u1 where turn: "startUDPServer_turn loads (disk (world i)) v u = Inr (ps, (case x of None \<Rightarrow> [] | Some (tm, a, r) \<Rightarrow> [a]), u1)" "thread_ok u1"
    using turn_brings [of loads ctx v fs x u "disk (world i)"] Cons by (auto simp: vf)
  consider (none) "x = None" | (unanswered) tm a where "x = Some (tm, a, None)" | (request) tm a r where "x = Some (tm, a, Some r)"
    by (metis option.exhaust prod_cases3)
  then show ?case
  proof cases
    case none
    from Cons.IH [OF turn(2), of i] obtain u' where u': "thread_ok u'" "session_run loads dumps disk encode ctx vs u1 (i, es) =
      bindE (ub_net (requests_run loads dumps disk (asked xs) i)) (\<lambda>(as, i). Inr (conversation xs as, u', i, es))" by blast
    then show ?thesis
      by (intro exI [of _ u']) (cases "requests_run loads dumps disk (asked xs) i"; auto simp: vf turn(1) none)
  next
    case unanswered
    obtain f gs where f: "fs = f # gs" "fe_time f = tm" "exchange_ok loads ctx f None"
      using Cons.hyps(1) by (auto simp: vf unanswered brings_def split: if_splits list.splits)
    from Cons.IH [OF turn(2), of i] obtain u' where u': "thread_ok u'" "session_run loads dumps disk encode ctx vs u1 (i, es) =
      bindE (ub_net (requests_run loads dumps disk (asked xs) i)) (\<lambda>(as, i). Inr (conversation xs as, u', i, es))" by blast
    then show ?thesis
      by (intro exI [of _ u'])
        (cases "requests_run loads dumps disk (asked xs) i"; auto simp: vf turn(1) unanswered f(1,2) fetch_unanswered [OF f(3)])
  next
    case request
    obtain f gs where f: "fs = f # gs" "fe_time f = tm" "exchange_ok loads ctx f (Some r)"
      using Cons.hyps(1) by (auto simp: vf request brings_def split: if_splits list.splits)
    show ?thesis
    proof (cases "handleRESTful loads dumps disk r i")
      case (Inl e)
      with turn show ?thesis
        by (intro exI [of _ u1]) (auto simp: vf request f(1,2) fetch_request [OF f(3)])
    next
      case (Inr q)
      obtain ans j where q: "q = (ans, j)" by fastforce
      from Cons.IH [OF turn(2), of j] obtain u' where u': "thread_ok u'" "session_run loads dumps disk encode ctx vs u1 (j, es) =
        bindE (ub_net (requests_run loads dumps disk (asked xs) j)) (\<lambda>(as, i). Inr (conversation xs as, u', i, es))" by blast
      then show ?thesis
        by (intro exI [of _ u'])
          (cases "requests_run loads dumps disk (asked xs) j"; auto simp: vf turn(1) request f(1,2) fetch_request [OF f(3)] Inr q)
    qed
  qed
qed

section \<open>Properties\<close>


section \<open>Witness\<close>

text \<open>A quiet turn, a turn that brings a request, one with remote access disabled, and a message that never comes.\<close>

definition session_loads :: "byte list \<Rightarrow> json option" where
  "session_loads b =
     (if b = [1] then Some (JObj [(''uri'', JStr (str ''msg/ind'')), (''arg'', JStr [9])])
      else if b = [2] then Some (JObj [(''uri'', JStr (str ''restful/req'')), (''arg'', JStr [3])])
      else echo_loads b)"

definition notice_turn :: "int \<Rightarrow> udp_turn" where
  "notice_turn t = (turn_at t)\<lparr>arrival := Some (t, [1, 0], [])\<rparr>"

definition exchange_at :: "int \<Rightarrow> fetch_env" where
  "exchange_at t = \<lparr>fe_time = t, fe_tries = [timed_out, timed_out\<lparr>select_turns := [(1, False, 4, 0)]\<rparr>], fe_writes = [(20, False)],
     fe_turns = [(1, False, 1, 0)], fe_reads = [Block [2]], fe_answers = [(- 1, True), (20, False)]\<rparr>"

definition session_turns :: "(udp_turn \<times> fetch_env list) list" where
  "session_turns =
     [((turn_at 5000)\<lparr>arrival := None, sel_turns := [(0, False, 0, 0)]\<rparr>, []), (notice_turn 5010, [exchange_at 5011]),
      ((turn_at 5020)\<lparr>dev_file := None\<rparr>, []), (notice_turn 5030, [(exchange_at 5031)\<lparr>fe_turns := [(0, False, 0, 0)]\<rparr>])]"

lemma exchange_at_ok: "exchange_ok session_loads ValidCtx (exchange_at t) (Some [3])"
  "exchange_ok session_loads ValidCtx ((exchange_at t)\<lparr>fe_turns := [(0, False, 0, 0)]\<rparr>) None"
  by (simp_all add: exchange_ok_def exchange_at_def ask_server_def timed_out_def openSSLConn_def SSL_new_def openTCP_def open_sock_def
      tcp_env.truncate_def sslWaitOn_def rFD_SET_def new_selects_def listenOnce_def maxLen_def c_str_def session_loads_def member_def
      json_toString_def str_def)


end
