(* ===== verification/Spec2Isabelle.thy ===== *)
theory Spec2Isabelle
  imports KPrelude KUtil KLock SerialLink MtProc MtHelper MtCommands Hal Watchdog AfMessage DataService Bootload Network Restful KBus Program Bringup Services LocalRpc HandlerTypes MtDebug
    Assemblers JsonRefs JsonArrays Instances RestfulThreads RemoteSession
begin

text \<open>
  \<^bold>\<open>The kappaio gateway: a model of its code and what makes it correct.\<close>

  kappaio connects a ZigBee network to clients.  A coprocessor runs the network; the gateway talks to it over a
  serial line in MT frames, keeps a model of the devices that have joined, and answers requests in JSON that come over a
  local socket or from a server in the cloud.  A second process restarts it when it stalls.

  \<^bold>\<open>The parts, from the wire up.\<close>

  \<^item> KPrelude, KUtil: bytes, checked memory accesses, reachability and its locale \<^verbatim>\<open>invariant_system\<close>; the hexadecimal
    and endian conversions of kapi/include/kutil.h and kapi/source/kutil.cpp.  Services: its sleeping, random and Base64
    functions.
  \<^item> KLock: the shared/exclusive lock \<^verbatim>\<open>klock_c\<close> of kutil.cpp.  Each statement of its four operations is one step, the
    three semaphores are counters, and any number of threads interleave.
  \<^item> SerialLink: hal/source/mtintf.c.  The ring buffer with its two indices, the reading loop of the signal handler and
    the frame assembler; the locale \<^verbatim>\<open>byte_queue\<close> is what the ring buffer promises.
  \<^item> Assemblers: the threads of mtintf.c.  The signal handler runs on any thread, between any two steps, and starts an assembler
    each time; the steps of all of them interleave.
  \<^item> MtProc: hal/source/mtproc.c.  Building a frame with its checksum, and the table that routes a frame to its subsystem.
  \<^item> MtHelper: hal/source/mt_helper.cpp.  \<^verbatim>\<open>mtSend\<close> with its sending and receiving threads as a step relation over any number
    of callers; a step may be a timeout.
  \<^item> MtCommands: hal/source/mtsys.cpp, mtutil.cpp, mtzdo.cpp.  Each command builds a request, hands it to the transport, a
    parameter, and takes the answer apart.
  \<^item> Hal: hal/source/hal.cpp.  Pings with the bookkeeping of failures, the loops that wait for the coprocessor, NV items.
  \<^item> Watchdog: the command line, the daemon, the keep-alive file and the pid file of kappaio.cpp, and the monitor
    kappaio_watch.cpp.
  \<^item> Instances: any number of starts, ends and stops of the gateway, interleaved around the lock on its pid file.
  \<^item> MtDebug: hal/source/mtdebug.c, the log of the coprocessor's debug frames.
  \<^item> AfMessage: the four classes of application messages, views of byte arrays with getters and setters
    (hal/include/kzdef.h, mtaf_impl.h, aps/include/aps_afmessage_impl.h), and hal/source/mtaf.cpp.  A class is an instance
    of the locale \<^verbatim>\<open>af_class\<close>.
  \<^item> DataService: aps_data_service_impl.hpp and its twin for extended messages.  Requests wait in a \<^verbatim>\<open>forward_list\<close> for the
    answer their predicate accepts; list nodes have addresses, so that a use after free is visible.
  \<^item> ObjectModel: apsdb.h, aps_object_models_impl.hpp and the pairing of apsdb.cpp.  Devices, endpoints, clusters and
    attributes; every accessor by id is an instance of the locale \<^verbatim>\<open>find_or_create\<close>.
  \<^item> Zdo, Network: zdo.h, zdo.cpp, zdo_archive.cpp.  Descriptors, announcements, leave requests, the archive; the network
    over any sequence of them.
  \<^item> KJson, JsonRefs, JsonArrays: kapi/source/kjson.cpp over JSON trees, and the references to the values of the tree: by the
    keys of an object, by the indices of an array.
  \<^item> Restful, HandlerTypes: the handlers of notification.h and their argument types, the dispatch of restful.cpp and the
    widget registry of widget_manager.hpp.
  \<^item> RestfulThreads: the same dispatch statement by statement, with any number of requests at the same time.
  \<^item> KBus: kapi/source/kbus.cpp and the log kdev/source/kdev.cpp that publishes through it.
  \<^item> Connections, Remote, LocalRpc: kapi/source/connections.cpp; kintf/source/remoteif.cpp, with the thread that keeps a
    UDP socket to the server; localintf.cpp and the UNIX sockets of kutil.cpp, server and client.
  \<^item> RemoteSession: the way of a request from the server: the turns of the UDP thread, the message fetched over TLS, the
    handlers and the answer composed.
  \<^item> Program: the handlers of apsdb.cpp, zdo.cpp and remoteif.cpp over one world, in the order \<^verbatim>\<open>main\<close> registers them, and
    runs of messages and requests.
  \<^item> Inbound: the way from the line to the handlers: SerialLink, the routing table, AfMessage, DataService and Program composed,
    one signal with any bytes at a time.
  \<^item> Startup: the start of the program, with the recovery of the archived devices, up to the state from which the runs of
    Program and Inbound begin.
  \<^item> Bringup: opening the serial line (hal.cpp, mtintf.c), the reset of the coprocessor and \<^verbatim>\<open>main\<close> up to its loop, with
    frames that arrive before there is a handler.
  \<^item> Bootload: sbl/source/serial_bootload.cpp, the client that flashes the coprocessor.

  \<^bold>\<open>How state and operations correspond to the code.\<close>

  A class or struct is a record with the fields of the source, or the part of them that its operations use.  An
  operation is a function that takes the state and returns the new one, named as in the source; one part of a long function
  has the name of the loop or branch it is.  Integers have their width.  What leaves the defined behaviour of C++ is a value
  of the type \<^verbatim>\<open>ub\<close>: reading or writing outside an object, a null or dangling pointer, reading what was never written; an
  operation that may do so returns a sum, and \<^verbatim>\<open>bindE\<close> goes on only after a value.  Memory that the code does not
  initialise is a parameter called \<^verbatim>\<open>junk\<close>.  Threads are interleaved by step relations (KLock, Assemblers, MtHelper,
  Instances, RestfulThreads) or, where one mutex
  covers the whole operation, are sequences of operations (DataService, KBus).  jansson's parser and printer are the
  parameters \<^verbatim>\<open>loads\<close> and \<^verbatim>\<open>dumps\<close>; the coprocessor, the network and the server are functions or lists that give their
  answers; system calls and OpenSSL are lists of results.

  \<^bold>\<open>What is shown.\<close>

  \<^item> On the line: the handler appends to the queue of unread bytes as long as they fit; the assembler delivers exactly the
    frames of a clean stream, consuming at least five bytes for each; a command survives building, transmission and
    assembly.  Garbage before a frame costs bytes of the next one.
    Assemblers in parallel lose and double no frame, but may exchange two, and the handler may wait for the thread it interrupts.
  \<^item> Calls: with a coprocessor that answers in time every caller gets the answer to its own request; after a timeout a late
    answer goes to a dead stack frame or to the next caller.  Nested requests of the data service restore its list.
  \<^item> Locks: an exclusive holder is alone in every interleaving, and the lock does not deadlock.
  \<^item> Flashing: with an honest coprocessor it ends, and 0 means that the memory holds the image; the check finds every change
    of the checksum or of one or two neighbouring bytes.
  \<^item> Data: messages, descriptors, hexadecimal texts and JSON members are recovered as they were stored.
  \<^item> The network: ids stay distinct whatever arrives; an announcement updates one device, a leave request removes one.
  \<^item> The program: requests reach the handler of their URI; a paired device is answered with its snapshot as long as it is
    there, and with freed memory afterwards.  However frames are split over signals, the gateway does what it does when it
    processes them one by one; an announcement that arrives on the line makes the device answer requests.  The start is
    defined exactly as long as the archive has no device; with an empty archive and a coprocessor that answers, the program
    reaches its loop.  An event that names a handler's URI reaches it only with the argument type it was registered for.
  \<^item> Interfaces: the server's requests are served in sequence and answered; the UDP thread goes on with one socket and pings at its rate, however often it
    opens the socket anew; the end of waiting for TLS, signing in, local clients served in sequence, logs that are
    published once and in order, the monitor that restarts a stalled gateway and no other.  One
    gateway runs at a time unless a stop overlaps a start.  Requests at the same time do what they do one by one, unless two
    are for the same URI or one needs a new context while another is under way.
  \<^item> Values: which assignments and removals give back each reference to a JSON value once; how long a sleep lasts; how many bytes
    of a debug frame are printed.

  \<^bold>\<open>Bounds and termination.\<close>

  Loops are structural, over the bytes or the list that the code walks, or have a measure (the assembler: unread bytes; the
  deletion of widgets: entries left; \<^verbatim>\<open>sslWaitOn\<close>: time left).  Where the code may loop for ever the loop is a
  \<^verbatim>\<open>partial_function\<close> whose value is \<^verbatim>\<open>None\<close> then (Hal, Bootload, the final pings of Watchdog), and the theorems say for which
  environments it returns.  A list of results of a system call that ends stands for a call that blocks.  No fuel is used.
  Times of the remote interface are kept in 32 bits; the theorem on pings therefore stops in 2038.

  \<^bold>\<open>Not modelled.\<close>

  \<^item> Creating other threads, installing signal handlers, loading plugins, the tables of OpenSSL: they only call the system.
  \<^item> What OpenSSL computes; running the archiver on a directory is a parameter of its text.
  \<^item> krpc.cpp, krpc_helper.cpp and the binding table of apsdb.cpp are commented out; so are several answers of the MT
    commands; others are stubs that return 0.  The log macros print.
  \<^item> jansson's parser, printer and own memory; the error texts that a \<^verbatim>\<open>JSON\<close> collects.
\<close>

end
